(* ===== verification/Prelude.thy ===== *)
theory Prelude
  imports Main "HOL-Library.AList" "HOL-Library.Word" "HOL-Library.Char_ord"
    "HOL-Library.List_Lexorder" "HOL-Library.Sublist" "HOL-Library.Multiset"
begin

section \<open>Prelude: shared types, errors and Go maps\<close>

text \<open>
  What every component of the model shares:
  \<^item> the type synonyms for Go's fixed-width integers and for time;
  \<^item> \<open>err\<close>, the errors the program distinguishes with \<open>errors.Is\<close> or propagates
    (their message texts are not modelled), and \<open>res_bind\<close>, Go's
    "if err != nil, return it" as a function on sums;
  \<^item> Go maps: an association list with distinct keys, with \<open>map_get\<close>, \<open>map_put\<close>,
    \<open>map_del\<close>, \<open>map_keys\<close>. The order of the list stands for one of the orders in which a
    Go \<open>range\<close> may visit the keys; every loop over a map in the model takes that order
    as an argument or is proved not to depend on it;
  \<^item> the collections \<open>go_defs\<close> (definitions a component proof unfolds), \<open>go_map\<close> (the
    laws of maps) and \<open>go_eval\<close> (what evaluates the string library on literals).
\<close>

named_theorems go_defs "definitions to unfold in component proofs"
named_theorems go_map "laws of Go maps"
named_theorems go_eval "definitions that evaluate the string library on literals"

subsection \<open>Numbers and time\<close>

type_synonym u64 = "64 word"
type_synonym u32 = "32 word"

text \<open>
  A \<open>time.Time\<close> is a number of nanoseconds since some fixed instant, a \<open>time.Duration\<close> a
  signed 64-bit number of nanoseconds. \<open>Time.Sub\<close> saturates at the two ends of the
  64-bit range, as the standard library documents.
\<close>

type_synonym time = int
type_synonym duration = int

definition min_duration :: duration where
  "min_duration = - (2 ^ 63)"

definition max_duration :: duration where
  "max_duration = 2 ^ 63 - 1"

definition time_sub :: "time \<Rightarrow> time \<Rightarrow> duration" where
  "time_sub t u = max min_duration (min max_duration (t - u))"

definition second :: duration where
  "second = 1000000000"

lemma time_sub_bounds: "min_duration \<le> time_sub t u \<and> time_sub t u \<le> max_duration"
  by (auto simp: time_sub_def min_duration_def max_duration_def)

lemma time_sub_exact:
  "min_duration \<le> t - u \<Longrightarrow> t - u \<le> max_duration \<Longrightarrow> time_sub t u = t - u"
  by (simp add: time_sub_def)

lemma time_sub_ge_iff:
  "min_duration < d \<Longrightarrow> d \<le> max_duration \<Longrightarrow> d \<le> time_sub t u \<longleftrightarrow> d \<le> t - u"
  by (auto simp: time_sub_def)

lemma unat_u64 [simp]: "unat (w :: u64) < 18446744073709551616"
  using unsigned_less [of w, where 'a = nat] by simp

lemma unat_of_nat_u64: "n < 2 ^ 64 \<Longrightarrow> unat (of_nat n :: u64) = n"
  by (simp add: unsigned_of_nat take_bit_nat_eq_self)

lemma unat_minus_u64: "(b :: u64) \<le> a \<Longrightarrow> unat (a - b) = unat a - unat b"
  by (simp add: unat_sub word_le_nat_alt)

subsection \<open>Errors\<close>

text \<open>
  The file-system errors are the ones the code tells apart: \<open>fs.ErrNotExist\<close>,
  \<open>fs.ErrPermission\<close> and everything else. The other constructors are the errors of the
  parsers (\<open>strconv.ErrSyntax\<close>, \<open>strconv.ErrRange\<close>, \<open>bufio.ErrTooLong\<close>) and the sentinels
  and messages the packages declare. Wrapping with \<open>%w\<close> keeps what \<open>errors.Is\<close> sees,
  so a wrapped error is the error itself.
\<close>

datatype fs_err = NotExist | Permission | FsOther

datatype err =
    EFs fs_err
  | ESyntax
  | ERange
  | ETooLong
  | EPSIUnsupported
  | EUnsupportedVersion
  | EReportNotFound
  | EEBPFUnsupported
  | EMsg string

fun res_bind :: "err + 'a \<Rightarrow> ('a \<Rightarrow> err + 'b) \<Rightarrow> err + 'b" where
  "res_bind (Inl e) f = Inl e"
| "res_bind (Inr x) f = f x"

lemma res_bind_Inr_iff [simp]: "res_bind r f = Inr y \<longleftrightarrow> (\<exists>x. r = Inr x \<and> f x = Inr y)"
  by (cases r) auto

lemma res_bind_Inl_iff:
  "res_bind r f = Inl e \<longleftrightarrow> r = Inl e \<or> (\<exists>x. r = Inr x \<and> f x = Inl e)"
  by (cases r) auto

fun is_ok :: "'e + 'a \<Rightarrow> bool" where
  "is_ok (Inl _) = False"
| "is_ok (Inr _) = True"

lemma is_ok_iff: "is_ok r \<longleftrightarrow> (\<exists>x. r = Inr x)"
  by (cases r) auto

subsection \<open>Slices\<close>

text \<open>An index or a bound out of range is a panic, \<open>None\<close>; so is a loop with a panic in its body.\<close>

definition elem_at :: "'a list \<Rightarrow> nat \<Rightarrow> 'a option" where
  "elem_at xs i = (if i < length xs then Some (xs ! i) else None)"

definition set_at :: "'a list \<Rightarrow> nat \<Rightarrow> 'a \<Rightarrow> 'a list option" where
  "set_at xs i x = (if i < length xs then Some (xs[i := x]) else None)"

definition first_n :: "nat \<Rightarrow> 'a list \<Rightarrow> 'a list option" where
  "first_n n xs = (if n \<le> length xs then Some (take n xs) else None)"

fun fold_option :: "('b \<Rightarrow> 'a \<Rightarrow> 'b option) \<Rightarrow> 'b \<Rightarrow> 'a list \<Rightarrow> 'b option" where
  "fold_option f b [] = Some b"
| "fold_option f b (x # xs) = Option.bind (f b x) (\<lambda>b'. fold_option f b' xs)"

lemma fold_option_total:
  assumes "P b" "\<And>b x. P b \<Longrightarrow> x \<in> set xs \<Longrightarrow> f b x = Some (g b x) \<and> P (g b x)"
  shows "fold_option f b xs = Some (foldl g b xs) \<and> P (foldl g b xs)"
  using assms by (induction xs arbitrary: b) auto

lemma those_total: "\<forall>x \<in> set xs. f x = Some (g x) \<Longrightarrow> those (map f xs) = Some (map g xs)"
  by (induction xs) auto

lemma those_elem_at: "\<forall>i \<in> set js. i < length xs \<Longrightarrow> those (map (elem_at xs) js) = Some (map ((!) xs) js)"
  by (rule those_total) (simp add: elem_at_def)

subsection \<open>Go maps\<close>

type_synonym ('k, 'v) gomap = "('k \<times> 'v) list"

definition map_get :: "('k, 'v) gomap \<Rightarrow> 'k \<Rightarrow> 'v option" where
  "map_get m k = map_of m k"

definition map_put :: "'k \<Rightarrow> 'v \<Rightarrow> ('k, 'v) gomap \<Rightarrow> ('k, 'v) gomap" where
  "map_put k v m = AList.update k v m"

definition map_del :: "'k \<Rightarrow> ('k, 'v) gomap \<Rightarrow> ('k, 'v) gomap" where
  "map_del k m = AList.delete k m"

definition map_keys :: "('k, 'v) gomap \<Rightarrow> 'k list" where
  "map_keys m = map fst m"

definition map_wf :: "('k, 'v) gomap \<Rightarrow> bool" where
  "map_wf m \<longleftrightarrow> distinct (map_keys m)"

text \<open>Reading an absent key yields the zero value, here \<open>z\<close>.\<close>

definition map_get_or :: "'v \<Rightarrow> ('k, 'v) gomap \<Rightarrow> 'k \<Rightarrow> 'v" where
  "map_get_or z m k = (case map_get m k of None \<Rightarrow> z | Some v \<Rightarrow> v)"

lemma map_get_Nil [simp, go_map]: "map_get [] k = None"
  by (simp add: map_get_def)

lemma map_wf_Nil [simp, go_map]: "map_wf []"
  by (simp add: map_wf_def map_keys_def)

lemma map_get_put [simp, go_map]: "map_get (map_put k v m) j = (if j = k then Some v else map_get m j)"
  by (simp add: map_get_def map_put_def update_conv)

lemma map_get_del [simp, go_map]: "map_get (map_del k m) j = (if j = k then None else map_get m j)"
  by (simp add: map_get_def map_del_def delete_conv)

lemma map_wf_put [simp, go_map]: "map_wf m \<Longrightarrow> map_wf (map_put k v m)"
  by (simp add: map_wf_def map_put_def map_keys_def distinct_update)

lemma map_wf_del [simp, go_map]: "map_wf m \<Longrightarrow> map_wf (map_del k m)"
  by (simp add: map_wf_def map_del_def map_keys_def distinct_delete)

lemma set_map_keys [go_map]: "set (map_keys m) = dom (map_get m)"
  by (simp add: map_keys_def map_get_def [abs_def] dom_map_of_conv_image_fst)

lemma map_keys_iff: "k \<in> set (map_keys m) \<longleftrightarrow> map_get m k \<noteq> None"
  by (auto simp: set_map_keys)

lemma map_keys_put: "set (map_keys (map_put k v m)) = insert k (set (map_keys m))"
  by (auto simp: map_keys_iff split: if_splits)

lemma map_keys_del: "set (map_keys (map_del k m)) = set (map_keys m) - {k}"
  by (auto simp: map_keys_iff split: if_splits)

lemma length_map_keys: "length (map_keys m) = length m"
  by (simp add: map_keys_def)

lemma map_wf_length: "map_wf m \<Longrightarrow> length m = card (dom (map_get m))"
  by (metis distinct_card length_map_keys map_wf_def set_map_keys)

text \<open>
  A loop that visits keys one after the other and whose body touches only the state of
  the key it visits: what is left at a key depends on whether it was visited, not on when.
\<close>

lemma fold_local_update:
  assumes step: "\<And>k j s. view (f k s) j = (if j = k then g j (view s j) else view s j)"
    and dist: "distinct ks"
  shows "view (fold f ks s) j = (if j \<in> set ks then g j (view s j) else view s j)"
  using dist
proof (induction ks arbitrary: s)
  case Nil
  then show ?case by simp
next
  case (Cons k ks)
  then show ?case by (auto simp: step)
qed

subsection \<open>Lists\<close>

lemma sort_key_unique:
  assumes "mset ys = mset xs" "sorted (map f ys)"
    and inj: "\<And>x y. x \<in> set xs \<Longrightarrow> y \<in> set xs \<Longrightarrow> f x = f y \<Longrightarrow> x = y"
  shows "ys = sort_key f xs"
proof -
  have "inj_on f (set xs)"
    using inj by (auto simp: inj_on_def)
  then have "inj_on f (set (sort_key f xs))"
    by simp
  moreover have "mset (sort_key f xs) = mset ys"
    using assms(1) by simp
  ultimately have "sort_key f (sort_key f xs) = ys"
    using assms(2) by (metis inj properties_for_sort_key sort_key_eq_sort_key
      mset_eq_setD set_sort sorted_sort_key sort_key_const)
  then show ?thesis
    by (metis properties_for_sort_key mset_sort sorted_sort_key)
qed

end
