(* ===== verification/GoStrings.thy ===== *)
theory GoStrings
  imports Prelude
begin

section \<open>Go strings: the parts of strings, strconv and bufio the program uses\<close>

text \<open>
  A Go string is a sequence of bytes, here a \<open>char list\<close>. This theory models the
  standard-library functions the parsers call, and proves the laws the component theories
  rely on: splitting and joining are inverse, the scanner cuts a body at its newlines, and
  the 64-bit accumulator loop of \<open>strconv.ParseUint\<close> computes the decimal value or reports
  an error, never a wrapped number.
\<close>

subsection \<open>Prefixes, suffixes, cutting\<close>

definition cut_prefix :: "string \<Rightarrow> string \<Rightarrow> string option" where
  "cut_prefix p s = (if prefix p s then Some (drop (length p) s) else None)"

definition cut_suffix :: "string \<Rightarrow> string \<Rightarrow> string option" where
  "cut_suffix p s = (if suffix p s then Some (take (length s - length p) s) else None)"

definition trim_prefix :: "string \<Rightarrow> string \<Rightarrow> string" where
  "trim_prefix p s = (case cut_prefix p s of Some r \<Rightarrow> r | None \<Rightarrow> s)"

definition trim_suffix :: "string \<Rightarrow> string \<Rightarrow> string" where
  "trim_suffix p s = (case cut_suffix p s of Some r \<Rightarrow> r | None \<Rightarrow> s)"

declare cut_prefix_def [go_eval] cut_suffix_def [go_eval] trim_prefix_def [go_eval]
  trim_suffix_def [go_eval] suffix_to_prefix [go_eval] Let_def [go_eval]

text \<open>\<open>strings.Cut\<close>: around the first occurrence of the separator, \<open>None\<close> for not found.\<close>

fun cut :: "string \<Rightarrow> string \<Rightarrow> (string \<times> string) option" where
  "cut sep [] = (if sep = [] then Some ([], []) else None)"
| "cut sep (c # s) =
     (if prefix sep (c # s) then Some ([], drop (length sep) (c # s))
      else map_option (\<lambda>(a, b). (c # a, b)) (cut sep s))"

text \<open>The first result of \<open>strings.Cut\<close>: what comes before the separator, or everything.\<close>

definition cut_before :: "string \<Rightarrow> string \<Rightarrow> string" where
  "cut_before sep s = (case cut sep s of Some (a, b) \<Rightarrow> a | None \<Rightarrow> s)"

definition contains :: "string \<Rightarrow> string \<Rightarrow> bool" where
  "contains s sub \<longleftrightarrow> cut sub s \<noteq> None"

declare contains_def [go_eval] cut_before_def [go_eval]

text \<open>\<open>strings.LastIndex\<close> of a nonempty text.\<close>

fun last_index :: "string \<Rightarrow> string \<Rightarrow> nat option" where
  "last_index [] sub = (if sub = [] then Some 0 else None)"
| "last_index (c # s) sub =
     (case last_index s sub of
        Some i \<Rightarrow> Some (Suc i)
      | None \<Rightarrow> if prefix sub (c # s) then Some 0 else None)"

text \<open>\<open>strings.IndexByte\<close>.\<close>

fun index_byte :: "string \<Rightarrow> char \<Rightarrow> nat option" where
  "index_byte [] c = None"
| "index_byte (x # s) c = (if x = c then Some 0 else map_option Suc (index_byte s c))"

lemma cut_prefix_append [simp]: "cut_prefix p (p @ s) = Some s"
  by (simp add: cut_prefix_def)

lemma cut_prefix_eq_Some: "cut_prefix p s = Some r \<longleftrightarrow> s = p @ r"
  by (auto simp: cut_prefix_def prefix_def)

lemma cut_suffix_append [simp]: "cut_suffix p (s @ p) = Some s"
  by (simp add: cut_suffix_def suffix_def)

lemma cut_suffix_eq_Some: "cut_suffix p s = Some r \<longleftrightarrow> s = r @ p"
  by (auto simp: cut_suffix_def suffix_def)

lemma cut_SomeD: "cut sep s = Some (a, b) \<Longrightarrow> s = a @ sep @ b"
  by (induction s arbitrary: a) (auto split: if_splits simp: prefix_def)

lemma cut_singleton: "c \<notin> set a \<Longrightarrow> cut [c] (a @ c # b) = Some (a, b)"
  by (induction a) auto

lemma cut_singleton_None [simp]: "cut [c] s = None \<longleftrightarrow> c \<notin> set s"
  by (induction s) auto

lemma cut_before_singleton: "c \<notin> set a \<Longrightarrow> cut_before [c] (a @ c # b) = a"
  by (simp add: cut_before_def cut_singleton)

lemma cut_before_id [simp]: "c \<notin> set s \<Longrightarrow> cut_before [c] s = s"
  by (simp add: cut_before_def cut_singleton_None [THEN iffD2])

lemma cut_None_iff: "cut sep s = None \<longleftrightarrow> \<not> sublist sep s"
  by (induction s) (auto simp: sublist_Cons_right)

lemma contains_iff_sublist: "contains s sub \<longleftrightarrow> sublist sub s"
  by (simp add: contains_def cut_None_iff)

lemma containsI [intro]: "contains (a @ sub @ b) sub"
  by (simp add: contains_iff_sublist sublist_appendI)

lemma last_index_None_iff: "last_index s sub = None \<longleftrightarrow> \<not> sublist sub s"
  by (induction s) (auto simp: sublist_Cons_right split: option.splits)

lemma last_index_SomeD:
  "last_index s sub = Some i \<Longrightarrow> sub \<noteq> [] \<Longrightarrow>
     prefix sub (drop i s) \<and> \<not> sublist sub (drop (Suc i) s) \<and> i \<le> length s"
  by (induction s arbitrary: i)
    (auto split: option.splits if_splits simp: last_index_None_iff)

text \<open>
  The last occurrence is where nothing after its first byte contains the text again: this
  is how an anchored search is computed on a built-up name.
\<close>

lemma last_index_append:
  assumes "\<not> sublist sub (tl sub @ b)" "sub \<noteq> []"
  shows "last_index (a @ sub @ b) sub = Some (length a)"
proof (induction a)
  case Nil
  obtain x sub' where "sub = x # sub'"
    using assms(2) by (cases sub) auto
  then show ?case
    using assms(1) by (auto simp: last_index_None_iff split: option.splits)
next
  case (Cons y a)
  then show ?case by simp
qed

subsection \<open>Splitting and joining\<close>

text \<open>\<open>strings.Split\<close> with a one-byte separator, and \<open>strings.Join\<close>.\<close>

fun split_on :: "char \<Rightarrow> string \<Rightarrow> string list" where
  "split_on c [] = [[]]"
| "split_on c (x # xs) =
     (if x = c then [] # split_on c xs
      else (case split_on c xs of [] \<Rightarrow> [[x]] | p # ps \<Rightarrow> (x # p) # ps))"

fun join :: "string \<Rightarrow> string list \<Rightarrow> string" where
  "join sep [] = []"
| "join sep [x] = x"
| "join sep (x # y # ys) = x @ sep @ join sep (y # ys)"

lemma split_on_nonempty [simp]: "split_on c s \<noteq> []"
  by (induction s) (auto split: list.splits)

lemma split_on_no_sep [simp]: "c \<notin> set s \<Longrightarrow> split_on c s = [s]"
  by (induction s) auto

lemma split_on_append [simp]: "split_on c (a @ c # b) = split_on c a @ split_on c b"
  by (induction a) (auto split: list.splits)

lemma split_on_sep_free: "p \<in> set (split_on c s) \<Longrightarrow> c \<notin> set p"
  by (induction s arbitrary: p) (auto split: list.splits if_splits)

lemma set_split_on: "p \<in> set (split_on c s) \<Longrightarrow> set p \<subseteq> set s"
proof (induction s arbitrary: p)
  case (Cons x s)
  then show ?case
    by (cases "split_on c s") (auto split: if_splits; blast)+
qed simp

lemma join_Cons: "xs \<noteq> [] \<Longrightarrow> join sep (x # xs) = x @ sep @ join sep xs"
  by (cases xs) auto

lemma join_append: "xs \<noteq> [] \<Longrightarrow> ys \<noteq> [] \<Longrightarrow> join sep (xs @ ys) = join sep xs @ sep @ join sep ys"
  by (induction xs rule: induct_list012) (auto simp: join_Cons)

lemma join_split_on: "join [c] (split_on c s) = s"
proof (induction s)
  case (Cons x s)
  then show ?case
    by (cases "split_on c s"; cases "tl (split_on c s)") (auto simp: join_Cons)
qed simp

lemma split_on_join:
  "xs \<noteq> [] \<Longrightarrow> \<forall>x \<in> set xs. c \<notin> set x \<Longrightarrow> split_on c (join [c] xs) = xs"
  by (induction xs rule: induct_list012) auto

lemma length_split_on: "length (split_on c s) = Suc (count_list s c)"
  by (induction s) (auto split: list.splits)

text \<open>\<open>strings.SplitN(s, sep, 3)\<close> with a one-byte separator.\<close>

definition split_n3 :: "char \<Rightarrow> string \<Rightarrow> string list" where
  "split_n3 c s =
     (case cut [c] s of
        None \<Rightarrow> [s]
      | Some (a, r) \<Rightarrow> (case cut [c] r of None \<Rightarrow> [a, r] | Some (b, d) \<Rightarrow> [a, b, d]))"

text \<open>\<open>strings.ReplaceAll\<close> of one byte by another.\<close>

definition replace_byte :: "char \<Rightarrow> char \<Rightarrow> string \<Rightarrow> string" where
  "replace_byte a b s = map (\<lambda>x. if x = a then b else x) s"

declare replace_byte_def [go_eval] split_n3_def [go_eval]

lemma replace_byte_inverse:
  "b \<notin> set s \<Longrightarrow> replace_byte b a (replace_byte a b s) = s"
  by (induction s) (auto simp: replace_byte_def)

lemma replace_byte_id [simp]: "a \<notin> set s \<Longrightarrow> replace_byte a b s = s"
  by (induction s) (auto simp: replace_byte_def)

lemma replace_byte_append [simp]: "replace_byte a b (s @ t) = replace_byte a b s @ replace_byte a b t"
  by (simp add: replace_byte_def)

text \<open>
  \<open>strings.ToLower\<close>, as far as a comparison with an ASCII word can see it. Of the code
  points outside ASCII only U+0130 and U+212A have an ASCII lower case (\<open>i\<close> and \<open>k\<close>); every
  other one maps outside ASCII, and is left as it is here.
\<close>

definition lower_byte :: "char \<Rightarrow> char" where
  "lower_byte c = (let n = (of_char c :: nat) in if 65 \<le> n \<and> n \<le> 90 then char_of (n + 32) else c)"

declare lower_byte_def [go_eval]

fun to_lower :: "string \<Rightarrow> string" where
  "to_lower [] = []"
| "to_lower (c # s) =
     (if prefix [CHR 0xC4, CHR 0xB0] (c # s) then CHR ''i'' # to_lower (drop 1 s)
      else if prefix [CHR 0xE2, CHR 0x84, CHR 0xAA] (c # s) then CHR ''k'' # to_lower (drop 2 s)
      else lower_byte c # to_lower s)"

subsection \<open>White space\<close>

text \<open>
  \<open>unicode.IsSpace\<close> as the UTF-8 encodings of the white-space code points. No encoding is
  a prefix of another and none starts with a continuation byte, so stepping over a string
  byte by byte finds the same spaces as decoding it rune by rune.
\<close>

definition space_runes :: "string list" where
  "space_runes =
    [[CHR 0x09], [CHR 0x0A], [CHR 0x0B], [CHR 0x0C], [CHR 0x0D], [CHR 0x20],
     [CHR 0xC2, CHR 0x85], [CHR 0xC2, CHR 0xA0], [CHR 0xE1, CHR 0x9A, CHR 0x80],
     [CHR 0xE2, CHR 0x80, CHR 0x80], [CHR 0xE2, CHR 0x80, CHR 0x81], [CHR 0xE2, CHR 0x80, CHR 0x82],
     [CHR 0xE2, CHR 0x80, CHR 0x83], [CHR 0xE2, CHR 0x80, CHR 0x84], [CHR 0xE2, CHR 0x80, CHR 0x85],
     [CHR 0xE2, CHR 0x80, CHR 0x86], [CHR 0xE2, CHR 0x80, CHR 0x87], [CHR 0xE2, CHR 0x80, CHR 0x88],
     [CHR 0xE2, CHR 0x80, CHR 0x89], [CHR 0xE2, CHR 0x80, CHR 0x8A], [CHR 0xE2, CHR 0x80, CHR 0xA8],
     [CHR 0xE2, CHR 0x80, CHR 0xA9], [CHR 0xE2, CHR 0x80, CHR 0xAF], [CHR 0xE2, CHR 0x81, CHR 0x9F],
     [CHR 0xE3, CHR 0x80, CHR 0x80]]"

text \<open>How many bytes of \<open>s\<close> the first of the words \<open>ws\<close> that starts it takes.\<close>

fun lead :: "string list \<Rightarrow> string \<Rightarrow> nat" where
  "lead [] s = 0"
| "lead (w # ws) s = (if prefix w s then length w else lead ws s)"

lemma lead_le: "lead ws s \<le> length s"
  by (induction ws) (auto simp: prefix_length_le)

lemma lead_Nil [simp]: "lead ws [] = 0"
  by (induction ws) (auto simp: prefix_Nil)

text \<open>Strip any of the words, as often as they occur, from the front.\<close>

function strip :: "string list \<Rightarrow> string \<Rightarrow> string" where
  "strip ws s = (if lead ws s = 0 then s else strip ws (drop (lead ws s) s))"
  by pat_completeness auto
termination
proof (relation "measure (\<lambda>(ws, s). length s)", goal_cases)
  case (2 ws s)
  then show ?case using lead_le [of ws s] by (cases s) auto
qed simp

declare strip.simps [simp del]

definition trim_space :: "string \<Rightarrow> string" where
  "trim_space s = rev (strip (map rev space_runes) (rev (strip space_runes s)))"

text \<open>\<open>strings.Fields\<close>; \<open>cur\<close> is the field being read, reversed.\<close>

function fields_from :: "string \<Rightarrow> string \<Rightarrow> string list" where
  "fields_from cur s =
     (if s = [] then (if cur = [] then [] else [rev cur])
      else let n = lead space_runes s in
        if n = 0 then fields_from (hd s # cur) (tl s)
        else (if cur = [] then [] else [rev cur]) @ fields_from [] (drop n s))"
  by pat_completeness auto
termination
proof (relation "measure (\<lambda>(cur, s). length s)", goal_cases)
  case (3 cur s x)
  then show ?case using lead_le [of space_runes s] by (cases s) auto
qed auto

declare fields_from.simps [simp del]

definition str_fields :: "string \<Rightarrow> string list" where
  "str_fields s = fields_from [] s"

text \<open>
  Printable ASCII words contain no space: no byte of theirs starts one, and none ends one.
\<close>

definition graphic :: "string \<Rightarrow> bool" where
  "graphic s \<longleftrightarrow> (\<forall>c \<in> set s. 32 < (of_char c :: nat) \<and> (of_char c :: nat) < 127)"

lemma graphic_Nil [simp]: "graphic []"
  by (simp add: graphic_def)

lemma graphic_Cons [simp]:
  "graphic (c # s) \<longleftrightarrow> 32 < (of_char c :: nat) \<and> (of_char c :: nat) < 127 \<and> graphic s"
  by (auto simp: graphic_def)

lemma graphic_append [simp]: "graphic (s @ t) \<longleftrightarrow> graphic s \<and> graphic t"
  by (auto simp: graphic_def)

lemma graphic_rev [simp]: "graphic (rev s) \<longleftrightarrow> graphic s"
  by (auto simp: graphic_def)

lemma lead_other_head:
  "list_all (\<lambda>w. w \<noteq> [] \<and> \<not> P (hd w)) ws \<Longrightarrow> P c \<Longrightarrow> lead ws (c # s) = 0"
proof (induction ws)
  case (Cons w ws)
  then show ?case by (cases w) auto
qed simp

lemma space_runes_heads:
  "list_all (\<lambda>w. w \<noteq> [] \<and> \<not> (32 < (of_char (hd w) :: nat) \<and> (of_char (hd w) :: nat) < 127)) space_runes"
  "list_all (\<lambda>w. w \<noteq> [] \<and> \<not> (32 < (of_char (hd w) :: nat) \<and> (of_char (hd w) :: nat) < 127))
     (map rev space_runes)"
  by (simp_all add: space_runes_def)

lemma lead_graphic [simp]:
  "32 < (of_char c :: nat) \<Longrightarrow> (of_char c :: nat) < 127 \<Longrightarrow> lead space_runes (c # s) = 0"
  by (rule lead_other_head [OF space_runes_heads(1)]) simp

lemma lead_rev_graphic [simp]:
  "32 < (of_char c :: nat) \<Longrightarrow> (of_char c :: nat) < 127 \<Longrightarrow>
     lead (map rev space_runes) (c # s) = 0"
  by (rule lead_other_head [OF space_runes_heads(2)]) simp

lemma strip_graphic: "graphic s \<Longrightarrow> strip space_runes s = s"
  by (cases s) (simp_all add: strip.simps)

lemma strip_rev_graphic: "graphic s \<Longrightarrow> strip (map rev space_runes) s = s"
  by (cases s) (simp_all add: strip.simps)

lemma trim_space_graphic [simp]: "graphic s \<Longrightarrow> trim_space s = s"
  by (simp add: trim_space_def strip_graphic strip_rev_graphic)

text \<open>A kernel value with its trailing newline, and values padded by single blanks.\<close>

lemma lead_rev_newline: "lead (map rev space_runes) (CHR 0x0A # s) = 1"
  by (simp add: space_runes_def)

text \<open>Blanks and tabs in front of a value, as in \<open>/proc/<pid>/status\<close>, are dropped.\<close>

lemma strip_pad [simp]:
  "strip space_runes (CHR '' '' # s) = strip space_runes s"
  "strip space_runes (CHR 0x09 # s) = strip space_runes s"
  by (simp_all add: strip.simps [of _ "_ # _"] space_runes_def)

lemma trim_space_pad [simp]:
  "trim_space (CHR '' '' # s) = trim_space s" "trim_space (CHR 0x09 # s) = trim_space s"
  by (simp_all add: trim_space_def)

lemma trim_space_text:
  assumes "s \<noteq> []" "graphic [hd s]" "graphic [last s]"
  shows "trim_space s = s"
proof -
  obtain c t where c: "s = c # t" using assms(1) by (cases s) auto
  obtain d u where d: "rev s = d # u" using assms(1) by (cases "rev s") auto
  then have "last s = d" by (metis hd_rev list.sel(1))
  then have "strip space_runes s = s" "strip (map rev space_runes) (rev s) = rev s"
    using assms(2,3) c d by (simp_all add: strip.simps)
  then show ?thesis by (simp add: trim_space_def)
qed

lemma trim_space_newline:
  assumes "graphic s" "s \<noteq> []"
  shows "trim_space (s @ [CHR 0x0A]) = s"
proof -
  from assms obtain c t where c: "s = c # t"
    by (cases s) auto
  have a: "strip space_runes (s @ [CHR 0x0A]) = s @ [CHR 0x0A]"
    using assms c by (simp add: strip.simps)
  have "strip (map rev space_runes) (rev (s @ [CHR 0x0A])) = strip (map rev space_runes) (rev s)"
    by (simp add: strip.simps [of _ "_ # _"] lead_rev_newline)
  then have b: "strip (map rev space_runes) (rev (s @ [CHR 0x0A])) = rev s"
    using assms by (simp add: strip_rev_graphic)
  show ?thesis
    unfolding trim_space_def a b by simp
qed

lemma fields_from_graphic:
  "graphic w \<Longrightarrow> fields_from cur (w @ s) = fields_from (rev w @ cur) s"
proof (induction w arbitrary: cur)
  case (Cons c w)
  then show ?case
    by (simp add: fields_from.simps [of cur "c # w @ s"])
qed simp

text \<open>A byte that is a white-space code point by itself.\<close>

definition blank_byte :: "char \<Rightarrow> bool" where
  "blank_byte c \<longleftrightarrow>
     c = CHR 0x09 \<or> c = CHR 0x0A \<or> c = CHR 0x0B \<or> c = CHR 0x0C \<or> c = CHR 0x0D \<or> c = CHR 0x20"

lemma blank_byte_fixed [simp]: "blank_byte (CHR '' '')" "blank_byte (CHR 0x09)" "blank_byte (CHR 0x0A)"
  by (simp_all add: blank_byte_def)

lemma lead_blank_byte: "blank_byte c \<Longrightarrow> lead space_runes (c # s) = 1"
  unfolding blank_byte_def by (elim disjE; simp only: space_runes_def; simp)

lemma fields_from_blank:
  "blank_byte c \<Longrightarrow>
     fields_from cur (c # s) = (if cur = [] then [] else [rev cur]) @ fields_from [] s"
  by (simp add: fields_from.simps [of _ "_ # _"] lead_blank_byte)

lemma fields_from_Nil [simp]: "fields_from cur [] = (if cur = [] then [] else [rev cur])"
  by (simp add: fields_from.simps)

text \<open>Reading back words written with single white-space bytes between them.\<close>

lemma fields_join:
  "blank_byte c \<Longrightarrow> \<forall>w \<in> set ws. graphic w \<and> w \<noteq> [] \<Longrightarrow> str_fields (join [c] ws) = ws"
  unfolding str_fields_def
proof (induction ws rule: induct_list012)
  case (2 w)
  then show ?case using fields_from_graphic [of w "[]" "[]"] by simp
next
  case (3 w v ws)
  then show ?case
    by (simp add: fields_from_graphic fields_from_blank)
qed simp

subsection \<open>Scanning lines\<close>

text \<open>
  \<open>bufio.Scanner\<close> with its default split function: lines end at a newline, one carriage
  return before it is dropped, the text after the last newline is a line if it is not
  empty, and a line of 65536 bytes or more stops the scan with \<open>bufio.ErrTooLong\<close>. The
  result is the lines handed out and whether the scan ended with that error.
\<close>

definition max_token :: nat where
  "max_token = 65536"

definition raw_lines :: "string \<Rightarrow> string list" where
  "raw_lines s = (let ps = split_on (CHR 0x0A) s in if last ps = [] then butlast ps else ps)"

definition drop_cr :: "string \<Rightarrow> string" where
  "drop_cr l = trim_suffix [CHR 0x0D] l"

definition scan_lines :: "string \<Rightarrow> string list \<times> bool" where
  "scan_lines s =
     (let ls = raw_lines s; ok = takeWhile (\<lambda>l. length l < max_token) ls
      in (map drop_cr ok, length ok < length ls))"

definition unlines :: "string list \<Rightarrow> string" where
  "unlines ls = concat (map (\<lambda>l. l @ [CHR 0x0A]) ls)"

lemma unlines_Nil [simp]: "unlines [] = []"
  and unlines_Cons [simp]: "unlines (l # ls) = l @ CHR 0x0A # unlines ls"
  and unlines_append [simp]: "unlines (ls @ ms) = unlines ls @ unlines ms"
  by (simp_all add: unlines_def)

lemma raw_lines_Nil [simp]: "raw_lines [] = []"
  by (simp add: raw_lines_def)

lemma raw_lines_append [simp]: "raw_lines (a @ CHR 0x0A # b) = split_on (CHR 0x0A) a @ raw_lines b"
  by (auto simp: raw_lines_def Let_def last_append butlast_append)

lemma raw_lines_unlines:
  "\<forall>l \<in> set ls. CHR 0x0A \<notin> set l \<Longrightarrow> raw_lines (unlines ls) = ls"
  by (induction ls) auto

lemma drop_cr_id: "CHR 0x0D \<notin> set l \<Longrightarrow> drop_cr l = l"
  by (auto simp: drop_cr_def trim_suffix_def cut_suffix_def suffix_def split: option.splits)

lemma drop_cr_graphic [simp]: "graphic l \<Longrightarrow> drop_cr l = l"
  by (rule drop_cr_id) (auto simp: graphic_def)

definition short_line :: "string \<Rightarrow> bool" where
  "short_line l \<longleftrightarrow> CHR 0x0A \<notin> set l \<and> CHR 0x0D \<notin> set l \<and> length l < max_token"

lemma scan_lines_unlines:
  assumes "\<forall>l \<in> set ls. short_line l"
  shows "scan_lines (unlines ls) = (ls, False)"
proof -
  have r: "raw_lines (unlines ls) = ls"
    using assms by (intro raw_lines_unlines) (auto simp: short_line_def)
  have t: "takeWhile (\<lambda>l. length l < max_token) ls = ls"
    using assms by (auto simp: takeWhile_eq_all_conv short_line_def)
  have "map drop_cr ls = ls"
    using assms by (intro map_idI) (auto simp: short_line_def drop_cr_id)
  then show ?thesis
    by (simp add: scan_lines_def r t)
qed

end
