(* ===== verification/GoStrconv.thy ===== *)
theory GoStrconv
  imports GoStrings
begin

section \<open>strconv: decimal numbers at machine width\<close>

text \<open>
  \<open>strconv.ParseUint(s, 10, 64)\<close> as the library's loop over a wrapping 64-bit accumulator,
  \<open>strconv.Atoi\<close> on top of it, and the decimal writer. The main fact is
  \<open>parse_uint_spec\<close>: the loop accepts exactly the nonempty digit strings whose value fits
  64 bits and returns that value, so no wrapped number ever leaves it.
\<close>

definition digit_val :: "char \<Rightarrow> nat option" where
  "digit_val c = (let n = (of_char c :: nat) in if 48 \<le> n \<and> n \<le> 57 then Some (n - 48) else None)"

text \<open>A hexadecimal digit, as the decoders of escapes read it.\<close>

definition hex_val :: "char \<Rightarrow> nat option" where
  "hex_val c =
     (let n = of_char c :: nat in
      if 48 \<le> n \<and> n \<le> 57 then Some (n - 48)
      else if 97 \<le> n \<and> n \<le> 102 then Some (n - 87)
      else if 65 \<le> n \<and> n \<le> 70 then Some (n - 55)
      else None)"

text \<open>\<open>cutoff\<close> is the smallest number that overflows when multiplied by ten.\<close>

definition uint_cutoff :: u64 where
  "uint_cutoff = 1844674407370955162"

fun parse_uint_loop :: "u64 \<Rightarrow> string \<Rightarrow> err + u64" where
  "parse_uint_loop n [] = Inr n"
| "parse_uint_loop n (c # cs) =
     (case digit_val c of
        None \<Rightarrow> Inl ESyntax
      | Some d \<Rightarrow>
          if uint_cutoff \<le> n then Inl ERange
          else let n10 = n * 10; n1 = n10 + of_nat d in
            if n1 < n10 then Inl ERange else parse_uint_loop n1 cs)"

definition parse_uint :: "string \<Rightarrow> err + u64" where
  "parse_uint s = (if s = [] then Inl ESyntax else parse_uint_loop 0 s)"

text \<open>
  \<open>strconv.Atoi\<close>: an optional sign, then an unsigned number, within the 64-bit signed range.
\<close>

definition atoi :: "string \<Rightarrow> err + int" where
  "atoi s =
     (let neg = (case s of c # _ \<Rightarrow> c = CHR ''-'' | [] \<Rightarrow> False);
          digits = (case s of c # cs \<Rightarrow> if c = CHR ''+'' \<or> c = CHR ''-'' then cs else s | [] \<Rightarrow> [])
      in case parse_uint digits of
           Inl e \<Rightarrow> Inl e
         | Inr u \<Rightarrow>
             if \<not> neg \<and> 2 ^ 63 \<le> unat u then Inl ERange
             else if neg \<and> 2 ^ 63 < unat u then Inl ERange
             else Inr (if neg then - int (unat u) else int (unat u)))"

definition digit_char :: "nat \<Rightarrow> char" where
  "digit_char d = char_of (48 + d)"

fun show_nat :: "nat \<Rightarrow> string" where
  "show_nat n = (if n < 10 then [digit_char n] else show_nat (n div 10) @ [digit_char (n mod 10)])"

declare show_nat.simps [simp del]

lemma digit_char_eval [go_eval]:
  "digit_char 0 = CHR ''0''" "digit_char (Suc 0) = CHR ''1''" "digit_char 1 = CHR ''1''"
  "digit_char 2 = CHR ''2''" "digit_char 3 = CHR ''3''" "digit_char 4 = CHR ''4''"
  "digit_char 5 = CHR ''5''" "digit_char 6 = CHR ''6''" "digit_char 7 = CHR ''7''"
  "digit_char 8 = CHR ''8''" "digit_char 9 = CHR ''9''"
  by (simp_all add: digit_char_def char_of_def bit_0)

text \<open>\<open>strconv.Itoa\<close> and \<open>strconv.FormatUint\<close>.\<close>

definition itoa :: "int \<Rightarrow> string" where
  "itoa i = (if i < 0 then CHR ''-'' # show_nat (nat (- i)) else show_nat (nat i))"

subsection \<open>The value of a digit string\<close>

definition is_digits :: "string \<Rightarrow> bool" where
  "is_digits s \<longleftrightarrow> (\<forall>c \<in> set s. digit_val c \<noteq> None)"

definition dec_from :: "nat \<Rightarrow> string \<Rightarrow> nat" where
  "dec_from n s = foldl (\<lambda>a c. 10 * a + the (digit_val c)) n s"

definition dec_value :: "string \<Rightarrow> nat" where
  "dec_value s = dec_from 0 s"

lemma is_digits_simps [simp]:
  "is_digits []"
  "is_digits (c # s) \<longleftrightarrow> digit_val c \<noteq> None \<and> is_digits s"
  "is_digits (s @ t) \<longleftrightarrow> is_digits s \<and> is_digits t"
  by (auto simp: is_digits_def)

lemma dec_from_simps [simp]:
  "dec_from n [] = n"
  "dec_from n (c # s) = dec_from (10 * n + the (digit_val c)) s"
  "dec_from n (s @ t) = dec_from (dec_from n s) t"
  by (simp_all add: dec_from_def)

lemma dec_from_ge: "n \<le> dec_from n s"
proof (induction s arbitrary: n)
  case (Cons c s)
  have "n \<le> 10 * n + the (digit_val c)" by simp
  also have "\<dots> \<le> dec_from (10 * n + the (digit_val c)) s" by (rule Cons.IH)
  finally show ?case by simp
qed simp

lemma digit_val_less: "digit_val c = Some d \<Longrightarrow> d < 10"
  by (auto simp: digit_val_def Let_def split: if_splits)

lemma digit_val_digit_char [simp]: "d < 10 \<Longrightarrow> digit_val (digit_char d) = Some d"
  by (simp add: digit_val_def digit_char_def)

lemma digit_val_bytes: "digit_val c \<noteq> None \<longleftrightarrow> 48 \<le> (of_char c :: nat) \<and> (of_char c :: nat) \<le> 57"
  by (simp add: digit_val_def Let_def)

lemma is_digits_graphic: "is_digits s \<Longrightarrow> graphic s"
  by (induction s) (auto simp: digit_val_def Let_def split: if_splits)

lemma is_digits_not_mem: "is_digits s \<Longrightarrow> digit_val c = None \<Longrightarrow> c \<notin> set s"
  by (auto simp: is_digits_def)

subsection \<open>The loop computes that value\<close>

lemma uint_step:
  fixes n :: u64
  assumes "d < 10"
  shows "uint_cutoff \<le> n \<Longrightarrow> 2 ^ 64 \<le> 10 * unat n + d"
    and "\<not> uint_cutoff \<le> n \<Longrightarrow> n * 10 + of_nat d < n * 10 \<Longrightarrow> 2 ^ 64 \<le> 10 * unat n + d"
    and "\<not> uint_cutoff \<le> n \<Longrightarrow> \<not> n * 10 + of_nat d < n * 10 \<Longrightarrow>
           unat (n * 10 + of_nat d) = 10 * unat n + d"
proof -
  have c: "unat uint_cutoff = 1844674407370955162"
    by (simp add: uint_cutoff_def)
  show "uint_cutoff \<le> n \<Longrightarrow> 2 ^ 64 \<le> 10 * unat n + d"
    using c by (simp add: word_le_nat_alt)
  assume small: "\<not> uint_cutoff \<le> n"
  then have b: "10 * unat n < 2 ^ 64"
    using c by (simp add: word_le_nat_alt)
  have m: "unat (n * 10) = 10 * unat n"
    using b by (simp add: unat_word_ariths(2) mult.commute)
  have u: "unat (of_nat d :: u64) = d"
    using assms by (simp add: unat_of_nat_u64)
  have s: "unat (n * 10 + of_nat d) = (10 * unat n + d) mod 2 ^ 64"
    by (simp add: unat_word_ariths(1) m u)
  show "n * 10 + of_nat d < n * 10 \<Longrightarrow> 2 ^ 64 \<le> 10 * unat n + d"
    using m s by (cases "10 * unat n + d < 2 ^ 64") (simp_all add: word_less_nat_alt)
  show "\<not> n * 10 + of_nat d < n * 10 \<Longrightarrow> unat (n * 10 + of_nat d) = 10 * unat n + d"
  proof -
    assume nw: "\<not> n * 10 + of_nat d < n * 10"
    have "10 * unat n + d < 2 ^ 64"
    proof (rule ccontr)
      assume big: "\<not> 10 * unat n + d < 2 ^ 64"
      moreover have "10 * unat n + d < 2 ^ 64 + d" using b by simp
      ultimately have "(10 * unat n + d) mod 2 ^ 64 = 10 * unat n + d - 2 ^ 64"
        using assms by (simp add: mod_if)
      then show False using nw m s b assms big by (simp add: word_less_nat_alt)
    qed
    then show ?thesis using s by simp
  qed
qed

lemma parse_uint_loop_spec:
  "parse_uint_loop n s = Inr w \<longleftrightarrow> is_digits s \<and> dec_from (unat n) s < 2 ^ 64 \<and> unat w = dec_from (unat n) s"
proof (induction s arbitrary: n)
  case Nil
  then show ?case
    using unat_u64 [of n] by (auto simp: word_unat_eq_iff)
next
  case (Cons c s)
  show ?case
  proof (cases "digit_val c")
    case None
    then show ?thesis by simp
  next
    case (Some d)
    note d = digit_val_less [OF Some]
    have over: "2 ^ 64 \<le> 10 * unat n + d \<Longrightarrow> \<not> dec_from (10 * unat n + d) s < 2 ^ 64"
      using dec_from_ge [of "10 * unat n + d" s] by linarith
    consider "uint_cutoff \<le> n" | "\<not> uint_cutoff \<le> n" "n * 10 + of_nat d < n * 10"
      | "\<not> uint_cutoff \<le> n" "\<not> n * 10 + of_nat d < n * 10"
      by blast
    then show ?thesis
    proof cases
      case 1
      then show ?thesis using Some over uint_step(1) [OF d] by (simp add: Let_def)
    next
      case 2
      then show ?thesis using Some over uint_step(2) [OF d] by (simp add: Let_def)
    next
      case 3
      then show ?thesis using Some Cons.IH uint_step(3) [OF d] by (simp add: Let_def)
    qed
  qed
qed

lemma parse_uint_spec:
  "parse_uint s = Inr w \<longleftrightarrow>
     s \<noteq> [] \<and> is_digits s \<and> dec_value s < 2 ^ 64 \<and> unat w = dec_value s"
  by (auto simp: parse_uint_def parse_uint_loop_spec dec_value_def)

lemma parse_uint_InrI:
  "s \<noteq> [] \<Longrightarrow> is_digits s \<Longrightarrow> dec_value s < 2 ^ 64 \<Longrightarrow> parse_uint s = Inr (of_nat (dec_value s))"
  by (simp add: parse_uint_spec unat_of_nat_u64)

subsection \<open>Writing and reading back\<close>

lemma show_nat_digits: "is_digits (show_nat n)"
proof (induction n rule: show_nat.induct)
  case (1 n)
  then show ?case by (subst show_nat.simps) simp
qed

lemma show_nat_nonempty [simp]: "show_nat n \<noteq> []"
  by (subst show_nat.simps) simp

lemma dec_value_show_nat [simp]: "dec_value (show_nat n) = n"
proof (induction n rule: show_nat.induct)
  case (1 n)
  then show ?case
    by (subst show_nat.simps) (simp add: dec_value_def)
qed

lemma show_nat_inj: "show_nat m = show_nat n \<longleftrightarrow> m = n"
  by (metis dec_value_show_nat)

lemma parse_uint_show_nat: "n < 2 ^ 64 \<Longrightarrow> parse_uint (show_nat n) = Inr (of_nat n)"
  using parse_uint_InrI [of "show_nat n"] by (simp add: show_nat_digits)

lemma parse_uint_show_unat [simp]: "parse_uint (show_nat (unat (w :: u64))) = Inr w"
  using unat_u64 [of w] by (simp add: parse_uint_show_nat)

lemma graphic_show_nat [simp]: "graphic (show_nat n)"
  by (rule is_digits_graphic [OF show_nat_digits])

lemma digit_not_sign: "digit_val c \<noteq> None \<Longrightarrow> c \<noteq> CHR ''-'' \<and> c \<noteq> CHR ''+''"
proof -
  have "digit_val (CHR ''-'') = None" "digit_val (CHR ''+'') = None"
    by (simp_all add: digit_val_def)
  then show "digit_val c \<noteq> None \<Longrightarrow> c \<noteq> CHR ''-'' \<and> c \<noteq> CHR ''+''"
    by metis
qed

lemma atoi_show_nat: "n < 2 ^ 63 \<Longrightarrow> atoi (show_nat n) = Inr (int n)"
proof -
  assume n: "n < 2 ^ 63"
  obtain c cs where s: "show_nat n = c # cs"
    by (cases "show_nat n") auto
  have "digit_val c \<noteq> None"
    using show_nat_digits [of n] s by simp
  then have "c \<noteq> CHR ''-''" "c \<noteq> CHR ''+''"
    using digit_not_sign by blast+
  then have "atoi (show_nat n) = (case parse_uint (show_nat n) of Inl e \<Rightarrow> Inl e
      | Inr u \<Rightarrow> if 2 ^ 63 \<le> unat u then Inl ERange else Inr (int (unat u)))"
    by (simp add: atoi_def s split: sum.split)
  also have "\<dots> = Inr (int n)"
    using n by (simp add: parse_uint_show_nat unat_of_nat_u64)
  finally show ?thesis .
qed

lemma atoi_itoa_nonneg: "0 \<le> i \<Longrightarrow> i < 2 ^ 63 \<Longrightarrow> atoi (itoa i) = Inr i"
  using atoi_show_nat [of "nat i"] by (simp add: itoa_def nat_less_iff)

lemma atoi_range: "atoi s = Inr i \<Longrightarrow> - (2 ^ 63) \<le> i \<and> i < 2 ^ 63"
  by (auto simp: atoi_def Let_def simp del: of_nat_unat split: sum.splits if_splits)

lemma itoa_nonempty [simp]: "itoa i \<noteq> []"
  by (simp add: itoa_def)

lemma itoa_no_slash: "CHR ''/'' \<notin> set (itoa i)"
proof -
  have "CHR ''/'' \<notin> set (show_nat n)" for n
    using show_nat_digits [of n] by (rule is_digits_not_mem) (simp add: digit_val_def)
  then show ?thesis by (simp add: itoa_def)
qed

end
