(* ===== verification/CgroupPath.thy ===== *)
theory CgroupPath
  imports GoStrconv
begin

section \<open>Kubernetes identity of a cgroup path\<close>

text \<open>
  Models \<open>src/internal/correlate/cgrouppath.go\<close>: the string work that turns a cgroup path
  into a pod UID, container ID, quality-of-service tier, cgroup driver and runtime.

  The Go types \<open>QoSClass\<close>, \<open>Driver\<close>, \<open>Runtime\<close> and \<open>ScopeKind\<close> are strings with named
  constants; here each is a datatype whose extra constructor \<open>\<dots>Zero\<close> is the empty string,
  the zero value a \<open>Scope{}\<close> literal holds.
\<close>

datatype qos_class = QoSZero | QoSGuaranteed | QoSBurstable | QoSBestEffort | QoSUnknown

datatype driver = DriverZero | DriverSystemd | DriverCgroupfs | DriverUnknown

datatype runtime = RuntimeZero | RuntimeContainerd | RuntimeCRIO | RuntimeDocker | RuntimeUnknown

datatype scope_kind = ScopeZero | ScopeContainer | ScopePod

record scope =
  sc_pod_uid :: string
  sc_container_id :: string
  sc_kind :: scope_kind
  sc_qos :: qos_class
  sc_driver :: driver
  sc_runtime :: runtime
  sc_cgroup_path :: string

definition scope_zero :: scope where
  "scope_zero = \<lparr>sc_pod_uid = [], sc_container_id = [], sc_kind = ScopeZero, sc_qos = QoSZero,
     sc_driver = DriverZero, sc_runtime = RuntimeZero, sc_cgroup_path = []\<rparr>"

definition runtime_prefixes :: "(string \<times> runtime) list" where
  "runtime_prefixes =
    [(''cri-containerd-'', RuntimeContainerd),
     (''containerd-'', RuntimeContainerd),
     (''crio-'', RuntimeCRIO),
     (''docker-'', RuntimeDocker)]"

subsection \<open>Segments\<close>

definition split_path :: "string \<Rightarrow> string list" where
  "split_path p = filter (\<lambda>part. part \<noteq> []) (split_on (CHR ''/'') p)"

fun in_kubepods_segments :: "string list \<Rightarrow> bool" where
  "in_kubepods_segments [] = False"
| "in_kubepods_segments (s # ss) = (if contains s ''kubepods'' then True else in_kubepods_segments ss)"

definition in_kubepods_tree :: "string \<Rightarrow> bool" where
  "in_kubepods_tree p = in_kubepods_segments (split_path p)"

definition parse_pod_segment :: "string \<Rightarrow> (string \<times> driver) option" where
  "parse_pod_segment segment =
     (case cut_suffix ''.slice'' segment of
        Some sfx \<Rightarrow>
          (let uid =
             (if contains sfx ''-pod'' then
                (case last_index sfx ''-pod'' of
                   Some i \<Rightarrow> Some (drop (i + 4) sfx)
                 | None \<Rightarrow> None)
              else if prefix ''pod'' sfx then Some (trim_prefix ''pod'' sfx)
              else None)
           in case uid of
                None \<Rightarrow> None
              | Some u \<Rightarrow>
                  if u = [] then None
                  else Some (replace_byte (CHR ''_'') (CHR ''-'') u, DriverSystemd))
      | None \<Rightarrow>
          (case cut_prefix ''pod'' segment of
             None \<Rightarrow> None
           | Some uid \<Rightarrow> if uid = [] then None else Some (uid, DriverCgroupfs)))"

fun match_runtime :: "(string \<times> runtime) list \<Rightarrow> string \<Rightarrow> (string \<times> runtime) option" where
  "match_runtime [] body = None"
| "match_runtime ((p, rt) # cs) body =
     (case cut_prefix p body of
        Some cid \<Rightarrow> if cid = [] then None else Some (cid, rt)
      | None \<Rightarrow> match_runtime cs body)"

definition parse_container_segment :: "string \<Rightarrow> driver \<Rightarrow> (string \<times> runtime) option" where
  "parse_container_segment segment drv =
     (if drv = DriverSystemd then
        (case cut_suffix ''.scope'' segment of
           None \<Rightarrow> None
         | Some body \<Rightarrow> match_runtime runtime_prefixes body)
      else if segment = [] \<or> contains segment ''.'' \<or> prefix ''pod'' segment then None
      else Some (segment, RuntimeUnknown))"

text \<open>The name \<open>parseQoS\<close> compares, after stripping what systemd puts around it.\<close>

definition qos_name :: "driver \<Rightarrow> string \<Rightarrow> string" where
  "qos_name drv segment =
     (if drv = DriverSystemd then
        (let name = trim_suffix ''.slice'' segment
         in case last_index name ''kubepods-'' of
              Some start \<Rightarrow> drop (start + 9) name
            | None \<Rightarrow> name)
      else segment)"

fun parse_qos_loop :: "driver \<Rightarrow> string list \<Rightarrow> qos_class option" where
  "parse_qos_loop drv [] = None"
| "parse_qos_loop drv (s # ss) =
     (let name = to_lower (qos_name drv s)
      in if name = ''burstable'' then Some QoSBurstable
         else if name = ''besteffort'' then Some QoSBestEffort
         else parse_qos_loop drv ss)"

definition parse_qos :: "string list \<Rightarrow> driver \<Rightarrow> qos_class" where
  "parse_qos segments drv =
     (case parse_qos_loop drv segments of
        Some q \<Rightarrow> q
      | None \<Rightarrow> if in_kubepods_segments segments then QoSGuaranteed else QoSUnknown)"

subsection \<open>Scopes\<close>

definition parse_container_scope :: "string list \<Rightarrow> scope option" where
  "parse_container_scope segments =
     (if length segments < 2 then None
      else case parse_pod_segment (segments ! (length segments - 2)) of
             None \<Rightarrow> None
           | Some (pod_uid, drv) \<Rightarrow>
               (case parse_container_segment (segments ! (length segments - 1)) drv of
                  None \<Rightarrow> None
                | Some (cid, rt) \<Rightarrow>
                    Some \<lparr>sc_pod_uid = pod_uid, sc_container_id = cid, sc_kind = ScopeContainer,
                      sc_qos = parse_qos segments drv, sc_driver = drv, sc_runtime = rt,
                      sc_cgroup_path = []\<rparr>))"

text \<open>An empty list of segments holds no \<open>kubepods\<close>, so \<open>segments ! (length - 1)\<close> is in range.\<close>

definition parse_pod_scope :: "string list \<Rightarrow> scope option" where
  "parse_pod_scope segments =
     (if \<not> in_kubepods_segments segments then None
      else case parse_pod_segment (segments ! (length segments - 1)) of
             None \<Rightarrow> None
           | Some (pod_uid, drv) \<Rightarrow>
               Some \<lparr>sc_pod_uid = pod_uid, sc_container_id = [], sc_kind = ScopePod,
                 sc_qos = parse_qos segments drv, sc_driver = drv, sc_runtime = RuntimeUnknown,
                 sc_cgroup_path = []\<rparr>)"

definition parse_cgroup_path :: "string \<Rightarrow> scope option" where
  "parse_cgroup_path p =
     (let segments = split_path p
      in if segments = [] then None
         else let found = (case parse_container_scope segments of
                             Some sc \<Rightarrow> Some sc
                           | None \<Rightarrow> parse_pod_scope segments)
              in case found of
                   None \<Rightarrow> None
                 | Some sc \<Rightarrow> Some (sc\<lparr>sc_cgroup_path := p\<rparr>))"

lemmas cgroup_path_defs = parse_cgroup_path_def parse_container_scope_def parse_pod_scope_def

declare cgroup_path_defs [go_defs]

subsection \<open>What a parsed scope guarantees\<close>

text \<open>The well-formedness of a scope the parser may hand out.\<close>

definition scope_wf :: "scope \<Rightarrow> bool" where
  "scope_wf sc \<longleftrightarrow>
     sc_pod_uid sc \<noteq> [] \<and>
     sc_kind sc \<noteq> ScopeZero \<and>
     (sc_kind sc = ScopeContainer \<longleftrightarrow> sc_container_id sc \<noteq> []) \<and>
     sc_driver sc \<in> {DriverSystemd, DriverCgroupfs} \<and>
     (sc_driver sc = DriverCgroupfs \<longrightarrow> sc_runtime sc = RuntimeUnknown) \<and>
     sc_qos sc \<noteq> QoSZero"

lemma parse_pod_segment_Some:
  "parse_pod_segment s = Some (uid, drv) \<Longrightarrow>
     uid \<noteq> [] \<and> drv \<in> {DriverSystemd, DriverCgroupfs} \<and> (drv = DriverSystemd \<longrightarrow> CHR ''_'' \<notin> set uid)"
  by (auto simp: parse_pod_segment_def Let_def replace_byte_def split: option.splits if_splits)

lemma match_runtime_Some: "match_runtime cs body = Some (cid, rt) \<Longrightarrow> cid \<noteq> [] \<and> rt \<in> snd ` set cs"
  by (induction cs) (auto split: option.splits if_splits)

lemma parse_container_segment_Some:
  "parse_container_segment s drv = Some (cid, rt) \<Longrightarrow>
     cid \<noteq> [] \<and> (drv \<noteq> DriverSystemd \<longrightarrow> rt = RuntimeUnknown \<and> cid = s)"
  by (auto simp: parse_container_segment_def split: option.splits if_splits dest: match_runtime_Some)

lemma parse_qos_loop_Some: "parse_qos_loop drv ss = Some q \<Longrightarrow> q \<in> {QoSBurstable, QoSBestEffort}"
  by (induction ss) (auto simp: Let_def split: if_splits)

lemma parse_qos_not_zero: "parse_qos ss drv \<noteq> QoSZero"
  by (auto simp: parse_qos_def split: option.splits dest: parse_qos_loop_Some)

lemma in_kubepods_segments_iff: "in_kubepods_segments ss \<longleftrightarrow> (\<exists>s \<in> set ss. contains s ''kubepods'')"
  by (induction ss) auto

lemma parse_qos_guaranteed: "parse_qos ss drv = QoSGuaranteed \<Longrightarrow> in_kubepods_segments ss"
  by (auto simp: parse_qos_def split: option.splits if_splits dest: parse_qos_loop_Some)

lemma parse_cgroup_path_cases:
  assumes "parse_cgroup_path p = Some sc"
  shows "(\<exists>sc0. parse_container_scope (split_path p) = Some sc0 \<and> sc = sc0\<lparr>sc_cgroup_path := p\<rparr>) \<or>
         (parse_container_scope (split_path p) = None \<and>
          (\<exists>sc0. parse_pod_scope (split_path p) = Some sc0 \<and> sc = sc0\<lparr>sc_cgroup_path := p\<rparr>))"
  using assms by (auto simp: parse_cgroup_path_def Let_def split: option.splits if_splits)

lemma parse_container_scope_wf:
  "parse_container_scope ss = Some sc \<Longrightarrow> scope_wf sc \<and> sc_kind sc = ScopeContainer"
  by (auto simp: parse_container_scope_def scope_wf_def parse_qos_not_zero
      split: option.splits if_splits
      dest!: parse_pod_segment_Some parse_container_segment_Some)

lemma parse_pod_scope_wf:
  "parse_pod_scope ss = Some sc \<Longrightarrow> scope_wf sc \<and> sc_kind sc = ScopePod \<and> in_kubepods_segments ss"
  by (auto simp: parse_pod_scope_def scope_wf_def parse_qos_not_zero
      split: option.splits if_splits dest!: parse_pod_segment_Some)

lemma parse_cgroup_path_wf: "parse_cgroup_path p = Some sc \<Longrightarrow> scope_wf sc \<and> sc_cgroup_path sc = p"
  by (drule parse_cgroup_path_cases)
    (auto dest!: parse_container_scope_wf parse_pod_scope_wf simp: scope_wf_def)

lemma parse_cgroup_path_pod_tree:
  "parse_cgroup_path p = Some sc \<Longrightarrow> sc_kind sc = ScopePod \<Longrightarrow> in_kubepods_tree p"
  by (drule parse_cgroup_path_cases)
    (auto dest!: parse_container_scope_wf parse_pod_scope_wf simp: in_kubepods_tree_def)

subsection \<open>Paths the kubelet writes\<close>

text \<open>
  The two path forms documented above \<open>ParseCgroupPath\<close>, as functions of what they encode.
  \<open>rt\<close> is what a kubelet with a cgroup root of its own puts in front of every systemd name.
\<close>

definition hex_byte :: "char \<Rightarrow> bool" where
  "hex_byte c \<longleftrightarrow>
     (let n = (of_char c :: nat) in (48 \<le> n \<and> n \<le> 57) \<or> (97 \<le> n \<and> n \<le> 102))"

definition uid_text :: "string \<Rightarrow> bool" where
  "uid_text u \<longleftrightarrow> u \<noteq> [] \<and> (\<forall>c \<in> set u. hex_byte c \<or> c = CHR ''-'')"

definition cid_text :: "string \<Rightarrow> bool" where
  "cid_text i \<longleftrightarrow> i \<noteq> [] \<and> (\<forall>c \<in> set i. hex_byte c)"

fun tier_name :: "qos_class \<Rightarrow> string" where
  "tier_name QoSBurstable = ''burstable''"
| "tier_name QoSBestEffort = ''besteffort''"
| "tier_name _ = []"

definition escape_uid :: "string \<Rightarrow> string" where
  "escape_uid uid = replace_byte (CHR ''-'') (CHR ''_'') uid"

definition systemd_pod_slice :: "string \<Rightarrow> qos_class \<Rightarrow> string \<Rightarrow> string" where
  "systemd_pod_slice rt tier uid =
     (if tier = QoSGuaranteed then rt @ ''kubepods'' @ ''-pod'' @ escape_uid uid @ ''.slice''
      else rt @ ''kubepods-'' @ tier_name tier @ ''-pod'' @ escape_uid uid @ ''.slice'')"

definition systemd_parents :: "string \<Rightarrow> qos_class \<Rightarrow> string list" where
  "systemd_parents rt tier =
     (if rt = [] then [] else [''kubelet.slice'']) @ [rt @ ''kubepods.slice''] @
     (if tier = QoSGuaranteed then [] else [rt @ ''kubepods-'' @ tier_name tier @ ''.slice''])"

definition slash_path :: "string list \<Rightarrow> string" where
  "slash_path segs = concat (map (\<lambda>x. CHR ''/'' # x) segs)"

definition systemd_pod_path :: "string \<Rightarrow> qos_class \<Rightarrow> string \<Rightarrow> string" where
  "systemd_pod_path rt tier uid = slash_path (systemd_parents rt tier @ [systemd_pod_slice rt tier uid])"

definition systemd_container_path ::
  "string \<Rightarrow> qos_class \<Rightarrow> string \<Rightarrow> string \<Rightarrow> string \<Rightarrow> string" where
  "systemd_container_path rt tier uid rtp cid =
     slash_path (systemd_parents rt tier @ [systemd_pod_slice rt tier uid, rtp @ cid @ ''.scope''])"

definition cgroupfs_pod_segs :: "qos_class \<Rightarrow> string \<Rightarrow> string list" where
  "cgroupfs_pod_segs tier uid =
     [''kubepods''] @ (if tier = QoSGuaranteed then [] else [tier_name tier]) @ [''pod'' @ uid]"

definition real_tier :: "qos_class \<Rightarrow> bool" where
  "real_tier tier \<longleftrightarrow> tier \<in> {QoSGuaranteed, QoSBurstable, QoSBestEffort}"

lemma split_on_slash_path:
  "\<forall>x \<in> set segs. CHR ''/'' \<notin> set x \<Longrightarrow> split_on (CHR ''/'') (slash_path segs) = [] # segs"
proof (induction segs)
  case (Cons x segs)
  then have ih: "split_on (CHR ''/'') (slash_path segs) = [] # segs" by simp
  have "split_on (CHR ''/'') (x @ slash_path segs) = x # segs"
  proof (cases segs)
    case Nil
    then show ?thesis using Cons.prems by (simp add: slash_path_def)
  next
    case (Cons y ys)
    then have "slash_path segs = CHR ''/'' # y @ slash_path ys"
      by (simp add: slash_path_def)
    then show ?thesis using ih Cons.prems by simp
  qed
  then show ?case by (simp add: slash_path_def)
qed (simp add: slash_path_def)

lemma split_path_slash_path:
  "\<forall>x \<in> set segs. x \<noteq> [] \<and> CHR ''/'' \<notin> set x \<Longrightarrow> split_path (slash_path segs) = segs"
  by (simp add: split_path_def split_on_slash_path filter_id_conv)

lemma hex_byte_not: "\<not> hex_byte (CHR ''/'')" "\<not> hex_byte (CHR ''_'')" "\<not> hex_byte (CHR ''-'')"
  "\<not> hex_byte (CHR ''k'')" "\<not> hex_byte (CHR ''u'')" "\<not> hex_byte (CHR ''.'')" "\<not> hex_byte (CHR ''p'')"
  "\<not> hex_byte (CHR ''s'')"
  by (simp_all add: hex_byte_def)

lemma escape_uid_facts:
  assumes "uid_text uid"
  shows "escape_uid uid \<noteq> []" "CHR ''-'' \<notin> set (escape_uid uid)" "CHR ''k'' \<notin> set (escape_uid uid)"
    "CHR ''/'' \<notin> set (escape_uid uid)" "CHR ''u'' \<notin> set (escape_uid uid)"
    "replace_byte (CHR ''_'') (CHR ''-'') (escape_uid uid) = uid"
proof -
  have "CHR ''_'' \<notin> set uid"
    using assms hex_byte_not by (auto simp: uid_text_def)
  then show "replace_byte (CHR ''_'') (CHR ''-'') (escape_uid uid) = uid"
    by (simp add: escape_uid_def replace_byte_inverse)
qed (use assms hex_byte_not in \<open>auto simp: uid_text_def escape_uid_def replace_byte_def\<close>)

lemma not_sublist_char: "c \<in> set sub \<Longrightarrow> c \<notin> set s \<Longrightarrow> \<not> sublist sub s"
  using set_mono_sublist by blast

lemma parse_pod_segment_systemd:
  assumes "uid_text uid"
  shows "parse_pod_segment (x @ ''-pod'' @ escape_uid uid @ ''.slice'') = Some (uid, DriverSystemd)"
proof -
  note e = escape_uid_facts [OF assms]
  let ?s = "x @ ''-pod'' @ escape_uid uid"
  have a: "cut_suffix ''.slice'' (x @ ''-pod'' @ escape_uid uid @ ''.slice'') = Some ?s"
    using cut_suffix_append [of "''.slice''" ?s] by simp
  have "\<not> sublist ''-pod'' (tl ''-pod'' @ escape_uid uid)"
    using e(2) by (intro not_sublist_char [of "CHR ''-''"]) auto
  then have b: "last_index ?s ''-pod'' = Some (length x)"
    by (intro last_index_append) auto
  have c: "contains ?s ''-pod''"
    by (rule containsI)
  show ?thesis
    unfolding parse_pod_segment_def a using b c e(1,6) by (simp add: Let_def)
qed

lemma parse_pod_segment_fixed [simp]:
  "parse_pod_segment ''kubelet.slice'' = None"
  "parse_pod_segment ''kubepods.slice'' = None"
  "parse_pod_segment ''kubelet-kubepods.slice'' = None"
  "parse_pod_segment ''kubepods-burstable.slice'' = None"
  "parse_pod_segment ''kubelet-kubepods-burstable.slice'' = None"
  "parse_pod_segment ''kubepods-besteffort.slice'' = None"
  "parse_pod_segment ''kubelet-kubepods-besteffort.slice'' = None"
  by (simp_all add: parse_pod_segment_def go_eval)

lemma parse_pod_segment_parents:
  assumes "real_tier tier" "rt \<in> {'''', ''kubelet-''}" "x \<in> set (systemd_parents rt tier)"
  shows "parse_pod_segment x = None"
  using assms by (auto simp: real_tier_def systemd_parents_def split: if_splits)

lemma to_lower_plain_hd:
  "c \<noteq> CHR 0xC4 \<Longrightarrow> c \<noteq> CHR 0xE2 \<Longrightarrow> to_lower (c # s) = lower_byte c # to_lower s"
  by simp

lemma lower_byte_fixed [simp]:
  "lower_byte (CHR ''p'') = CHR ''p''" "lower_byte (CHR ''c'') = CHR ''c''"
  "lower_byte (CHR ''d'') = CHR ''d''"
  by (simp_all add: lower_byte_def)

lemma qos_loop_parents_tier:
  "tier \<in> {QoSBurstable, QoSBestEffort} \<Longrightarrow> rt \<in> {'''', ''kubelet-''} \<Longrightarrow>
     parse_qos_loop DriverSystemd (systemd_parents rt tier @ rest) = Some tier"
  by (simp only: insert_iff empty_iff simp_thms, elim disjE;
      simp add: systemd_parents_def qos_name_def go_eval)

lemma qos_loop_parents_guaranteed:
  "rt \<in> {'''', ''kubelet-''} \<Longrightarrow>
     parse_qos_loop DriverSystemd (systemd_parents rt QoSGuaranteed @ rest) = parse_qos_loop DriverSystemd rest"
  by (auto simp: systemd_parents_def qos_name_def go_eval)

lemma qos_name_pod_slice:
  assumes "uid_text uid"
  shows "qos_name DriverSystemd (systemd_pod_slice rt QoSGuaranteed uid) = ''pod'' @ escape_uid uid"
proof -
  note e = escape_uid_facts [OF assms]
  have a: "trim_suffix ''.slice'' (systemd_pod_slice rt QoSGuaranteed uid)
      = rt @ ''kubepods-'' @ ''pod'' @ escape_uid uid"
    using cut_suffix_append [of "''.slice''" "rt @ ''kubepods-'' @ ''pod'' @ escape_uid uid"]
    by (simp add: systemd_pod_slice_def trim_suffix_def)
  have "\<not> sublist ''kubepods-'' (tl ''kubepods-'' @ ''pod'' @ escape_uid uid)"
    using e(3) by (intro not_sublist_char [of "CHR ''k''"]) auto
  then have "last_index (rt @ ''kubepods-'' @ ''pod'' @ escape_uid uid) ''kubepods-'' = Some (length rt)"
    by (intro last_index_append) auto
  then show ?thesis unfolding qos_name_def a by simp
qed

lemma qos_name_scope:
  assumes "(rtp, rt) \<in> set runtime_prefixes" "cid_text cid"
  shows "qos_name DriverSystemd (rtp @ cid @ ''.scope'') = rtp @ cid @ ''.scope''"
proof -
  have "CHR ''u'' \<notin> set (rtp @ cid @ ''.scope'')"
    using assms hex_byte_not(5) by (auto simp: runtime_prefixes_def cid_text_def)
  then have "\<not> sublist ''kubepods-'' (rtp @ cid @ ''.scope'')"
    by (intro not_sublist_char [of "CHR ''u''"]) auto
  then have "last_index (rtp @ cid @ ''.scope'') ''kubepods-'' = None"
    by (simp add: last_index_None_iff)
  then show ?thesis
    by (simp add: qos_name_def trim_suffix_def cut_suffix_def suffix_to_prefix)
qed

lemma qos_loop_pod_slice:
  assumes "uid_text uid"
  shows "parse_qos_loop DriverSystemd (systemd_pod_slice rt QoSGuaranteed uid # rest)
         = parse_qos_loop DriverSystemd rest"
  using assms by (simp add: qos_name_pod_slice)

lemma qos_loop_scope:
  assumes "(rtp, rt) \<in> set runtime_prefixes" "cid_text cid"
  shows "parse_qos_loop DriverSystemd [rtp @ cid @ ''.scope''] = None"
proof -
  have "to_lower (rtp @ cid @ ''.scope'') \<noteq> ''burstable'' \<and> to_lower (rtp @ cid @ ''.scope'') \<noteq> ''besteffort''"
    using assms(1) by (auto simp: runtime_prefixes_def)
  then show ?thesis using qos_name_scope [OF assms] by simp
qed

lemma systemd_parents_tree: "in_kubepods_segments (systemd_parents rt tier @ rest)"
proof -
  have "contains (rt @ ''kubepods'' @ ''.slice'') ''kubepods''"
    by (rule containsI)
  then show ?thesis by (auto simp: systemd_parents_def in_kubepods_segments_iff)
qed

lemma parse_qos_systemd:
  assumes "real_tier tier" "rt \<in> {'''', ''kubelet-''}" "uid_text uid"
    and "parse_qos_loop DriverSystemd rest = None"
  shows "parse_qos (systemd_parents rt tier @ systemd_pod_slice rt tier uid # rest) DriverSystemd = tier"
proof (cases "tier = QoSGuaranteed")
  case True
  then show ?thesis
    using assms systemd_parents_tree
    by (simp add: parse_qos_def qos_loop_parents_guaranteed qos_loop_pod_slice del: parse_qos_loop.simps)
next
  case False
  then show ?thesis
    using assms(1,2) by (auto simp: parse_qos_def qos_loop_parents_tier real_tier_def)
qed

lemma pod_slice_segment:
  "uid_text uid \<Longrightarrow> parse_pod_segment (systemd_pod_slice rt tier uid) = Some (uid, DriverSystemd)"
  using parse_pod_segment_systemd [of uid "rt @ ''kubepods''"]
    parse_pod_segment_systemd [of uid "rt @ ''kubepods-'' @ tier_name tier"]
  by (simp add: systemd_pod_slice_def)

lemma match_runtime_prefixes:
  "(rtp, rt) \<in> set runtime_prefixes \<Longrightarrow> cid \<noteq> [] \<Longrightarrow>
     match_runtime runtime_prefixes (rtp @ cid) = Some (cid, rt)"
  by (simp add: runtime_prefixes_def) (elim disjE; simp add: cut_prefix_def)

lemma scope_segment:
  assumes "(rtp, rt) \<in> set runtime_prefixes" "cid_text cid"
  shows "parse_container_segment (rtp @ cid @ ''.scope'') DriverSystemd = Some (cid, rt)"
  using assms match_runtime_prefixes [OF assms(1)] cut_suffix_append [of "''.scope''" "rtp @ cid"]
  by (simp add: parse_container_segment_def cid_text_def)

lemma systemd_segs_ok:
  assumes "rt \<in> {'''', ''kubelet-''}" "uid_text uid"
  shows "\<forall>x \<in> set (systemd_parents rt tier @ [systemd_pod_slice rt tier uid]).
           x \<noteq> [] \<and> CHR ''/'' \<notin> set x"
proof -
  have "CHR ''/'' \<notin> set (tier_name tier)"
    by (cases tier) auto
  then show ?thesis
    using assms escape_uid_facts [OF assms(2)]
    by (auto simp: systemd_parents_def systemd_pod_slice_def split: if_splits)
qed

lemma split_systemd_pod:
  "rt \<in> {'''', ''kubelet-''} \<Longrightarrow> uid_text uid \<Longrightarrow>
     split_path (systemd_pod_path rt tier uid) = systemd_parents rt tier @ [systemd_pod_slice rt tier uid]"
  unfolding systemd_pod_path_def by (rule split_path_slash_path [OF systemd_segs_ok])

lemma split_systemd_container:
  assumes "rt \<in> {'''', ''kubelet-''}" "uid_text uid" "(rtp, rn) \<in> set runtime_prefixes" "cid_text cid"
  shows "split_path (systemd_container_path rt tier uid rtp cid) =
           systemd_parents rt tier @ [systemd_pod_slice rt tier uid, rtp @ cid @ ''.scope'']"
  unfolding systemd_container_path_def
proof (rule split_path_slash_path)
  have "CHR ''/'' \<notin> set rtp" "CHR ''/'' \<notin> set cid"
    using assms(3,4) hex_byte_not(1) by (auto simp: runtime_prefixes_def cid_text_def)
  then show "\<forall>x \<in> set (systemd_parents rt tier @ [systemd_pod_slice rt tier uid, rtp @ cid @ ''.scope'']).
      x \<noteq> [] \<and> CHR ''/'' \<notin> set x"
    using systemd_segs_ok [OF assms(1,2), of tier] by auto
qed

subsection \<open>The parser recovers what the kubelet encoded\<close>

lemma parse_systemd_container_path:
  assumes "real_tier tier" "rt \<in> {'''', ''kubelet-''}" "uid_text uid"
    "(rtp, rn) \<in> set runtime_prefixes" "cid_text cid"
  shows "parse_cgroup_path (systemd_container_path rt tier uid rtp cid) =
    Some \<lparr>sc_pod_uid = uid, sc_container_id = cid, sc_kind = ScopeContainer, sc_qos = tier,
      sc_driver = DriverSystemd, sc_runtime = rn,
      sc_cgroup_path = systemd_container_path rt tier uid rtp cid\<rparr>"
  using assms
  by (simp add: parse_cgroup_path_def split_systemd_container parse_container_scope_def nth_append
      pod_slice_segment scope_segment parse_qos_systemd qos_loop_scope del: parse_qos_loop.simps)

lemma parse_container_scope_pod_path:
  assumes "real_tier tier" "rt \<in> {'''', ''kubelet-''}"
  shows "parse_container_scope (systemd_parents rt tier @ [s]) = None"
proof -
  let ?n = "length (systemd_parents rt tier)"
  have n: "?n \<ge> 1" by (simp add: systemd_parents_def)
  then have "systemd_parents rt tier ! (?n - 1) \<in> set (systemd_parents rt tier)"
    by simp
  then have "parse_pod_segment (systemd_parents rt tier ! (?n - 1)) = None"
    by (rule parse_pod_segment_parents [OF assms])
  then show ?thesis
    using n by (simp add: parse_container_scope_def nth_append)
qed

lemma parse_systemd_pod_path:
  assumes "real_tier tier" "rt \<in> {'''', ''kubelet-''}" "uid_text uid"
  shows "parse_cgroup_path (systemd_pod_path rt tier uid) =
    Some \<lparr>sc_pod_uid = uid, sc_container_id = [], sc_kind = ScopePod, sc_qos = tier,
      sc_driver = DriverSystemd, sc_runtime = RuntimeUnknown,
      sc_cgroup_path = systemd_pod_path rt tier uid\<rparr>"
  using assms
  by (simp add: parse_cgroup_path_def split_systemd_pod parse_container_scope_pod_path
      parse_pod_scope_def systemd_parents_tree pod_slice_segment parse_qos_systemd nth_append)

lemma to_lower_hex: "\<forall>c \<in> set s. hex_byte c \<Longrightarrow> to_lower s = s"
  by (induction s) (auto simp: hex_byte_def lower_byte_def Let_def)

lemma cid_text_facts:
  assumes "cid_text cid"
  shows "cid \<noteq> []" "\<not> contains cid ''.''" "\<not> prefix ''pod'' cid" "CHR ''/'' \<notin> set cid"
    "to_lower cid \<noteq> ''burstable''" "to_lower cid \<noteq> ''besteffort''"
proof -
  have h: "\<forall>c \<in> set cid. hex_byte c" and ne: "cid \<noteq> []"
    using assms by (auto simp: cid_text_def)
  have n: "CHR ''.'' \<notin> set cid" "CHR ''p'' \<notin> set cid" "CHR ''s'' \<notin> set cid"
    using h hex_byte_not by auto
  show "cid \<noteq> []" by (rule ne)
  show "CHR ''/'' \<notin> set cid" using h hex_byte_not by auto
  show "\<not> contains cid ''.''"
    using n(1) by (auto simp: contains_iff_sublist dest: set_mono_sublist)
  show "\<not> prefix ''pod'' cid"
    using n(2) by (auto simp: prefix_def)
  show "to_lower cid \<noteq> ''burstable''"
    using n(3) h by (auto simp: to_lower_hex)
  show "to_lower cid \<noteq> ''besteffort''"
    using n(3) h by (auto simp: to_lower_hex)
qed

lemma pod_segment_cgroupfs:
  assumes "uid_text uid"
  shows "parse_pod_segment (''pod'' @ uid) = Some (uid, DriverCgroupfs)"
proof -
  have "CHR ''.'' \<notin> set (''pod'' @ uid)"
    using assms hex_byte_not(6) by (auto simp: uid_text_def)
  then have "\<not> suffix ''.slice'' (''pod'' @ uid)"
    using set_mono_suffix [of "''.slice''" "''pod'' @ uid"] by auto
  then have "cut_suffix ''.slice'' (''pod'' @ uid) = None"
    by (simp add: cut_suffix_def)
  then show ?thesis
    using assms cut_prefix_append [of "''pod''" uid]
    unfolding parse_pod_segment_def by (simp add: uid_text_def)
qed

lemma pod_segment_cgroupfs_parents [simp]:
  "parse_pod_segment ''kubepods'' = None" "parse_pod_segment ''burstable'' = None"
  "parse_pod_segment ''besteffort'' = None"
  by (simp_all add: parse_pod_segment_def go_eval)

lemma container_segment_cgroupfs:
  "cid_text cid \<Longrightarrow> parse_container_segment cid DriverCgroupfs = Some (cid, RuntimeUnknown)"
  by (simp add: parse_container_segment_def cid_text_facts)

lemma cgroupfs_segs_ok:
  assumes "real_tier tier" "uid_text uid"
  shows "\<forall>x \<in> set (cgroupfs_pod_segs tier uid). x \<noteq> [] \<and> CHR ''/'' \<notin> set x"
proof -
  have "CHR ''/'' \<notin> set uid"
    using assms(2) hex_byte_not(1) by (auto simp: uid_text_def)
  moreover have "CHR ''/'' \<notin> set (tier_name tier)" "tier \<noteq> QoSGuaranteed \<Longrightarrow> tier_name tier \<noteq> []"
    using assms(1) by (cases tier; simp add: real_tier_def)+
  ultimately show ?thesis
    by (auto simp: cgroupfs_pod_segs_def)
qed

lemma qos_cgroupfs:
  assumes "real_tier tier" and "parse_qos_loop DriverCgroupfs rest = None"
  shows "parse_qos (cgroupfs_pod_segs tier uid @ rest) DriverCgroupfs = tier"
proof -
  have k: "contains ''kubepods'' ''kubepods''"
    by (simp add: contains_def)
  consider "tier = QoSGuaranteed" | "tier = QoSBurstable" | "tier = QoSBestEffort"
    using assms(1) by (auto simp: real_tier_def)
  then show ?thesis
    using assms(2) k
    by cases (simp_all add: parse_qos_def cgroupfs_pod_segs_def qos_name_def lower_byte_def)
qed

lemma qos_loop_cid:
  "cid_text cid \<Longrightarrow> parse_qos_loop DriverCgroupfs [cid] = None"
  using cid_text_facts(5,6) by (simp add: qos_name_def Let_def)

lemma parse_cgroupfs_container_path:
  assumes "real_tier tier" "uid_text uid" "cid_text cid"
  shows "parse_cgroup_path (slash_path (cgroupfs_pod_segs tier uid @ [cid])) =
    Some \<lparr>sc_pod_uid = uid, sc_container_id = cid, sc_kind = ScopeContainer, sc_qos = tier,
      sc_driver = DriverCgroupfs, sc_runtime = RuntimeUnknown,
      sc_cgroup_path = slash_path (cgroupfs_pod_segs tier uid @ [cid])\<rparr>"
proof -
  have s: "split_path (slash_path (cgroupfs_pod_segs tier uid @ [cid])) = cgroupfs_pod_segs tier uid @ [cid]"
    using cgroupfs_segs_ok [OF assms(1,2)] cid_text_facts [OF assms(3)]
    by (intro split_path_slash_path) auto
  have l: "(cgroupfs_pod_segs tier uid @ [cid]) ! (length (cgroupfs_pod_segs tier uid) - 1) = ''pod'' @ uid"
    "cgroupfs_pod_segs tier uid \<noteq> []"
    by (simp_all add: cgroupfs_pod_segs_def nth_append)
  show ?thesis
    using assms s l qos_cgroupfs [OF assms(1) qos_loop_cid [OF assms(3)]]
    by (simp add: parse_cgroup_path_def parse_container_scope_def pod_segment_cgroupfs
        container_segment_cgroupfs Let_def del: append_Cons)
qed

lemma parse_cgroupfs_pod_path:
  assumes "real_tier tier" "uid_text uid"
  shows "parse_cgroup_path (slash_path (cgroupfs_pod_segs tier uid)) =
    Some \<lparr>sc_pod_uid = uid, sc_container_id = [], sc_kind = ScopePod, sc_qos = tier,
      sc_driver = DriverCgroupfs, sc_runtime = RuntimeUnknown,
      sc_cgroup_path = slash_path (cgroupfs_pod_segs tier uid)\<rparr>"
proof -
  have s: "split_path (slash_path (cgroupfs_pod_segs tier uid)) = cgroupfs_pod_segs tier uid"
    by (rule split_path_slash_path [OF cgroupfs_segs_ok [OF assms]])
  have t: "in_kubepods_segments (cgroupfs_pod_segs tier uid)"
    by (simp add: cgroupfs_pod_segs_def contains_def)
  have c: "parse_container_scope (cgroupfs_pod_segs tier uid) = None"
    using assms(1)
    by (auto simp: parse_container_scope_def cgroupfs_pod_segs_def real_tier_def nth_append)
  have l: "cgroupfs_pod_segs tier uid ! (length (cgroupfs_pod_segs tier uid) - 1) = ''pod'' @ uid"
    "cgroupfs_pod_segs tier uid \<noteq> []"
    by (simp_all add: cgroupfs_pod_segs_def nth_append)
  have p: "parse_pod_scope (cgroupfs_pod_segs tier uid) =
      Some \<lparr>sc_pod_uid = uid, sc_container_id = [], sc_kind = ScopePod, sc_qos = tier,
        sc_driver = DriverCgroupfs, sc_runtime = RuntimeUnknown, sc_cgroup_path = []\<rparr>"
    using assms t l qos_cgroupfs [of tier "[]" uid]
    by (simp add: parse_pod_scope_def pod_segment_cgroupfs del: append_Cons)
  show ?thesis
    using s c l p by (simp add: parse_cgroup_path_def)
qed

text \<open>A concrete container path, for the witnesses of the components that resolve paths.\<close>

definition demo_scope :: scope where
  "demo_scope = \<lparr>sc_pod_uid = ''7'', sc_container_id = ''c1'', sc_kind = ScopeContainer,
     sc_qos = QoSGuaranteed, sc_driver = DriverCgroupfs, sc_runtime = RuntimeUnknown,
     sc_cgroup_path = ''/kubepods/pod7/c1''\<rparr>"

lemma parse_demo_path: "parse_cgroup_path ''/kubepods/pod7/c1'' = Some demo_scope"
  by (simp add: cgroup_path_defs split_path_def parse_pod_segment_def parse_container_segment_def
      parse_qos_def qos_name_def demo_scope_def go_eval)

subsection \<open>Properties\<close>

text \<open>C5: For every QoS tier, pod UID and container ID, with or without a kubelet cgroup root,
  \<open>ParseCgroupPath\<close> recovers from the systemd driver's container path the UID with its dashes,
  the bare container ID, the runtime and the tier, and from the pod slice above it the same
  identity at pod level without a container.
\<close>

theorem systemd_paths_parse:
  assumes "real_tier tier" "rt \<in> {'''', ''kubelet-''}" "uid_text uid"
    "(rtp, rn) \<in> set runtime_prefixes" "cid_text cid"
  shows "parse_cgroup_path (systemd_container_path rt tier uid rtp cid) =
      Some \<lparr>sc_pod_uid = uid, sc_container_id = cid, sc_kind = ScopeContainer, sc_qos = tier,
        sc_driver = DriverSystemd, sc_runtime = rn,
        sc_cgroup_path = systemd_container_path rt tier uid rtp cid\<rparr>
    \<and> parse_cgroup_path (systemd_pod_path rt tier uid) =
      Some \<lparr>sc_pod_uid = uid, sc_container_id = [], sc_kind = ScopePod, sc_qos = tier,
        sc_driver = DriverSystemd, sc_runtime = RuntimeUnknown,
        sc_cgroup_path = systemd_pod_path rt tier uid\<rparr>"
  using parse_systemd_container_path [OF assms] parse_systemd_pod_path [OF assms(1-3)] by blast

theorem systemd_paths_parse_witness:
  "parse_cgroup_path ''/kubepods.slice/kubepods-burstable.slice/kubepods-burstable-pod0a_1b.slice/crio-9f.scope'' =
     Some \<lparr>sc_pod_uid = ''0a-1b'', sc_container_id = ''9f'', sc_kind = ScopeContainer,
       sc_qos = QoSBurstable, sc_driver = DriverSystemd, sc_runtime = RuntimeCRIO,
       sc_cgroup_path =
         ''/kubepods.slice/kubepods-burstable.slice/kubepods-burstable-pod0a_1b.slice/crio-9f.scope''\<rparr>"
proof -
  have p: "systemd_container_path '''' QoSBurstable ''0a-1b'' ''crio-'' ''9f'' =
      ''/kubepods.slice/kubepods-burstable.slice/kubepods-burstable-pod0a_1b.slice/crio-9f.scope''"
    by (simp add: systemd_container_path_def slash_path_def systemd_parents_def
        systemd_pod_slice_def escape_uid_def go_eval)
  have h: "real_tier QoSBurstable" "'''' \<in> {'''', ''kubelet-''}" "uid_text ''0a-1b''"
    "(''crio-'', RuntimeCRIO) \<in> set runtime_prefixes" "cid_text ''9f''"
    by (simp_all add: real_tier_def uid_text_def cid_text_def hex_byte_def runtime_prefixes_def)
  show ?thesis
    using systemd_paths_parse [OF h] unfolding p by (rule conjunct1)
qed

text \<open>C6: Under the cgroupfs driver, \<open>ParseCgroupPath\<close> recovers UID, container ID and tier from the
  container path and the pod-level identity from the pod directory; such a path carries no
  runtime, which is reported as unknown.
\<close>

theorem cgroupfs_paths_parse:
  assumes "real_tier tier" "uid_text uid" "cid_text cid"
  shows "parse_cgroup_path (slash_path (cgroupfs_pod_segs tier uid @ [cid])) =
      Some \<lparr>sc_pod_uid = uid, sc_container_id = cid, sc_kind = ScopeContainer, sc_qos = tier,
        sc_driver = DriverCgroupfs, sc_runtime = RuntimeUnknown,
        sc_cgroup_path = slash_path (cgroupfs_pod_segs tier uid @ [cid])\<rparr>
    \<and> parse_cgroup_path (slash_path (cgroupfs_pod_segs tier uid)) =
      Some \<lparr>sc_pod_uid = uid, sc_container_id = [], sc_kind = ScopePod, sc_qos = tier,
        sc_driver = DriverCgroupfs, sc_runtime = RuntimeUnknown,
        sc_cgroup_path = slash_path (cgroupfs_pod_segs tier uid)\<rparr>"
  using parse_cgroupfs_container_path [OF assms] parse_cgroupfs_pod_path [OF assms(1,2)] by blast

theorem cgroupfs_paths_parse_witness:
  "parse_cgroup_path ''/kubepods/besteffort/pod0a-1b'' =
     Some \<lparr>sc_pod_uid = ''0a-1b'', sc_container_id = [], sc_kind = ScopePod,
       sc_qos = QoSBestEffort, sc_driver = DriverCgroupfs, sc_runtime = RuntimeUnknown,
       sc_cgroup_path = ''/kubepods/besteffort/pod0a-1b''\<rparr>"
proof -
  have p: "slash_path (cgroupfs_pod_segs QoSBestEffort ''0a-1b'') = ''/kubepods/besteffort/pod0a-1b''"
    by (simp add: slash_path_def cgroupfs_pod_segs_def)
  have h: "real_tier QoSBestEffort" "uid_text ''0a-1b''" "cid_text ''9f''"
    by (simp_all add: real_tier_def uid_text_def cid_text_def hex_byte_def)
  show ?thesis
    using cgroupfs_paths_parse [OF h] unfolding p by (rule conjunct2)
qed

text \<open>C40: Whatever path it is given, an identity \<open>ParseCgroupPath\<close> hands out is well formed: it has
  a pod UID, names a container exactly when it is at container level, carries the path it came
  from, and a pod-level identity lies inside the kubepods tree.
\<close>

theorem parsed_scope_well_formed:
  assumes "parse_cgroup_path p = Some sc"
  shows "scope_wf sc \<and> sc_cgroup_path sc = p \<and> (sc_kind sc = ScopePod \<longrightarrow> in_kubepods_tree p)"
  using parse_cgroup_path_wf [OF assms] parse_cgroup_path_pod_tree [OF assms] by blast

theorem parsed_scope_well_formed_witness:
  "\<exists>sc. parse_cgroup_path ''/kubepods/pod7/c1'' = Some sc \<and> sc_container_id sc = ''c1'' \<and> scope_wf sc"
proof -
  note h = parse_demo_path
  show ?thesis using parsed_scope_well_formed [OF h] h by (simp add: demo_scope_def)
qed

text \<open>The kubepods guard applies at pod level only. A path with no \<open>kubepods\<close> in it whose last
  two directories look like \<open>pod<x>/<y>\<close> is handed out as a container of pod \<open><x>\<close>, although the
  function's comment says everything outside the kubelet's pod hierarchy is rejected.
\<close>

theorem container_level_has_no_tree_guard:
  "\<not> in_kubepods_tree ''/podruntime/runtime'' \<and>
   parse_cgroup_path ''/podruntime/runtime'' =
     Some \<lparr>sc_pod_uid = ''runtime'', sc_container_id = ''runtime'', sc_kind = ScopeContainer,
       sc_qos = QoSUnknown, sc_driver = DriverCgroupfs, sc_runtime = RuntimeUnknown,
       sc_cgroup_path = ''/podruntime/runtime''\<rparr>"
  by (simp add: cgroup_path_defs split_path_def parse_pod_segment_def parse_container_segment_def
      parse_qos_def qos_name_def in_kubepods_tree_def go_eval)

end
