(* ===== verification/GoPath.thy ===== *)
theory GoPath
  imports GoStrconv
begin

section \<open>Slash paths: path.Clean and path.Join\<close>

text \<open>
  \<open>path.Clean\<close> as its documentation states it: a scan over the path's elements with a stack,
  where an empty element and \<open>.\<close> are dropped and \<open>..\<close> removes the element before it. In a
  rooted path a \<open>..\<close> at the root is dropped; in a relative one it stays. The laws below are
  about the elements of the result: a cleaned rooted path has no \<open>..\<close> left, and cleaning is
  idempotent.
\<close>

fun clean_segs :: "bool \<Rightarrow> string list \<Rightarrow> string list \<Rightarrow> string list" where
  "clean_segs rooted st [] = rev st"
| "clean_segs rooted st (x # xs) =
     (if x = [] \<or> x = ''.'' then clean_segs rooted st xs
      else if x = ''..'' then
        (case st of
           [] \<Rightarrow> if rooted then clean_segs rooted [] xs else clean_segs rooted [''..''] xs
         | t # ts \<Rightarrow> if t = ''..'' then clean_segs rooted (''..'' # st) xs
                     else clean_segs rooted ts xs)
      else clean_segs rooted (x # st) xs)"

definition path_clean :: "string \<Rightarrow> string" where
  "path_clean p =
     (if p = [] then ''.''
      else let rooted = (hd p = CHR ''/'');
               body = join ''/'' (clean_segs rooted [] (split_on (CHR ''/'') p))
           in if rooted then CHR ''/'' # body else if body = [] then ''.'' else body)"

text \<open>\<open>path.Join\<close> of two elements: an empty element is left out.\<close>

definition path_join :: "string \<Rightarrow> string \<Rightarrow> string" where
  "path_join a b =
     (if a = [] \<and> b = [] then []
      else if a = [] then path_clean b
      else if b = [] then path_clean a
      else path_clean (a @ ''/'' @ b))"

subsection \<open>Elements of a cleaned path\<close>

text \<open>A plain element is a name: neither empty, nor \<open>.\<close>, nor \<open>..\<close>, and without a slash.\<close>

definition plain_seg :: "string \<Rightarrow> bool" where
  "plain_seg x \<longleftrightarrow> x \<noteq> [] \<and> x \<noteq> ''.'' \<and> x \<noteq> ''..'' \<and> CHR ''/'' \<notin> set x"

definition plain :: "string list \<Rightarrow> bool" where
  "plain xs \<longleftrightarrow> (\<forall>x \<in> set xs. plain_seg x)"

lemma plain_simps [simp]:
  "plain []"
  "plain (x # xs) \<longleftrightarrow> plain_seg x \<and> plain xs"
  "plain (xs @ ys) \<longleftrightarrow> plain xs \<and> plain ys"
  "plain (rev xs) \<longleftrightarrow> plain xs"
  by (auto simp: plain_def)

lemma plain_segD: "plain_seg x \<Longrightarrow> x \<noteq> [] \<and> x \<noteq> ''.'' \<and> x \<noteq> ''..'' \<and> CHR ''/'' \<notin> set x"
  by (simp add: plain_seg_def)

lemma clean_segs_plain_id: "plain xs \<Longrightarrow> clean_segs r st xs = rev st @ xs"
  by (induction xs arbitrary: st) (auto dest: plain_segD)

lemma clean_segs_rooted_plain:
  "plain st \<Longrightarrow> \<forall>x \<in> set xs. CHR ''/'' \<notin> set x \<Longrightarrow> plain (clean_segs True st xs)"
proof (induction xs arbitrary: st)
  case (Cons x xs)
  then show ?case
    by (cases st) (auto simp: plain_seg_def)
qed simp

lemma clean_segs_append:
  "clean_segs True st (xs @ ys) = clean_segs True (rev (clean_segs True st xs)) ys"
proof (induction xs arbitrary: st)
  case (Cons x xs)
  then show ?case by (simp split: list.split)
qed simp

lemma clean_segs_Nil_seg [simp]: "clean_segs r st ([] # xs) = clean_segs r st xs"
  by simp

lemma clean_segs_dotdots: "clean_segs True [] (replicate n ''..'' @ xs) = clean_segs True [] xs"
  by (induction n) auto

lemma split_on_plain: "plain xs \<Longrightarrow> xs \<noteq> [] \<Longrightarrow> split_on (CHR ''/'') (join ''/'' xs) = xs"
  by (rule split_on_join) (auto simp: plain_def plain_seg_def)

lemma join_plain_eq_Nil: "plain xs \<Longrightarrow> join ''/'' xs = [] \<longleftrightarrow> xs = []"
  by (cases xs rule: remdups_adj.cases) (auto simp: plain_seg_def)

lemma join_plain_hd: "plain xs \<Longrightarrow> xs \<noteq> [] \<Longrightarrow> hd (join ''/'' xs) \<noteq> CHR ''/''"
proof (cases xs rule: remdups_adj.cases)
  case (2 x)
  assume "plain xs"
  then show ?thesis using 2 by (cases x) (auto simp: plain_seg_def)
next
  case (3 x y zs)
  assume "plain xs"
  then show ?thesis using 3 by (cases x) (auto simp: plain_seg_def)
qed auto

text \<open>The elements of a rooted path, resolved.\<close>

definition rooted_segs :: "string \<Rightarrow> string list" where
  "rooted_segs p = clean_segs True [] (split_on (CHR ''/'') p)"

lemma rooted_segs_plain [simp]: "plain (rooted_segs p)"
  unfolding rooted_segs_def
  by (rule clean_segs_rooted_plain) (auto dest: split_on_sep_free)

lemma rooted_segs_slash [simp]: "rooted_segs (CHR ''/'' # p) = rooted_segs p"
  by (simp add: rooted_segs_def)

lemma path_clean_rooted: "path_clean (CHR ''/'' # p) = CHR ''/'' # join ''/'' (rooted_segs p)"
  by (simp add: path_clean_def rooted_segs_def)

lemma rooted_segs_join: "plain xs \<Longrightarrow> rooted_segs (join ''/'' xs) = xs"
  by (cases "xs = []") (simp_all add: rooted_segs_def split_on_plain clean_segs_plain_id)

lemma rooted_segs_dot [simp]: "rooted_segs ''.'' = []"
  by (simp add: rooted_segs_def)

lemma rooted_segs_append_slash:
  "rooted_segs (a @ CHR ''/'' # b) = clean_segs True (rev (rooted_segs a)) (split_on (CHR ''/'') b)"
  by (simp add: rooted_segs_def clean_segs_append)

lemma path_clean_idem_rooted: "path_clean (path_clean (CHR ''/'' # p)) = path_clean (CHR ''/'' # p)"
  by (simp add: path_clean_rooted rooted_segs_join)

text \<open>Cleaning a relative path that is a nonempty sequence of names changes nothing.\<close>

lemma path_clean_plain:
  assumes "plain xs" "xs \<noteq> []"
  shows "path_clean (join ''/'' xs) = join ''/'' xs"
  using assms
  by (simp add: path_clean_def split_on_plain clean_segs_plain_id join_plain_hd join_plain_eq_Nil)

lemma path_join_plain:
  assumes "plain xs" "xs \<noteq> []" "plain_seg n"
  shows "path_join (join ''/'' xs) n = join ''/'' (xs @ [n])"
proof -
  have "join ''/'' (xs @ [n]) = join ''/'' xs @ ''/'' @ n"
    using assms by (simp add: join_append)
  then show ?thesis
    using assms path_clean_plain [of "xs @ [n]"]
    by (simp add: path_join_def join_plain_eq_Nil plain_segD)
qed

lemma path_join_dot:
  assumes "plain_seg n"
  shows "path_join ''.'' n = n"
proof -
  have "split_on (CHR ''/'') n = [n]"
    using assms by (simp add: plain_seg_def)
  then show ?thesis
    using assms by (auto simp: path_join_def path_clean_def plain_seg_def)
qed

end
