(* ===== verification/FileSystem.thy ===== *)
theory FileSystem
  imports GoPath
begin

section \<open>File trees and fs.WalkDir\<close>

text \<open>
  The program reads cgroupfs and /proc through Go's \<open>fs.FS\<close>. A file system is a finite tree,
  the snapshot one operation sees; an operation that reads at two times takes two trees. A
  file is what reading it yields, so a file that cannot be read is \<open>File (Inl e)\<close>. A
  directory has an inode number (\<open>None\<close> when \<open>Info\<close> fails on it), possibly a listing error
  that strikes after some entries, and its entries in the order \<open>ReadDir\<close> returns them.

  \<open>walk_dir\<close> is \<open>fs.WalkDir\<close> of the standard library with its callback as an argument,
  including the second call that reports a listing error and the meaning of \<open>fs.SkipDir\<close>.
\<close>

datatype fsnode =
    File "fs_err + string"
  | Link string
  | Dir "u64 option" "(fs_err \<times> nat) option" "(string \<times> fsnode) list"

primrec fs_lookup :: "fsnode \<Rightarrow> string list \<Rightarrow> fs_err + fsnode" where
  "fs_lookup n [] = Inr n"
| "fs_lookup n (x # xs) =
     (case n of
        Dir i l es \<Rightarrow> (case map_of es x of None \<Rightarrow> Inl NotExist | Some m \<Rightarrow> fs_lookup m xs)
      | _ \<Rightarrow> Inl FsOther)"

text \<open>Names given to \<open>fs.FS\<close> are relative, \<open>.\<close> is the root.\<close>

definition fs_segs :: "string \<Rightarrow> string list" where
  "fs_segs name = (if name = ''.'' then [] else split_on (CHR ''/'') name)"

definition fs_node :: "fsnode \<Rightarrow> string \<Rightarrow> fs_err + fsnode" where
  "fs_node fs name = fs_lookup fs (fs_segs name)"

fun node_read :: "fsnode \<Rightarrow> fs_err + string" where
  "node_read (File r) = r"
| "node_read (Link t) = Inl FsOther"
| "node_read (Dir i l es) = Inl FsOther"

definition fs_read :: "fsnode \<Rightarrow> string \<Rightarrow> err + string" where
  "fs_read fs name =
     (case fs_node fs name of
        Inl e \<Rightarrow> Inl (EFs e)
      | Inr n \<Rightarrow> (case node_read n of Inl e \<Rightarrow> Inl (EFs e) | Inr d \<Rightarrow> Inr d))"

fun is_dir :: "fsnode \<Rightarrow> bool" where
  "is_dir (Dir i l es) = True"
| "is_dir _ = False"

definition fs_stat :: "fsnode \<Rightarrow> string \<Rightarrow> err + bool" where
  "fs_stat fs name = (case fs_node fs name of Inl e \<Rightarrow> Inl (EFs e) | Inr n \<Rightarrow> Inr (is_dir n))"

definition fs_read_link :: "fsnode \<Rightarrow> string \<Rightarrow> err + string" where
  "fs_read_link fs name =
     (case fs_node fs name of
        Inl e \<Rightarrow> Inl (EFs e)
      | Inr (Link t) \<Rightarrow> Inr t
      | Inr _ \<Rightarrow> Inl (EFs FsOther))"

text \<open>\<open>fs.ReadDir\<close>, for callers that discard partial listings: an error yields no entries.\<close>

definition fs_read_dir :: "fsnode \<Rightarrow> string \<Rightarrow> err + (string \<times> fsnode) list" where
  "fs_read_dir fs name =
     (case fs_node fs name of
        Inl e \<Rightarrow> Inl (EFs e)
      | Inr (Dir i None es) \<Rightarrow> Inr es
      | Inr (Dir i (Some (e, k)) es) \<Rightarrow> Inl (EFs e)
      | Inr _ \<Rightarrow> Inl (EFs FsOther))"

text \<open>File names hold no slash and are distinct within a directory.\<close>

fun fs_wf :: "fsnode \<Rightarrow> bool" where
  "fs_wf (Dir i l es) \<longleftrightarrow>
     distinct (map fst es) \<and> (\<forall>(x, n) \<in> set es. plain_seg x \<and> fs_wf n)"
| "fs_wf _ \<longleftrightarrow> True"

subsection \<open>Looking up paths\<close>

lemma fs_lookup_append:
  "fs_lookup n (xs @ ys) = (case fs_lookup n xs of Inl e \<Rightarrow> Inl e | Inr m \<Rightarrow> fs_lookup m ys)"
  by (induction xs arbitrary: n) (auto split: fsnode.split option.split)

lemma fs_segs_join: "plain xs \<Longrightarrow> xs \<noteq> [] \<Longrightarrow> fs_segs (join ''/'' xs) = xs"
proof -
  assume p: "plain xs" "xs \<noteq> []"
  have "join ''/'' xs \<noteq> ''.''"
  proof
    assume "join ''/'' xs = ''.''"
    then have "xs = [''.'']"
      using p split_on_plain [of xs] by simp
    then show False using p by (simp add: plain_seg_def)
  qed
  then show ?thesis using p by (simp add: fs_segs_def split_on_plain)
qed

lemma fs_segs_dot [simp]: "fs_segs ''.'' = []"
  by (simp add: fs_segs_def)

lemma fs_read_NotExistI: "fs_node fs name = Inl NotExist \<Longrightarrow> fs_read fs name = Inl (EFs NotExist)"
  by (simp add: fs_read_def)

lemma fs_stat_Inr_iff: "is_ok (fs_stat fs name) \<longleftrightarrow> (\<exists>n. fs_node fs name = Inr n)"
  by (auto simp: fs_stat_def is_ok_iff split: sum.splits)

lemma fs_wf_child:
  "fs_wf (Dir i l es) \<Longrightarrow> (x, n) \<in> set es \<Longrightarrow> plain_seg x \<and> fs_wf n \<and> map_of es x = Some n"
  by auto

lemma fs_wf_lookup: "fs_wf n \<Longrightarrow> fs_lookup n xs = Inr m \<Longrightarrow> fs_wf m"
proof (induction xs arbitrary: n)
  case (Cons x xs)
  then show ?case
    by (cases n) (fastforce split: option.splits dest: map_of_SomeD)+
qed simp

subsection \<open>fs.WalkDir\<close>

datatype walk_ctl = WNil | WSkipDir | WErr err

type_synonym 'a walk_fn = "string \<Rightarrow> fsnode option \<Rightarrow> fs_err option \<Rightarrow> 'a \<Rightarrow> walk_ctl \<times> 'a"

fun walk_dir :: "'a walk_fn \<Rightarrow> string \<Rightarrow> fsnode \<Rightarrow> 'a \<Rightarrow> walk_ctl \<times> 'a"
  and walk_list :: "'a walk_fn \<Rightarrow> string \<Rightarrow> nat \<Rightarrow> (string \<times> fsnode) list \<Rightarrow> 'a \<Rightarrow> walk_ctl \<times> 'a"
  where
  "walk_dir fn name (File r) acc = fn name (Some (File r)) None acc"
| "walk_dir fn name (Link t) acc = fn name (Some (Link t)) None acc"
| "walk_dir fn name (Dir i l es) acc =
     (case fn name (Some (Dir i l es)) None acc of
        (WErr e, acc1) \<Rightarrow> (WErr e, acc1)
      | (WSkipDir, acc1) \<Rightarrow> (WNil, acc1)
      | (WNil, acc1) \<Rightarrow>
          (case l of
             None \<Rightarrow> walk_list fn name (length es) es acc1
           | Some (e, k) \<Rightarrow>
               (case fn name (Some (Dir i l es)) (Some e) acc1 of
                  (WErr e', acc2) \<Rightarrow> (WErr e', acc2)
                | (WSkipDir, acc2) \<Rightarrow> (WNil, acc2)
                | (WNil, acc2) \<Rightarrow> walk_list fn name k es acc2)))"
| "walk_list fn name k [] acc = (WNil, acc)"
| "walk_list fn name k ((x, n) # es) acc =
     (if k = 0 then (WNil, acc)
      else case walk_dir fn (path_join name x) n acc of
             (WErr e, acc1) \<Rightarrow> (WErr e, acc1)
           | (WSkipDir, acc1) \<Rightarrow> (WNil, acc1)
           | (WNil, acc1) \<Rightarrow> walk_list fn name (k - 1) es acc1)"

definition walk :: "fsnode \<Rightarrow> string \<Rightarrow> 'a walk_fn \<Rightarrow> 'a \<Rightarrow> err option \<times> 'a" where
  "walk fs root fn acc =
     (let (ctl, acc') =
        (case fs_node fs root of
           Inl e \<Rightarrow> fn root None (Some e) acc
         | Inr n \<Rightarrow> walk_dir fn root n acc)
      in (case ctl of WErr e \<Rightarrow> (Some e, acc') | _ \<Rightarrow> (None, acc')))"

text \<open>
  An invariant of the accumulator that every visit of a reachable entry keeps holds at the
  end of the walk. \<open>R\<close> says which names and entries the walk may meet.
\<close>

definition walk_keeps ::
  "(string \<Rightarrow> fsnode \<Rightarrow> bool) \<Rightarrow> ('a \<Rightarrow> bool) \<Rightarrow> 'a walk_fn \<Rightarrow> bool" where
  "walk_keeps R I fn \<longleftrightarrow>
     (\<forall>name n e acc. R name n \<longrightarrow> I acc \<longrightarrow> I (snd (fn name (Some n) e acc))) \<and>
     (\<forall>name i l es x n. R name (Dir i l es) \<longrightarrow> (x, n) \<in> set es \<longrightarrow> R (path_join name x) n)"

lemma walk_keepsD:
  assumes "walk_keeps R I fn"
  shows "R name n \<Longrightarrow> I acc \<Longrightarrow> fn name (Some n) e acc = (r, acc') \<Longrightarrow> I acc'"
    and "R name (Dir i l es) \<Longrightarrow> (x, n) \<in> set es \<Longrightarrow> R (path_join name x) n"
proof -
  show "R name n \<Longrightarrow> I acc \<Longrightarrow> fn name (Some n) e acc = (r, acc') \<Longrightarrow> I acc'"
    using assms unfolding walk_keeps_def by (metis snd_conv)
  show "R name (Dir i l es) \<Longrightarrow> (x, n) \<in> set es \<Longrightarrow> R (path_join name x) n"
    using assms unfolding walk_keeps_def by blast
qed

lemma walk_dir_invariant:
  shows "walk_keeps R I fn \<Longrightarrow> R name n \<Longrightarrow> I acc \<Longrightarrow> I (snd (walk_dir fn name n acc))"
    and "walk_keeps R I fn \<Longrightarrow> \<forall>(x, n) \<in> set es. R (path_join name x) n \<Longrightarrow> I acc \<Longrightarrow>
           I (snd (walk_list fn name k es acc))"
proof (induction fn name n acc and fn name k es acc rule: walk_dir_walk_list.induct)
  case (1 fn name r acc)
  then show ?case by (auto simp: walk_keeps_def)
next
  case (2 fn name t acc)
  then show ?case by (auto simp: walk_keeps_def)
next
  case (3 fn name i l es acc)
  note keeps = walk_keepsD [OF 3(3)]
  have ch: "\<forall>(x, n) \<in> set es. R (path_join name x) n"
    using keeps(2) 3(4) by blast
  have here: "I acc1" if "fn name (Some (Dir i l es)) e a = (r, acc1)" "I a" for e a r acc1
    using keeps(1) [OF 3(4)] that by blast
  show ?case
    using 3(1,2) 3(3,5) ch here
    by (auto split: prod.splits walk_ctl.splits option.splits) metis
next
  case (4 fn name k acc)
  then show ?case by simp
next
  case (5 fn name k x n es acc)
  then show ?case
    by (auto split: prod.splits walk_ctl.splits)
qed

text \<open>The names a walk meets below a plain path are the paths to what it meets.\<close>

definition names_node :: "fsnode \<Rightarrow> string \<Rightarrow> fsnode \<Rightarrow> bool" where
  "names_node fs name n \<longleftrightarrow>
     (\<exists>xs. plain xs \<and> name = (if xs = [] then ''.'' else join ''/'' xs) \<and> fs_lookup fs xs = Inr n)"

lemma names_node_root: "names_node fs ''.'' fs"
  unfolding names_node_def by (rule exI [of _ "[]"]) simp

lemma names_node_join:
  assumes "plain xs" "xs \<noteq> []" "fs_lookup fs xs = Inr n"
  shows "names_node fs (join ''/'' xs) n"
  using assms unfolding names_node_def by (intro exI [of _ xs]) simp

lemma names_node_child:
  assumes wf: "fs_wf fs" and nn: "names_node fs name (Dir i l es)" and mem: "(x, n) \<in> set es"
  shows "names_node fs (path_join name x) n"
proof -
  obtain xs where xs: "plain xs" "name = (if xs = [] then ''.'' else join ''/'' xs)"
    "fs_lookup fs xs = Inr (Dir i l es)"
    using nn by (auto simp: names_node_def)
  have ch: "plain_seg x" "map_of es x = Some n"
    using fs_wf_child [OF fs_wf_lookup [OF wf xs(3)] mem] by auto
  have "fs_lookup fs (xs @ [x]) = Inr n"
    using xs(3) ch by (simp add: fs_lookup_append)
  moreover have "path_join name x = join ''/'' (xs @ [x])"
    using xs ch by (auto simp: path_join_plain path_join_dot)
  ultimately show ?thesis
    using xs(1) ch names_node_join [of "xs @ [x]"] by simp
qed

lemma names_node_fs_node: "names_node fs name n \<Longrightarrow> fs_node fs name = Inr n"
  by (auto simp: names_node_def fs_node_def fs_segs_join split: if_splits)

subsection \<open>Walks that visit everything\<close>

text \<open>
  In a tree whose directories all list without an error, a walk whose callback never stops
  or skips visits every entry once, in preorder.
\<close>

fun listable :: "fsnode \<Rightarrow> bool" where
  "listable (Dir i l es) \<longleftrightarrow> l = None \<and> (\<forall>(x, n) \<in> set es. listable n)"
| "listable _ \<longleftrightarrow> True"

fun tree_entries :: "string \<Rightarrow> fsnode \<Rightarrow> (string \<times> fsnode) list" where
  "tree_entries name (Dir i l es) =
     (name, Dir i l es) # concat (map (\<lambda>(x, n). tree_entries (path_join name x) n) es)"
| "tree_entries name (File r) = [(name, File r)]"
| "tree_entries name (Link t) = [(name, Link t)]"

definition visit :: "'a walk_fn \<Rightarrow> 'a \<Rightarrow> string \<times> fsnode \<Rightarrow> 'a" where
  "visit fn acc e = snd (fn (fst e) (Some (snd e)) None acc)"

definition never_stops :: "'a walk_fn \<Rightarrow> bool" where
  "never_stops fn \<longleftrightarrow> (\<forall>name n acc. fst (fn name (Some n) None acc) = WNil)"

lemma never_stopsD: "never_stops fn \<Longrightarrow> fn name (Some n) None acc = (WNil, visit fn acc (name, n))"
  by (simp add: never_stops_def visit_def prod_eq_iff)

lemma walk_dir_visits_all:
  shows "never_stops fn \<Longrightarrow> listable n \<Longrightarrow>
           walk_dir fn name n acc = (WNil, foldl (visit fn) acc (tree_entries name n))"
    and "never_stops fn \<Longrightarrow> \<forall>(x, n) \<in> set es. listable n \<Longrightarrow> k = length es \<Longrightarrow>
           walk_list fn name k es acc =
             (WNil, foldl (visit fn) acc (concat (map (\<lambda>(x, n). tree_entries (path_join name x) n) es)))"
proof (induction fn name n acc and fn name k es acc rule: walk_dir_walk_list.induct)
  case (3 fn name i l es acc)
  then show ?case by (auto simp: never_stopsD)
next
  case (5 fn name k x n es acc)
  then show ?case by (auto simp: never_stopsD)
qed (simp_all add: never_stopsD)

lemma tree_entries_self: "(name, n) \<in> set (tree_entries name n)"
  by (cases n) auto

lemma tree_entries_lookup:
  assumes "fs_wf n" "plain ys" "plain xs" "fs_lookup n ys = Inr d"
    and "name = (if xs = [] then ''.'' else join ''/'' xs)"
  shows "(if xs @ ys = [] then ''.'' else join ''/'' (xs @ ys), d) \<in> set (tree_entries name n)"
  using assms
proof (induction ys arbitrary: n xs name)
  case Nil
  then show ?case by (simp add: tree_entries_self)
next
  case (Cons y ys)
  obtain i l es m where n: "n = Dir i l es" "map_of es y = Some m" "fs_lookup m ys = Inr d"
    using Cons.prems(4) by (auto split: fsnode.splits option.splits)
  have mem: "(y, m) \<in> set es" using n(2) by (rule map_of_SomeD)
  have wf: "fs_wf m" using Cons.prems(1) mem n(1) by auto
  have nm: "path_join name y = join ''/'' (xs @ [y])"
    using Cons.prems(2,3,5) by (auto simp: path_join_plain path_join_dot)
  have "(if (xs @ [y]) @ ys = [] then ''.'' else join ''/'' ((xs @ [y]) @ ys), d) \<in>
      set (tree_entries (path_join name y) m)"
    using Cons.prems(2,3) nm by (intro Cons.IH [OF wf _ _ n(3)]) auto
  then show ?case
    using mem n(1) by auto
qed

lemma listable_lookup: "listable n \<Longrightarrow> fs_lookup n xs = Inr m \<Longrightarrow> listable m"
proof (induction xs arbitrary: n)
  case (Cons x xs)
  then show ?case
    by (cases n) (fastforce split: option.splits dest: map_of_SomeD)+
qed simp

end
