(* ===== verification/ProcFS.thy ===== *)
theory ProcFS
  imports FileSystem
begin

section \<open>Reading /proc\<close>

text \<open>
  Models \<open>src/internal/procfs/parse.go\<close> and \<open>procfs.go\<close>: the parsers of
  \<open>/proc/<pid>/status\<close>, \<open>cmdline\<close>, \<open>cgroup\<close> and the namespace link, the record of one
  process, and the listings. A PID is a Go \<open>int\<close>, here an \<open>int\<close> within the 64-bit range
  \<open>atoi\<close> enforces; sizes are 64-bit words and multiply with wrap-around.
\<close>

record status =
  st_name :: string
  st_state :: string
  st_pid :: int
  st_ppid :: int
  st_nspid :: int
  st_rss_bytes :: u64
  st_vm_size_bytes :: u64

definition status_zero :: status where
  "status_zero = \<lparr>st_name = [], st_state = [], st_pid = 0, st_ppid = 0, st_nspid = 0,
     st_rss_bytes = 0, st_vm_size_bytes = 0\<rparr>"

definition kibibyte :: u64 where
  "kibibyte = 1024"

definition parse_innermost_nspid :: "string \<Rightarrow> err + int" where
  "parse_innermost_nspid value =
     (let fs = str_fields value in if fs = [] then Inr 0 else atoi (last fs))"

definition parse_size_kb :: "string \<Rightarrow> err + u64" where
  "parse_size_kb value =
     res_bind (parse_uint (trim_space (cut_before '' '' value))) (\<lambda>size. Inr (size * kibibyte))"

definition status_line :: "status \<Rightarrow> string \<Rightarrow> err + status" where
  "status_line st line =
     (case cut '':'' line of
        None \<Rightarrow> Inr st
      | Some (key, raw) \<Rightarrow>
          (let value = trim_space raw in
             if key = ''Name'' then Inr (st\<lparr>st_name := value\<rparr>)
             else if key = ''State'' then Inr (st\<lparr>st_state := cut_before '' '' value\<rparr>)
             else if key = ''Pid'' then res_bind (atoi value) (\<lambda>v. Inr (st\<lparr>st_pid := v\<rparr>))
             else if key = ''PPid'' then res_bind (atoi value) (\<lambda>v. Inr (st\<lparr>st_ppid := v\<rparr>))
             else if key = ''NSpid'' then
               res_bind (parse_innermost_nspid value) (\<lambda>v. Inr (st\<lparr>st_nspid := v\<rparr>))
             else if key = ''VmRSS'' then
               res_bind (parse_size_kb value) (\<lambda>v. Inr (st\<lparr>st_rss_bytes := v\<rparr>))
             else if key = ''VmSize'' then
               res_bind (parse_size_kb value) (\<lambda>v. Inr (st\<lparr>st_vm_size_bytes := v\<rparr>))
             else Inr st))"

fun status_lines :: "status \<Rightarrow> string list \<Rightarrow> err + status" where
  "status_lines st [] = Inr st"
| "status_lines st (l # ls) = res_bind (status_line st l) (\<lambda>st'. status_lines st' ls)"

definition parse_status :: "string \<Rightarrow> err + status" where
  "parse_status data =
     (let (ls, too_long) = scan_lines data
      in res_bind (status_lines status_zero ls) (\<lambda>st.
           if too_long then Inl ETooLong
           else Inr (if st_nspid st = 0 then st\<lparr>st_nspid := st_pid st\<rparr> else st)))"

text \<open>A nil slice and an empty one are both the empty list.\<close>

definition nul :: char where
  "nul = CHR 0x00"

definition trim_right_nul :: "string \<Rightarrow> string" where
  "trim_right_nul s = rev (dropWhile (\<lambda>c. c = nul) (rev s))"

definition parse_cmdline :: "string \<Rightarrow> string list" where
  "parse_cmdline data =
     (let trimmed = trim_right_nul data
      in if trimmed = [] then [] else split_on nul trimmed)"

definition normalise_cgroup_path :: "string \<Rightarrow> string" where
  "normalise_cgroup_path p = path_clean p"

fun cgroup_line :: "string \<times> string \<Rightarrow> string \<Rightarrow> string \<times> string" where
  "cgroup_line (unified, memory) line =
     (case split_n3 (CHR '':'') line of
        [hid, controllers, cpath] \<Rightarrow>
          if controllers = [] then (cpath, memory)
          else if ''memory'' \<in> set (split_on (CHR '','') controllers) then (unified, cpath)
          else (unified, memory)
      | _ \<Rightarrow> (unified, memory))"

definition parse_cgroup :: "string \<Rightarrow> err + string" where
  "parse_cgroup data =
     (let (ls, too_long) = scan_lines data; (unified, memory) = foldl cgroup_line ([], []) ls
      in if too_long then Inl ETooLong
         else if unified \<noteq> [] then Inr (normalise_cgroup_path unified)
         else if memory \<noteq> [] then Inr (normalise_cgroup_path memory)
         else Inl (EMsg ''no unified or memory cgroup line found''))"

definition parse_namespace_inode :: "string \<Rightarrow> err + u64" where
  "parse_namespace_inode target =
     (case (index_byte target (CHR ''[''), index_byte target (CHR '']'')) of
        (Some op, Some cl) \<Rightarrow>
          if cl < op then Inl (EMsg ''malformed namespace link'')
          else parse_uint (drop (op + 1) (take cl target))
      | _ \<Rightarrow> Inl (EMsg ''malformed namespace link''))"

subsection \<open>Processes\<close>

record process =
  p_pid :: int
  p_nspid :: int
  p_ppid :: int
  p_comm :: string
  p_cmdline :: "string list"
  p_state :: string
  p_rss_bytes :: u64
  p_vm_size_bytes :: u64
  p_cgroup_path :: string
  p_pid_namespace :: u64

text \<open>A /proc tree; \<open>pf_links\<close> says whether the file system resolves symbolic links.\<close>

record procfs =
  pf_root :: fsnode
  pf_links :: bool

definition namespace_inode :: "procfs \<Rightarrow> string \<Rightarrow> u64" where
  "namespace_inode f dir =
     (if \<not> pf_links f then 0
      else case fs_read_link (pf_root f) (path_join (path_join dir ''ns'') ''pid'') of
             Inl e \<Rightarrow> 0
           | Inr target \<Rightarrow>
               (case parse_namespace_inode target of Inl e \<Rightarrow> 0 | Inr inode \<Rightarrow> inode))"

definition read_process :: "procfs \<Rightarrow> int \<Rightarrow> err + process" where
  "read_process f pid =
     (let dir = itoa pid in
      res_bind (fs_read (pf_root f) (path_join dir ''status'')) (\<lambda>status_data.
      res_bind (parse_status status_data) (\<lambda>st.
        let cmdline = (case fs_read (pf_root f) (path_join dir ''cmdline'') of
                         Inr d \<Rightarrow> parse_cmdline d | Inl e \<Rightarrow> []);
            cpath = (case fs_read (pf_root f) (path_join dir ''cgroup'') of
                       Inr d \<Rightarrow> (case parse_cgroup d of Inr p \<Rightarrow> p | Inl e \<Rightarrow> [])
                     | Inl e \<Rightarrow> [])
        in Inr \<lparr>p_pid = pid, p_nspid = st_nspid st, p_ppid = st_ppid st, p_comm = st_name st,
             p_cmdline = cmdline, p_state = st_state st, p_rss_bytes = st_rss_bytes st,
             p_vm_size_bytes = st_vm_size_bytes st, p_cgroup_path = cpath,
             p_pid_namespace = namespace_inode f dir\<rparr>)))"

fun read_processes :: "procfs \<Rightarrow> int list \<Rightarrow> process list" where
  "read_processes f [] = []"
| "read_processes f (pid # pids) =
     (case read_process f pid of
        Inl e \<Rightarrow> read_processes f pids
      | Inr p \<Rightarrow> p # read_processes f pids)"

fun numeric_entries :: "(string \<times> fsnode) list \<Rightarrow> int list" where
  "numeric_entries [] = []"
| "numeric_entries ((name, n) # es) =
     (case atoi name of Inl e \<Rightarrow> numeric_entries es | Inr pid \<Rightarrow> pid # numeric_entries es)"

definition proc_pids :: "procfs \<Rightarrow> err + int list" where
  "proc_pids f = res_bind (fs_read_dir (pf_root f) ''.'') (\<lambda>es. Inr (sort (numeric_entries es)))"

definition processes :: "procfs \<Rightarrow> err + process list" where
  "processes f = res_bind (proc_pids f) (\<lambda>pids. Inr (read_processes f pids))"

text \<open>
  The order of \<open>sortByMemory\<close>, and of the poller's candidate list: heaviest first, PID
  ascending on a tie. It is a linear order of its own type, so the sorting library applies.
\<close>

datatype mem_order = MemKey u64 int

instantiation mem_order :: linorder
begin

fun less_eq_mem_order :: "mem_order \<Rightarrow> mem_order \<Rightarrow> bool" where
  "less_eq_mem_order (MemKey r p) (MemKey r' p') \<longleftrightarrow> r' < r \<or> (r = r' \<and> p \<le> p')"

definition less_mem_order :: "mem_order \<Rightarrow> mem_order \<Rightarrow> bool" where
  "less_mem_order a b \<longleftrightarrow> a \<le> b \<and> \<not> b \<le> a"

instance
proof
  fix a b c :: mem_order
  show "a < b \<longleftrightarrow> a \<le> b \<and> \<not> b \<le> a" by (simp add: less_mem_order_def)
  show "a \<le> a" by (cases a) simp
  show "a \<le> b \<Longrightarrow> b \<le> c \<Longrightarrow> a \<le> c" by (cases a; cases b; cases c) auto
  show "a \<le> b \<Longrightarrow> b \<le> a \<Longrightarrow> a = b" by (cases a; cases b) auto
  show "a \<le> b \<or> b \<le> a" by (cases a; cases b) auto
qed

end

definition mem_key :: "process \<Rightarrow> mem_order" where
  "mem_key p = MemKey (p_rss_bytes p) (p_pid p)"

definition sort_by_memory :: "process list \<Rightarrow> process list" where
  "sort_by_memory ps = sort_key mem_key ps"

definition processes_with_pids :: "procfs \<Rightarrow> int list \<Rightarrow> process list" where
  "processes_with_pids f pids = sort_by_memory (read_processes f pids)"

subsection \<open>Status files\<close>

text \<open>A line of \<open>/proc/<pid>/status\<close> as the kernel writes it, and the lines of one file.\<close>

definition status_kv :: "string \<Rightarrow> string \<Rightarrow> string" where
  "status_kv key value = key @ [CHR '':'', CHR 0x09] @ value"

definition kernel_status ::
  "string \<Rightarrow> string \<Rightarrow> nat \<Rightarrow> nat \<Rightarrow> nat list \<Rightarrow> nat \<Rightarrow> nat \<Rightarrow> string list" where
  "kernel_status name state pid ppid nspids vm_kb rss_kb =
     [status_kv ''Name'' name, status_kv ''Umask'' ''0022'',
      status_kv ''State'' (state @ '' (sleeping)''),
      status_kv ''Tgid'' (show_nat pid), status_kv ''Pid'' (show_nat pid),
      status_kv ''PPid'' (show_nat ppid),
      status_kv ''NSpid'' (join [CHR 0x09] (map show_nat nspids)),
      status_kv ''VmSize'' (''  '' @ show_nat vm_kb @ '' kB''),
      status_kv ''VmRSS'' (''    '' @ show_nat rss_kb @ '' kB'')]"

lemma cut_status_kv:
  "CHR '':'' \<notin> set key \<Longrightarrow> cut '':'' (status_kv key value) = Some (key, CHR 0x09 # value)"
  using cut_singleton [of "CHR '':''" key "CHR 0x09 # value"] by (simp add: status_kv_def)

lemma parse_size_kb_text: "n < 2 ^ 64 \<Longrightarrow> parse_size_kb (show_nat n @ '' kB'') = Inr (of_nat n * kibibyte)"
proof -
  have "CHR '' '' \<notin> set (show_nat n)"
    using show_nat_digits [of n] by (rule is_digits_not_mem) (simp add: digit_val_def)
  then have "cut_before '' '' (show_nat n @ '' kB'') = show_nat n"
    using cut_before_singleton [of "CHR '' ''" "show_nat n" "''kB''"] by simp
  then show "n < 2 ^ 64 \<Longrightarrow> ?thesis"
    by (simp add: parse_size_kb_def parse_uint_show_nat)
qed

lemma trim_size_text: "trim_space (show_nat n @ '' kB'') = show_nat n @ '' kB''"
proof (rule trim_space_text)
  have "graphic (show_nat n)" by simp
  then show "graphic [hd (show_nat n @ '' kB'')]"
    using show_nat_nonempty [of n] by (cases "show_nat n") auto
qed auto

lemma parse_innermost_nspid_text:
  assumes "nss \<noteq> []" "\<forall>n \<in> set nss. n < 2 ^ 63"
  shows "parse_innermost_nspid (join [CHR 0x09] (map show_nat nss)) = Inr (int (last nss))"
  using assms fields_join [of "CHR 0x09" "map show_nat nss"]
  by (simp add: parse_innermost_nspid_def last_map atoi_show_nat)

lemma trim_nspid_text: "nss \<noteq> [] \<Longrightarrow>
  trim_space (join [CHR 0x09] (map show_nat nss)) = join [CHR 0x09] (map show_nat nss)"
proof (rule trim_space_text)
  assume ne: "nss \<noteq> []"
  have j: "join [CHR 0x09] (map show_nat nss) \<noteq> []" if "nss \<noteq> []" for nss
    using that by (cases nss rule: remdups_adj.cases) auto
  show "join [CHR 0x09] (map show_nat nss) \<noteq> []" using j ne by blast
  have g: "graphic [hd (show_nat n)]" "graphic [last (show_nat n)]" for n
    using graphic_show_nat [of n] show_nat_nonempty [of n]
    by (auto simp: graphic_def simp del: graphic_show_nat)
  show "graphic [hd (join [CHR 0x09] (map show_nat nss))]"
    using ne g(1) by (cases nss rule: remdups_adj.cases) (simp_all add: hd_append)
  show "graphic [last (join [CHR 0x09] (map show_nat nss))]"
    using ne g(2) j
  proof (induction nss rule: induct_list012)
    case (3 n m nss)
    then show ?case using j [of "m # nss"] by simp
  qed auto
qed

lemma status_line_other:
  "CHR '':'' \<notin> set key \<Longrightarrow>
   key \<notin> {''Name'', ''State'', ''Pid'', ''PPid'', ''NSpid'', ''VmRSS'', ''VmSize''} \<Longrightarrow>
     status_line st (status_kv key value) = Inr st"
  by (simp add: status_line_def cut_status_kv Let_def)

lemma parse_kernel_status_lines:
  assumes "graphic name" "graphic state" "state \<noteq> []" "pid < 2 ^ 63" "ppid < 2 ^ 63"
    "nspids \<noteq> []" "\<forall>n \<in> set nspids. n < 2 ^ 63" "vm_kb < 2 ^ 64" "rss_kb < 2 ^ 64"
  shows "status_lines status_zero (kernel_status name state pid ppid nspids vm_kb rss_kb) =
    Inr \<lparr>st_name = name, st_state = state, st_pid = int pid, st_ppid = int ppid,
      st_nspid = int (last nspids), st_rss_bytes = of_nat rss_kb * kibibyte,
      st_vm_size_bytes = of_nat vm_kb * kibibyte\<rparr>"
proof -
  have st: "trim_space (state @ '' (sleeping)'') = state @ '' (sleeping)''"
    using assms(2,3) by (intro trim_space_text) (auto simp: graphic_def)
  have "CHR '' '' \<notin> set state"
    using assms(2) by (auto simp: graphic_def)
  then have sb: "cut_before '' '' (state @ '' (sleeping)'') = state"
    using cut_before_singleton [of "CHR '' ''" state "''(sleeping)''"] by simp
  show ?thesis
    using assms
    by (simp add: kernel_status_def status_line_def cut_status_kv st sb trim_size_text
        parse_size_kb_text trim_nspid_text parse_innermost_nspid_text atoi_show_nat Let_def
        status_zero_def)
qed

subsection \<open>Argument vectors, cgroup lines, namespace links\<close>

lemma trim_right_nul_append:
  "a \<noteq> [] \<Longrightarrow> last a \<noteq> nul \<Longrightarrow> trim_right_nul (a @ replicate k nul) = a"
proof -
  assume a: "a \<noteq> []" "last a \<noteq> nul"
  have "dropWhile (\<lambda>c. c = nul) (replicate k nul @ rev a) = rev a"
    using a by (induction k) (auto simp: dropWhile_eq_self_iff hd_rev)
  then show ?thesis by (simp add: trim_right_nul_def)
qed

text \<open>What the kernel writes: each argument followed by a NUL byte.\<close>

definition kernel_cmdline :: "string list \<Rightarrow> string" where
  "kernel_cmdline args = concat (map (\<lambda>a. a @ [nul]) args)"

lemma kernel_cmdline_join: "args \<noteq> [] \<Longrightarrow> kernel_cmdline args = join [nul] args @ [nul]"
  by (induction args rule: induct_list012) (auto simp: kernel_cmdline_def)

lemma last_join: "xs \<noteq> [] \<Longrightarrow> last xs \<noteq> [] \<Longrightarrow> join sep xs \<noteq> [] \<and> last (join sep xs) = last (last xs)"
proof (induction xs rule: induct_list012)
  case (3 x y xs)
  then show ?case by (auto simp: last_append)
qed auto

lemma parse_cmdline_kernel:
  assumes "\<forall>a \<in> set args. nul \<notin> set a" "args \<noteq> []" "last args \<noteq> []"
  shows "parse_cmdline (kernel_cmdline args) = args"
proof -
  have j: "join [nul] args \<noteq> []" "last (join [nul] args) = last (last args)"
    using last_join [OF assms(2,3)] by auto
  moreover have "last (last args) \<noteq> nul"
    using assms by (metis last_in_set)
  ultimately have "trim_right_nul (join [nul] args @ replicate 1 nul) = join [nul] args"
    by (intro trim_right_nul_append) auto
  then show ?thesis
    using j(1) assms(1,2) by (simp add: parse_cmdline_def kernel_cmdline_join split_on_join)
qed

lemma join_parse_cmdline: "join [nul] (parse_cmdline d) = trim_right_nul d"
  by (simp add: parse_cmdline_def Let_def join_split_on)

text \<open>A line the kernel writes: hierarchy number, controllers, path.\<close>

definition cgroup_text :: "string \<Rightarrow> string \<Rightarrow> string \<Rightarrow> string" where
  "cgroup_text hid controllers cpath = hid @ '':'' @ controllers @ '':'' @ cpath"

lemma split_cgroup_text:
  assumes "CHR '':'' \<notin> set hid" "CHR '':'' \<notin> set controllers"
  shows "split_n3 (CHR '':'') (cgroup_text hid controllers cpath) = [hid, controllers, cpath]"
  using assms cut_singleton [of "CHR '':''" hid "controllers @ CHR '':'' # cpath"]
    cut_singleton [of "CHR '':''" controllers cpath]
  by (simp add: split_n3_def cgroup_text_def)

lemma cgroup_line_unified:
  "CHR '':'' \<notin> set hid \<Longrightarrow> cgroup_line (u, m) (cgroup_text hid [] cpath) = (cpath, m)"
  by (simp add: split_cgroup_text)

lemma cgroup_line_controllers:
  "CHR '':'' \<notin> set hid \<Longrightarrow> CHR '':'' \<notin> set cs \<Longrightarrow> cs \<noteq> [] \<Longrightarrow>
     cgroup_line (u, m) (cgroup_text hid cs cpath) =
       (u, if ''memory'' \<in> set (split_on (CHR '','') cs) then cpath else m)"
  by (simp add: split_cgroup_text)

text \<open>Legacy lines leave the unified path alone; the last memory line is the one kept.\<close>

definition legacy_line :: "string \<times> string \<times> string \<Rightarrow> bool" where
  "legacy_line l = (case l of (hid, cs, p) \<Rightarrow>
     CHR '':'' \<notin> set hid \<and> CHR '':'' \<notin> set cs \<and> cs \<noteq> [])"

definition cgroup_texts :: "(string \<times> string \<times> string) list \<Rightarrow> string list" where
  "cgroup_texts ls = map (\<lambda>(hid, cs, p). cgroup_text hid cs p) ls"

lemma foldl_legacy:
  "\<forall>l \<in> set ls. legacy_line l \<Longrightarrow>
     foldl cgroup_line (u, m) (cgroup_texts ls) =
       (u, foldl (\<lambda>m (hid, cs, p). if ''memory'' \<in> set (split_on (CHR '','') cs) then p else m) m ls)"
proof (induction ls arbitrary: m)
  case (Cons l ls)
  then show ?case
    by (cases l) (auto simp: cgroup_texts_def legacy_line_def cgroup_line_controllers
        simp del: cgroup_line.simps)
qed (simp add: cgroup_texts_def)

lemma parse_cgroup_unified:
  assumes "\<forall>l \<in> set (pre @ post). legacy_line l" "p \<noteq> []"
    and "\<forall>l \<in> set (cgroup_texts pre @ [cgroup_text ''0'' [] p] @ cgroup_texts post). short_line l"
  shows "parse_cgroup (unlines (cgroup_texts pre @ [cgroup_text ''0'' [] p] @ cgroup_texts post)) =
    Inr (path_clean p)"
proof -
  have s: "scan_lines (unlines (cgroup_texts pre @ [cgroup_text ''0'' [] p] @ cgroup_texts post)) =
      (cgroup_texts pre @ [cgroup_text ''0'' [] p] @ cgroup_texts post, False)"
    by (rule scan_lines_unlines [OF assms(3)])
  have l: "\<forall>l \<in> set pre. legacy_line l" "\<forall>l \<in> set post. legacy_line l" "CHR '':'' \<notin> set ''0''"
    using assms(1) by auto
  show ?thesis
    unfolding parse_cgroup_def s Let_def normalise_cgroup_path_def
    using assms(2)
    by (simp add: foldl_legacy [OF l(1)] foldl_legacy [OF l(2)] cgroup_line_unified [OF l(3)]
        del: cgroup_line.simps)
qed

lemma rooted_segs_climb:
  assumes "plain xs"
  shows "rooted_segs (join ''/'' (replicate n ''..'' @ xs)) = xs"
proof (cases "replicate n ''..'' @ xs = []")
  case False
  have "CHR ''/'' \<notin> set x" if "x \<in> set (replicate n ''..'' @ xs)" for x
  proof (cases "x \<in> set xs")
    case True
    then show ?thesis using assms by (simp add: plain_def plain_seg_def)
  next
    case False
    then have "x = ''..''" using that by (metis in_set_replicate set_append Un_iff)
    then show ?thesis by simp
  qed
  then have "split_on (CHR ''/'') (join ''/'' (replicate n ''..'' @ xs)) = replicate n ''..'' @ xs"
    using False by (intro split_on_join) blast+
  then show ?thesis
    unfolding rooted_segs_def
    by (simp only: clean_segs_dotdots clean_segs_plain_id [OF assms]) simp
next
  case True
  then show ?thesis by (simp add: rooted_segs_def)
qed

lemma normalise_climb:
  "plain xs \<Longrightarrow>
     normalise_cgroup_path (CHR ''/'' # join ''/'' (replicate n ''..'' @ xs)) = CHR ''/'' # join ''/'' xs"
  by (simp only: normalise_cgroup_path_def path_clean_rooted rooted_segs_climb)

lemma index_byte_append: "c \<notin> set a \<Longrightarrow> index_byte (a @ c # b) c = Some (length a)"
  by (induction a) auto

lemma parse_namespace_inode_shape:
  assumes "CHR ''['' \<notin> set a" "CHR '']'' \<notin> set a" "CHR '']'' \<notin> set n"
  shows "parse_namespace_inode (a @ CHR ''['' # n @ CHR '']'' # b) = parse_uint n"
proof -
  have o: "index_byte (a @ CHR ''['' # n @ CHR '']'' # b) (CHR ''['') = Some (length a)"
    by (rule index_byte_append [OF assms(1)])
  have c: "index_byte (a @ CHR ''['' # n @ CHR '']'' # b) (CHR '']'') =
      Some (length (a @ CHR ''['' # n))"
    using index_byte_append [of "CHR '']''" "a @ CHR ''['' # n" b] assms by simp
  have t: "take (length (a @ CHR ''['' # n)) (a @ CHR ''['' # n @ CHR '']'' # b) = a @ CHR ''['' # n"
    by simp
  show ?thesis
    unfolding parse_namespace_inode_def o c option.case prod.case t by simp
qed

lemma parse_namespace_inode_link:
  "parse_namespace_inode (''pid:['' @ show_nat (unat inode) @ '']'') = Inr inode"
proof -
  have n: "CHR '']'' \<notin> set (show_nat (unat inode))"
    using show_nat_digits by (rule is_digits_not_mem) (simp add: digit_val_def)
  show ?thesis
    using parse_namespace_inode_shape [OF _ _ n, of "''pid:''" "[]"] by simp
qed

subsection \<open>Listings\<close>

lemma set_read_processes:
  "set (read_processes f pids) = {p. \<exists>pid \<in> set pids. read_process f pid = Inr p}"
  by (induction pids) (auto split: sum.splits)

lemma mset_read_processes:
  "mset (read_processes f pids) =
     image_mset (\<lambda>pid. projr (read_process f pid)) (filter_mset (\<lambda>pid. is_ok (read_process f pid)) (mset pids))"
  by (induction pids) (auto split: sum.splits)

lemma read_process_pid: "read_process f pid = Inr p \<Longrightarrow> p_pid p = pid"
  by (auto simp: read_process_def Let_def)

lemma map_pid_read_processes:
  "map p_pid (read_processes f pids) = filter (\<lambda>pid. is_ok (read_process f pid)) pids"
  by (induction pids) (auto split: sum.splits dest: read_process_pid)

lemma set_numeric_entries: "set (numeric_entries es) = {pid. \<exists>name \<in> fst ` set es. atoi name = Inr pid}"
  by (induction es rule: numeric_entries.induct) (auto split: sum.splits)

lemma mem_key_inj:
  "p \<in> set (read_processes f pids) \<Longrightarrow> q \<in> set (read_processes f pids) \<Longrightarrow>
     mem_key p = mem_key q \<Longrightarrow> p = q"
  by (clarsimp simp: set_read_processes mem_key_def) (metis read_process_pid sum.inject(2))

subsection \<open>Properties\<close>

text \<open>A \<open>/proc/<pid>/status\<close> file as the kernel writes it is read back: the name, the
  one-letter state, the PIDs, the PID of the innermost namespace and the two sizes in
  bytes, whatever the numbers are; a size of 2^54 kB or more wraps around.\<close>

theorem kernel_status_read:
  assumes "graphic name" "graphic state" "state \<noteq> []" "pid < 2 ^ 63" "ppid < 2 ^ 63"
    and "nspids \<noteq> []" "\<forall>n \<in> set nspids. n < 2 ^ 63" "vm_kb < 2 ^ 64" "rss_kb < 2 ^ 64"
    and "\<forall>l \<in> set (kernel_status name state pid ppid nspids vm_kb rss_kb). short_line l"
  shows "parse_status (unlines (kernel_status name state pid ppid nspids vm_kb rss_kb)) =
    Inr \<lparr>st_name = name, st_state = state, st_pid = int pid, st_ppid = int ppid,
      st_nspid = (if last nspids = 0 then int pid else int (last nspids)),
      st_rss_bytes = of_nat rss_kb * 1024, st_vm_size_bytes = of_nat vm_kb * 1024\<rparr>"
  using assms(10)
  by (simp add: parse_status_def scan_lines_unlines
      parse_kernel_status_lines [OF assms(1-9)] kibibyte_def)

theorem kernel_status_read_witness:
  "parse_status (unlines (kernel_status ''java'' ''S'' 4242 1 [4242, 7] 2048 1024)) =
    Inr \<lparr>st_name = ''java'', st_state = ''S'', st_pid = 4242, st_ppid = 1, st_nspid = 7,
      st_rss_bytes = 1048576, st_vm_size_bytes = 2097152\<rparr>"
proof -
  have "\<forall>l \<in> set (kernel_status ''java'' ''S'' 4242 1 [4242, 7] 2048 1024). short_line l"
    by (simp add: kernel_status_def status_kv_def short_line_def max_token_def show_nat.simps
        digit_char_eval)
  then show ?thesis
    using kernel_status_read [of "''java''" "''S''" 4242 1 "[4242, 7]" 2048 1024] by simp
qed

text \<open>A process is reported exactly when its status file reads and parses. Neither its
  argument vector, its cgroup file nor its namespace link can make it disappear.\<close>

theorem process_needs_only_status:
  "is_ok (read_process f pid) \<longleftrightarrow>
     (\<exists>d. fs_read (pf_root f) (path_join (itoa pid) ''status'') = Inr d \<and> is_ok (parse_status d))"
  by (cases "fs_read (pf_root f) (path_join (itoa pid) ''status'')")
    (auto simp: read_process_def is_ok_iff Let_def)

lemma listed_pids: "p \<in> set (processes_with_pids f pids) \<Longrightarrow> p_pid p \<in> set pids"
  by (auto simp: processes_with_pids_def sort_by_memory_def set_read_processes read_process_pid)

text \<open>Listing a container's processes returns exactly the readable ones among its PIDs,
  heaviest first with ties by PID, and the order \<open>cgroup.procs\<close> happened to list the PIDs
  in does not matter.\<close>

theorem processes_heaviest_first:
  assumes "mset pids' = mset pids"
  shows "processes_with_pids f pids' = processes_with_pids f pids \<and>
    set (processes_with_pids f pids) = {p. \<exists>pid \<in> set pids. read_process f pid = Inr p} \<and>
    sorted_wrt (\<lambda>p q. p_rss_bytes q < p_rss_bytes p \<or>
      p_rss_bytes q = p_rss_bytes p \<and> p_pid p \<le> p_pid q) (processes_with_pids f pids)"
proof (intro conjI)
  have "mset (read_processes f pids') = mset (read_processes f pids)"
    by (simp add: mset_read_processes assms)
  then show "processes_with_pids f pids' = processes_with_pids f pids"
    unfolding processes_with_pids_def sort_by_memory_def
    by (intro sort_key_unique) (auto intro: mem_key_inj)
  show "set (processes_with_pids f pids) = {p. \<exists>pid \<in> set pids. read_process f pid = Inr p}"
    by (simp add: processes_with_pids_def sort_by_memory_def set_read_processes)
  have "sorted (map mem_key (processes_with_pids f pids))"
    by (simp add: processes_with_pids_def sort_by_memory_def)
  then show "sorted_wrt (\<lambda>p q. p_rss_bytes q < p_rss_bytes p \<or>
      p_rss_bytes q = p_rss_bytes p \<and> p_pid p \<le> p_pid q) (processes_with_pids f pids)"
    by (auto simp: sorted_map mem_key_def elim!: sorted_wrt_mono_rel [rotated])
qed

definition demo_proc :: procfs where
  "demo_proc = \<lparr>pf_root = Dir None None
     [(''7'', Dir None None [(''status'', File (Inr (unlines [''Pid:'' @ ''7'', ''VmRSS:'' @ ''2 kB''])))]),
      (''9'', Dir None None [(''status'', File (Inr (unlines [''Pid:'' @ ''9'', ''VmRSS:'' @ ''5 kB''])))]),
      (''stat'', File (Inr []))], pf_links = False\<rparr>"

theorem processes_heaviest_first_witness:
  "processes_with_pids demo_proc [7, 9] = processes_with_pids demo_proc [9, 7]"
  using processes_heaviest_first [of "[7, 9]" "[9, 7]" demo_proc] by simp

text \<open>On a hybrid host the unified line of \<open>/proc/<pid>/cgroup\<close> wins over the controller
  lines around it, and the \<open>..\<close> elements a cgroup namespace puts in front are climbed away:
  the path that comes out is the absolute one.\<close>

theorem unified_cgroup_path_absolute:
  assumes "\<forall>l \<in> set (pre @ post). legacy_line l" "plain xs"
    and "\<forall>l \<in> set (cgroup_texts pre @
           [cgroup_text ''0'' [] (''/'' @ join ''/'' (replicate n ''..'' @ xs))] @ cgroup_texts post).
           short_line l"
  shows "parse_cgroup (unlines (cgroup_texts pre @
      [cgroup_text ''0'' [] (''/'' @ join ''/'' (replicate n ''..'' @ xs))] @ cgroup_texts post)) =
    Inr (''/'' @ join ''/'' xs)"
  using parse_cgroup_unified [OF assms(1) _ assms(3)] normalise_climb [OF assms(2), of n]
  by (simp add: normalise_cgroup_path_def)

theorem unified_cgroup_path_absolute_witness:
  "parse_cgroup (unlines (cgroup_texts [(''4'', ''memory'', ''/legacy'')] @
      [cgroup_text ''0'' [] (''/'' @ join ''/'' (replicate 2 ''..'' @ [''kubepods'', ''besteffort'']))] @
      cgroup_texts [(''2'', ''cpu,cpuacct'', ''/x'')])) = Inr (''/'' @ join ''/'' [''kubepods'', ''besteffort''])"
proof -
  have l: "\<forall>l \<in> set ([(''4'', ''memory'', ''/legacy'')] @ [(''2'', ''cpu,cpuacct'', ''/x'')]). legacy_line l"
    by (simp add: legacy_line_def)
  have p: "plain [''kubepods'', ''besteffort'']"
    by (simp add: plain_seg_def)
  show ?thesis
    by (rule unified_cgroup_path_absolute [OF l p])
      (simp add: cgroup_texts_def cgroup_text_def short_line_def max_token_def numeral_2_eq_2)
qed

end
