(* ===== verification/GoFloat.thy ===== *)
theory GoFloat
  imports GoStrconv Complex_Main "HOL-Library.Signed_Division"
begin

section \<open>Go float64 arithmetic\<close>

text \<open>
  The program divides byte counts, fits lines and parses pressure figures in \<open>float64\<close>.
  This theory models the IEEE-754 binary64 operations it uses exactly: a value is a
  rational, an infinity (\<open>True\<close> for the negative one) or not-a-number, and each operation
  rounds the exact result to the nearest representable value, ties to even, with gradual
  underflow and overflow to infinity. The two zeros are one value here: the program never
  divides by a zero it has not tested for, so it cannot tell them apart except in print. No
  multiplication and addition are fused, as on amd64.

  The main facts are that rounding is monotone, keeps the sign and is exact on integers up
  to 2^53.
\<close>

subsection \<open>Powers of two\<close>

definition pow2 :: "int \<Rightarrow> rat" where
  "pow2 e = (if 0 \<le> e then 2 ^ nat e else 1 / 2 ^ nat (- e))"

lemma pow2_pos [simp]: "0 < pow2 e"
  by (simp add: pow2_def)

lemma pow2_nonzero [simp]: "pow2 e \<noteq> 0"
  using pow2_pos [of e] by linarith

lemma pow2_0 [simp]: "pow2 0 = 1"
  by (simp add: pow2_def)

lemma pow2_powi: "pow2 e = 2 powi e"
  by (simp add: pow2_def power_int_def field_simps power_inverse)

lemma pow2_add: "pow2 (a + b) = pow2 a * pow2 b"
  by (simp add: pow2_powi power_int_add)

lemma pow2_mono: "a \<le> b \<Longrightarrow> pow2 a \<le> pow2 b"
  by (simp add: pow2_powi power_int_increasing)

lemma pow2_of_nat: "pow2 (int n) = 2 ^ n"
  by (simp add: pow2_def)

subsection \<open>The binary exponent of a positive rational\<close>

fun ilog2 :: "nat \<Rightarrow> nat" where
  "ilog2 n = (if n < 2 then 0 else Suc (ilog2 (n div 2)))"

declare ilog2.simps [simp del]

lemma ilog2_bounds: "0 < n \<Longrightarrow> 2 ^ ilog2 n \<le> n \<and> n < 2 * 2 ^ ilog2 n"
proof (induction n rule: ilog2.induct)
  case (1 n)
  show ?case
  proof (cases "n < 2")
    case True
    then show ?thesis using 1 by (simp add: ilog2.simps)
  next
    case False
    then have "2 ^ ilog2 (n div 2) \<le> n div 2 \<and> n div 2 < 2 * 2 ^ ilog2 (n div 2)"
      using 1(1) by simp
    then show ?thesis
      using False by (subst (1 2) ilog2.simps) auto
  qed
qed

text \<open>The \<open>e\<close> with \<open>2^e \<le> x < 2^(e+1)\<close>, for a positive \<open>x\<close>.\<close>

definition rat_exp :: "rat \<Rightarrow> int" where
  "rat_exp x =
     (if 1 \<le> x then int (ilog2 (nat \<lfloor>x\<rfloor>))
      else let n = nat \<lceil>1 / x\<rceil> in if n \<le> 1 then 0 else - int (Suc (ilog2 (n - 1))))"

lemma rat_exp_bounds:
  assumes "0 < x"
  shows "pow2 (rat_exp x) \<le> x" "x < pow2 (rat_exp x + 1)"
proof -
  have "pow2 (rat_exp x) \<le> x \<and> x < pow2 (rat_exp x + 1)"
  proof (cases "1 \<le> x")
    case True
    define n where "n = nat \<lfloor>x\<rfloor>"
    have n: "0 < n" "of_nat n \<le> x" "x < of_nat n + 1"
      using True unfolding n_def by (auto simp: le_floor_iff) linarith+
    have e: "rat_exp x = int (ilog2 n)"
      using True by (simp add: rat_exp_def n_def)
    note b = ilog2_bounds [OF n(1)]
    have lo: "(2 :: rat) ^ ilog2 n \<le> x"
      using of_nat_mono [OF conjunct1 [OF b], where 'a = rat] n(2)
      by (simp only: of_nat_power of_nat_numeral)
    have "(of_nat (n + 1) :: rat) \<le> of_nat (2 * 2 ^ ilog2 n)"
      using b by (intro of_nat_mono) simp
    then show ?thesis
      using lo
      using n by (simp add: e pow2_add pow2_of_nat pow2_def [of 1] mult.commute)
  next
    case False
    define n where "n = nat \<lceil>1 / x\<rceil>"
    have inv: "1 < 1 / x" using assms False by simp
    have n: "1 / x \<le> of_nat n" "of_nat n < 1 / x + 1" "1 < n"
      using inv unfolding n_def by linarith+
    have e: "rat_exp x = - int (Suc (ilog2 (n - 1)))"
      using False n(3) by (simp add: rat_exp_def n_def [symmetric] Let_def)
    have b: "2 ^ ilog2 (n - 1) \<le> n - 1" "n - 1 < 2 * 2 ^ ilog2 (n - 1)"
      using ilog2_bounds [of "n - 1"] n(3) by auto
    have "(of_nat n :: rat) \<le> of_nat (2 * 2 ^ ilog2 (n - 1))"
      using b(2) n(3) by (intro of_nat_mono) linarith
    then have lo: "1 / x \<le> 2 * 2 ^ ilog2 (n - 1)"
      using n(1) by simp
    have "(of_nat (2 ^ ilog2 (n - 1) + 1) :: rat) \<le> of_nat n"
      using b(1) n(3) by (intro of_nat_mono) linarith
    then have hi: "2 ^ ilog2 (n - 1) < 1 / x"
      using n(2) by simp
    have p: "pow2 (rat_exp x) = 1 / (2 * 2 ^ ilog2 (n - 1))"
      unfolding e pow2_def by (simp add: nat_add_distrib)
    have q: "pow2 (rat_exp x + 1) = 1 / 2 ^ ilog2 (n - 1)"
      by (simp add: pow2_add p) (simp add: pow2_def)
    have "pow2 (rat_exp x) \<le> x"
      unfolding p using lo assms by (simp add: field_simps)
    moreover have "x < 1 / 2 ^ ilog2 (n - 1)"
      using hi assms by (simp add: field_simps)
    ultimately show ?thesis using q by simp
  qed
  then show "pow2 (rat_exp x) \<le> x" "x < pow2 (rat_exp x + 1)" by auto
qed

lemma rat_exp_unique:
  assumes "pow2 e \<le> x" "x < pow2 (e + 1)"
  shows "rat_exp x = e"
proof -
  have pos: "0 < x" using assms(1) pow2_pos [of e] by linarith
  have "\<not> rat_exp x < e"
    using rat_exp_bounds(2) [OF pos] assms(1) pow2_mono [of "rat_exp x + 1" e] by force
  moreover have "\<not> e < rat_exp x"
    using rat_exp_bounds(1) [OF pos] assms(2) pow2_mono [of "e + 1" "rat_exp x"] by force
  ultimately show ?thesis by simp
qed

lemma rat_exp_mono: "0 < x \<Longrightarrow> x \<le> y \<Longrightarrow> rat_exp x \<le> rat_exp y"
  using rat_exp_bounds(1) [of x] rat_exp_bounds(2) [of y] pow2_mono [of "rat_exp y + 1" "rat_exp x"]
  by force

subsection \<open>Rounding\<close>

text \<open>The nearest integer, the even one on a tie.\<close>

definition round_even :: "rat \<Rightarrow> int" where
  "round_even x =
     (let f = \<lfloor>x\<rfloor>; d = x - of_int f in
      if d < 1 / 2 then f else if 1 / 2 < d then f + 1 else if even f then f else f + 1)"

lemma round_even_cases: "round_even x = \<lfloor>x\<rfloor> \<or> round_even x = \<lfloor>x\<rfloor> + 1"
  by (simp add: round_even_def Let_def)

lemma round_even_of_int [simp]: "round_even (of_int k) = k"
  by (simp add: round_even_def)

lemma round_even_mono: "x \<le> y \<Longrightarrow> round_even x \<le> round_even y"
proof -
  assume le: "x \<le> y"
  then have fl: "\<lfloor>x\<rfloor> \<le> \<lfloor>y\<rfloor>" by (rule floor_mono)
  show ?thesis
  proof (cases "\<lfloor>x\<rfloor> = \<lfloor>y\<rfloor>")
    case True
    then show ?thesis using le by (auto simp: round_even_def Let_def)
  next
    case False
    then have "\<lfloor>x\<rfloor> + 1 \<le> \<lfloor>y\<rfloor>" using fl by simp
    then show ?thesis using round_even_cases [of x] round_even_cases [of y] by linarith
  qed
qed

lemma round_even_ge_int: "of_int k \<le> x \<Longrightarrow> k \<le> round_even x"
  using round_even_mono [of "of_int k" x] by simp

lemma round_even_le_int: "x \<le> of_int k \<Longrightarrow> round_even x \<le> k"
  using round_even_mono [of x "of_int k"] by simp

lemma round_even_dist: "\<bar>of_int (round_even x) - x\<bar> \<le> 1 / 2"
  using floor_correct [of x] by (auto simp: round_even_def Let_def)

text \<open>The exponent of the last place kept: 53 bits, but never below 2^-1074.\<close>

definition ulp_exp :: "rat \<Rightarrow> int" where
  "ulp_exp x = max (- 1074) (rat_exp x - 52)"

definition round_mag :: "rat \<Rightarrow> rat" where
  "round_mag x = (if x = 0 then 0 else of_int (round_even (x / pow2 (ulp_exp x))) * pow2 (ulp_exp x))"

lemma ulp_exp_mono: "0 < x \<Longrightarrow> x \<le> y \<Longrightarrow> ulp_exp x \<le> ulp_exp y"
  using rat_exp_mono [of x y] by (simp add: ulp_exp_def)

lemma round_mag_0 [simp]: "round_mag 0 = 0"
  by (simp add: round_mag_def)

lemma round_mag_nonneg: "0 \<le> x \<Longrightarrow> 0 \<le> round_mag x"
  using round_even_ge_int [of 0 "x / pow2 (ulp_exp x)"]
  by (simp add: round_mag_def less_imp_le)

text \<open>A multiple of the last place is kept as it is.\<close>

lemma round_mag_exact: "x = of_int k * pow2 (ulp_exp x) \<Longrightarrow> round_mag x = x"
proof -
  assume x: "x = of_int k * pow2 (ulp_exp x)"
  then have "x / pow2 (ulp_exp x) = of_int k"
    by (metis nonzero_mult_div_cancel_right pow2_nonzero)
  then show ?thesis using x by (simp add: round_mag_def)
qed

lemma round_mag_below:
  assumes "0 < x" "x \<le> of_int k * pow2 (ulp_exp x)"
  shows "round_mag x \<le> of_int k * pow2 (ulp_exp x)"
proof -
  have "x / pow2 (ulp_exp x) \<le> of_int k"
    using assms by (simp add: pos_divide_le_eq)
  then have "(of_int (round_even (x / pow2 (ulp_exp x))) :: rat) \<le> of_int k"
    using round_even_le_int by simp
  then show ?thesis using assms(1) by (simp add: round_mag_def)
qed

lemma round_mag_above:
  assumes "0 < x" "of_int k * pow2 (ulp_exp x) \<le> x"
  shows "of_int k * pow2 (ulp_exp x) \<le> round_mag x"
proof -
  have "of_int k \<le> x / pow2 (ulp_exp x)"
    using assms by (simp add: pos_le_divide_eq)
  then have "(of_int k :: rat) \<le> of_int (round_even (x / pow2 (ulp_exp x)))"
    using round_even_ge_int by simp
  then show ?thesis using assms(1) by (simp add: round_mag_def)
qed

text \<open>Powers of two no smaller than the last place bound the rounded value.\<close>

lemma pow2_multiple: "a \<le> b \<Longrightarrow> pow2 b = of_int (2 ^ nat (b - a)) * pow2 a"
  using pow2_add [of "b - a" a] by (simp add: pow2_def [of "b - a"])

lemma round_mag_le_pow2:
  assumes "0 < x" "x \<le> pow2 b" "ulp_exp x \<le> b"
  shows "round_mag x \<le> pow2 b"
  using round_mag_below [OF assms(1)] assms(2) pow2_multiple [OF assms(3)] by metis

lemma round_mag_ge_pow2:
  assumes "0 < x" "pow2 b \<le> x" "ulp_exp x \<le> b"
  shows "pow2 b \<le> round_mag x"
  using round_mag_above [OF assms(1)] assms(2) pow2_multiple [OF assms(3)] by metis

lemma round_mag_mono:
  assumes "0 \<le> x" "x \<le> y"
  shows "round_mag x \<le> round_mag y"
proof (cases "x = 0")
  case True
  then show ?thesis using assms round_mag_nonneg by simp
next
  case False
  then have pos: "0 < x" "0 < y" using assms by auto
  show ?thesis
  proof (cases "ulp_exp x = ulp_exp y")
    case True
    have "x / pow2 (ulp_exp y) \<le> y / pow2 (ulp_exp y)"
      using assms by (simp add: divide_right_mono less_imp_le)
    then have "round_even (x / pow2 (ulp_exp y)) \<le> round_even (y / pow2 (ulp_exp y))"
      by (rule round_even_mono)
    then show ?thesis
      using True pos by (simp add: round_mag_def)
  next
    case False
    then have lt: "ulp_exp x < ulp_exp y"
      using ulp_exp_mono [OF pos(1) assms(2)] by simp
    then have e: "rat_exp x + 1 \<le> rat_exp y" "ulp_exp y \<le> rat_exp y"
      by (auto simp: ulp_exp_def max_def split: if_splits)
    have ux: "ulp_exp x \<le> rat_exp y" using lt e by linarith
    have "x \<le> pow2 (rat_exp y)"
      using rat_exp_bounds(2) [OF pos(1)] pow2_mono [OF e(1)] by linarith
    then have "round_mag x \<le> pow2 (rat_exp y)"
      using round_mag_le_pow2 [OF pos(1)] ux by blast
    also have "\<dots> \<le> round_mag y"
      using round_mag_ge_pow2 [OF pos(2) rat_exp_bounds(1) [OF pos(2)] e(2)] .
    finally show ?thesis .
  qed
qed

lemma round_mag_int:
  assumes "0 \<le> k" "k \<le> 2 ^ 53"
  shows "round_mag (of_int k) = of_int k"
proof (cases "k = 0 \<or> k = 2 ^ 53")
  case True
  have "rat_exp (2 ^ 53) = 53"
    by (rule rat_exp_unique) (simp_all add: pow2_def)
  then have "round_mag (2 ^ 53) = 2 ^ 53"
    by (intro round_mag_exact [of _ "2 ^ 52"]) (simp add: ulp_exp_def pow2_def)
  then show ?thesis using True by auto
next
  case False
  then have k: "1 \<le> k" "k < 2 ^ 53" using assms by auto
  then have pos: "(0 :: rat) < of_int k" by simp
  have "(of_int k :: rat) < of_int (2 ^ 53)"
    using k(2) by (simp only: of_int_less_iff)
  then have "(of_int k :: rat) < pow2 53" by (simp add: pow2_def)
  then have "rat_exp (of_int k) < 53"
    using rat_exp_bounds(1) [OF pos] pow2_mono [of 53 "rat_exp (of_int k)"] by force
  then have e: "ulp_exp (of_int k) \<le> 0" by (simp add: ulp_exp_def)
  then have "(of_int k :: rat) = of_int (k * 2 ^ nat (- ulp_exp (of_int k))) * pow2 (ulp_exp (of_int k))"
    using pow2_multiple [of "ulp_exp (of_int k)" 0] by simp
  then show ?thesis by (rule round_mag_exact)
qed

subsection \<open>Values and operations\<close>

datatype f64 = FNum rat | FInf bool | FNaN

definition f64_round :: "rat \<Rightarrow> f64" where
  "f64_round x =
     (let m = round_mag \<bar>x\<bar> in
      if 2 ^ 1024 \<le> m then FInf (x < 0) else FNum (if x < 0 then - m else m))"

fun f_neg :: "f64 \<Rightarrow> f64" where
  "f_neg (FNum a) = FNum (- a)"
| "f_neg (FInf s) = FInf (\<not> s)"
| "f_neg FNaN = FNaN"

fun f_add :: "f64 \<Rightarrow> f64 \<Rightarrow> f64" where
  "f_add (FNum a) (FNum b) = f64_round (a + b)"
| "f_add (FInf s) (FInf t) = (if s = t then FInf s else FNaN)"
| "f_add (FInf s) (FNum b) = FInf s"
| "f_add (FNum a) (FInf t) = FInf t"
| "f_add FNaN y = FNaN"
| "f_add x FNaN = FNaN"

definition f_sub :: "f64 \<Rightarrow> f64 \<Rightarrow> f64" where
  "f_sub x y = f_add x (f_neg y)"

fun f_mul :: "f64 \<Rightarrow> f64 \<Rightarrow> f64" where
  "f_mul (FNum a) (FNum b) = f64_round (a * b)"
| "f_mul (FInf s) (FInf t) = FInf (s \<noteq> t)"
| "f_mul (FInf s) (FNum b) = (if b = 0 then FNaN else FInf (s \<noteq> (b < 0)))"
| "f_mul (FNum a) (FInf t) = (if a = 0 then FNaN else FInf ((a < 0) \<noteq> t))"
| "f_mul FNaN y = FNaN"
| "f_mul x FNaN = FNaN"

fun f_div :: "f64 \<Rightarrow> f64 \<Rightarrow> f64" where
  "f_div (FNum a) (FNum b) =
     (if b = 0 then (if a = 0 then FNaN else FInf (a < 0)) else f64_round (a / b))"
| "f_div (FInf s) (FInf t) = FNaN"
| "f_div (FInf s) (FNum b) = FInf (s \<noteq> (b < 0))"
| "f_div (FNum a) (FInf t) = FNum 0"
| "f_div FNaN y = FNaN"
| "f_div x FNaN = FNaN"

fun f_lt :: "f64 \<Rightarrow> f64 \<Rightarrow> bool" where
  "f_lt (FNum a) (FNum b) \<longleftrightarrow> a < b"
| "f_lt (FInf s) (FNum b) \<longleftrightarrow> s"
| "f_lt (FNum a) (FInf t) \<longleftrightarrow> \<not> t"
| "f_lt (FInf s) (FInf t) \<longleftrightarrow> s \<and> \<not> t"
| "f_lt _ _ \<longleftrightarrow> False"

fun f_eq :: "f64 \<Rightarrow> f64 \<Rightarrow> bool" where
  "f_eq FNaN y \<longleftrightarrow> False"
| "f_eq x y \<longleftrightarrow> x = y"

definition f_le :: "f64 \<Rightarrow> f64 \<Rightarrow> bool" where
  "f_le x y \<longleftrightarrow> f_lt x y \<or> f_eq x y"

text \<open>\<open>math.Min\<close> and \<open>math.Max\<close>.\<close>

definition f_min :: "f64 \<Rightarrow> f64 \<Rightarrow> f64" where
  "f_min x y =
     (if x = FInf True \<or> y = FInf True then FInf True
      else if x = FNaN \<or> y = FNaN then FNaN
      else if f_lt x y then x else y)"

definition f_max :: "f64 \<Rightarrow> f64 \<Rightarrow> f64" where
  "f_max x y =
     (if x = FInf False \<or> y = FInf False then FInf False
      else if x = FNaN \<or> y = FNaN then FNaN
      else if f_lt y x then x else y)"

definition f_of_int :: "int \<Rightarrow> f64" where
  "f_of_int k = f64_round (of_int k)"

definition f_of_u64 :: "u64 \<Rightarrow> f64" where
  "f_of_u64 w = f64_round (unsigned w)"

text \<open>
  Conversion to a 64-bit integer drops the fraction. Outside the range the language leaves
  the value to the implementation: \<open>None\<close>.
\<close>

definition f_to_int64 :: "f64 \<Rightarrow> int option" where
  "f_to_int64 x =
     (case x of
        FNum q \<Rightarrow>
          (let k = (if q < 0 then - \<lfloor>- q\<rfloor> else \<lfloor>q\<rfloor>)
           in if - (2 ^ 63) \<le> k \<and> k < 2 ^ 63 then Some k else None)
      | _ \<Rightarrow> None)"

text \<open>\<open>Duration.Seconds\<close>: whole seconds and the rest are converted apart.\<close>

definition duration_seconds :: "duration \<Rightarrow> f64" where
  "duration_seconds d =
     f_add (f_of_int (d sdiv second)) (f_div (f_of_int (d smod second)) (FNum 1000000000))"

subsection \<open>Laws\<close>

lemma f64_round_0 [simp]: "f64_round 0 = FNum 0"
  by (simp add: f64_round_def)

lemma f64_round_int: "\<bar>k\<bar> \<le> 2 ^ 53 \<Longrightarrow> f64_round (of_int k) = FNum (of_int k)"
proof -
  assume k: "\<bar>k\<bar> \<le> 2 ^ 53"
  have m: "round_mag (of_int \<bar>k\<bar>) = of_int \<bar>k\<bar>"
    using k by (intro round_mag_int) auto
  have "(of_int \<bar>k\<bar> :: rat) \<le> of_int (2 ^ 53)" using k by (simp only: of_int_le_iff)
  also have "\<dots> < 2 ^ 1024" by simp
  finally have "\<not> 2 ^ 1024 \<le> (of_int \<bar>k\<bar> :: rat)" by simp
  then show ?thesis
    using m by (simp add: f64_round_def Let_def)
qed

lemma f64_round_nonneg: "0 \<le> x \<Longrightarrow> f64_round x = (if 2 ^ 1024 \<le> round_mag x then FInf False else FNum (round_mag x))"
  by (simp add: f64_round_def)

lemma f64_round_le:
  assumes "0 \<le> x" "x \<le> of_int k" "0 \<le> k" "k \<le> 2 ^ 53"
  shows "f64_round x = FNum (round_mag x) \<and> 0 \<le> round_mag x \<and> round_mag x \<le> of_int k"
proof -
  have le: "round_mag x \<le> of_int k"
    using round_mag_mono [OF assms(1,2)] round_mag_int [OF assms(3,4)] by simp
  have "(of_int k :: rat) \<le> of_int (2 ^ 53)" using assms by (simp only: of_int_le_iff)
  also have "\<dots> < 2 ^ 1024" by simp
  finally have "\<not> 2 ^ 1024 \<le> round_mag x" using le by linarith
  then show ?thesis
    using assms(1) le round_mag_nonneg by (simp add: f64_round_nonneg)
qed

lemma pow2_ulp_bound:
  assumes "0 \<le> x" "x \<le> pow2 b" "- 1074 \<le> b"
  shows "round_mag x \<le> pow2 b"
proof (cases "x = 0")
  case False
  then have pos: "0 < x" using assms(1) by simp
  have "rat_exp x \<le> b"
    using rat_exp_bounds(1) [OF pos] assms(2) pow2_mono [of "b + 1" "rat_exp x"] pow2_add [of b 1]
    using pow2_pos [of b] by (cases "rat_exp x \<le> b") (simp_all add: pow2_def [of 1])
  then show ?thesis
    using assms by (intro round_mag_le_pow2 [OF pos]) (auto simp: ulp_exp_def)
qed (simp add: less_imp_le)

lemma unsigned_rat_nat: "(unsigned (w :: u64) :: rat) = of_nat (unat w)"
  by simp

lemma unsigned_rat_nonneg [simp]: "0 \<le> (unsigned (w :: u64) :: rat)"
  by (metis of_nat_0_le_iff unsigned_rat_nat)

lemma unsigned_rat_le: "(unsigned (v :: u64) :: rat) \<le> unsigned w \<longleftrightarrow> v \<le> w"
  by (simp only: unsigned_rat_nat of_nat_le_iff word_le_nat_alt)

lemma f_of_u64_le: "round_mag (unsigned (w :: u64)) \<le> 2 ^ 64"
proof -
  have "(of_nat (unat w) :: rat) \<le> of_nat (2 ^ 64)"
    by (intro of_nat_mono order_less_imp_le) (use unsigned_less [of w, where 'a = nat] in simp)
  then have "(unsigned w :: rat) \<le> pow2 64" by (simp add: pow2_def)
  then have "round_mag (unsigned w) \<le> pow2 64"
    by (intro pow2_ulp_bound) auto
  then show ?thesis by (simp add: pow2_def)
qed

lemma f_of_u64_num: "f_of_u64 w = FNum (round_mag (unsigned w))"
proof -
  have "(2 :: rat) ^ 64 < 2 ^ 1024" by simp
  then have "\<not> 2 ^ 1024 \<le> round_mag (unsigned w)" using f_of_u64_le [of w] by linarith
  then show ?thesis by (simp add: f_of_u64_def f64_round_nonneg)
qed

lemma f_of_u64_nonneg: "0 \<le> round_mag (unsigned (w :: u64))"
  by (simp add: round_mag_nonneg)

lemma f_of_u64_mono: "v \<le> (w :: u64) \<Longrightarrow> round_mag (unsigned v) \<le> round_mag (unsigned w)"
  by (intro round_mag_mono) (simp_all add: unsigned_rat_le)

lemma f_of_u64_exact: "unat w \<le> 2 ^ 53 \<Longrightarrow> f_of_u64 w = FNum (unsigned w)"
proof -
  assume le: "unat w \<le> 2 ^ 53"
  have "int (unat w) \<le> int (2 ^ 53)"
    using le by (simp only: of_nat_le_iff)
  then have "\<bar>int (unat w)\<bar> \<le> 2 ^ 53"
    by simp
  then have "f64_round (of_int (int (unat w))) = FNum (of_int (int (unat w)))"
    by (rule f64_round_int)
  then show ?thesis by (simp add: f_of_u64_def)
qed

lemma f_of_u64_pos: "0 < (w :: u64) \<Longrightarrow> 1 \<le> round_mag (unsigned w)"
proof -
  assume "0 < w"
  then have "1 \<le> w" by (simp add: word_le_nat_alt word_less_nat_alt Suc_le_eq)
  then have "round_mag (unsigned (1 :: u64)) \<le> round_mag (unsigned w)"
    by (rule f_of_u64_mono)
  moreover have "round_mag 1 = 1" using round_mag_int [of 1] by simp
  ultimately show ?thesis by simp
qed

subsection \<open>strconv.ParseFloat\<close>

text \<open>
  The decimal syntax of \<open>strconv.ParseFloat(s, 64)\<close>: an optional sign, digits with at most
  one point and at least one digit, an optional exponent; and the words for the infinities
  and not-a-number in any case. The value is rounded once, and a finite text whose value
  overflows is \<open>ErrRange\<close>. Hexadecimal texts (\<open>0x1p-2\<close>) and underscores between digits,
  which the library accepts as well, are rejected here: \<open>simple_float\<close> holds of the texts
  this function treats as the library does.
\<close>

definition simple_float :: "string \<Rightarrow> bool" where
  "simple_float s \<longleftrightarrow> CHR ''_'' \<notin> set s \<and> CHR ''x'' \<notin> set s \<and> CHR ''X'' \<notin> set s"

text \<open>The mantissa loop: digits read so far as a number, digits after the point, rest.\<close>

fun float_mantissa :: "bool \<Rightarrow> bool \<Rightarrow> nat \<Rightarrow> nat \<Rightarrow> string \<Rightarrow> bool \<times> nat \<times> nat \<times> string" where
  "float_mantissa dot digits m k [] = (digits, m, k, [])"
| "float_mantissa dot digits m k (c # cs) =
     (case digit_val c of
        Some d \<Rightarrow> float_mantissa dot True (10 * m + d) (if dot then Suc k else k) cs
      | None \<Rightarrow>
          if c = CHR ''.'' \<and> \<not> dot then float_mantissa True digits m k cs
          else (digits, m, k, c # cs))"

text \<open>The exponent loop stops growing at 10000.\<close>

fun float_exponent :: "nat \<Rightarrow> string \<Rightarrow> nat \<times> string" where
  "float_exponent e [] = (e, [])"
| "float_exponent e (c # cs) =
     (case digit_val c of
        Some d \<Rightarrow> float_exponent (if e < 10000 then 10 * e + d else e) cs
      | None \<Rightarrow> (e, c # cs))"

definition pow10 :: "int \<Rightarrow> rat" where
  "pow10 e = (if 0 \<le> e then 10 ^ nat e else 1 / 10 ^ nat (- e))"

text \<open>After the mantissa: nothing, or \<open>e\<close>, an optional sign and at least one digit.\<close>

definition float_scale :: "string \<Rightarrow> int option" where
  "float_scale s =
     (case s of
        [] \<Rightarrow> Some 0
      | c # cs \<Rightarrow>
          if lower_byte c \<noteq> CHR ''e'' then None
          else
            let neg = (case cs of d # _ \<Rightarrow> d = CHR ''-'' | [] \<Rightarrow> False);
                ds = (case cs of d # ds \<Rightarrow> if d = CHR ''+'' \<or> d = CHR ''-'' then ds else cs | [] \<Rightarrow> [])
            in (case ds of
                  [] \<Rightarrow> None
                | d # _ \<Rightarrow>
                    if digit_val d = None then None
                    else case float_exponent 0 ds of (e, r) \<Rightarrow>
                      if r = [] then Some (if neg then - int e else int e) else None))"

definition split_sign :: "string \<Rightarrow> bool \<times> string" where
  "split_sign s =
     (case s of
        [] \<Rightarrow> (False, [])
      | c # cs \<Rightarrow> if c = CHR ''-'' then (True, cs) else if c = CHR ''+'' then (False, cs) else (False, s))"

definition parse_float :: "string \<Rightarrow> err + f64" where
  "parse_float s =
     (let (neg, t) = split_sign s; w = map lower_byte t in
      if w = ''inf'' \<or> w = ''infinity'' then Inr (FInf neg)
      else if map lower_byte s = ''nan'' then Inr FNaN
      else case float_mantissa False False 0 0 t of (digits, m, k, r) \<Rightarrow>
        if \<not> digits then Inl ESyntax
        else case float_scale r of
               None \<Rightarrow> Inl ESyntax
             | Some e \<Rightarrow>
                 (let v = of_nat m * pow10 (e - int k);
                      f = f64_round (if neg then - v else v)
                  in case f of FInf i \<Rightarrow> Inl ERange | _ \<Rightarrow> Inr f))"

text \<open>The kernel prints pressure with two decimals.\<close>

definition show_fixed2 :: "nat \<Rightarrow> string" where
  "show_fixed2 h = show_nat (h div 100) @ [CHR ''.'', digit_char (h div 10 mod 10), digit_char (h mod 10)]"

lemma float_mantissa_digits:
  "is_digits ds \<Longrightarrow> ds \<noteq> [] \<Longrightarrow>
     float_mantissa False g m k (ds @ r) = float_mantissa False True (dec_from m ds) k r"
proof (induction ds arbitrary: g m)
  case (Cons c ds)
  then show ?case by (cases "ds = []") auto
qed simp

lemma lower_digit_ne: "digit_val c \<noteq> None \<Longrightarrow> lower_byte c \<noteq> CHR ''i'' \<and> lower_byte c \<noteq> CHR ''n''"
  by (auto simp: digit_val_def lower_byte_def Let_def split: if_splits)

lemma parse_float_fixed2:
  assumes "h < 2 ^ 53"
  shows "parse_float (show_fixed2 h) = Inr (f64_round (of_nat h / 100))"
proof -
  obtain c cs where s: "show_nat (h div 100) = c # cs"
    by (cases "show_nat (h div 100)") auto
  have dc: "digit_val c \<noteq> None"
    using show_nat_digits [of "h div 100"] s by simp
  note ne = digit_not_sign [OF dc] lower_digit_ne [OF dc]
  have sp: "split_sign (show_fixed2 h) = (False, show_fixed2 h)"
    using ne by (simp add: split_sign_def show_fixed2_def s)
  have low: "map lower_byte (show_fixed2 h) \<noteq> ''inf''" "map lower_byte (show_fixed2 h) \<noteq> ''infinity''"
    "map lower_byte (show_fixed2 h) \<noteq> ''nan''"
    using ne by (simp_all add: show_fixed2_def s)
  have "h div 10 mod 10 = h div 10 - 10 * (h div 100)"
    by (simp add: modulo_nat_def div_mult2_eq [symmetric])
  then have "10 * (10 * (h div 100) + h div 10 mod 10) + h mod 10 = h"
    using div_mult_mod_eq [of h 10] mult_div_mod_eq [of 10 h] div_le_mono
    by (simp add: div_mult2_eq [symmetric] algebra_simps)
  moreover have "digit_val (CHR ''.'') = None"
    by (simp add: digit_val_def)
  ultimately have man: "float_mantissa False False 0 0 (show_fixed2 h) = (True, h, 2, [])"
    using dec_value_show_nat [of "h div 100"]
    by (simp add: show_fixed2_def float_mantissa_digits show_nat_digits dec_value_def)
  have v: "(of_nat h :: rat) * pow10 (- 2) = of_nat h / 100"
    by (simp add: pow10_def)
  have "f64_round (of_nat h / 100) = FNum (round_mag (of_nat h / 100))"
  proof -
    have "(of_nat h :: rat) \<le> of_nat (2 ^ 53)" using assms by (intro of_nat_mono) simp
    then have "(of_nat h / 100 :: rat) \<le> of_int (2 ^ 53)" by simp
    then show ?thesis using f64_round_le [of "of_nat h / 100" "2 ^ 53"] by simp
  qed
  then show ?thesis
    by (simp add: parse_float_def sp low man float_scale_def v Let_def)
qed

subsection \<open>Exact results and bounds\<close>

text \<open>A number of 53 bits at most times a power of two is kept exactly.\<close>

lemma round_mag_dyadic:
  assumes "k \<le> 2 ^ 53" "- 1074 \<le> e"
  shows "round_mag (of_nat k * pow2 e) = of_nat k * pow2 e"
proof (cases "k = 0")
  case False
  define x where "x = of_nat k * pow2 e"
  have pos: "0 < x" using False by (simp add: x_def)
  have "(of_nat k :: rat) \<le> of_nat (2 ^ 53)" using assms(1) by (intro of_nat_mono)
  then have le: "x \<le> pow2 (53 + e)"
    by (simp add: x_def pow2_add pow2_def [of 53])
  show ?thesis
  proof (cases "k = 2 ^ 53")
    case True
    then have x: "x = pow2 (e + 53)"
      by (simp add: x_def pow2_add pow2_def [of 53] mult.commute)
    have "pow2 (e + 53) < pow2 (e + 53 + 1)"
      using pow2_pos [of "e + 53"] by (simp only: pow2_add [of "e + 53" 1]) (simp add: pow2_def [of 1])
    then have "rat_exp x = e + 53"
      by (intro rat_exp_unique) (simp_all only: x order_refl)
    then have "ulp_exp x = e + 1" using assms(2) by (simp add: ulp_exp_def)
    then have "x = of_int (2 ^ 52) * pow2 (ulp_exp x)"
      by (simp add: x pow2_add pow2_def [of 53] pow2_def [of 1])
    from round_mag_exact [OF this] show ?thesis by (simp only: x_def)
  next
    case ne: False
    then have "k < 2 ^ 53" using assms(1) by simp
    then have "(of_nat k :: rat) < of_nat (2 ^ 53)" by (simp only: of_nat_less_iff)
    then have "x < pow2 (53 + e)"
      by (simp add: x_def pow2_add pow2_def [of 53])
    then have "rat_exp x < 53 + e"
      using rat_exp_bounds(1) [OF pos] pow2_mono [of "53 + e" "rat_exp x"] by force
    then have "ulp_exp x \<le> e" using assms(2) by (simp add: ulp_exp_def)
    then have "x = of_int (int k * 2 ^ nat (e - ulp_exp x)) * pow2 (ulp_exp x)"
      using pow2_multiple [of "ulp_exp x" e] by (simp add: x_def)
    from round_mag_exact [OF this] show ?thesis by (simp only: x_def)
  qed
qed simp

lemma not_overflow: "x \<le> of_nat k * pow2 e \<Longrightarrow> k \<le> 2 ^ 53 \<Longrightarrow> e \<le> 970 \<Longrightarrow> \<not> 2 ^ 1024 \<le> x"
proof -
  assume a: "x \<le> of_nat k * pow2 e" "k \<le> 2 ^ 53" "e \<le> 970"
  have "(of_nat k :: rat) \<le> of_nat (2 ^ 53)" using a(2) by (intro of_nat_mono)
  then have "of_nat k * pow2 e \<le> 2 ^ 53 * pow2 970"
    using pow2_mono [OF a(3)] by (intro mult_mono) (simp_all add: less_imp_le)
  also have "\<dots> < 2 ^ 1024" by (simp add: pow2_def)
  finally show ?thesis using a(1) by linarith
qed

lemma f64_round_dyadic:
  assumes "\<bar>k\<bar> \<le> 2 ^ 53" "- 1074 \<le> e" "e \<le> 970"
  shows "f64_round (of_int k * pow2 e) = FNum (of_int k * pow2 e)"
proof -
  have ab: "\<bar>of_int k * pow2 e\<bar> = of_nat (nat \<bar>k\<bar>) * pow2 e"
    by (simp add: abs_mult less_imp_le)
  have "nat \<bar>k\<bar> \<le> 2 ^ 53" using assms(1) by (simp add: nat_le_iff)
  note r = round_mag_dyadic [OF this assms(2)] not_overflow [OF order_refl this assms(3)]
  have "(of_int k * pow2 e < 0) = (k < 0)"
    using pow2_pos [of e] by (auto simp only: mult_less_0_iff of_int_less_0_iff of_int_0_less_iff dest: less_asym)
  then show ?thesis
    unfolding f64_round_def ab r(1) Let_def using r(2) by (cases "k < 0") auto
qed

text \<open>Between two neighbours of 53 bits no value comes out of a rounding.\<close>

lemma round_mag_gap:
  assumes "0 \<le> y" "2 ^ 52 \<le> n" "n < 2 ^ 53" "- 1074 \<le> e" "round_mag y < of_nat (Suc n) * pow2 e"
  shows "round_mag y \<le> of_nat n * pow2 e"
proof (rule ccontr)
  let ?P = "of_nat n * pow2 e" and ?L = "of_nat (Suc n) * pow2 e"
  assume "\<not> ?thesis"
  then have gt: "?P < round_mag y" by simp
  have "round_mag ?P = ?P" using assms(3,4) by (intro round_mag_dyadic) simp_all
  moreover have "round_mag ?L = ?L" using assms(3,4) by (intro round_mag_dyadic) simp_all
  moreover have P0: "0 \<le> ?P" "0 \<le> ?L" using pow2_pos [of e] by (simp_all only: zero_le_mult_iff of_nat_0_le_iff less_imp_le simp_thms)
  ultimately have y: "?P < y" "y < ?L"
    using gt assms(1,5) round_mag_mono [of y ?P] round_mag_mono [of ?L y] by linarith+
  have "(of_nat (2 ^ 52) :: rat) \<le> of_nat n" "(of_nat (Suc n) :: rat) \<le> of_nat (2 ^ 53)"
    using assms(2,3) by (simp_all only: of_nat_le_iff Suc_le_eq)
  then have b: "(2 :: rat) ^ 52 \<le> of_nat n" "(of_nat (Suc n) :: rat) \<le> 2 ^ 53" by simp_all
  have "2 ^ 52 * pow2 e < y"
    using mult_right_mono [OF b(1), of "pow2 e"] y(1) pow2_pos [of e] by linarith
  moreover have "y < 2 ^ 53 * pow2 e"
    using mult_right_mono [OF b(2), of "pow2 e"] y(2) pow2_pos [of e] by linarith
  moreover have "pow2 (52 + e) = 2 ^ 52 * pow2 e" "pow2 (52 + e + 1) = 2 ^ 53 * pow2 e"
    unfolding pow2_add by (simp_all add: pow2_def [of 52] pow2_def [of 1])
  ultimately have "rat_exp y = 52 + e" by (intro rat_exp_unique) simp_all
  then have "ulp_exp y = e" using assms(4) by (simp add: ulp_exp_def)
  moreover have "0 < y" using y(1) P0(1) by linarith
  ultimately have "round_mag y = of_int (round_even (y / pow2 e)) * pow2 e" by (simp add: round_mag_def)
  then obtain k :: int where k: "round_mag y = of_int k * pow2 e" by blast
  then have "(of_int (int n) :: rat) < of_int k" "(of_int k :: rat) < of_int (int (Suc n))"
    using gt assms(5) by simp_all
  then show False by (simp only: of_int_less_iff)
qed

text \<open>The values a bound keeps away from infinity.\<close>

definition bounded_by :: "rat \<Rightarrow> f64 \<Rightarrow> bool" where
  "bounded_by b x \<longleftrightarrow> (\<exists>q. x = FNum q \<and> \<bar>q\<bar> \<le> b)"

lemma bounded_round:
  assumes "\<bar>x\<bar> \<le> of_nat k * pow2 e" "k \<le> 2 ^ 53" "- 1074 \<le> e" "e \<le> 970"
  shows "bounded_by (of_nat k * pow2 e) (f64_round x)"
proof -
  have "round_mag \<bar>x\<bar> \<le> of_nat k * pow2 e"
    using round_mag_mono [OF abs_ge_zero assms(1)] round_mag_dyadic [OF assms(2,3)] by simp
  moreover have "0 \<le> round_mag \<bar>x\<bar>" by (simp add: round_mag_nonneg)
  ultimately show ?thesis
    using not_overflow [OF _ assms(2,4)] by (auto simp: bounded_by_def f64_round_def Let_def)
qed

lemma bounded_add:
  assumes "bounded_by (of_nat k * pow2 e) x" "bounded_by (of_nat j * pow2 e) y"
    "k + j \<le> 2 ^ 53" "- 1074 \<le> e" "e \<le> 970"
  shows "bounded_by (of_nat (k + j) * pow2 e) (f_add x y)"
proof -
  obtain p q where x: "x = FNum p" "y = FNum q" "\<bar>p\<bar> \<le> of_nat k * pow2 e" "\<bar>q\<bar> \<le> of_nat j * pow2 e"
    using assms(1,2) by (auto simp: bounded_by_def)
  have "\<bar>p + q\<bar> \<le> of_nat (k + j) * pow2 e"
    using x(3,4) by (simp add: algebra_simps)
  then show ?thesis
    unfolding x(1,2) f_add.simps using assms(3-5) by (rule bounded_round)
qed

lemma bounded_neg [simp]: "bounded_by b (f_neg x) \<longleftrightarrow> bounded_by b x"
  by (cases x) (auto simp: bounded_by_def)

lemma bounded_sub:
  "bounded_by (of_nat k * pow2 e) x \<Longrightarrow> bounded_by (of_nat j * pow2 e) y \<Longrightarrow>
     k + j \<le> 2 ^ 53 \<Longrightarrow> - 1074 \<le> e \<Longrightarrow> e \<le> 970 \<Longrightarrow> bounded_by (of_nat (k + j) * pow2 e) (f_sub x y)"
  unfolding f_sub_def by (intro bounded_add) auto

lemma bounded_mul:
  assumes "bounded_by (of_nat k * pow2 e) x" "bounded_by (of_nat j * pow2 d) y"
    "k * j \<le> 2 ^ 53" "- 1074 \<le> e + d" "e + d \<le> 970"
  shows "bounded_by (of_nat (k * j) * pow2 (e + d)) (f_mul x y)"
proof -
  obtain p q where x: "x = FNum p" "y = FNum q" "\<bar>p\<bar> \<le> of_nat k * pow2 e" "\<bar>q\<bar> \<le> of_nat j * pow2 d"
    using assms(1,2) by (auto simp: bounded_by_def)
  have "\<bar>p\<bar> * \<bar>q\<bar> \<le> (of_nat k * pow2 e) * (of_nat j * pow2 d)"
    using x(3,4) by (intro mult_mono) (auto simp: less_imp_le)
  then have "\<bar>p * q\<bar> \<le> of_nat (k * j) * pow2 (e + d)"
    by (simp add: abs_mult pow2_add algebra_simps)
  then show ?thesis
    unfolding x(1,2) f_mul.simps using assms(3-5) by (rule bounded_round)
qed

text \<open>The mean of \<open>n\<close> values does not exceed their common bound.\<close>

lemma bounded_mean:
  assumes "bounded_by (of_nat (n * k) * pow2 e) x" "0 < n" "k \<le> 2 ^ 53" "- 1074 \<le> e" "e \<le> 970"
  shows "bounded_by (of_nat k * pow2 e) (f_div x (FNum (of_nat n)))"
proof -
  obtain p where x: "x = FNum p" "\<bar>p\<bar> \<le> of_nat (n * k) * pow2 e"
    using assms(1) by (auto simp: bounded_by_def)
  have "\<bar>p / of_nat n\<bar> \<le> of_nat k * pow2 e"
    using x(2) assms(2) by (simp add: abs_divide pos_divide_le_eq algebra_simps)
  then show ?thesis using bounded_round assms(2-5) x(1) by simp
qed

lemma bounded_mono: "bounded_by a x \<Longrightarrow> a \<le> b \<Longrightarrow> bounded_by b x"
  by (auto simp: bounded_by_def)

lemma bounded_u64: "bounded_by (of_nat 1 * pow2 64) (f_of_u64 w)"
  using f_of_u64_le [of w] f_of_u64_nonneg [of w] by (simp add: bounded_by_def f_of_u64_num pow2_def)

lemma seconds_parts:
  assumes "\<bar>d\<bar> \<le> 2 ^ 63"
  shows "\<bar>d sdiv second\<bar> \<le> 9223372036" "\<bar>d smod second\<bar> < 1000000000"
proof -
  have f: "second = 1000000000" by (simp add: second_def)
  have "\<bar>d sdiv second\<bar> = \<bar>d\<bar> div second" "\<bar>d smod second\<bar> = \<bar>d\<bar> mod second"
    by (auto simp: f signed_divide_int_def signed_modulo_int_def sgn_if abs_mult minus_mult_div_eq_mod
        zmod_zminus1_eq_if)
  then show "\<bar>d sdiv second\<bar> \<le> 9223372036" "\<bar>d smod second\<bar> < 1000000000"
    using assms unfolding f by auto
qed

lemma bounded_seconds:
  assumes "\<bar>d\<bar> \<le> 2 ^ 63"
  shows "bounded_by (of_nat 1 * pow2 34) (duration_seconds d)"
proof -
  note b = seconds_parts [OF assms]
  have s: "f_of_int (d sdiv second) = FNum (of_int (d sdiv second))"
    "f_of_int (d smod second) = FNum (of_int (d smod second))"
    unfolding f_of_int_def by (rule f64_round_int; use b in simp)+
  have "\<bar>(of_int (d smod second) / 1000000000 :: rat)\<bar> \<le> of_nat 1 * pow2 0"
  proof -
    have "(of_int \<bar>d smod second\<bar> :: rat) \<le> of_int 1000000000"
      using b by (simp only: of_int_le_iff)
    then show ?thesis by (simp add: abs_divide)
  qed
  then have "bounded_by (of_nat 1 * pow2 0) (f64_round (of_int (d smod second) / 1000000000))"
    by (rule bounded_round) simp_all
  then obtain r where r: "f64_round (of_int (d smod second) / 1000000000) = FNum r" "\<bar>r\<bar> \<le> 1"
    by (auto simp: bounded_by_def)
  have "(of_int \<bar>d sdiv second\<bar> :: rat) \<le> of_int 9223372036"
    using b by (simp only: of_int_le_iff)
  then have "\<bar>of_int (d sdiv second) + r\<bar> \<le> of_nat 1 * pow2 34"
    using r(2) by (simp add: pow2_def)
  then have "bounded_by (of_nat 1 * pow2 34) (f64_round (of_int (d sdiv second) + r))"
    by (rule bounded_round) simp_all
  then show ?thesis
    by (simp add: duration_seconds_def s r(1))
qed

text \<open>Whole seconds convert exactly.\<close>

lemma duration_seconds_whole: "\<bar>k\<bar> \<le> 2 ^ 53 \<Longrightarrow> duration_seconds (k * second) = FNum (of_int k)"
proof -
  assume k: "\<bar>k\<bar> \<le> 2 ^ 53"
  have "(k * second) sdiv second = k" "(k * second) smod second = 0"
    by (auto simp: second_def signed_divide_int_def signed_modulo_int_def sgn_if abs_mult)
  then show ?thesis
    using f64_round_int [OF k] by (simp add: duration_seconds_def f_of_int_def)
qed

text \<open>Quarters: where sums and products of halves are exact.\<close>

lemma f64_round_quarter: "\<bar>k\<bar> \<le> 2 ^ 53 \<Longrightarrow> f64_round (of_int k / 4) = FNum (of_int k / 4)"
  using f64_round_dyadic [of k "- 2"] by (simp add: pow2_def)

lemma f64_round_half: "\<bar>k\<bar> \<le> 2 ^ 52 \<Longrightarrow> f64_round (of_int k / 2) = FNum (of_int k / 2)"
  using f64_round_dyadic [of k "- 1"] by (simp add: pow2_def)

end
