(* ===== verification/CgroupParse.thy ===== *)
theory CgroupParse
  imports GoFloat
begin

section \<open>Parsers of cgroup files\<close>

text \<open>
  Models \<open>src/internal/cgroup/parse.go\<close> and the limit sentinel of \<open>cgroup.go\<close>: single
  integers, limits, PID lists, key/value files and pressure rows. Numbers are 64-bit words.
\<close>

definition max_value :: string where
  "max_value = ''max''"

definition unlimited :: u64 where
  "unlimited = 18446744073709551615"

definition page_counter_max :: u64 where
  "page_counter_max = 0x7FFFFFFFFFFFF000"

definition normalise_limit :: "u64 \<Rightarrow> u64" where
  "normalise_limit limit = (if page_counter_max \<le> limit then unlimited else limit)"

definition parse_cg_uint :: "string \<Rightarrow> err + u64" where
  "parse_cg_uint data = (let txt = trim_space data in if txt = [] then Inr 0 else parse_uint txt)"

definition parse_limit :: "string \<Rightarrow> err + u64" where
  "parse_limit data =
     (let txt = trim_space data in
      if txt = max_value then Inr unlimited
      else res_bind (parse_cg_uint data) (\<lambda>value. Inr (normalise_limit value)))"

fun pid_lines :: "string list \<Rightarrow> int list" where
  "pid_lines [] = []"
| "pid_lines (l # ls) =
     (let txt = trim_space l in
      if txt = [] then pid_lines ls
      else case atoi txt of
             Inl e \<Rightarrow> pid_lines ls
           | Inr pid \<Rightarrow> if pid \<le> 0 then pid_lines ls else pid # pid_lines ls)"

definition parse_pid_list :: "string \<Rightarrow> err + int list" where
  "parse_pid_list data =
     (let (ls, too_long) = scan_lines data in if too_long then Inl ETooLong else Inr (pid_lines ls))"

definition key_value_line :: "(string, u64) gomap \<Rightarrow> string \<Rightarrow> (string, u64) gomap" where
  "key_value_line m line =
     (case cut '' '' (trim_space line) of
        None \<Rightarrow> m
      | Some (key, raw) \<Rightarrow>
          if key = [] then m
          else case parse_uint (trim_space raw) of
                 Inl e \<Rightarrow> m
               | Inr value \<Rightarrow> map_put key value m)"

definition parse_key_value :: "string \<Rightarrow> err + (string, u64) gomap" where
  "parse_key_value data =
     (let (ls, too_long) = scan_lines data; m = foldl key_value_line [] ls
      in if too_long then Inl ETooLong else Inr m)"

subsection \<open>Pressure\<close>

record psi_line =
  psi_avg10 :: f64
  psi_avg60 :: f64
  psi_avg300 :: f64
  psi_total :: u64

record psi =
  psi_some :: psi_line
  psi_full :: psi_line

definition psi_line_zero :: psi_line where
  "psi_line_zero = \<lparr>psi_avg10 = FNum 0, psi_avg60 = FNum 0, psi_avg300 = FNum 0, psi_total = 0\<rparr>"

definition psi_zero :: psi where
  "psi_zero = \<lparr>psi_some = psi_line_zero, psi_full = psi_line_zero\<rparr>"

definition psi_field :: "psi_line \<Rightarrow> string \<Rightarrow> err + psi_line" where
  "psi_field line field =
     (case cut ''='' field of
        None \<Rightarrow> Inr line
      | Some (key, raw) \<Rightarrow>
          if key = ''total'' then res_bind (parse_uint raw) (\<lambda>total. Inr (line\<lparr>psi_total := total\<rparr>))
          else res_bind (parse_float raw) (\<lambda>value.
            if key = ''avg10'' then Inr (line\<lparr>psi_avg10 := value\<rparr>)
            else if key = ''avg60'' then Inr (line\<lparr>psi_avg60 := value\<rparr>)
            else if key = ''avg300'' then Inr (line\<lparr>psi_avg300 := value\<rparr>)
            else Inr line))"

fun parse_psi_fields :: "psi_line \<Rightarrow> string list \<Rightarrow> err + psi_line" where
  "parse_psi_fields line [] = Inr line"
| "parse_psi_fields line (f # fs) = res_bind (psi_field line f) (\<lambda>line'. parse_psi_fields line' fs)"

definition psi_row :: "psi \<Rightarrow> string \<Rightarrow> err + psi" where
  "psi_row p line =
     (let fs = str_fields line in
      if length fs < 2 then Inr p
      else if hd fs = ''some'' then
        res_bind (parse_psi_fields psi_line_zero (tl fs)) (\<lambda>l. Inr (p\<lparr>psi_some := l\<rparr>))
      else if hd fs = ''full'' then
        res_bind (parse_psi_fields psi_line_zero (tl fs)) (\<lambda>l. Inr (p\<lparr>psi_full := l\<rparr>))
      else Inr p)"

fun psi_rows :: "psi \<Rightarrow> string list \<Rightarrow> err + psi" where
  "psi_rows p [] = Inr p"
| "psi_rows p (l # ls) = res_bind (psi_row p l) (\<lambda>p'. psi_rows p' ls)"

definition parse_psi :: "string \<Rightarrow> err + psi" where
  "parse_psi data =
     (let (ls, too_long) = scan_lines data in
      res_bind (psi_rows psi_zero ls) (\<lambda>p. if too_long then Inl ETooLong else Inr p))"

subsection \<open>Integers and limits\<close>

lemma parse_cg_uint_line: "parse_cg_uint (show_nat (unat w) @ [CHR 0x0A]) = Inr w"
  by (simp add: parse_cg_uint_def trim_space_newline)

lemma show_nat_not_max: "show_nat n \<noteq> max_value"
proof
  assume "show_nat n = max_value"
  then have "is_digits max_value" using show_nat_digits by metis
  then show False by (simp add: max_value_def digit_val_def)
qed

lemma parse_limit_line: "parse_limit (show_nat (unat w) @ [CHR 0x0A]) = Inr (normalise_limit w)"
proof -
  have t: "trim_space (show_nat (unat w) @ [CHR 0x0A]) = show_nat (unat w)"
    by (simp add: trim_space_newline)
  show ?thesis
    unfolding parse_limit_def t Let_def by (simp add: show_nat_not_max parse_cg_uint_line)
qed

lemma parse_limit_max: "parse_limit (''max'' @ [CHR 0x0A]) = Inr unlimited"
proof -
  have t: "trim_space (''max'' @ [CHR 0x0A]) = ''max''"
    by (rule trim_space_newline) simp_all
  show ?thesis
    unfolding parse_limit_def t Let_def max_value_def by simp
qed

lemma normalise_limit_cases: "normalise_limit l = unlimited \<or> normalise_limit l = l \<and> l < page_counter_max"
  by (auto simp: normalise_limit_def)

lemma parse_limit_range: "parse_limit d = Inr l \<Longrightarrow> l = unlimited \<or> l < page_counter_max"
  by (auto simp: parse_limit_def Let_def normalise_limit_def split: if_splits)

subsection \<open>PID lists\<close>

lemma pid_lines_append: "pid_lines (xs @ ys) = pid_lines xs @ pid_lines ys"
  by (induction xs) (auto simp: Let_def split: sum.splits)

lemma pid_lines_pos: "p \<in> set (pid_lines ls) \<Longrightarrow> 0 < p \<and> p < 2 ^ 63"
  by (induction ls) (auto simp: Let_def split: sum.splits if_splits dest: atoi_range)

lemma pid_lines_member:
  "set (pid_lines ls) = {p. 0 < p \<and> (\<exists>l \<in> set ls. trim_space l \<noteq> [] \<and> atoi (trim_space l) = Inr p)}"
proof (induction ls)
  case (Cons l ls)
  show ?case
  proof (cases "trim_space l = []")
    case False
    show ?thesis
    proof (cases "atoi (trim_space l)")
      case (Inl e)
      then show ?thesis using Cons.IH by (simp add: Let_def)
    next
      case (Inr p)
      show ?thesis
      proof (cases "0 < p")
        case True
        then have "set (pid_lines (l # ls)) = insert p (set (pid_lines ls))"
          using Inr False by (simp add: Let_def)
        then show ?thesis using Cons.IH Inr False True by auto
      next
        case False
        then have "set (pid_lines (l # ls)) = set (pid_lines ls)"
          using Inr by (simp add: Let_def)
        then show ?thesis using Cons.IH Inr False by auto
      qed
    qed
  qed (use Cons.IH in simp)
qed simp

lemma pid_lines_kernel:
  "\<forall>p \<in> set ps. 0 < p \<and> p < 2 ^ 63 \<Longrightarrow> pid_lines (map itoa ps) = ps"
proof (induction ps)
  case (Cons p ps)
  have "itoa p = show_nat (nat p)" using Cons.prems by (simp add: itoa_def)
  then have "trim_space (itoa p) = itoa p" "atoi (itoa p) = Inr p"
    using Cons.prems atoi_itoa_nonneg [of p] by simp_all
  then show ?case using Cons by (simp add: Let_def)
qed simp

lemma short_line_digits: "length (show_nat n) < max_token \<Longrightarrow> short_line (show_nat n)"
proof -
  have "CHR 0x0A \<notin> set (show_nat n)" "CHR 0x0D \<notin> set (show_nat n)"
    by (rule is_digits_not_mem [OF show_nat_digits]; simp add: digit_val_def)+
  then show "length (show_nat n) < max_token \<Longrightarrow> ?thesis" by (simp add: short_line_def)
qed

lemma length_show_nat: "n < 10 ^ Suc k \<Longrightarrow> length (show_nat n) \<le> Suc k"
proof (induction k arbitrary: n)
  case 0
  then show ?case by (simp add: show_nat.simps)
next
  case (Suc k)
  have "n div 10 < 10 ^ Suc k" using Suc.prems by (simp add: less_mult_imp_div_less mult.commute)
  then show ?case using Suc.IH [of "n div 10"] by (subst show_nat.simps) simp
qed

lemma short_line_pid: "0 < p \<Longrightarrow> p < 2 ^ 63 \<Longrightarrow> short_line (itoa p)"
proof -
  assume p: "0 < p" "p < 2 ^ 63"
  then have "nat p < 10 ^ Suc 19" by simp
  then have "length (show_nat (nat p)) \<le> 20" using length_show_nat [of "nat p" 19] by simp
  then show ?thesis
    using p short_line_digits [of "nat p"] by (simp add: itoa_def max_token_def)
qed

text \<open>
  A torn read: the kernel's list with one damaged line in the middle. The damaged line is
  dropped and every PID that was listed correctly is returned.
\<close>

lemma parse_pid_list_torn:
  assumes "\<forall>p \<in> set (ps @ qs). 0 < p \<and> p < 2 ^ 63" "short_line junk" "pid_lines [junk] = []"
  shows "parse_pid_list (unlines (map itoa ps @ [junk] @ map itoa qs)) = Inr (ps @ qs)"
proof -
  have "\<forall>l \<in> set (map itoa ps @ [junk] @ map itoa qs). short_line l"
    using assms(1,2) short_line_pid by auto
  then have s: "scan_lines (unlines (map itoa ps @ [junk] @ map itoa qs)) =
      (map itoa ps @ [junk] @ map itoa qs, False)"
    by (rule scan_lines_unlines)
  have "pid_lines (map itoa ps @ [junk] @ map itoa qs) = ps @ qs"
    using assms by (simp only: pid_lines_append) (simp add: pid_lines_kernel)
  then show ?thesis
    by (simp only: parse_pid_list_def s Let_def prod.case if_False)
qed

subsection \<open>Key/value files\<close>

definition kv_text :: "string \<times> u64 \<Rightarrow> string" where
  "kv_text kv = fst kv @ '' '' @ show_nat (unat (snd kv))"

definition kv_key :: "string \<Rightarrow> bool" where
  "kv_key k \<longleftrightarrow> k \<noteq> [] \<and> graphic k"

lemma trim_kv_text: "kv_key k \<Longrightarrow> trim_space (kv_text (k, v)) = kv_text (k, v)"
proof (rule trim_space_text)
  assume k: "kv_key k"
  show "graphic [hd (kv_text (k, v))]"
    using k by (cases k) (auto simp: kv_text_def kv_key_def)
  have "graphic [last (show_nat (unat v))]"
    using graphic_show_nat [of "unat v"] by (auto simp: graphic_def simp del: graphic_show_nat)
  then show "graphic [last (kv_text (k, v))]"
    by (simp add: kv_text_def)
qed (auto simp: kv_text_def)

lemma key_value_line_text: "kv_key k \<Longrightarrow> key_value_line m (kv_text (k, v)) = map_put k v m"
proof -
  assume k: "kv_key k"
  then have "CHR '' '' \<notin> set k" by (auto simp: kv_key_def graphic_def)
  then have "cut '' '' (kv_text (k, v)) = Some (k, show_nat (unat v))"
    using cut_singleton [of "CHR '' ''" k "show_nat (unat v)"] by (simp add: kv_text_def)
  then show ?thesis
    using k by (simp add: key_value_line_def trim_kv_text kv_key_def)
qed

lemma foldl_key_values:
  "\<forall>kv \<in> set kvs. kv_key (fst kv) \<Longrightarrow>
     map_get (foldl key_value_line m (map kv_text kvs)) k =
       (case map_of (rev kvs) k of Some v \<Rightarrow> Some v | None \<Rightarrow> map_get m k)"
proof (induction kvs arbitrary: m)
  case (Cons kv kvs)
  obtain j v where kv: "kv = (j, v)" by force
  then have "key_value_line m (kv_text kv) = map_put j v m"
    using Cons.prems by (simp add: key_value_line_text)
  then show ?case
    using Cons by (simp add: kv map_add_def split: option.split)
qed simp

lemma key_value_wf: "map_wf m \<Longrightarrow> map_wf (foldl key_value_line m ls)"
proof (induction ls arbitrary: m)
  case (Cons l ls)
  have "map_wf (key_value_line m l)"
    using Cons.prems by (auto simp: key_value_line_def split: option.split sum.split prod.split)
  then show ?case using Cons by simp
qed simp

lemma parse_key_value_text:
  assumes "\<forall>kv \<in> set kvs. kv_key (fst kv) \<and> short_line (kv_text kv)"
  shows "\<exists>m. parse_key_value (unlines (map kv_text kvs)) = Inr m \<and>
    map_wf m \<and> map_get m = map_of (rev kvs)"
proof -
  have s: "scan_lines (unlines (map kv_text kvs)) = (map kv_text kvs, False)"
    using assms by (intro scan_lines_unlines) auto
  have "map_get (foldl key_value_line [] (map kv_text kvs)) k = map_of (rev kvs) k" for k
    using assms foldl_key_values [of kvs "[]" k] by (simp split: option.split)
  then show ?thesis
    by (intro exI [of _ "foldl key_value_line [] (map kv_text kvs)"])
      (simp add: parse_key_value_def s key_value_wf ext)
qed

subsection \<open>Pressure rows\<close>

definition psi_words :: "string \<Rightarrow> nat \<Rightarrow> nat \<Rightarrow> nat \<Rightarrow> u64 \<Rightarrow> string list" where
  "psi_words row a b c tot =
     [row, ''avg10='' @ show_fixed2 a, ''avg60='' @ show_fixed2 b, ''avg300='' @ show_fixed2 c,
      ''total='' @ show_nat (unat tot)]"

definition hundredths :: "nat \<Rightarrow> f64" where
  "hundredths h = f64_round (of_nat h / 100)"

lemma graphic_fixed2: "graphic (show_fixed2 h)"
proof -
  have "graphic [digit_char (h div 10 mod 10), digit_char (h mod 10)]"
    by (rule is_digits_graphic) simp
  then show ?thesis by (simp add: show_fixed2_def)
qed

lemma psi_words_fields:
  "row \<noteq> [] \<Longrightarrow> graphic row \<Longrightarrow> str_fields (join '' '' (psi_words row a b c tot)) = psi_words row a b c tot"
  by (rule fields_join) (simp_all add: psi_words_def graphic_fixed2)

lemma psi_field_avg:
  assumes "h < 2 ^ 53"
  shows "psi_field l (''avg10='' @ show_fixed2 h) = Inr (l\<lparr>psi_avg10 := hundredths h\<rparr>)"
    "psi_field l (''avg60='' @ show_fixed2 h) = Inr (l\<lparr>psi_avg60 := hundredths h\<rparr>)"
    "psi_field l (''avg300='' @ show_fixed2 h) = Inr (l\<lparr>psi_avg300 := hundredths h\<rparr>)"
  using assms by (simp_all add: psi_field_def parse_float_fixed2 hundredths_def)

lemma psi_field_total: "psi_field l (''total='' @ show_nat (unat t)) = Inr (l\<lparr>psi_total := t\<rparr>)"
  by (simp add: psi_field_def)

lemma parse_psi_words:
  assumes "a < 2 ^ 53" "b < 2 ^ 53" "c < 2 ^ 53"
  shows "parse_psi_fields psi_line_zero (tl (psi_words row a b c tot)) =
    Inr \<lparr>psi_avg10 = hundredths a, psi_avg60 = hundredths b, psi_avg300 = hundredths c, psi_total = tot\<rparr>"
  unfolding psi_words_def list.sel parse_psi_fields.simps psi_field_avg [OF assms(1)]
    psi_field_avg [OF assms(2)] psi_field_avg [OF assms(3)] psi_field_total res_bind.simps
  by (simp add: psi_line_zero_def)

definition psi_text :: "string \<Rightarrow> nat \<times> nat \<times> nat \<times> u64 \<Rightarrow> string" where
  "psi_text row v = (case v of (a, b, c, tot) \<Rightarrow> join '' '' (psi_words row a b c tot))"

definition psi_value :: "nat \<times> nat \<times> nat \<times> u64 \<Rightarrow> psi_line" where
  "psi_value v = (case v of (a, b, c, tot) \<Rightarrow>
     \<lparr>psi_avg10 = hundredths a, psi_avg60 = hundredths b, psi_avg300 = hundredths c, psi_total = tot\<rparr>)"

definition psi_small :: "nat \<times> nat \<times> nat \<times> u64 \<Rightarrow> bool" where
  "psi_small v = (case v of (a, b, c, tot) \<Rightarrow> a < 2 ^ 53 \<and> b < 2 ^ 53 \<and> c < 2 ^ 53)"

lemma psi_row_text:
  assumes "psi_small v"
  shows "psi_row p (psi_text ''some'' v) = Inr (p\<lparr>psi_some := psi_value v\<rparr>)"
    "psi_row p (psi_text ''full'' v) = Inr (p\<lparr>psi_full := psi_value v\<rparr>)"
proof -
  obtain a b c tot where v: "v = (a, b, c, tot)" by (cases v) auto
  have h: "a < 2 ^ 53" "b < 2 ^ 53" "c < 2 ^ 53"
    using assms by (auto simp: v psi_small_def)
  have f: "str_fields (join '' '' (psi_words row a b c tot)) = psi_words row a b c tot"
    "length (psi_words row a b c tot) = 5" "hd (psi_words row a b c tot) = row"
    if "row \<noteq> []" "graphic row" for row
    using psi_words_fields [OF that] by (simp_all add: psi_words_def)
  have "graphic ''some''" "graphic ''full''" by simp_all
  then show "psi_row p (psi_text ''some'' v) = Inr (p\<lparr>psi_some := psi_value v\<rparr>)"
    "psi_row p (psi_text ''full'' v) = Inr (p\<lparr>psi_full := psi_value v\<rparr>)"
    using f [of "''some''"] f [of "''full''"]
    by (simp_all add: v psi_row_def psi_text_def psi_value_def parse_psi_words [OF h] Let_def)
qed

subsection \<open>Properties\<close>

text \<open>A torn read of \<open>cgroup.procs\<close> costs the damaged line and nothing else, and a PID
  that comes out was on a line of its own: the parser never invents one.\<close>

theorem torn_pid_list_loses_one_line:
  assumes "\<forall>p \<in> set (ps @ qs). 0 < p \<and> p < 2 ^ 63"
    and "short_line junk" "\<forall>p. atoi (trim_space junk) = Inr p \<longrightarrow> p \<le> 0"
  shows "parse_pid_list (unlines (map itoa ps @ [junk] @ map itoa qs)) = Inr (ps @ qs) \<and>
    (\<forall>data pids p. parse_pid_list data = Inr pids \<longrightarrow> p \<in> set pids \<longrightarrow>
       0 < p \<and> (\<exists>l \<in> set (fst (scan_lines data)). atoi (trim_space l) = Inr p))"
proof (intro conjI allI impI)
  have "pid_lines [junk] = []"
    using assms(3) by (auto simp: Let_def split: sum.split)
  then show "parse_pid_list (unlines (map itoa ps @ [junk] @ map itoa qs)) = Inr (ps @ qs)"
    using parse_pid_list_torn assms(1,2) by blast
next
  fix data pids p
  assume a: "parse_pid_list data = Inr pids" "p \<in> set pids"
  obtain ls b where s: "scan_lines data = (ls, b)" by force
  then have "pids = pid_lines ls"
    using a(1) by (simp add: parse_pid_list_def split: if_splits)
  then have "p \<in> set (pid_lines ls)" using a(2) by simp
  then show "0 < p" "\<exists>l \<in> set (fst (scan_lines data)). atoi (trim_space l) = Inr p"
    using s unfolding pid_lines_member by auto
qed

theorem torn_pid_list_loses_one_line_witness:
  "parse_pid_list (unlines (map itoa [7] @ [''12a''] @ map itoa [9])) = Inr [7, 9]"
proof -
  have t: "trim_space ''12a'' = ''12a''" by simp
  have "atoi ''12a'' = Inl ESyntax"
    by (simp add: atoi_def parse_uint_def digit_val_def uint_cutoff_def word_le_nat_alt Let_def)
  then have "\<forall>p. atoi (trim_space ''12a'') = Inr p \<longrightarrow> p \<le> 0" unfolding t by simp
  moreover have "short_line ''12a''" by (simp add: short_line_def max_token_def)
  ultimately show ?thesis
    using torn_pid_list_loses_one_line [of "[7]" "[9]" "''12a''"] by simp
qed

text \<open>A \<open>memory.pressure\<close> file as the kernel prints it, two decimals per average, is read
  back: each average is the double nearest to the printed figure and the totals are exact.
  The root cgroup has no \<open>full\<close> row, and then the full figures are zero.\<close>

theorem pressure_file_read:
  assumes "psi_small v" "psi_small w"
    and "short_line (psi_text ''some'' v)" "short_line (psi_text ''full'' w)"
  shows "parse_psi (unlines [psi_text ''some'' v, psi_text ''full'' w]) =
      Inr \<lparr>psi_some = psi_value v, psi_full = psi_value w\<rparr> \<and>
    parse_psi (unlines [psi_text ''some'' v]) = Inr \<lparr>psi_some = psi_value v, psi_full = psi_line_zero\<rparr>"
proof -
  have s: "scan_lines (unlines [psi_text ''some'' v, psi_text ''full'' w]) =
      ([psi_text ''some'' v, psi_text ''full'' w], False)"
    "scan_lines (unlines [psi_text ''some'' v]) = ([psi_text ''some'' v], False)"
    using assms(3,4) by (intro scan_lines_unlines; simp)+
  show ?thesis
    unfolding parse_psi_def s Let_def prod.case psi_rows.simps psi_row_text(1) [OF assms(1)]
      res_bind.simps psi_row_text(2) [OF assms(2)]
    by (simp add: psi_zero_def)
qed

theorem pressure_file_read_witness:
  "parse_psi (unlines [psi_text ''some'' (150, 20, 0, 77), psi_text ''full'' (101, 0, 0, 5)]) =
     Inr \<lparr>psi_some = psi_value (150, 20, 0, 77), psi_full = psi_value (101, 0, 0, 5)\<rparr>"
proof -
  have "short_line (psi_text ''some'' (150, 20, 0, 77))" "short_line (psi_text ''full'' (101, 0, 0, 5))"
    by (simp_all add: psi_text_def psi_words_def short_line_def max_token_def show_fixed2_def
        show_nat.simps digit_char_eval)
  then show ?thesis
    using pressure_file_read [of "(150, 20, 0, 77)" "(101, 0, 0, 5)"] by (simp add: psi_small_def)
qed

end
