(* ===== verification/CgroupFS.thy ===== *)
theory CgroupFS
  imports CgroupParse FileSystem
begin

section \<open>The cgroup hierarchy\<close>

text \<open>
  Models \<open>src/internal/cgroup/cgroup.go\<close> and \<open>pressure.go\<close>: version detection, the memory
  statistics of both hierarchy layouts, process lists, the group-kill flag and the discovery
  walk, all over a snapshot of the file tree. \<open>read_oom_group\<close> makes two system calls whose
  answers may come from different moments, so it takes two snapshots. \<open>read_memory_stats\<close> opens
  its files one after the other, but is modelled on one snapshot: the figures of one reading
  are taken to be of one moment, and a cgroup that goes away in between is not seen to.
\<close>

datatype version = VersionUnknown | V1 | V2

definition version_string :: "version \<Rightarrow> string" where
  "version_string v = (case v of V1 \<Rightarrow> ''v1'' | V2 \<Rightarrow> ''v2'' | VersionUnknown \<Rightarrow> ''unknown'')"

record cgfs =
  cg_root :: fsnode
  cg_version :: version

definition detect_version :: "fsnode \<Rightarrow> version" where
  "detect_version tree =
     (if is_ok (fs_stat tree ''cgroup.controllers'') then V2
      else if is_ok (fs_stat tree ''memory/memory.usage_in_bytes'') then V1
      else if is_ok (fs_stat tree ''memory.usage_in_bytes'') then V1
      else VersionUnknown)"

definition cgroup_new :: "fsnode \<Rightarrow> err + cgfs" where
  "cgroup_new tree =
     (let version = detect_version tree in
      if version = VersionUnknown then Inl EUnsupportedVersion
      else Inr \<lparr>cg_root = tree, cg_version = version\<rparr>)"

record mem_events =
  ev_low :: u64
  ev_high :: u64
  ev_max :: u64
  ev_oom :: u64
  ev_oom_kill :: u64

definition mem_events_zero :: mem_events where
  "mem_events_zero = \<lparr>ev_low = 0, ev_high = 0, ev_max = 0, ev_oom = 0, ev_oom_kill = 0\<rparr>"

record mem_stats =
  ms_current :: u64
  ms_peak :: u64
  ms_limit :: u64
  ms_swap :: u64
  ms_anon :: u64
  ms_file :: u64
  ms_kernel :: u64
  ms_events :: mem_events
  ms_events_local :: mem_events
  ms_has_local :: bool

definition mem_stats_zero :: mem_stats where
  "mem_stats_zero = \<lparr>ms_current = 0, ms_peak = 0, ms_limit = 0, ms_swap = 0, ms_anon = 0,
     ms_file = 0, ms_kernel = 0, ms_events = mem_events_zero, ms_events_local = mem_events_zero,
     ms_has_local = False\<rparr>"

definition oom_kills :: "mem_stats \<Rightarrow> u64" where
  "oom_kills m = (if ms_has_local m then ev_oom_kill (ms_events_local m) else ev_oom_kill (ms_events m))"

definition usage_ratio :: "mem_stats \<Rightarrow> f64" where
  "usage_ratio m =
     (if ms_limit m = 0 \<or> ms_limit m = unlimited then FNum 0
      else let ratio = f_div (f_of_u64 (ms_current m)) (f_of_u64 (ms_limit m))
           in if f_lt (FNum 1) ratio then FNum 1 else ratio)"

definition headroom :: "mem_stats \<Rightarrow> u64" where
  "headroom m =
     (if ms_limit m = unlimited then unlimited
      else if ms_limit m \<le> ms_current m then 0
      else ms_limit m - ms_current m)"

subsection \<open>Reading files\<close>

text \<open>\<open>cleaned[1:]\<close> drops the slash that \<open>path.Clean\<close> of a rooted path starts with.\<close>

definition clean_cgroup_path :: "string \<Rightarrow> string" where
  "clean_cgroup_path p =
     (let cleaned = path_clean (''/'' @ p) in if cleaned = ''/'' then ''.'' else drop 1 cleaned)"

definition read_uint :: "cgfs \<Rightarrow> string \<Rightarrow> err + u64" where
  "read_uint f name = res_bind (fs_read (cg_root f) name) parse_cg_uint"

definition read_uint_optional :: "cgfs \<Rightarrow> string \<Rightarrow> err + u64" where
  "read_uint_optional f name =
     (case read_uint f name of Inl (EFs NotExist) \<Rightarrow> Inr 0 | r \<Rightarrow> r)"

definition read_limit :: "cgfs \<Rightarrow> string \<Rightarrow> err + u64" where
  "read_limit f name = res_bind (fs_read (cg_root f) name) parse_limit"

definition read_key_value_optional :: "cgfs \<Rightarrow> string \<Rightarrow> err + (string, u64) gomap" where
  "read_key_value_optional f name =
     (case fs_read (cg_root f) name of
        Inl (EFs NotExist) \<Rightarrow> Inr []
      | Inl e \<Rightarrow> Inl e
      | Inr d \<Rightarrow> parse_key_value d)"

definition events_from :: "(string, u64) gomap \<Rightarrow> mem_events" where
  "events_from m = \<lparr>ev_low = map_get_or 0 m ''low'', ev_high = map_get_or 0 m ''high'',
     ev_max = map_get_or 0 m ''max'', ev_oom = map_get_or 0 m ''oom'',
     ev_oom_kill = map_get_or 0 m ''oom_kill''\<rparr>"

definition read_memory_stats_v2 :: "cgfs \<Rightarrow> string \<Rightarrow> err + mem_stats" where
  "read_memory_stats_v2 f cpath =
     (let dir = clean_cgroup_path cpath in
      res_bind (read_uint f (path_join dir ''memory.current'')) (\<lambda>current.
      res_bind (read_limit f (path_join dir ''memory.max'')) (\<lambda>limit.
      res_bind (read_uint_optional f (path_join dir ''memory.peak'')) (\<lambda>peak.
      res_bind (read_uint_optional f (path_join dir ''memory.swap.current'')) (\<lambda>swap.
      res_bind (read_key_value_optional f (path_join dir ''memory.stat'')) (\<lambda>stat.
      res_bind (read_key_value_optional f (path_join dir ''memory.events'')) (\<lambda>events.
      res_bind (read_key_value_optional f (path_join dir ''memory.events.local'')) (\<lambda>local_events.
        let stats = mem_stats_zero\<lparr>ms_current := current, ms_limit := limit, ms_peak := peak,
              ms_swap := swap, ms_anon := map_get_or 0 stat ''anon'',
              ms_file := map_get_or 0 stat ''file'', ms_kernel := map_get_or 0 stat ''kernel'',
              ms_events := events_from events\<rparr>
        in Inr (if local_events \<noteq> []
                then stats\<lparr>ms_events_local := events_from local_events, ms_has_local := True\<rparr>
                else stats)))))))))"

definition read_memory_stats_v1 :: "cgfs \<Rightarrow> string \<Rightarrow> err + mem_stats" where
  "read_memory_stats_v1 f cpath =
     (let dir = path_join ''memory'' (clean_cgroup_path cpath) in
      res_bind (read_uint f (path_join dir ''memory.usage_in_bytes'')) (\<lambda>current.
      res_bind (read_uint f (path_join dir ''memory.limit_in_bytes'')) (\<lambda>limit.
      res_bind (read_uint_optional f (path_join dir ''memory.max_usage_in_bytes'')) (\<lambda>peak.
      res_bind (read_key_value_optional f (path_join dir ''memory.stat'')) (\<lambda>stat.
      res_bind (read_uint_optional f (path_join dir ''memory.failcnt'')) (\<lambda>failcnt.
        Inr (mem_stats_zero\<lparr>ms_current := current, ms_limit := normalise_limit limit,
          ms_peak := peak, ms_anon := map_get_or 0 stat ''rss'', ms_file := map_get_or 0 stat ''cache'',
          ms_kernel := map_get_or 0 stat ''kernel_stack'', ms_swap := map_get_or 0 stat ''swap'',
          ms_events := mem_events_zero\<lparr>ev_oom := failcnt\<rparr>\<rparr>)))))))"

definition read_memory_stats :: "cgfs \<Rightarrow> string \<Rightarrow> err + mem_stats" where
  "read_memory_stats f cpath =
     (if cg_version f = V1 then read_memory_stats_v1 f cpath else read_memory_stats_v2 f cpath)"

definition procs_in :: "cgfs \<Rightarrow> string \<Rightarrow> err + int list" where
  "procs_in f cpath =
     res_bind (fs_read (cg_root f) (path_join (clean_cgroup_path cpath) ''cgroup.procs'')) parse_pid_list"

text \<open>The tree the directory is stat'd in, then the tree the file is read from.\<close>

definition read_oom_group :: "cgfs \<Rightarrow> fsnode \<Rightarrow> string \<Rightarrow> err + bool" where
  "read_oom_group f later cpath =
     (if cg_version f = V1 then Inr False
      else
        let dir = clean_cgroup_path cpath in
        res_bind (fs_stat (cg_root f) dir) (\<lambda>_.
        res_bind (read_uint_optional (f\<lparr>cg_root := later\<rparr>) (path_join dir ''memory.oom.group''))
          (\<lambda>value. Inr (value \<noteq> 0))))"

definition read_psi :: "cgfs \<Rightarrow> string \<Rightarrow> err + psi" where
  "read_psi f cpath =
     (if cg_version f \<noteq> V2 then Inl EPSIUnsupported
      else case fs_read (cg_root f) (path_join (clean_cgroup_path cpath) ''memory.pressure'') of
             Inl (EFs NotExist) \<Rightarrow> Inl EPSIUnsupported
           | Inl e \<Rightarrow> Inl e
           | Inr d \<Rightarrow> parse_psi d)"

fun atoi_all :: "string list \<Rightarrow> err + int list" where
  "atoi_all [] = Inr []"
| "atoi_all (l # ls) =
     res_bind (atoi l) (\<lambda>pid. res_bind (atoi_all ls) (\<lambda>pids. Inr (pid # pids)))"

definition hierarchy_dir :: "cgfs \<Rightarrow> string \<Rightarrow> string" where
  "hierarchy_dir f cpath =
     (let dir = clean_cgroup_path cpath in if cg_version f = V1 then path_join ''memory'' dir else dir)"

definition read_pids :: "cgfs \<Rightarrow> string \<Rightarrow> err + int list" where
  "read_pids f cpath =
     res_bind (fs_read (cg_root f) (path_join (hierarchy_dir f cpath) ''cgroup.procs''))
       (\<lambda>data. atoi_all (str_fields data))"

subsection \<open>Discovery\<close>

definition relative_to_hierarchy :: "cgfs \<Rightarrow> string \<Rightarrow> string" where
  "relative_to_hierarchy f name =
     (if name = ''.'' then ''/''
      else let name = (if cg_version f = V1 then trim_prefix ''/'' (trim_prefix ''memory'' name) else name)
           in if cg_version f = V1 \<and> name = [] then ''/'' else ''/'' @ name)"

definition marker_file :: "cgfs \<Rightarrow> string" where
  "marker_file f = (if cg_version f = V1 then ''memory.usage_in_bytes'' else ''memory.current'')"

definition discover_step :: "cgfs \<Rightarrow> string list walk_fn" where
  "discover_step f name node err found =
     (case err of
        Some NotExist \<Rightarrow> (WNil, found)
      | Some Permission \<Rightarrow> (WSkipDir, found)
      | Some FsOther \<Rightarrow> (WErr (EFs FsOther), found)
      | None \<Rightarrow>
          (case node of
             None \<Rightarrow> (WNil, found)
           | Some n \<Rightarrow>
               if \<not> is_dir n then (WNil, found)
               else if \<not> is_ok (fs_stat (cg_root f) (path_join name (marker_file f))) then (WNil, found)
               else (WNil, found @ [relative_to_hierarchy f name])))"

definition discover :: "cgfs \<Rightarrow> string \<Rightarrow> err + string list" where
  "discover f pfx =
     (let dir = hierarchy_dir f pfx in
      res_bind (fs_stat (cg_root f) dir) (\<lambda>_.
        case walk (cg_root f) dir (discover_step f) [] of
          (Some e, found) \<Rightarrow> Inl e
        | (None, found) \<Rightarrow> Inr found))"

subsection \<open>Where a path leads\<close>

lemma clean_cgroup_path_segs:
  "clean_cgroup_path p = (if rooted_segs p = [] then ''.'' else join ''/'' (rooted_segs p))"
  by (auto simp: clean_cgroup_path_def path_clean_rooted Let_def join_plain_eq_Nil)

text \<open>The segments below the root of the mount that a path of the hierarchy stands for.\<close>

definition mount_segs :: "cgfs \<Rightarrow> string \<Rightarrow> string list" where
  "mount_segs f p = (if cg_version f = V1 then ''memory'' # rooted_segs p else rooted_segs p)"

definition segs_name :: "string list \<Rightarrow> string" where
  "segs_name xs = (if xs = [] then ''.'' else join ''/'' xs)"

lemma plain_seg_files [simp]:
  "plain_seg ''memory''" "plain_seg ''memory.current''" "plain_seg ''memory.max''" "plain_seg ''memory.peak''"
  "plain_seg ''memory.swap.current''" "plain_seg ''memory.stat''" "plain_seg ''memory.events''"
  "plain_seg ''memory.events.local''" "plain_seg ''memory.usage_in_bytes''"
  "plain_seg ''memory.limit_in_bytes''" "plain_seg ''memory.max_usage_in_bytes''"
  "plain_seg ''memory.failcnt''" "plain_seg ''cgroup.procs''" "plain_seg ''memory.oom.group''"
  "plain_seg ''memory.pressure''" "plain_seg ''cgroup.controllers''"
  by (simp_all add: plain_seg_def)

lemma path_join_segs_name: "plain xs \<Longrightarrow> plain_seg n \<Longrightarrow> path_join (segs_name xs) n = join ''/'' (xs @ [n])"
  by (simp add: segs_name_def path_join_plain path_join_dot)

lemma fs_node_segs_name: "plain xs \<Longrightarrow> fs_node t (segs_name xs) = fs_lookup t xs"
  by (simp add: segs_name_def fs_node_def fs_segs_join)

lemma fs_node_path_join:
  "plain xs \<Longrightarrow> plain_seg n \<Longrightarrow> fs_node t (path_join (segs_name xs) n) = fs_lookup t (xs @ [n])"
  by (simp add: path_join_segs_name fs_node_def fs_segs_join)

lemma clean_is_segs_name: "clean_cgroup_path p = segs_name (rooted_segs p)"
  by (simp add: clean_cgroup_path_segs segs_name_def)

lemma path_join_two:
  assumes "plain_seg x" "plain ys"
  shows "path_join x (segs_name ys) = join ''/'' (x # ys)"
proof (cases "ys = []")
  case True
  have "CHR ''/'' \<notin> set (x @ ''/'' @ ''.'') \<or> True" by simp
  have sp: "split_on (CHR ''/'') (x @ ''/'' @ ''.'') = [x, ''.'']"
    using split_on_append [of "CHR ''/''" x "''.''"] plain_segD [OF assms(1)] by simp
  obtain c cs where x: "x = c # cs" "c \<noteq> CHR ''/''"
    using plain_segD [OF assms(1)] by (cases x) auto
  show ?thesis
    using True sp x plain_segD [OF assms(1)]
    by (simp add: path_join_def path_clean_def segs_name_def)
next
  case False
  have "x @ ''/'' @ join ''/'' ys = join ''/'' (x # ys)"
    using False by (simp add: join_Cons)
  then show ?thesis
    using False assms path_clean_plain [of "x # ys"] plain_segD [OF assms(1)]
    by (simp add: path_join_def segs_name_def join_plain_eq_Nil)
qed

lemma hierarchy_dir_segs: "hierarchy_dir f p = segs_name (mount_segs f p)"
  by (simp add: hierarchy_dir_def mount_segs_def clean_is_segs_name path_join_two Let_def)
    (simp add: segs_name_def)

lemma mount_segs_plain [simp]: "plain (mount_segs f p)"
  by (simp add: mount_segs_def)

text \<open>The file \<open>n\<close> of the cgroup a path names.\<close>

definition cgroup_file :: "cgfs \<Rightarrow> string \<Rightarrow> string \<Rightarrow> err + string" where
  "cgroup_file f p n = fs_read (cg_root f) (path_join (hierarchy_dir f p) n)"

lemma cgroup_file_lookup:
  "plain_seg n \<Longrightarrow> cgroup_file f p n =
     (case fs_lookup (cg_root f) (mount_segs f p @ [n]) of
        Inl e \<Rightarrow> Inl (EFs e)
      | Inr m \<Rightarrow> (case node_read m of Inl e \<Rightarrow> Inl (EFs e) | Inr d \<Rightarrow> Inr d))"
  by (simp add: cgroup_file_def hierarchy_dir_segs fs_read_def fs_node_path_join)

lemma rooted_segs_segs_name: "plain xs \<Longrightarrow> rooted_segs (segs_name xs) = xs"
  by (simp add: segs_name_def rooted_segs_join)

lemma clean_cgroup_path_idem: "clean_cgroup_path (clean_cgroup_path p) = clean_cgroup_path p"
  by (simp add: clean_is_segs_name rooted_segs_segs_name)

subsection \<open>Ratios and headroom\<close>

lemma usage_ratio_range: "\<exists>q. usage_ratio m = FNum q \<and> 0 \<le> q \<and> q \<le> 1"
proof (cases "ms_limit m = 0 \<or> ms_limit m = unlimited")
  case True
  then show ?thesis by (auto simp: usage_ratio_def)
next
  case False
  define c where "c = round_mag (unsigned (ms_current m))"
  define l where "l = round_mag (unsigned (ms_limit m))"
  have c: "0 \<le> c" by (simp add: c_def f_of_u64_nonneg)
  have "0 < ms_limit m" using False by (simp add: word_neq_0_conv)
  then have l: "1 \<le> l" using f_of_u64_pos by (simp add: l_def)
  have ratio: "f_div (f_of_u64 (ms_current m)) (f_of_u64 (ms_limit m)) = f64_round (c / l)"
    using l by (simp add: f_of_u64_num c_def l_def)
  show ?thesis
  proof (cases "f_lt (FNum 1) (f64_round (c / l))")
    case True
    then show ?thesis using False ratio by (auto simp: usage_ratio_def Let_def)
  next
    case nl: False
    have nn: "0 \<le> round_mag (c / l)" using c l by (intro round_mag_nonneg) auto
    have "f64_round (c / l) = FNum (round_mag (c / l)) \<and> round_mag (c / l) \<le> 1"
      using nl c l by (auto simp: f64_round_nonneg split: if_splits)
    then show ?thesis using nl nn False ratio by (auto simp: usage_ratio_def Let_def)
  qed
qed

lemma usage_ratio_full:
  assumes "ms_limit m \<noteq> 0" "ms_limit m \<noteq> unlimited" "ms_limit m \<le> ms_current m"
  shows "usage_ratio m = FNum 1"
proof -
  define c where "c = round_mag (unsigned (ms_current m))"
  define l where "l = round_mag (unsigned (ms_limit m))"
  have "0 < ms_limit m" using assms(1) by (simp add: word_neq_0_conv)
  then have l: "1 \<le> l" "l \<le> c"
    using f_of_u64_pos f_of_u64_mono [OF assms(3)] by (simp_all add: l_def c_def)
  have ratio: "f_div (f_of_u64 (ms_current m)) (f_of_u64 (ms_limit m)) = f64_round (c / l)"
    using l by (simp add: f_of_u64_num c_def l_def)
  have "round_mag 1 \<le> round_mag (c / l)"
    using l by (intro round_mag_mono) auto
  then have "1 \<le> round_mag (c / l)" using round_mag_int [of 1] by simp
  then show ?thesis
    using assms l ratio by (auto simp: usage_ratio_def Let_def f64_round_nonneg)
qed

lemma usage_ratio_mono:
  assumes "ms_limit m = ms_limit n" "ms_current m \<le> ms_current n"
    "usage_ratio m = FNum q" "usage_ratio n = FNum r"
  shows "q \<le> r"
proof (cases "ms_limit n = 0 \<or> ms_limit n = unlimited \<or> ms_limit n \<le> ms_current n")
  case True
  show ?thesis
  proof (cases "ms_limit n = 0 \<or> ms_limit n = unlimited")
    case True
    then show ?thesis using assms by (auto simp: usage_ratio_def)
  next
    case False
    then have "r = 1" using \<open>_ \<or> _ \<or> _\<close> usage_ratio_full [of n] assms(4) by auto
    then show ?thesis using usage_ratio_range [of m] assms(3) by auto
  qed
next
  case False
  define c where "c = round_mag (unsigned (ms_current m))"
  define d where "d = round_mag (unsigned (ms_current n))"
  define l where "l = round_mag (unsigned (ms_limit n))"
  have "0 < ms_limit n" using False by (simp add: word_neq_0_conv)
  moreover have le: "ms_current n \<le> ms_limit n" using False by (simp add: not_le less_imp_le)
  ultimately have l: "1 \<le> l" "c \<le> d" "0 \<le> c" "d \<le> l"
    using f_of_u64_pos f_of_u64_mono [OF assms(2)] f_of_u64_nonneg
      f_of_u64_mono [OF le]
    by (simp_all add: l_def c_def d_def)
  have one: "x / l \<le> 1 \<and> 0 \<le> x / l" if "0 \<le> x" "x \<le> l" for x
    using l that by simp
  have eq: "f64_round (x / l) = FNum (round_mag (x / l)) \<and> round_mag (x / l) \<le> 1"
    if "0 \<le> x" "x \<le> l" for x
    using f64_round_le [of "x / l" 1] one [OF that] by simp
  have "round_mag (c / l) \<le> round_mag (d / l)"
    using l by (intro round_mag_mono) (auto simp: divide_right_mono)
  moreover have "usage_ratio m = f64_round (c / l)" "usage_ratio n = f64_round (d / l)"
    using False assms(1) l eq [of c] eq [of d]
    by (auto simp: usage_ratio_def Let_def f_of_u64_num c_def d_def l_def)
  ultimately show ?thesis
    using assms(3,4) eq [of c] eq [of d] l by auto
qed

subsection \<open>Statistics come from the files\<close>

text \<open>An optional file is absent and stands for the default, or present and parsed.\<close>

definition file_value :: "(string \<Rightarrow> err + 'a) \<Rightarrow> err + string \<Rightarrow> 'a \<Rightarrow> bool" where
  "file_value parse r v \<longleftrightarrow> (\<exists>d. r = Inr d \<and> parse d = Inr v)"

definition optional_value :: "(string \<Rightarrow> err + 'a) \<Rightarrow> 'a \<Rightarrow> err + string \<Rightarrow> 'a \<Rightarrow> bool" where
  "optional_value parse z r v \<longleftrightarrow> r = Inl (EFs NotExist) \<and> v = z \<or> file_value parse r v"

lemma parse_uint_no_fs: "parse_uint_loop n s \<noteq> Inl (EFs e)"
  by (induction s arbitrary: n) (auto simp: Let_def split: option.split)

lemma parse_cg_uint_no_fs: "parse_cg_uint d \<noteq> Inl (EFs e)"
  using parse_uint_no_fs by (simp add: parse_cg_uint_def parse_uint_def Let_def)

lemma read_uint_value: "read_uint f name = Inr v \<longleftrightarrow> file_value parse_cg_uint (fs_read (cg_root f) name) v"
  by (cases "fs_read (cg_root f) name") (auto simp: read_uint_def file_value_def)

lemma read_limit_value: "read_limit f name = Inr v \<longleftrightarrow> file_value parse_limit (fs_read (cg_root f) name) v"
  by (cases "fs_read (cg_root f) name") (auto simp: read_limit_def file_value_def)

lemma read_uint_optional_value:
  "read_uint_optional f name = Inr v \<longleftrightarrow> optional_value parse_cg_uint 0 (fs_read (cg_root f) name) v"
proof (cases "fs_read (cg_root f) name")
  case (Inl e)
  then show ?thesis
    by (auto simp: read_uint_optional_def read_uint_def optional_value_def file_value_def
        split: err.split fs_err.split)
next
  case (Inr d)
  then show ?thesis
    using parse_cg_uint_no_fs [of d]
    by (auto simp: read_uint_optional_def read_uint_def optional_value_def file_value_def
        split: sum.split err.split fs_err.split)
qed

lemma read_key_value_optional_value:
  "read_key_value_optional f name = Inr m \<longleftrightarrow>
     optional_value parse_key_value [] (fs_read (cg_root f) name) m"
  by (cases "fs_read (cg_root f) name")
    (auto simp: read_key_value_optional_def optional_value_def file_value_def
      split: err.split fs_err.split)

lemmas file_values = read_uint_value read_limit_value read_uint_optional_value
  read_key_value_optional_value

lemma hierarchy_dir_v2: "cg_version f \<noteq> V1 \<Longrightarrow> hierarchy_dir f p = clean_cgroup_path p"
  by (simp add: hierarchy_dir_def)

lemma hierarchy_dir_v1: "cg_version f = V1 \<Longrightarrow> hierarchy_dir f p = path_join ''memory'' (clean_cgroup_path p)"
  by (simp add: hierarchy_dir_def)

subsection \<open>Discovery\<close>

lemma join_plain_not_dot: "plain xs \<Longrightarrow> join ''/'' xs \<noteq> ''.''"
proof
  assume p: "plain xs" and j: "join ''/'' xs = ''.''"
  then have "xs \<noteq> []" by auto
  then have "split_on (CHR ''/'') (join ''/'' xs) = xs"
    using p by (intro split_on_plain)
  then have "xs = [''.'']" unfolding j by simp
  then show False using p by (simp add: plain_seg_def)
qed

lemma relative_to_hierarchy_mount:
  assumes "plain xs" "cg_version f = V1 \<Longrightarrow> xs \<noteq> [] \<and> hd xs = ''memory''"
  shows "mount_segs f (relative_to_hierarchy f (segs_name xs)) = xs"
proof (cases "cg_version f = V1")
  case False
  then show ?thesis
    using assms(1)
    by (cases "xs = []")
      (simp_all add: mount_segs_def relative_to_hierarchy_def segs_name_def rooted_segs_join
        join_plain_not_dot rooted_segs_def [of "[]"])
next
  case True
  then obtain ys where xs: "xs = ''memory'' # ys"
    using assms(2) by (cases xs) auto
  have ys: "plain ys" using assms(1) xs by simp
  have nd: "join ''/'' (''memory'' # ys) \<noteq> ''.''"
    by (cases ys) simp_all
  show ?thesis
  proof (cases "ys = []")
    case True
    then show ?thesis using \<open>cg_version f = V1\<close>
      by (simp add: xs mount_segs_def relative_to_hierarchy_def segs_name_def rooted_segs_def go_eval)
  next
    case False
    then have j: "join ''/'' (''memory'' # ys) = ''memory'' @ ''/'' @ join ''/'' ys"
      by (simp add: join_Cons)
    have "trim_prefix ''/'' (trim_prefix ''memory'' (join ''/'' (''memory'' # ys))) = join ''/'' ys"
      unfolding j by (simp add: trim_prefix_def cut_prefix_def)
    then show ?thesis
      using False ys nd \<open>cg_version f = V1\<close>
      by (simp add: xs mount_segs_def relative_to_hierarchy_def segs_name_def rooted_segs_join
          join_plain_eq_Nil Let_def)
  qed
qed

text \<open>What a walk may meet: a plain path of the tree, below \<open>memory\<close> on the legacy layout.\<close>

definition walk_meets :: "cgfs \<Rightarrow> string \<Rightarrow> fsnode \<Rightarrow> bool" where
  "walk_meets f name n \<longleftrightarrow>
     (\<exists>xs. plain xs \<and> name = segs_name xs \<and> fs_lookup (cg_root f) xs = Inr n \<and>
       (cg_version f = V1 \<longrightarrow> xs \<noteq> [] \<and> hd xs = ''memory''))"

definition holds_cgroup :: "cgfs \<Rightarrow> string \<Rightarrow> bool" where
  "holds_cgroup f p \<longleftrightarrow>
     (\<exists>n. fs_lookup (cg_root f) (mount_segs f p) = Inr n \<and> is_dir n) \<and>
     is_ok (fs_stat (cg_root f) (path_join (hierarchy_dir f p) (marker_file f)))"

lemma walk_meets_child:
  assumes "fs_wf (cg_root f)" "walk_meets f name (Dir i l es)" "(x, n) \<in> set es"
  shows "walk_meets f (path_join name x) n"
proof -
  obtain xs where xs: "plain xs" "name = segs_name xs" "fs_lookup (cg_root f) xs = Inr (Dir i l es)"
    "cg_version f = V1 \<longrightarrow> xs \<noteq> [] \<and> hd xs = ''memory''"
    using assms(2) by (auto simp: walk_meets_def)
  have ch: "plain_seg x" "map_of es x = Some n"
    using fs_wf_child [OF fs_wf_lookup [OF assms(1) xs(3)] assms(3)] by auto
  have "path_join name x = segs_name (xs @ [x])"
    using xs ch by (simp add: path_join_segs_name segs_name_def [of "xs @ [x]"])
  then show ?thesis
    unfolding walk_meets_def using xs ch
    by (intro exI [of _ "xs @ [x]"]) (auto simp: fs_lookup_append)
qed

lemma discover_step_keeps:
  assumes "fs_wf (cg_root f)"
  shows "walk_keeps (walk_meets f) (\<lambda>found. \<forall>p \<in> set found. holds_cgroup f p) (discover_step f)"
  unfolding walk_keeps_def
proof (intro conjI allI impI)
  fix name n e and acc :: "string list"
  assume R: "walk_meets f name n" and I: "\<forall>p \<in> set acc. holds_cgroup f p"
  obtain xs where xs: "plain xs" "name = segs_name xs" "fs_lookup (cg_root f) xs = Inr n"
    "cg_version f = V1 \<longrightarrow> xs \<noteq> [] \<and> hd xs = ''memory''"
    using R by (auto simp: walk_meets_def)
  then have m: "mount_segs f (relative_to_hierarchy f name) = xs"
    using relative_to_hierarchy_mount [of xs f] by simp
  then have "hierarchy_dir f (relative_to_hierarchy f name) = name"
    using xs by (simp add: hierarchy_dir_segs)
  then have "is_dir n \<Longrightarrow> is_ok (fs_stat (cg_root f) (path_join name (marker_file f))) \<Longrightarrow>
      holds_cgroup f (relative_to_hierarchy f name)"
    using m xs(3) by (simp add: holds_cgroup_def)
  then show "\<forall>p \<in> set (snd (discover_step f name (Some n) e acc)). holds_cgroup f p"
    using I by (auto simp: discover_step_def split: option.split fs_err.split)
next
  fix name i l es x n
  assume "walk_meets f name (Dir i l es)" "(x, n) \<in> set es"
  then show "walk_meets f (path_join name x) n"
    using walk_meets_child [OF assms] by blast
qed

lemma fs_stat_hierarchy_dir:
  "is_ok (fs_stat (cg_root f) (hierarchy_dir f p)) \<longleftrightarrow> (\<exists>n. fs_lookup (cg_root f) (mount_segs f p) = Inr n)"
  by (simp add: fs_stat_Inr_iff hierarchy_dir_segs fs_node_segs_name)

lemma discover_holds_cgroup:
  assumes wf: "fs_wf (cg_root f)" and d: "discover f pfx = Inr found" and p: "p \<in> set found"
  shows "holds_cgroup f p"
proof -
  obtain n where n: "fs_lookup (cg_root f) (mount_segs f pfx) = Inr n"
    using d fs_stat_hierarchy_dir [of f pfx]
    by (auto simp: discover_def Let_def is_ok_iff)
  have R: "walk_meets f (hierarchy_dir f pfx) n"
    unfolding walk_meets_def using n
    by (intro exI [of _ "mount_segs f pfx"]) (auto simp: hierarchy_dir_segs mount_segs_def)
  have nd: "fs_node (cg_root f) (hierarchy_dir f pfx) = Inr n"
    using n by (simp add: hierarchy_dir_segs fs_node_segs_name)
  obtain ctl acc where w: "walk_dir (discover_step f) (hierarchy_dir f pfx) n [] = (ctl, acc)"
    by force
  have "\<forall>p \<in> set (snd (walk_dir (discover_step f) (hierarchy_dir f pfx) n [])). holds_cgroup f p"
    by (rule walk_dir_invariant(1) [OF discover_step_keeps [OF wf] R]) simp
  moreover have "found = acc"
    using d w nd by (auto simp: discover_def walk_def Let_def split: walk_ctl.splits)
  ultimately show ?thesis using p w by simp
qed

text \<open>Every path found is the canonical name of a node of the tree.\<close>

lemma discover_canonical:
  assumes wf: "fs_wf (cg_root f)" and d: "discover f pfx = Inr found" and p: "p \<in> set found"
  shows "\<exists>name n. walk_meets f name n \<and> p = relative_to_hierarchy f name"
proof -
  let ?I = "\<lambda>found. \<forall>p \<in> set found. \<exists>name n. walk_meets f name n \<and> p = relative_to_hierarchy f name"
  have keeps: "walk_keeps (walk_meets f) ?I (discover_step f)"
    unfolding walk_keeps_def
    using walk_meets_child [OF wf] by (auto simp: discover_step_def split: option.split fs_err.split)
  obtain n where n: "fs_lookup (cg_root f) (mount_segs f pfx) = Inr n"
    using d fs_stat_hierarchy_dir [of f pfx]
    by (auto simp: discover_def Let_def is_ok_iff)
  have R: "walk_meets f (hierarchy_dir f pfx) n"
    unfolding walk_meets_def using n
    by (intro exI [of _ "mount_segs f pfx"]) (auto simp: hierarchy_dir_segs mount_segs_def)
  have nd: "fs_node (cg_root f) (hierarchy_dir f pfx) = Inr n"
    using n by (simp add: hierarchy_dir_segs fs_node_segs_name)
  obtain ctl acc where w: "walk_dir (discover_step f) (hierarchy_dir f pfx) n [] = (ctl, acc)"
    by force
  have "?I (snd (walk_dir (discover_step f) (hierarchy_dir f pfx) n []))"
    by (rule walk_dir_invariant(1) [OF keeps R]) simp
  moreover have "found = acc"
    using d w nd by (auto simp: discover_def walk_def Let_def split: walk_ctl.splits)
  ultimately show ?thesis using p w by simp
qed

lemma discover_never_stops: "never_stops (discover_step f)"
  by (auto simp: never_stops_def discover_step_def)

lemma foldl_discover:
  "foldl (visit (discover_step f)) found es = found @ map (\<lambda>e. relative_to_hierarchy f (fst e))
     (filter (\<lambda>e. is_dir (snd e) \<and> is_ok (fs_stat (cg_root f) (path_join (fst e) (marker_file f)))) es)"
proof (induction es arbitrary: found)
  case (Cons e es)
  then show ?case by (cases e) (simp add: visit_def discover_step_def)
qed simp

lemma discover_complete:
  assumes wf: "fs_wf (cg_root f)" and li: "listable (cg_root f)"
    and ds: "discover f pfx = Inr found"
    and c: "plain ys" "holds_cgroup f p" "mount_segs f p = mount_segs f pfx @ ys"
  shows "\<exists>q \<in> set found. mount_segs f q = mount_segs f p"
proof -
  obtain n where n: "fs_lookup (cg_root f) (mount_segs f pfx) = Inr n"
    using ds fs_stat_hierarchy_dir [of f pfx]
    by (auto simp: discover_def Let_def is_ok_iff)
  have nd: "fs_node (cg_root f) (hierarchy_dir f pfx) = Inr n"
    using n by (simp add: hierarchy_dir_segs fs_node_segs_name)
  have found: "found = map (\<lambda>e. relative_to_hierarchy f (fst e))
     (filter (\<lambda>e. is_dir (snd e) \<and> is_ok (fs_stat (cg_root f) (path_join (fst e) (marker_file f))))
       (tree_entries (hierarchy_dir f pfx) n))"
    using ds nd walk_dir_visits_all(1) [OF discover_never_stops listable_lookup [OF li n]]
    by (auto simp: discover_def walk_def Let_def foldl_discover)
  obtain d where d: "fs_lookup n ys = Inr d" "is_dir d"
    using c(2,3) n by (auto simp: holds_cgroup_def fs_lookup_append)
  have "(segs_name (mount_segs f p), d) \<in> set (tree_entries (hierarchy_dir f pfx) n)"
    using tree_entries_lookup [OF fs_wf_lookup [OF wf n] c(1) mount_segs_plain d(1), of "hierarchy_dir f pfx" f pfx]
    by (simp add: hierarchy_dir_segs segs_name_def c(3))
  then have "relative_to_hierarchy f (segs_name (mount_segs f p)) \<in> set found"
    using d(2) c(2) by (auto simp: found holds_cgroup_def hierarchy_dir_segs image_iff)
  moreover have "mount_segs f (relative_to_hierarchy f (segs_name (mount_segs f p))) = mount_segs f p"
    by (rule relative_to_hierarchy_mount) (auto simp: mount_segs_def)
  ultimately show ?thesis by blast
qed

subsection \<open>Properties\<close>

text \<open>C38: Memory statistics on the unified hierarchy are what the files say. Usage and limit
  come from files that were read and parsed; a figure is zero for want of a file only when
  the file does not exist, never because it was corrupt; and the kill counter a caller
  attributes to the cgroup is the local one whenever \<open>memory.events.local\<close> holds any field.\<close>

theorem memory_stats_come_from_files:
  assumes "cg_version f \<noteq> V1" "read_memory_stats f p = Inr m"
  shows "file_value parse_cg_uint (cgroup_file f p ''memory.current'') (ms_current m) \<and>
    file_value parse_limit (cgroup_file f p ''memory.max'') (ms_limit m) \<and>
    optional_value parse_cg_uint 0 (cgroup_file f p ''memory.peak'') (ms_peak m) \<and>
    optional_value parse_cg_uint 0 (cgroup_file f p ''memory.swap.current'') (ms_swap m) \<and>
    (\<exists>stat. optional_value parse_key_value [] (cgroup_file f p ''memory.stat'') stat \<and>
       ms_anon m = map_get_or 0 stat ''anon'' \<and> ms_file m = map_get_or 0 stat ''file'' \<and>
       ms_kernel m = map_get_or 0 stat ''kernel'') \<and>
    (\<exists>ev loc. optional_value parse_key_value [] (cgroup_file f p ''memory.events'') ev \<and>
       optional_value parse_key_value [] (cgroup_file f p ''memory.events.local'') loc \<and>
       ms_has_local m = (loc \<noteq> []) \<and>
       oom_kills m = map_get_or 0 (if loc \<noteq> [] then loc else ev) ''oom_kill'')"
proof -
  obtain cur lim peak swap stat ev loc where r:
    "file_value parse_cg_uint (cgroup_file f p ''memory.current'') cur"
    "file_value parse_limit (cgroup_file f p ''memory.max'') lim"
    "optional_value parse_cg_uint 0 (cgroup_file f p ''memory.peak'') peak"
    "optional_value parse_cg_uint 0 (cgroup_file f p ''memory.swap.current'') swap"
    "optional_value parse_key_value [] (cgroup_file f p ''memory.stat'') stat"
    "optional_value parse_key_value [] (cgroup_file f p ''memory.events'') ev"
    "optional_value parse_key_value [] (cgroup_file f p ''memory.events.local'') loc"
    and m: "m = (let stats = mem_stats_zero\<lparr>ms_current := cur, ms_limit := lim, ms_peak := peak,
              ms_swap := swap, ms_anon := map_get_or 0 stat ''anon'',
              ms_file := map_get_or 0 stat ''file'', ms_kernel := map_get_or 0 stat ''kernel'',
              ms_events := events_from ev\<rparr>
        in if loc \<noteq> []
           then stats\<lparr>ms_events_local := events_from loc, ms_has_local := True\<rparr> else stats)"
    using assms
    by (auto simp: read_memory_stats_def read_memory_stats_v2_def Let_def file_values cgroup_file_def
        hierarchy_dir_v2)
  have "ms_current m = cur" "ms_limit m = lim" "ms_peak m = peak" "ms_swap m = swap"
    "ms_anon m = map_get_or 0 stat ''anon''" "ms_file m = map_get_or 0 stat ''file''"
    "ms_kernel m = map_get_or 0 stat ''kernel''" "ms_has_local m = (loc \<noteq> [])"
    "oom_kills m = map_get_or 0 (if loc \<noteq> [] then loc else ev) ''oom_kill''"
    by (simp_all add: m Let_def mem_stats_zero_def oom_kills_def events_from_def)
  then show ?thesis using r by metis
qed

definition demo_v2 :: cgfs where
  "demo_v2 = \<lparr>cg_root = Dir None None [(''cgroup.controllers'', File (Inr [])),
     (''pod'', Dir None None [(''memory.current'', File (Inr ''7'')), (''memory.max'', File (Inr ''max'')),
        (''cgroup.procs'', File (Inr ''41''))])], cg_version = V2\<rparr>"

definition empty_cgfs :: cgfs where
  "empty_cgfs = \<lparr>cg_root = Dir None None [], cg_version = V2\<rparr>"

lemma rooted_segs_pod: "rooted_segs ''pod'' = [''pod'']"
  using rooted_segs_join [of "[''pod'']"] by (simp add: plain_seg_def)

lemma demo_v2_file:
  "plain_seg n \<Longrightarrow> cgroup_file demo_v2 ''/pod'' n =
     (if n = ''memory.current'' then Inr ''7'' else if n = ''memory.max'' then Inr ''max''
      else if n = ''cgroup.procs'' then Inr ''41'' else Inl (EFs NotExist))"
  by (simp add: cgroup_file_lookup mount_segs_def rooted_segs_pod demo_v2_def)

lemma demo_v2_stats: "\<exists>m. read_memory_stats demo_v2 ''/pod'' = Inr m"
proof -
  have f: "fs_read (cg_root demo_v2) (path_join (clean_cgroup_path ''/pod'') n) = cgroup_file demo_v2 ''/pod'' n" for n
    by (simp add: cgroup_file_def hierarchy_dir_v2 demo_v2_def)
  have v: "cg_version demo_v2 = V2" by (simp add: demo_v2_def)
  have "trim_space ''7'' = ''7''" "trim_space ''max'' = ''max''" by simp_all
  moreover have "parse_uint ''7'' = Inr 7"
    using parse_uint_show_nat [of 7] by (simp add: show_nat.simps digit_char_eval)
  ultimately show ?thesis
    by (simp add: read_memory_stats_def read_memory_stats_v2_def v Let_def read_uint_def read_limit_def
        read_uint_optional_def read_key_value_optional_def f demo_v2_file parse_cg_uint_def
        parse_limit_def max_value_def)
qed

theorem memory_stats_come_from_files_witness:
  "\<exists>m. read_memory_stats demo_v2 ''/pod'' = Inr m \<and> ms_peak m = 0 \<and> \<not> ms_has_local m"
proof -
  obtain m where m: "read_memory_stats demo_v2 ''/pod'' = Inr m" using demo_v2_stats by blast
  have "optional_value parse_cg_uint 0 (cgroup_file demo_v2 ''/pod'' ''memory.peak'') (ms_peak m)"
    "\<exists>ev loc. optional_value parse_key_value [] (cgroup_file demo_v2 ''/pod'' ''memory.events'') ev \<and>
       optional_value parse_key_value [] (cgroup_file demo_v2 ''/pod'' ''memory.events.local'') loc \<and>
       ms_has_local m = (loc \<noteq> []) \<and>
       oom_kills m = map_get_or 0 (if loc \<noteq> [] then loc else ev) ''oom_kill''"
    using memory_stats_come_from_files [OF _ m] by (auto simp: demo_v2_def)
  then show ?thesis using m by (auto simp: demo_v2_file optional_value_def file_value_def)
qed

text \<open>The usage ratio is a number between 0 and 1 whatever the kernel reports: 0 without a
  limit, 1 as soon as usage has reached it, and never falling when usage grows.\<close>

theorem usage_ratio_unit_interval:
  "(\<exists>q. usage_ratio m = FNum q \<and> 0 \<le> q \<and> q \<le> 1) \<and>
   (ms_limit m = 0 \<or> ms_limit m = unlimited \<longrightarrow> usage_ratio m = FNum 0) \<and>
   (ms_limit m \<noteq> 0 \<and> ms_limit m \<noteq> unlimited \<and> ms_limit m \<le> ms_current m \<longrightarrow> usage_ratio m = FNum 1) \<and>
   (\<forall>c q r. ms_current m \<le> c \<longrightarrow> usage_ratio m = FNum q \<longrightarrow> usage_ratio (m\<lparr>ms_current := c\<rparr>) = FNum r \<longrightarrow> q \<le> r)"
  using usage_ratio_range [of m] usage_ratio_full [of m] usage_ratio_mono [of m "m\<lparr>ms_current := _\<rparr>"]
  by (auto simp: usage_ratio_def)

theorem usage_ratio_unit_interval_witness:
  "usage_ratio (mem_stats_zero\<lparr>ms_limit := 100, ms_current := 250\<rparr>) = FNum 1"
  using usage_ratio_unit_interval [of "mem_stats_zero\<lparr>ms_limit := 100, ms_current := 250\<rparr>"]
  by (simp add: unlimited_def mem_stats_zero_def)

text \<open>C39: Discovery returns paths that lead back to where they were found: each one names a
  directory that holds the memory controller's file. When every directory can be listed it
  also misses none below the prefix, on both hierarchy layouts.\<close>

theorem discovery_exact:
  assumes "fs_wf (cg_root f)" "discover f pfx = Inr found"
  shows "(\<forall>p \<in> set found. holds_cgroup f p) \<and>
    (listable (cg_root f) \<longrightarrow>
      (\<forall>p ys. holds_cgroup f p \<and> plain ys \<and> mount_segs f p = mount_segs f pfx @ ys \<longrightarrow>
         (\<exists>q \<in> set found. mount_segs f q = mount_segs f p)))"
  using assms discover_holds_cgroup discover_complete by blast

lemma demo_v2_discover: "\<exists>found. discover demo_v2 [] = Inr found"
proof -
  have r: "rooted_segs [] = []" by (simp add: rooted_segs_def)
  have h: "hierarchy_dir demo_v2 [] = ''.''"
    by (simp add: hierarchy_dir_segs mount_segs_def segs_name_def r demo_v2_def)
  have l: "listable (cg_root demo_v2)" by (simp add: demo_v2_def)
  show ?thesis
    unfolding discover_def h Let_def walk_def
    by (simp add: fs_stat_def fs_node_def walk_dir_visits_all(1) [OF discover_never_stops l])
qed

theorem discovery_exact_witness:
  "\<exists>found q. discover demo_v2 [] = Inr found \<and> q \<in> set found \<and> mount_segs demo_v2 q = [''pod'']"
proof -
  obtain found where d: "discover demo_v2 [] = Inr found" using demo_v2_discover by blast
  have wf: "fs_wf (cg_root demo_v2)" "listable (cg_root demo_v2)"
    by (simp_all add: demo_v2_def plain_seg_def)
  have m: "mount_segs demo_v2 ''/pod'' = [''pod'']" "mount_segs demo_v2 [] = []" "plain [''pod'']"
    by (simp_all add: mount_segs_def demo_v2_def rooted_segs_pod rooted_segs_def [of "[]"] plain_seg_def)
  have "fs_node (cg_root demo_v2) (path_join (segs_name [''pod'']) ''memory.current'') =
      Inr (File (Inr ''7''))"
    using m(3) by (simp add: fs_node_path_join demo_v2_def)
  then have "holds_cgroup demo_v2 ''/pod''"
    using m by (simp add: holds_cgroup_def hierarchy_dir_segs fs_stat_def marker_file_def)
      (simp add: demo_v2_def)
  then have "\<exists>q \<in> set found. mount_segs demo_v2 q = mount_segs demo_v2 ''/pod''"
    using discovery_exact [OF wf(1) d] wf(2) m by (metis append_Nil)
  then show ?thesis using d m by auto
qed

text \<open>The group-kill flag never answers "no" for a cgroup that is gone when it is looked
  at: the answer is an error. In a cgroup that is there, a missing file is a "no" and a
  file is read as written.\<close>

theorem group_kill_of_absent_cgroup_is_error:
  assumes "cg_version f = V2"
  shows "(\<forall>e. fs_lookup (cg_root f) (mount_segs f p) = Inl e \<longrightarrow>
            read_oom_group f later p = Inl (EFs e)) \<and>
    (\<forall>n. fs_lookup (cg_root f) (mount_segs f p) = Inr n \<longrightarrow>
       (cgroup_file f p ''memory.oom.group'' = Inl (EFs NotExist) \<longrightarrow>
          read_oom_group f (cg_root f) p = Inr False) \<and>
       (\<forall>w :: u64. cgroup_file f p ''memory.oom.group'' = Inr (show_nat (unat w) @ [CHR 0x0A]) \<longrightarrow>
          read_oom_group f (cg_root f) p = Inr (w \<noteq> 0)))"
proof -
  have st: "fs_stat (cg_root f) (clean_cgroup_path p) =
      (case fs_lookup (cg_root f) (mount_segs f p) of Inl e \<Rightarrow> Inl (EFs e) | Inr n \<Rightarrow> Inr (is_dir n))"
    using assms by (simp add: fs_stat_def clean_is_segs_name fs_node_segs_name mount_segs_def)
  have cf: "fs_read (cg_root f) (path_join (clean_cgroup_path p) n) = cgroup_file f p n" for n
    using assms by (simp add: cgroup_file_def hierarchy_dir_v2)
  show ?thesis
    using assms
    by (auto simp: read_oom_group_def st cf Let_def read_uint_optional_def read_uint_def parse_cg_uint_line)
qed

theorem group_kill_of_absent_cgroup_is_error_witness:
  "read_oom_group demo_v2 (cg_root demo_v2) ''/gone'' = Inl (EFs NotExist)"
proof -
  have "rooted_segs ''gone'' = [''gone'']"
    using rooted_segs_join [of "[''gone'']"] by (simp add: plain_seg_def)
  then have "fs_lookup (cg_root demo_v2) (mount_segs demo_v2 ''/gone'') = Inl NotExist"
    by (simp add: mount_segs_def demo_v2_def)
  then show ?thesis
    using group_kill_of_absent_cgroup_is_error [of demo_v2 "''/gone''"] by (simp add: demo_v2_def)
qed

text \<open>The two calls of the group-kill check can straddle the end of the cgroup. When the
  directory is there for the first and gone for the second, the answer is "no".\<close>

theorem group_kill_check_can_race:
  assumes "cg_version f = V2" "fs_lookup (cg_root f) (mount_segs f p) = Inr n"
    and "cgroup_file (f\<lparr>cg_root := later\<rparr>) p ''memory.oom.group'' = Inl (EFs NotExist)"
  shows "read_oom_group f later p = Inr False"
proof -
  have st: "fs_stat (cg_root f) (clean_cgroup_path p) = Inr (is_dir n)"
    using assms(1,2) by (simp add: fs_stat_def clean_is_segs_name fs_node_segs_name mount_segs_def)
  have "fs_read later (path_join (clean_cgroup_path p) ''memory.oom.group'') = Inl (EFs NotExist)"
    using assms(1,3) by (simp add: cgroup_file_def hierarchy_dir_v2)
  then show ?thesis
    using assms(1) st by (simp add: read_oom_group_def Let_def read_uint_optional_def read_uint_def)
qed

theorem group_kill_check_can_race_witness:
  "read_oom_group demo_v2 (Dir None None []) ''/pod'' = Inr False"
proof (rule group_kill_check_can_race)
  show "fs_lookup (cg_root demo_v2) (mount_segs demo_v2 ''/pod'') =
      Inr (Dir None None [(''memory.current'', File (Inr ''7'')), (''memory.max'', File (Inr ''max'')),
        (''cgroup.procs'', File (Inr ''41''))])"
    by (simp add: mount_segs_def rooted_segs_pod demo_v2_def)
  show "cgroup_file (demo_v2\<lparr>cg_root := Dir None None []\<rparr>) ''/pod'' ''memory.oom.group'' = Inl (EFs NotExist)"
    by (simp add: cgroup_file_lookup mount_segs_def rooted_segs_pod demo_v2_def)
qed (simp add: demo_v2_def)

text \<open>On the legacy layout the two process listings disagree. \<open>ReadPIDs\<close>, like the memory
  statistics, looks below \<open>memory/\<close>; \<open>ProcsIn\<close> looks at the root of the mount, where the
  cgroup is not, so it fails for a cgroup whose processes \<open>ReadPIDs\<close> lists.\<close>

theorem legacy_procs_in_misses_cgroup:
  assumes "cg_version f = V1" "cgroup_file f p ''cgroup.procs'' = Inr d"
    and "fs_lookup (cg_root f) (rooted_segs p @ [''cgroup.procs'']) = Inl NotExist"
  shows "procs_in f p = Inl (EFs NotExist) \<and> read_pids f p = atoi_all (str_fields d)"
proof -
  have "fs_read (cg_root f) (path_join (clean_cgroup_path p) ''cgroup.procs'') = Inl (EFs NotExist)"
    using assms(3) by (simp add: fs_read_def clean_is_segs_name fs_node_path_join)
  then show ?thesis
    using assms(2) by (simp add: procs_in_def read_pids_def cgroup_file_def)
qed

definition demo_v1 :: cgfs where
  "demo_v1 = \<lparr>cg_root = Dir None None [(''memory'', Dir None None
     [(''memory.usage_in_bytes'', File (Inr ''9'')),
      (''pod'', Dir None None [(''memory.usage_in_bytes'', File (Inr ''7'')),
        (''cgroup.procs'', File (Inr ''7''))])])], cg_version = V1\<rparr>"

theorem legacy_procs_in_misses_cgroup_witness:
  "procs_in demo_v1 ''/pod'' = Inl (EFs NotExist) \<and> read_pids demo_v1 ''/pod'' = Inr [7]"
proof -
  have v: "cg_version demo_v1 = V1" by (simp add: demo_v1_def)
  have c: "cgroup_file demo_v1 ''/pod'' ''cgroup.procs'' = Inr ''7''"
    by (simp add: cgroup_file_lookup mount_segs_def rooted_segs_pod demo_v1_def)
  have n: "fs_lookup (cg_root demo_v1) (rooted_segs ''/pod'' @ [''cgroup.procs'']) = Inl NotExist"
    by (simp add: rooted_segs_pod demo_v1_def)
  have f: "str_fields ''7'' = [''7'']"
    using fields_join [of "CHR '' ''" "[''7'']"] by simp
  have a: "atoi ''7'' = Inr 7"
    using atoi_show_nat [of 7] by (simp add: show_nat.simps digit_char_eval)
  show ?thesis
    using legacy_procs_in_misses_cgroup [OF v c n] by (simp add: f a)
qed

text \<open>A root that is itself a legacy memory hierarchy is accepted as version 1, but every
  read then looks below a \<open>memory\<close> directory that is not there: no statistic of any cgroup
  can be read, not even of the root whose marker file decided the version.\<close>

theorem legacy_root_accepted_but_unreadable:
  assumes "detect_version (Dir i l es) = V1" "map_of es ''memory'' = None"
  shows "cgroup_new (Dir i l es) = Inr \<lparr>cg_root = Dir i l es, cg_version = V1\<rparr> \<and>
    read_memory_stats \<lparr>cg_root = Dir i l es, cg_version = V1\<rparr> p = Inl (EFs NotExist) \<and>
    discover \<lparr>cg_root = Dir i l es, cg_version = V1\<rparr> p = Inl (EFs NotExist)"
proof -
  define f where "f = \<lparr>cg_root = Dir i l es, cg_version = V1\<rparr>"
  have v: "cg_version f = V1" "cg_root f = Dir i l es" by (simp_all add: f_def)
  have cf: "cgroup_file f p ''memory.usage_in_bytes'' = Inl (EFs NotExist)"
    using v assms(2) by (simp add: cgroup_file_lookup mount_segs_def)
  have "fs_stat (cg_root f) (hierarchy_dir f p) = Inl (EFs NotExist)"
    using v assms(2) by (simp add: fs_stat_def hierarchy_dir_segs fs_node_segs_name) (simp add: mount_segs_def)
  then have "discover f p = Inl (EFs NotExist)" by (simp add: discover_def Let_def)
  moreover have "read_memory_stats f p = Inl (EFs NotExist)"
    using cf v by (simp add: read_memory_stats_def read_memory_stats_v1_def read_uint_def Let_def
        cgroup_file_def hierarchy_dir_v1)
  ultimately show ?thesis
    using assms(1) by (simp add: cgroup_new_def f_def)
qed

theorem legacy_root_accepted_but_unreadable_witness:
  "read_memory_stats \<lparr>cg_root = Dir None None [(''memory.usage_in_bytes'', File (Inr ''7''))],
     cg_version = V1\<rparr> ''/'' = Inl (EFs NotExist)"
proof -
  have "detect_version (Dir None None [(''memory.usage_in_bytes'', File (Inr ''7''))]) = V1"
    by (simp add: detect_version_def fs_stat_def fs_node_def fs_segs_def)
  then show ?thesis
    using legacy_root_accepted_but_unreadable [of None None "[(''memory.usage_in_bytes'', File (Inr ''7''))]" "''/''"]
    by simp
qed

end
