(* ===== verification/Resolver.thy ===== *)
theory Resolver
  imports CgroupPath ProcFS
begin

section \<open>From a cgroup path to a Kubernetes identity\<close>

text \<open>
  Models \<open>src/internal/correlate/resolver.go\<close>. A \<open>PodLookup\<close> is a function from pod UIDs to
  what is known of the pod; \<open>None\<close> in its place is the nil lookup. The locale
  \<open>pod_directory\<close> is the contract between the resolver and the directories that back it:
  the in-memory map here and the pod cache of its own theory both interpret it.
\<close>

record container_info =
  ci_name :: string
  ci_image :: string

record pod_info =
  pi_namespace :: string
  pi_name :: string
  pi_node :: string
  pi_containers :: "(string, container_info) gomap"

record identity =
  id_scope :: scope
  id_namespace :: string
  id_pod_name :: string
  id_container_name :: string
  id_image :: string
  id_resolved :: bool

definition identity_zero :: identity where
  "identity_zero = \<lparr>id_scope = scope_zero, id_namespace = [], id_pod_name = [],
     id_container_name = [], id_image = [], id_resolved = False\<rparr>"

definition identity_string :: "identity \<Rightarrow> string" where
  "identity_string i =
     (let name =
        (if id_resolved i \<and> id_container_name i \<noteq> [] then
           id_namespace i @ ''/'' @ id_pod_name i @ ''/'' @ id_container_name i
         else if id_resolved i then id_namespace i @ ''/'' @ id_pod_name i
         else ''pod '' @ sc_pod_uid (id_scope i) @ '' (unresolved)'')
      in if sc_kind (id_scope i) = ScopePod then name @ '' (pod-level)'' else name)"

type_synonym pod_lookup = "string \<Rightarrow> pod_info option"

definition resolve :: "pod_lookup option \<Rightarrow> string \<Rightarrow> identity option" where
  "resolve pods cpath =
     (case parse_cgroup_path cpath of
        None \<Rightarrow> None
      | Some sc \<Rightarrow>
          (let i = identity_zero\<lparr>id_scope := sc\<rparr> in
           case pods of
             None \<Rightarrow> Some i
           | Some lookup \<Rightarrow>
               (case lookup (sc_pod_uid sc) of
                  None \<Rightarrow> Some i
                | Some pod \<Rightarrow>
                    (let i = i\<lparr>id_namespace := pi_namespace pod, id_pod_name := pi_name pod,
                               id_resolved := True\<rparr>
                     in case map_get (pi_containers pod) (sc_container_id sc) of
                          Some c \<Rightarrow>
                            if sc_kind sc = ScopeContainer
                            then Some (i\<lparr>id_container_name := ci_name c, id_image := ci_image c\<rparr>)
                            else Some i
                        | None \<Rightarrow> Some i))))"

definition resolve_process :: "pod_lookup option \<Rightarrow> process \<Rightarrow> identity option" where
  "resolve_process pods p = (if p_cgroup_path p = [] then None else resolve pods (p_cgroup_path p))"

definition strip_runtime_prefix :: "string \<Rightarrow> string" where
  "strip_runtime_prefix cid = (case cut ''://'' cid of Some (a, b) \<Rightarrow> b | None \<Rightarrow> cid)"

subsection \<open>The in-memory directory\<close>

type_synonym map_pods = "(string, pod_info) gomap"

definition map_lookup_pod :: "map_pods \<Rightarrow> pod_lookup" where
  "map_lookup_pod m uid = map_get m uid"

text \<open>\<open>maps.Clone\<close> of a container map, then the copied pod stored under its UID.\<close>

definition clone_containers :: "(string, 'v) gomap \<Rightarrow> (string, 'v) gomap" where
  "clone_containers m = fold (\<lambda>(k, v) out. map_put k v out) m []"

definition map_clone :: "map_pods \<Rightarrow> map_pods" where
  "map_clone m =
     fold (\<lambda>(uid, pod) out. map_put uid (pod\<lparr>pi_containers := clone_containers (pi_containers pod)\<rparr>) out) m []"

subsection \<open>What resolution guarantees\<close>

lemma resolve_None_iff: "resolve pods p = None \<longleftrightarrow> parse_cgroup_path p = None"
  by (auto simp: resolve_def Let_def split: option.split)

lemma resolve_scope: "resolve pods p = Some i \<Longrightarrow> parse_cgroup_path p = Some (id_scope i)"
  by (auto simp: resolve_def identity_zero_def Let_def split: option.splits if_splits)

lemma resolve_resolved:
  "resolve pods p = Some i \<Longrightarrow>
     id_resolved i \<longleftrightarrow> (\<exists>lookup pod. pods = Some lookup \<and> lookup (sc_pod_uid (id_scope i)) = Some pod)"
  by (auto simp: resolve_def identity_zero_def Let_def split: option.splits if_splits)

lemma resolve_pod_names:
  "resolve (Some lookup) p = Some i \<Longrightarrow> lookup (sc_pod_uid (id_scope i)) = Some pod \<Longrightarrow>
     id_namespace i = pi_namespace pod \<and> id_pod_name i = pi_name pod"
  by (auto simp: resolve_def identity_zero_def Let_def split: option.splits if_splits)

lemma resolve_container:
  "resolve (Some lookup) p = Some i \<Longrightarrow> lookup (sc_pod_uid (id_scope i)) = Some pod \<Longrightarrow>
     sc_kind (id_scope i) = ScopeContainer \<Longrightarrow>
     map_get (pi_containers pod) (sc_container_id (id_scope i)) = Some c \<Longrightarrow>
     id_container_name i = ci_name c \<and> id_image i = ci_image c"
  by (auto simp: resolve_def identity_zero_def Let_def split: option.splits if_splits)

lemma resolve_pod_level:
  "resolve pods p = Some i \<Longrightarrow> sc_kind (id_scope i) \<noteq> ScopeContainer \<Longrightarrow>
     id_container_name i = [] \<and> id_image i = []"
  by (auto simp: resolve_def identity_zero_def Let_def split: option.splits if_splits)

lemma resolve_unresolved:
  "resolve pods p = Some i \<Longrightarrow> \<not> id_resolved i \<Longrightarrow>
     id_namespace i = [] \<and> id_pod_name i = [] \<and> id_container_name i = [] \<and> id_image i = []"
  by (auto simp: resolve_def identity_zero_def Let_def split: option.splits if_splits)

lemma resolve_cong:
  "lookup (sc_pod_uid sc) = lookup' (sc_pod_uid sc) \<Longrightarrow> parse_cgroup_path p = Some sc \<Longrightarrow>
     resolve (Some lookup) p = resolve (Some lookup') p"
  by (simp add: resolve_def)

lemma strip_runtime_prefix_scheme:
  "\<not> sublist ''://'' (scheme @ '':/'') \<Longrightarrow> strip_runtime_prefix (scheme @ ''://'' @ cid) = cid"
proof -
  have "\<not> sublist ''://'' (s @ '':/'') \<Longrightarrow> cut ''://'' (s @ ''://'' @ cid) = Some (s, cid)" for s
  proof (induction s)
    case (Cons c s)
    have np: "\<not> prefix ''://'' ((c # s) @ ''://'' @ cid)"
    proof
      assume "prefix ''://'' ((c # s) @ ''://'' @ cid)"
      then have "prefix ''://'' ((c # s) @ '':/'')"
        by (cases s; cases "tl s"; cases "tl (tl s)") auto
      then show False using Cons.prems prefix_imp_sublist by blast
    qed
    have "\<not> sublist ''://'' (s @ '':/'')"
      using Cons.prems by (auto simp: sublist_Cons_right)
    then show ?case using Cons.IH np by simp
  qed simp
  then show "\<not> sublist ''://'' (scheme @ '':/'') \<Longrightarrow> ?thesis"
    by (simp add: strip_runtime_prefix_def)
qed

subsection \<open>The contract of a pod directory\<close>

text \<open>
  A directory learns about a pod and answers for it from then on. \<open>info\<close> is what the
  directory tells of a pod object, \<open>uid\<close> the key it files it under.
\<close>

locale pod_directory =
  fixes lookup :: "'d \<Rightarrow> pod_lookup"
    and learn :: "'p \<Rightarrow> 'd \<Rightarrow> 'd"
    and uid :: "'p \<Rightarrow> string"
    and info :: "'p \<Rightarrow> pod_info"
    and inv :: "'d \<Rightarrow> bool"
  assumes inv_learn: "inv d \<Longrightarrow> inv (learn p d)"
    and lookup_learn: "inv d \<Longrightarrow> lookup (learn p d) u = (if u = uid p then Some (info p) else lookup d u)"
begin

lemma resolve_learned:
  assumes "inv d" "resolve (Some (lookup (learn p d))) cpath = Some i"
    and "sc_pod_uid (id_scope i) = uid p"
  shows "id_resolved i" "id_namespace i = pi_namespace (info p)" "id_pod_name i = pi_name (info p)"
proof -
  have l: "lookup (learn p d) (sc_pod_uid (id_scope i)) = Some (info p)"
    using assms by (simp add: lookup_learn)
  show "id_resolved i" using resolve_resolved [OF assms(2)] l by auto
  show "id_namespace i = pi_namespace (info p)" "id_pod_name i = pi_name (info p)"
    using resolve_pod_names [OF assms(2) l] by auto
qed

lemma resolve_other:
  assumes "inv d" "parse_cgroup_path cpath = Some sc" "sc_pod_uid sc \<noteq> uid p"
  shows "resolve (Some (lookup (learn p d))) cpath = resolve (Some (lookup d)) cpath"
  using assms by (intro resolve_cong) (simp_all add: lookup_learn)

text \<open>Learning many pods: the last object with the pod's UID is the one that answers.\<close>

lemma lookup_learn_all:
  "inv d \<Longrightarrow> lookup (fold learn ps d) u =
     (case find (\<lambda>p. uid p = u) (rev ps) of Some p \<Rightarrow> Some (info p) | None \<Rightarrow> lookup d u)"
proof (induction ps rule: rev_induct)
  case (snoc p ps)
  have "inv (fold learn ps d)"
    using snoc.prems by (induction ps arbitrary: d) (auto simp: inv_learn)
  then show ?case using snoc by (simp add: lookup_learn)
qed simp

end

interpretation map_dir: pod_directory map_lookup_pod "\<lambda>(uid, pod) m. map_put uid pod m" fst snd map_wf
  by unfold_locales (auto simp: map_lookup_pod_def split: prod.splits)

subsection \<open>Cloning\<close>

lemma map_get_fold_put:
  "distinct (map fst es) \<Longrightarrow>
     map_get (fold (\<lambda>(k, v) out. map_put k (g v) out) es m) k =
       (case map_of es k of Some v \<Rightarrow> Some (g v) | None \<Rightarrow> map_get m k)"
proof (induction es arbitrary: m)
  case (Cons e es)
  obtain j v where "e = (j, v)" by force
  moreover have "j = k \<Longrightarrow> map_of es k = None" if "e = (j, v)"
    using Cons.prems that by (auto simp: map_of_eq_None_iff)
  ultimately show ?case using Cons by (auto split: option.split)
qed simp

lemma clone_containers_get: "map_wf m \<Longrightarrow> map_get (clone_containers m) = map_get m"
  using map_get_fold_put [of m "\<lambda>v. v" "[]"]
  by (auto simp: clone_containers_def map_wf_def map_keys_def map_get_def [of m] fun_eq_iff split: option.splits)

lemma map_clone_get:
  assumes "map_wf m"
  shows "map_get (map_clone m) uid =
    map_option (\<lambda>pod. pod\<lparr>pi_containers := clone_containers (pi_containers pod)\<rparr>) (map_get m uid)"
  using map_get_fold_put [of m "\<lambda>pod. pod\<lparr>pi_containers := clone_containers (pi_containers pod)\<rparr>" "[]" uid] assms
  by (simp add: map_clone_def map_wf_def map_keys_def map_get_def [of m] split: option.splits)

subsection \<open>Properties\<close>

text \<open>Resolution fails exactly when the path is no pod or container path. Otherwise the
  identity carries the scope the path proves; the cluster names are filled in exactly when
  the directory knows the pod; and a pod-level kill never borrows a container's name.\<close>

theorem resolve_degrades_gracefully:
  "(resolve pods p = None \<longleftrightarrow> parse_cgroup_path p = None) \<and>
   (\<forall>i. resolve pods p = Some i \<longrightarrow>
      parse_cgroup_path p = Some (id_scope i) \<and>
      (id_resolved i \<longleftrightarrow>
         (\<exists>lookup pod. pods = Some lookup \<and> lookup (sc_pod_uid (id_scope i)) = Some pod \<and>
            id_namespace i = pi_namespace pod \<and> id_pod_name i = pi_name pod)) \<and>
      (\<not> id_resolved i \<longrightarrow> id_namespace i = [] \<and> id_pod_name i = []) \<and>
      (sc_kind (id_scope i) \<noteq> ScopeContainer \<or> \<not> id_resolved i \<longrightarrow>
         id_container_name i = [] \<and> id_image i = []))"
proof (intro conjI allI impI)
  fix i assume r: "resolve pods p = Some i"
  show "id_resolved i \<longleftrightarrow>
      (\<exists>lookup pod. pods = Some lookup \<and> lookup (sc_pod_uid (id_scope i)) = Some pod \<and>
         id_namespace i = pi_namespace pod \<and> id_pod_name i = pi_name pod)"
    using resolve_resolved [OF r] resolve_pod_names r by blast
  show "id_namespace i = []" "id_pod_name i = []" if "\<not> id_resolved i"
    using resolve_unresolved [OF r that] by auto
  assume "sc_kind (id_scope i) \<noteq> ScopeContainer \<or> \<not> id_resolved i"
  then show "id_container_name i = []" "id_image i = []"
    using resolve_pod_level [OF r] resolve_unresolved [OF r] by auto
qed (auto simp: resolve_None_iff resolve_scope)

theorem resolve_degrades_gracefully_witness:
  "\<exists>i. resolve (Some (map_lookup_pod [(''7'', \<lparr>pi_namespace = ''ns'', pi_name = ''web'', pi_node = ''n'',
       pi_containers = []\<rparr>)])) ''/kubepods/pod7/c1'' = Some i \<and> id_resolved i \<and> id_scope i = demo_scope"
proof -
  let ?l = "map_lookup_pod [(''7'', \<lparr>pi_namespace = ''ns'', pi_name = ''web'', pi_node = ''n'', pi_containers = []\<rparr>)]"
  have "resolve (Some ?l) ''/kubepods/pod7/c1'' \<noteq> None"
    using resolve_degrades_gracefully [of "Some ?l" "''/kubepods/pod7/c1''"] by (simp add: parse_demo_path)
  then obtain i where i: "resolve (Some ?l) ''/kubepods/pod7/c1'' = Some i" by blast
  have "id_scope i = demo_scope"
    using resolve_degrades_gracefully [of "Some ?l" "''/kubepods/pod7/c1''"] i by (auto simp: parse_demo_path)
  moreover have "id_resolved i"
    using resolve_resolved [OF i] calculation
    by (auto simp: map_lookup_pod_def demo_scope_def map_get_def)
  ultimately show ?thesis using i by blast
qed

end
