(* ===== verification/BoundedHistory.thy ===== *)
theory BoundedHistory
  imports Prelude
begin

section \<open>The contract of a bounded history\<close>

text \<open>
  Two components keep "the last so many things": the sampler's ring of readings and the
  daemon's store of reports. Both promise the same: what is held is the most recent part of
  what was added, in order, never more than the capacity. The locale
  \<open>keyed_history\<close> states that contract over an abstraction to lists, for additions whose key
  is new, and derives what a client may conclude from it; \<open>bounded_history\<close> is the case of
  things without keys.
\<close>

definition keep_last :: "nat \<Rightarrow> 'a list \<Rightarrow> 'a list" where
  "keep_last n xs = drop (length xs - n) xs"

lemma length_keep_last [simp]: "length (keep_last n xs) = min n (length xs)"
  by (simp add: keep_last_def)

lemma keep_last_short [simp]: "length xs \<le> n \<Longrightarrow> keep_last n xs = xs"
  by (simp add: keep_last_def)

lemma keep_last_snoc: "keep_last n (keep_last n xs @ [x]) = keep_last n (xs @ [x])"
proof (cases "length xs \<le> n")
  case False
  show ?thesis
  proof (cases n)
    case (Suc k)
    then have "length xs - k = Suc (length xs - Suc k)" using False by simp
    then show ?thesis using Suc False by (simp add: keep_last_def)
  qed (simp add: keep_last_def)
qed simp

lemma set_keep_last: "set (keep_last n xs) \<subseteq> set xs"
  by (auto simp: keep_last_def dest: in_set_dropD)

lemma last_keep_last: "0 < n \<Longrightarrow> xs \<noteq> [] \<Longrightarrow> last (keep_last n xs) = last xs"
  by (simp add: keep_last_def)

lemma keep_last_append: "length ys \<le> n \<Longrightarrow> keep_last n (xs @ ys) = keep_last (n - length ys) xs @ ys"
  by (simp add: keep_last_def)

lemma keep_last_map: "keep_last n (map f xs) = map f (keep_last n xs)"
  by (simp add: keep_last_def drop_map)

lemma keep_last_Suc_full: "length xs = n \<Longrightarrow> 0 < n \<Longrightarrow> keep_last n (xs @ [x]) = tl xs @ [x]"
  by (cases xs) (simp_all add: keep_last_def)

text \<open>A sequence of additions each of which is fresh for the state it meets.\<close>

fun fresh_all :: "('a \<Rightarrow> 'h \<Rightarrow> bool) \<Rightarrow> ('a \<Rightarrow> 'h \<Rightarrow> 'h) \<Rightarrow> 'a list \<Rightarrow> 'h \<Rightarrow> bool" where
  "fresh_all fresh add [] h \<longleftrightarrow> True"
| "fresh_all fresh add (x # xs) h \<longleftrightarrow> fresh x h \<and> fresh_all fresh add xs (add x h)"

lemma fresh_all_append:
  "fresh_all fresh add (xs @ ys) h \<longleftrightarrow> fresh_all fresh add xs h \<and> fresh_all fresh add ys (fold add xs h)"
  by (induction xs arbitrary: h) auto

lemma fresh_all_True [simp]: "fresh_all (\<lambda>_ _. True) add xs h"
  by (induction xs arbitrary: h) auto

locale keyed_history =
  fixes cap :: "'h \<Rightarrow> nat"
    and contents :: "'h \<Rightarrow> 'a list"
    and add :: "'a \<Rightarrow> 'h \<Rightarrow> 'h"
    and inv :: "'h \<Rightarrow> bool"
    and fresh :: "'a \<Rightarrow> 'h \<Rightarrow> bool"
  assumes inv_add: "inv h \<Longrightarrow> inv (add x h)"
    and cap_add: "inv h \<Longrightarrow> cap (add x h) = cap h"
    and cap_pos: "inv h \<Longrightarrow> 0 < cap h"
    and bounded: "inv h \<Longrightarrow> length (contents h) \<le> cap h"
    and contents_add: "inv h \<Longrightarrow> fresh x h \<Longrightarrow> contents (add x h) = keep_last (cap h) (contents h @ [x])"
begin

lemma inv_all: "inv h \<Longrightarrow> inv (fold add xs h) \<and> cap (fold add xs h) = cap h"
  by (induction xs arbitrary: h) (simp_all add: inv_add cap_add)

lemma add_fresh_all:
  "inv h \<Longrightarrow> fresh_all fresh add xs h \<Longrightarrow>
     contents (fold add xs h) = keep_last (cap h) (contents h @ xs)"
proof (induction xs rule: rev_induct)
  case Nil
  then show ?case using bounded [of h] by simp
next
  case (snoc x xs)
  then show ?case
    using keep_last_snoc [of "cap h" "contents h @ xs" x] inv_all [of h xs]
    by (simp add: fresh_all_append contents_add)
qed

text \<open>The newest thing added is there and is last, and the previous contents moved up.\<close>

lemma add_last: "inv h \<Longrightarrow> fresh x h \<Longrightarrow> contents (add x h) \<noteq> [] \<and> last (contents (add x h)) = x"
  using cap_pos [of h] last_keep_last [of "cap h" "contents h @ [x]"]
  by (auto simp: contents_add keep_last_def)

lemma add_evicts_at_most_one:
  "inv h \<Longrightarrow> fresh x h \<Longrightarrow> contents (add x h) =
     (if length (contents h) < cap h then contents h @ [x] else tl (contents h) @ [x])"
  using bounded [of h] cap_pos [of h] keep_last_Suc_full [of "contents h" "cap h" x]
  by (auto simp: contents_add)

text \<open>Until the capacity is reached nothing is lost.\<close>

lemma add_all_holds_recent:
  "inv h \<Longrightarrow> length ys < cap h \<Longrightarrow> fresh_all fresh add (xs @ x # ys) h \<Longrightarrow>
     x \<in> set (contents (fold add (xs @ x # ys) h))"
  using add_fresh_all [of h "xs @ x # ys"] keep_last_append [of "x # ys" "cap h" "contents h @ xs"]
  by simp

end

text \<open>The case without keys: every addition is fresh.\<close>

locale bounded_history = keyed_history cap contents add inv "\<lambda>_ _. True"
  for cap :: "'h \<Rightarrow> nat" and contents :: "'h \<Rightarrow> 'a list" and add :: "'a \<Rightarrow> 'h \<Rightarrow> 'h" and inv :: "'h \<Rightarrow> bool"
begin

lemma add_all:
  "inv h \<Longrightarrow> inv (fold add xs h) \<and> cap (fold add xs h) = cap h \<and>
     contents (fold add xs h) = keep_last (cap h) (contents h @ xs)"
  using inv_all [of h xs] add_fresh_all [of h xs] by simp

lemma add_all_no_loss:
  "inv h \<Longrightarrow> contents h = [] \<Longrightarrow> length xs \<le> cap h \<Longrightarrow> contents (fold add xs h) = xs"
  by (simp add: add_all)

end

end
