(* ===== verification/SamplerRing.thy ===== *)
theory SamplerRing
  imports CgroupFS BoundedHistory
begin

section \<open>The ring of samples\<close>

text \<open>
  Models \<open>src/internal/sampler/ring.go\<close>: the circular buffer with its write index and its
  filled flag. The refinement to a bounded list is the interpretation of
  \<open>bounded_history\<close>: \<open>Samples\<close> is the abstraction, \<open>Add\<close> the operation.
\<close>

record sample =
  sm_time :: time
  sm_stats :: mem_stats
  sm_psi :: psi

definition sample_zero :: sample where
  "sample_zero = \<lparr>sm_time = 0, sm_stats = mem_stats_zero, sm_psi = psi_zero\<rparr>"

record ring =
  rg_samples :: "sample list"
  rg_next :: nat
  rg_filled :: bool

text \<open>A capacity that is not positive panics: \<open>None\<close>.\<close>

definition new_ring :: "int \<Rightarrow> ring option" where
  "new_ring capacity =
     (if capacity \<le> 0 then None
      else Some \<lparr>rg_samples = replicate (nat capacity) sample_zero, rg_next = 0, rg_filled = False\<rparr>)"

definition ring_add :: "sample \<Rightarrow> ring \<Rightarrow> ring" where
  "ring_add s r =
     (let r1 = r\<lparr>rg_samples := (rg_samples r)[rg_next r := s]\<rparr>;
          r2 = r1\<lparr>rg_next := (rg_next r1 + 1) mod length (rg_samples r1)\<rparr>
      in if rg_next r2 = 0 then r2\<lparr>rg_filled := True\<rparr> else r2)"

text \<open>\<open>Add\<close> as the code runs it: an index beyond the buffer panics, \<open>None\<close>. \<open>ring_add\<close> is what it leaves
  when it does not.\<close>

definition ring_push :: "sample \<Rightarrow> ring \<Rightarrow> ring option" where
  "ring_push s r = (if rg_next r < length (rg_samples r) then Some (ring_add s r) else None)"

definition ring_len :: "ring \<Rightarrow> nat" where
  "ring_len r = (if rg_filled r then length (rg_samples r) else rg_next r)"

definition ring_cap :: "ring \<Rightarrow> nat" where
  "ring_cap r = length (rg_samples r)"

definition ring_samples :: "ring \<Rightarrow> sample list" where
  "ring_samples r =
     (let out = (if rg_filled r then drop (rg_next r) (rg_samples r) else [])
      in out @ take (rg_next r) (rg_samples r))"

definition ring_latest :: "ring \<Rightarrow> sample option" where
  "ring_latest r =
     (if ring_len r = 0 then None
      else Some (rg_samples r ! ((rg_next r + length (rg_samples r) - 1) mod length (rg_samples r))))"

definition ring_ok :: "ring \<Rightarrow> bool" where
  "ring_ok r \<longleftrightarrow> rg_next r < length (rg_samples r)"

lemma ring_push_ok: "ring_ok r \<Longrightarrow> ring_push s r = Some (ring_add s r)"
  by (simp add: ring_push_def ring_ok_def)

lemma ring_add_next:
  "ring_ok r \<Longrightarrow> rg_next (ring_add s r) = (if Suc (rg_next r) = ring_cap r then 0 else Suc (rg_next r))"
  by (auto simp: ring_add_def ring_ok_def ring_cap_def Let_def)

lemma ring_add_filled: "rg_filled (ring_add s r) \<longleftrightarrow> rg_filled r \<or> rg_next (ring_add s r) = 0"
  by (auto simp: ring_add_def Let_def)

lemma ring_add_samples: "rg_samples (ring_add s r) = (rg_samples r)[rg_next r := s]"
  by (simp add: ring_add_def Let_def)

lemma ring_add_ok: "ring_ok r \<Longrightarrow> ring_ok (ring_add s r)"
  unfolding ring_ok_def [of "ring_add s r"]
  by (simp add: ring_add_next ring_add_samples) (auto simp: ring_ok_def ring_cap_def)

lemma length_ring_samples: "ring_ok r \<Longrightarrow> length (ring_samples r) = ring_len r"
  by (simp add: ring_samples_def ring_len_def ring_ok_def Let_def)

lemma ring_samples_add:
  assumes "ring_ok r"
  shows "ring_samples (ring_add s r) = keep_last (ring_cap r) (ring_samples r @ [s])"
proof -
  define n where "n = rg_next r"
  have lt: "n < length (rg_samples r)" using assms by (simp add: ring_ok_def n_def)
  have t: "take n ((rg_samples r)[n := s]) = take n (rg_samples r)" by simp
  have t1: "take (Suc n) ((rg_samples r)[n := s]) = take n (rg_samples r) @ [s]"
    using lt by (simp add: take_Suc_conv_app_nth)
  have dn: "drop (Suc n) ((rg_samples r)[n := s]) = drop (Suc n) (rg_samples r)" by simp
  have tl: "tl (drop n (rg_samples r)) = drop (Suc n) (rg_samples r)"
    by (simp add: tl_drop drop_Suc)
  have d: "drop n (rg_samples r) = rg_samples r ! n # drop (Suc n) (rg_samples r)"
    using lt by (simp add: Cons_nth_drop_Suc)
  have nx: "rg_next (ring_add s r) = (if Suc n = length (rg_samples r) then 0 else Suc n)"
    using ring_add_next [OF assms] by (simp add: n_def ring_cap_def)
  show ?thesis
  proof (cases "rg_filled r")
    case True
    then have a: "ring_samples r = rg_samples r ! n # drop (Suc n) (rg_samples r) @ take n (rg_samples r)"
      using d by (simp add: ring_samples_def n_def)
    have "keep_last (ring_cap r) (ring_samples r @ [s]) = tl (ring_samples r) @ [s]"
      using lt a by (intro keep_last_Suc_full) (auto simp: ring_cap_def)
    then show ?thesis
      using True lt nx t1 dn
      by (auto simp: ring_samples_def ring_add_filled ring_add_samples Let_def n_def [symmetric] tl)
  next
    case False
    then have a: "ring_samples r = take n (rg_samples r)"
      by (simp add: ring_samples_def n_def)
    then have "keep_last (ring_cap r) (ring_samples r @ [s]) = take n (rg_samples r) @ [s]"
      using lt by (simp add: ring_cap_def)
    then show ?thesis
      using False lt nx t1
      by (auto simp: ring_samples_def ring_add_filled ring_add_samples Let_def n_def [symmetric])
  qed
qed

lemma push_all:
  "ring_ok r \<Longrightarrow> fold_option (\<lambda>r s. ring_push s r) r xs = Some (fold ring_add xs r)"
  by (induction xs arbitrary: r) (simp_all add: ring_push_ok ring_add_ok)

interpretation ring: bounded_history ring_cap ring_samples ring_add ring_ok
proof unfold_locales
  fix r s
  assume ok: "ring_ok r"
  show "ring_ok (ring_add s r)" by (rule ring_add_ok [OF ok])
  show "ring_cap (ring_add s r) = ring_cap r" by (simp add: ring_cap_def ring_add_samples)
  show "0 < ring_cap r" using ok by (auto simp: ring_ok_def ring_cap_def)
  show "length (ring_samples r) \<le> ring_cap r"
    using ok by (auto simp: length_ring_samples ring_len_def ring_cap_def ring_ok_def)
  show "ring_samples (ring_add s r) = keep_last (ring_cap r) (ring_samples r @ [s])"
    by (rule ring_samples_add [OF ok])
qed

lemma new_ring_ok:
  "new_ring c = Some r \<Longrightarrow> ring_ok r \<and> int (ring_cap r) = c \<and> ring_samples r = []"
  by (auto simp: new_ring_def ring_ok_def ring_cap_def ring_samples_def split: if_splits)

lemma ring_latest_last:
  assumes "ring_ok r"
  shows "ring_latest r = (if ring_samples r = [] then None else Some (last (ring_samples r)))"
proof (cases "ring_len r = 0")
  case True
  then show ?thesis
    using length_ring_samples [OF assms] by (simp add: ring_latest_def)
next
  case False
  define n where "n = rg_next r"
  have lt: "n < length (rg_samples r)" using assms by (simp add: ring_ok_def n_def)
  have ne: "ring_samples r \<noteq> []" using length_ring_samples [OF assms] False by auto
  have "last (ring_samples r) = rg_samples r ! ((n + length (rg_samples r) - 1) mod length (rg_samples r))"
  proof (cases n)
    case 0
    then have "rg_filled r" using False by (simp add: ring_len_def n_def split: if_splits)
    then have "ring_samples r = rg_samples r" using 0 by (simp add: ring_samples_def n_def)
    then show ?thesis using 0 lt by (simp add: last_conv_nth)
  next
    case (Suc k)
    have "last (ring_samples r) = last (take n (rg_samples r))"
      using Suc lt by (auto simp: ring_samples_def n_def Let_def last_append)
    also have "\<dots> = rg_samples r ! k"
      using Suc lt by (simp add: take_Suc_conv_app_nth)
    finally show ?thesis using Suc lt by simp
  qed
  then show ?thesis using False ne by (simp add: ring_latest_def n_def)
qed

subsection \<open>Properties\<close>

text \<open>C11: A ring is the bounded list it stands for. No addition to a ring that \<open>NewRing\<close> made
  panics, however many come before it; and after any number of them it holds the most recent ones in order, as many as its capacity allows; \<open>Len\<close> counts
  them, and \<open>Latest\<close> is the last of them, absent only from an empty ring.\<close>

theorem ring_keeps_most_recent:
  assumes "new_ring c = Some r0"
  shows "fold_option (\<lambda>r s. ring_push s r) r0 xs = Some (fold ring_add xs r0) \<and>
    ring_samples (fold ring_add xs r0) = keep_last (nat c) xs \<and>
    ring_len (fold ring_add xs r0) = min (nat c) (length xs) \<and>
    ring_latest (fold ring_add xs r0) = (if xs = [] then None else Some (last xs))"
proof -
  have r0: "ring_ok r0" "ring_cap r0 = nat c" "ring_samples r0 = []" "0 < c"
    using new_ring_ok [OF assms] assms by (auto simp: new_ring_def split: if_splits)
  note all = ring.add_all [OF r0(1), of xs]
  have s: "ring_samples (fold ring_add xs r0) = keep_last (nat c) xs"
    using all r0 by simp
  have "xs \<noteq> [] \<Longrightarrow> keep_last (nat c) xs \<noteq> []"
    using length_keep_last [of "nat c" xs] r0(4) by (auto simp del: length_keep_last)
  then show ?thesis
    using all s r0 push_all [OF r0(1), of xs] length_ring_samples [of "fold ring_add xs r0"]
      ring_latest_last [of "fold ring_add xs r0"] last_keep_last [of "nat c" xs]
    by auto
qed

theorem ring_keeps_most_recent_witness:
  "\<exists>r0. new_ring 2 = Some r0 \<and>
     ring_len (fold ring_add [sample_zero, sample_zero\<lparr>sm_time := 1\<rparr>, sample_zero\<lparr>sm_time := 2\<rparr>] r0) = 2"
proof -
  obtain r0 where r: "new_ring 2 = Some r0" by (simp add: new_ring_def)
  show ?thesis
    using ring_keeps_most_recent [OF r, of "[sample_zero, sample_zero\<lparr>sm_time := 1\<rparr>, sample_zero\<lparr>sm_time := 2\<rparr>]"] r
    by (intro exI [of _ r0]) simp
qed

end
