(* ===== verification/Trend.thy ===== *)
theory Trend
  imports SamplerRing
begin

section \<open>The growth trend\<close>

text \<open>
  Models \<open>src/internal/sampler/trend.go\<close>: the least-squares fit in double precision and the
  projection of the time left to the memory limit. The conversion of the projected number
  of nanoseconds to a 64-bit integer is \<open>None\<close> where the language leaves its result open, so
  that its absence is something to prove.
\<close>

definition min_trend_samples :: nat where
  "min_trend_samples = 2"

record trend =
  tr_bytes_per_second :: f64
  tr_r_squared :: f64
  tr_samples :: nat
  tr_window :: duration
  tr_time_to_limit :: "duration option"
  tr_projected :: bool

definition sample_seconds :: "time \<Rightarrow> sample \<Rightarrow> f64" where
  "sample_seconds origin s = duration_seconds (time_sub (sm_time s) origin)"

definition sample_bytes :: "sample \<Rightarrow> f64" where
  "sample_bytes s = f_of_u64 (ms_current (sm_stats s))"

text \<open>The bodies of the three loops.\<close>

definition sum_step :: "time \<Rightarrow> f64 \<times> f64 \<Rightarrow> sample \<Rightarrow> f64 \<times> f64" where
  "sum_step origin acc s =
     (f_add (fst acc) (sample_seconds origin s), f_add (snd acc) (sample_bytes s))"

definition variance_step :: "time \<Rightarrow> f64 \<Rightarrow> f64 \<Rightarrow> f64 \<times> f64 \<Rightarrow> sample \<Rightarrow> f64 \<times> f64" where
  "variance_step origin mean_x mean_y acc s =
     (let dx = f_sub (sample_seconds origin s) mean_x
      in (f_add (fst acc) (f_mul dx (f_sub (sample_bytes s) mean_y)),
          f_add (snd acc) (f_mul dx dx)))"

definition residual_step :: "time \<Rightarrow> f64 \<Rightarrow> f64 \<Rightarrow> f64 \<Rightarrow> f64 \<times> f64 \<Rightarrow> sample \<Rightarrow> f64 \<times> f64" where
  "residual_step origin mean_y slope intercept acc s =
     (let x = sample_seconds origin s; y = sample_bytes s;
          predicted = f_add intercept (f_mul slope x)
      in (f_add (fst acc) (f_mul (f_sub y predicted) (f_sub y predicted)),
          f_add (snd acc) (f_mul (f_sub y mean_y) (f_sub y mean_y))))"

definition fit_slope :: "sample list \<Rightarrow> time \<Rightarrow> f64 \<times> f64 \<times> bool" where
  "fit_slope samples origin =
     (let n = f_of_int (int (length samples));
          (sum_x, sum_y) = foldl (sum_step origin) (FNum 0, FNum 0) samples;
          mean_x = f_div sum_x n; mean_y = f_div sum_y n;
          (covariance, variance_x) = foldl (variance_step origin mean_x mean_y) (FNum 0, FNum 0) samples
      in if f_eq variance_x (FNum 0) then (FNum 0, FNum 0, False)
         else let slope = f_div covariance variance_x;
                  intercept = f_sub mean_y (f_mul slope mean_x);
                  (residual_ss, total_ss) =
                    foldl (residual_step origin mean_y slope intercept) (FNum 0, FNum 0) samples
              in if f_eq total_ss (FNum 0) then (slope, FNum 1, True)
                 else let r_squared = f_sub (FNum 1) (f_div residual_ss total_ss)
                      in (slope, f_max (FNum 0) (f_min (FNum 1) r_squared), True))"

text \<open>\<open>math.MaxInt64/float64(time.Second)\<close>, a constant.\<close>

definition max_seconds :: f64 where
  "max_seconds = f_div (FNum 9223372036854775807) (FNum 1000000000)"

definition project_time_to_limit :: "mem_stats \<Rightarrow> f64 \<Rightarrow> duration option \<times> bool" where
  "project_time_to_limit stats bytes_per_second =
     (if f_le bytes_per_second (FNum 0) \<or> ms_limit stats = unlimited \<or> ms_limit stats = 0
      then (Some 0, False)
      else if headroom stats = 0 then (Some 0, True)
      else let seconds = f_div (f_of_u64 (headroom stats)) bytes_per_second
           in if f_le max_seconds seconds then (Some 0, False)
              else (f_to_int64 (f_mul seconds (FNum 1000000000)), True))"

definition analyse :: "sample list \<Rightarrow> trend" where
  "analyse samples =
     (let t = \<lparr>tr_bytes_per_second = FNum 0, tr_r_squared = FNum 0, tr_samples = length samples,
                tr_window = 0, tr_time_to_limit = Some 0, tr_projected = False\<rparr>
      in if length samples < min_trend_samples then t
         else
           let origin = sm_time (samples ! 0);
               latest = samples ! (length samples - 1);
               t = t\<lparr>tr_window := time_sub (sm_time latest) origin\<rparr>;
               (slope, r_squared, ok) = fit_slope samples origin
           in if \<not> ok then t
              else
                let (ttl, projected) = project_time_to_limit (sm_stats latest) slope
                in t\<lparr>tr_bytes_per_second := slope, tr_r_squared := r_squared,
                     tr_time_to_limit := ttl, tr_projected := projected\<rparr>)"

subsection \<open>The projection fits 64 bits\<close>

lemma ulp_in_binade: "pow2 33 \<le> x \<Longrightarrow> x < pow2 34 \<Longrightarrow> ulp_exp x = - 19"
  using rat_exp_unique [of 33 x] by (simp add: ulp_exp_def)

lemma max_seconds_value: "max_seconds = FNum (of_int 4835703278458517 * pow2 (- 19))"
proof -
  let ?x = "9223372036854775807 / 1000000000 :: rat"
  have e: "ulp_exp ?x = - 19"
    by (rule ulp_in_binade) (simp_all add: pow2_def)
  have fl: "\<lfloor>?x / pow2 (- 19)\<rfloor> = 4835703278458516"
    by (rule floor_unique) (simp_all add: pow2_def)
  have "round_even (?x / pow2 (- 19)) = 4835703278458517"
    unfolding round_even_def fl Let_def by (simp add: pow2_def)
  then have m: "round_mag ?x = of_int 4835703278458517 * pow2 (- 19)"
    by (simp add: round_mag_def e)
  have "\<not> (2 :: rat) ^ 1024 \<le> of_int 4835703278458517 * pow2 (- 19)"
    using not_overflow [of _ 4835703278458517 "- 19"] by simp
  then show ?thesis
    by (simp add: max_seconds_def f64_round_nonneg m)
qed

lemma below_max_seconds:
  assumes "0 \<le> y" "round_mag y < of_int 4835703278458517 * pow2 (- 19)"
  shows "round_mag y \<le> of_int 4835703278458516 * pow2 (- 19)"
  using round_mag_gap [of y 4835703278458516 "- 19"] assms by simp

lemma seconds_to_nanoseconds:
  assumes "0 \<le> q" "q \<le> of_int 4835703278458516 * pow2 (- 19)"
  shows "\<exists>d. f_to_int64 (f_mul (FNum q) (FNum 1000000000)) = Some d \<and> 0 \<le> d \<and> d \<le> max_duration"
proof -
  have le: "\<bar>q * 1000000000\<bar> \<le> of_nat (2 ^ 53 - 1) * pow2 10"
    using assms by (simp add: pow2_def)
  then have "bounded_by (of_nat (2 ^ 53 - 1) * pow2 10) (f64_round (q * 1000000000))"
    by (rule bounded_round) simp_all
  then obtain r where r: "f64_round (q * 1000000000) = FNum r" "\<bar>r\<bar> \<le> of_nat (2 ^ 53 - 1) * pow2 10"
    by (auto simp: bounded_by_def)
  have nn: "0 \<le> r"
    using r(1) assms(1) round_mag_nonneg [of "q * 1000000000"]
    by (auto simp: f64_round_nonneg split: if_splits)
  then have "\<lfloor>r\<rfloor> \<le> 9223372036854774784"
    using r(2) by (simp add: floor_le_iff pow2_def)
  then show ?thesis
    using nn r(1) by (simp add: f_to_int64_def max_duration_def Let_def)
qed

lemma project_safe:
  assumes "slope \<noteq> FNaN"
  shows "\<exists>d b. project_time_to_limit stats slope = (Some d, b) \<and> 0 \<le> d \<and> d \<le> max_duration"
proof -
  define h where "h = round_mag (unsigned (headroom stats))"
  have h: "0 \<le> h" "f_of_u64 (headroom stats) = FNum h"
    by (simp_all add: h_def f_of_u64_nonneg f_of_u64_num)
  have m: "0 \<le> max_duration" by (simp add: max_duration_def)
  show ?thesis
  proof (cases "f_le slope (FNum 0) \<or> ms_limit stats = unlimited \<or> ms_limit stats = 0 \<or>
      headroom stats = 0 \<or> f_le max_seconds (f_div (FNum h) slope)")
    case True
    then show ?thesis using m by (auto simp: project_time_to_limit_def h(2) Let_def)
  next
    case False
    have "\<exists>q. f_div (FNum h) slope = FNum q \<and> 0 \<le> q \<and> q \<le> of_int 4835703278458516 * pow2 (- 19)"
    proof (cases slope)
      case (FNum b)
      then have b: "0 < b" using False by (auto simp: f_le_def)
      have y: "0 \<le> h / b" using h(1) b by simp
      have v: "f_div (FNum h) slope = f64_round (h / b)" using FNum b by simp
      have nle: "\<not> f_le max_seconds (f64_round (h / b))" using False v by simp
      then have q: "f64_round (h / b) = FNum (round_mag (h / b))"
        by (auto simp: f64_round_nonneg [OF y] max_seconds_value f_le_def split: if_splits)
      then have "round_mag (h / b) < of_int 4835703278458517 * pow2 (- 19)"
        using nle by (auto simp: max_seconds_value f_le_def)
      then show ?thesis
        using below_max_seconds [OF y] q v round_mag_nonneg [OF y] by simp
    next
      case (FInf s)
      then show ?thesis by (simp add: less_imp_le)
    next
      case FNaN
      then show ?thesis using assms by simp
    qed
    then obtain q where q: "f_div (FNum h) slope = FNum q" "0 \<le> q" "q \<le> of_int 4835703278458516 * pow2 (- 19)"
      by blast
    show ?thesis
      using seconds_to_nanoseconds [OF q(2,3)] False q(1) by (auto simp: project_time_to_limit_def h(2) Let_def)
  qed
qed

subsection \<open>The fit stays finite\<close>

lemma bounded_sample_seconds: "bounded_by (of_nat 1 * pow2 34) (sample_seconds origin s)"
  unfolding sample_seconds_def
  using time_sub_bounds [of "sm_time s" origin]
  by (intro bounded_seconds) (auto simp: min_duration_def max_duration_def)

lemma bounded_sample_bytes: "bounded_by (of_nat 1 * pow2 64) (sample_bytes s)"
  unfolding sample_bytes_def by (rule bounded_u64)

lemma sum_loop_bounded:
  "length ss \<le> 2 ^ 51 \<Longrightarrow> foldl (sum_step origin) (FNum 0, FNum 0) ss = (sx, sy) \<Longrightarrow>
     bounded_by (of_nat (length ss) * pow2 34) sx \<and> bounded_by (of_nat (length ss) * pow2 64) sy"
proof (induction ss arbitrary: sx sy rule: rev_induct)
  case Nil
  then show ?case by (auto simp: bounded_by_def)
next
  case (snoc s ss)
  obtain tx ty where t: "foldl (sum_step origin) (FNum 0, FNum 0) ss = (tx, ty)" by force
  then have b: "bounded_by (of_nat (length ss) * pow2 34) tx" "bounded_by (of_nat (length ss) * pow2 64) ty"
    using snoc.IH snoc.prems(1) by auto
  have s: "sx = f_add tx (sample_seconds origin s)" "sy = f_add ty (sample_bytes s)"
    using snoc.prems(2) t by (auto simp: sum_step_def [of _ "(_, _)"])
  have l: "length ss + 1 \<le> 2 ^ 53" using snoc.prems(1) by simp
  show ?case
    using bounded_add [OF b(1) bounded_sample_seconds l] bounded_add [OF b(2) bounded_sample_bytes l] s
    by simp
qed

lemma variance_loop_bounded:
  assumes mx: "bounded_by (of_nat 1 * pow2 34) mx" and my: "bounded_by (of_nat 1 * pow2 64) my"
  shows "length ss \<le> 2 ^ 51 \<Longrightarrow> foldl (variance_step origin mx my) (FNum 0, FNum 0) ss = (c, v) \<Longrightarrow>
     bounded_by (of_nat (4 * length ss) * pow2 98) c \<and> bounded_by (of_nat (4 * length ss) * pow2 68) v"
proof (induction ss arbitrary: c v rule: rev_induct)
  case Nil
  then show ?case by (auto simp: bounded_by_def)
next
  case (snoc s ss)
  obtain c0 v0 where t: "foldl (variance_step origin mx my) (FNum 0, FNum 0) ss = (c0, v0)" by force
  then have b: "bounded_by (of_nat (4 * length ss) * pow2 98) c0" "bounded_by (of_nat (4 * length ss) * pow2 68) v0"
    using snoc.IH snoc.prems(1) by auto
  define dx where "dx = f_sub (sample_seconds origin s) mx"
  have dx: "bounded_by (of_nat (1 + 1) * pow2 34) dx"
    unfolding dx_def by (rule bounded_sub [OF bounded_sample_seconds mx]) simp_all
  have dy: "bounded_by (of_nat (1 + 1) * pow2 64) (f_sub (sample_bytes s) my)"
    by (rule bounded_sub [OF bounded_sample_bytes my]) simp_all
  have p: "bounded_by (of_nat ((1 + 1) * (1 + 1)) * pow2 (34 + 64)) (f_mul dx (f_sub (sample_bytes s) my))"
    "bounded_by (of_nat ((1 + 1) * (1 + 1)) * pow2 (34 + 34)) (f_mul dx dx)"
    by (rule bounded_mul [OF dx dy] bounded_mul [OF dx dx]; simp)+
  have l: "4 * length ss + 4 \<le> 2 ^ 53" using snoc.prems(1) by simp
  have s: "c = f_add c0 (f_mul dx (f_sub (sample_bytes s) my))" "v = f_add v0 (f_mul dx dx)"
    using snoc.prems(2) t by (auto simp: variance_step_def [of _ _ _ "(_, _)"] dx_def Let_def)
  have "bounded_by (of_nat (4 * length ss + 4) * pow2 98) c"
    unfolding s using p(1) by (intro bounded_add [OF b(1)]) (use l in simp_all)
  moreover have "bounded_by (of_nat (4 * length ss + 4) * pow2 68) v"
    unfolding s using p(2) by (intro bounded_add [OF b(2)]) (use l in simp_all)
  ultimately show ?case by (simp add: algebra_simps)
qed

lemma bounded_means:
  assumes "length ss \<le> 2 ^ 51" "ss \<noteq> []" "foldl (sum_step origin) (FNum 0, FNum 0) ss = (sx, sy)"
  shows "bounded_by (of_nat 1 * pow2 34) (f_div sx (f_of_int (int (length ss))))"
    "bounded_by (of_nat 1 * pow2 64) (f_div sy (f_of_int (int (length ss))))"
proof -
  have n: "f_of_int (int (length ss)) = FNum (of_nat (length ss))"
    using f64_round_int [of "int (length ss)"] assms(1) by (simp add: f_of_int_def)
  have pos: "0 < length ss" using assms(2) by simp
  note b = sum_loop_bounded [OF assms(1,3)]
  show "bounded_by (of_nat 1 * pow2 34) (f_div sx (f_of_int (int (length ss))))"
    unfolding n using b pos by (intro bounded_mean) simp_all
  show "bounded_by (of_nat 1 * pow2 64) (f_div sy (f_of_int (int (length ss))))"
    unfolding n using b pos by (intro bounded_mean) simp_all
qed

text \<open>The slope of any history is a number or an infinity.\<close>

lemma f64_round_not_nan: "f64_round x \<noteq> FNaN"
  by (simp add: f64_round_def Let_def)

lemma fit_slope_not_nan:
  assumes "length ss \<le> 2 ^ 51" "ss \<noteq> []" "fit_slope ss origin = (slope, r, ok)"
  shows "slope \<noteq> FNaN"
proof -
  define n where "n = f_of_int (int (length ss))"
  obtain sx sy where s: "foldl (sum_step origin) (FNum 0, FNum 0) ss = (sx, sy)" by force
  obtain c v where cv: "foldl (variance_step origin (f_div sx n) (f_div sy n)) (FNum 0, FNum 0) ss = (c, v)"
    by force
  have b: "bounded_by (of_nat (4 * length ss) * pow2 98) c" "bounded_by (of_nat (4 * length ss) * pow2 68) v"
    using variance_loop_bounded [OF bounded_means [OF assms(1,2) s], of ss origin c v] assms(1) cv
    by (auto simp: n_def)
  then obtain p q where pq: "c = FNum p" "v = FNum q" by (auto simp: bounded_by_def)
  have "slope = FNum 0 \<or> (q \<noteq> 0 \<and> slope = f_div c v)"
    using assms(3) s cv pq
    by (auto simp: fit_slope_def n_def [symmetric] Let_def split: if_splits prod.splits)
  then show ?thesis using pq f64_round_not_nan f64_round_not_nan [symmetric] by auto
qed

subsection \<open>Flat histories and straight lines\<close>

text \<open>A sum of quarters whose magnitudes add up to at most 2^51 is exact.\<close>

definition quarters :: "rat \<Rightarrow> bool" where
  "quarters x \<longleftrightarrow> (\<exists>k :: int. x = of_int k / 4)"

lemma quarters_add: "quarters x \<Longrightarrow> quarters y \<Longrightarrow> quarters (x + y)"
  unfolding quarters_def by (metis add_divide_distrib of_int_add)

lemma round_quarters: "quarters x \<Longrightarrow> \<bar>x\<bar> \<le> 2 ^ 51 \<Longrightarrow> f64_round x = FNum x"
proof -
  assume "quarters x" and b: "\<bar>x\<bar> \<le> 2 ^ 51"
  then obtain k where k: "x = of_int k / 4" by (auto simp: quarters_def)
  then have "(of_int \<bar>k\<bar> :: rat) \<le> of_int (2 ^ 53)" using b by (simp add: abs_divide)
  then have "\<bar>k\<bar> \<le> 2 ^ 53" by (simp only: of_int_le_iff)
  then show ?thesis unfolding k by (rule f64_round_quarter)
qed

lemma sum_exact:
  assumes "\<And>x. x \<in> set xs \<Longrightarrow> quarters (g x)" "(\<Sum>x\<leftarrow>xs. \<bar>g x\<bar>) \<le> 2 ^ 51"
  shows "foldl (\<lambda>a x. f_add a (FNum (g x))) (FNum 0) xs = FNum (\<Sum>x\<leftarrow>xs. g x) \<and> quarters (\<Sum>x\<leftarrow>xs. g x) \<and>
    \<bar>\<Sum>x\<leftarrow>xs. g x\<bar> \<le> (\<Sum>x\<leftarrow>xs. \<bar>g x\<bar>)"
  using assms
proof (induction xs rule: rev_induct)
  case Nil
  have "quarters 0" unfolding quarters_def by (intro exI [of _ 0]) simp
  then show ?case by simp
next
  case (snoc x xs)
  have "\<bar>g x\<bar> \<ge> 0" "(\<Sum>x\<leftarrow>xs. \<bar>g x\<bar>) \<ge> 0" by (auto intro!: sum_list_nonneg)
  then have IH: "foldl (\<lambda>a x. f_add a (FNum (g x))) (FNum 0) xs = FNum (\<Sum>x\<leftarrow>xs. g x)"
    "quarters (\<Sum>x\<leftarrow>xs. g x)" "\<bar>\<Sum>x\<leftarrow>xs. g x\<bar> \<le> (\<Sum>x\<leftarrow>xs. \<bar>g x\<bar>)"
    using snoc.IH snoc.prems by auto
  have q: "quarters ((\<Sum>x\<leftarrow>xs. g x) + g x)"
    using IH(2) snoc.prems(1) by (intro quarters_add) auto
  have b: "\<bar>(\<Sum>x\<leftarrow>xs. g x) + g x\<bar> \<le> (\<Sum>x\<leftarrow>xs. \<bar>g x\<bar>) + \<bar>g x\<bar>"
    using IH(3) by linarith
  show ?case
    using IH(1) q b snoc.prems(2) round_quarters [OF q] by simp
qed

definition halves :: "rat \<Rightarrow> bool" where
  "halves x \<longleftrightarrow> (\<exists>k :: int. x = of_int k / 2)"

lemma halves_int [simp]: "halves (of_int k)" "halves (of_nat j)" "halves 0" "halves 1"
proof -
  have i: "halves (of_int k)" for k unfolding halves_def by (intro exI [of _ "2 * k"]) simp
  show "halves (of_int k)" by (rule i)
  show "halves (of_nat j)" "halves 0" "halves 1" using i [of "int j"] i [of 0] i [of 1] by simp_all
qed

lemma halves_diff: "halves x \<Longrightarrow> halves y \<Longrightarrow> halves (x - y)"
  unfolding halves_def by (metis diff_divide_distrib of_int_diff)

lemma halves_scale: "halves x \<Longrightarrow> halves (of_int b * x)"
  unfolding halves_def by (metis of_int_mult times_divide_eq_right)

lemma quarters_prod: "halves x \<Longrightarrow> halves y \<Longrightarrow> quarters (x * y)"
proof -
  assume "halves x" "halves y"
  then obtain k j :: int where "x = of_int k / 2" "y = of_int j / 2" by (auto simp: halves_def)
  then have "x * y = of_int k * of_int j / 4" by (simp only: times_divide_times_eq)
  then have "x * y = of_int (k * j) / 4" by (simp only: of_int_mult)
  then show "quarters (x * y)" unfolding quarters_def by blast
qed

lemma quarters_half: "halves x \<Longrightarrow> quarters x"
  using quarters_prod [of x 1] by simp

lemma f_sub_exact: "halves x \<Longrightarrow> halves y \<Longrightarrow> \<bar>x - y\<bar> \<le> 2 ^ 51 \<Longrightarrow> f_sub (FNum x) (FNum y) = FNum (x - y)"
  using round_quarters [OF quarters_half [OF halves_diff]] by (simp add: f_sub_def)

lemma f_mul_exact: "halves x \<Longrightarrow> halves y \<Longrightarrow> \<bar>x * y\<bar> \<le> 2 ^ 51 \<Longrightarrow> f_mul (FNum x) (FNum y) = FNum (x * y)"
  using round_quarters [OF quarters_prod] by simp

lemma foldl_pair:
  "foldl (\<lambda>acc s. (f (fst acc) s, g (snd acc) s)) (x, y) ss = (foldl f x ss, foldl g y ss)"
  by (induction ss arbitrary: x y) auto

lemma foldl_cong_set: "(\<And>a x. x \<in> set xs \<Longrightarrow> f a x = g a x) \<Longrightarrow> foldl f a xs = foldl g a xs"
  by (induction xs arbitrary: a) auto

text \<open>Readings one second apart along the line \<open>a + b k\<close>.\<close>

definition on_line :: "time \<Rightarrow> int \<Rightarrow> int \<Rightarrow> nat \<Rightarrow> sample \<Rightarrow> bool" where
  "on_line t0 a b k s \<longleftrightarrow> sm_time s = t0 + int k * second \<and> int (unat (ms_current (sm_stats s))) = a + b * int k"

definition straight :: "time \<Rightarrow> int \<Rightarrow> int \<Rightarrow> sample list \<Rightarrow> bool" where
  "straight t0 a b ss \<longleftrightarrow> (\<forall>k < length ss. on_line t0 a b k (ss ! k))"

lemma on_line_values:
  assumes "on_line t0 a b k s" "k \<le> 2 ^ 17" "a + b * int k \<le> 2 ^ 53"
  shows "sample_seconds t0 s = FNum (of_nat k)" "sample_bytes s = FNum (of_int (a + b * int k))"
proof -
  have k: "int k \<le> 2 ^ 17" using assms(2) by simp
  have "time_sub (sm_time s) t0 = int k * second"
    using assms(1) k by (simp add: on_line_def time_sub_def min_duration_def max_duration_def second_def)
  then show "sample_seconds t0 s = FNum (of_nat k)"
    using duration_seconds_whole [of "int k"] k by (simp add: sample_seconds_def)
  have u: "int (unat (ms_current (sm_stats s))) = a + b * int k"
    using assms(1) by (simp add: on_line_def)
  then have "int (unat (ms_current (sm_stats s))) \<le> int (2 ^ 53)"
    using assms(3) by simp
  then have "unat (ms_current (sm_stats s)) \<le> 2 ^ 53" by (simp only: of_nat_le_iff)
  moreover have "(unsigned (ms_current (sm_stats s)) :: rat) = of_int (int (unat (ms_current (sm_stats s))))"
    by simp
  ultimately show "sample_bytes s = FNum (of_int (a + b * int k))"
    unfolding sample_bytes_def u [symmetric] by (simp add: f_of_u64_exact)
qed

lemma foldl_samples: "foldl f x ss = foldl (\<lambda>a k. f a (ss ! k)) x [0..<length ss]"
proof -
  have "foldl f x (map ((!) ss) [0..<length ss]) = foldl (\<lambda>a k. f a (ss ! k)) x [0..<length ss]"
    by (simp add: foldl_map)
  then show ?thesis by (simp add: map_nth)
qed

definition at_least :: "rat \<Rightarrow> f64 \<Rightarrow> bool" where
  "at_least c x \<longleftrightarrow> (\<exists>q. x = FNum q \<and> c \<le> q) \<or> x = FInf False"

lemma at_least_round: "0 \<le> c \<Longrightarrow> round_mag c = c \<Longrightarrow> c \<le> x \<Longrightarrow> at_least c (f64_round x)"
  using round_mag_mono [of c x] by (auto simp: at_least_def f64_round_nonneg)

lemma at_least_add:
  "at_least 0 x \<Longrightarrow> at_least c y \<Longrightarrow> 0 \<le> c \<Longrightarrow> round_mag c = c \<Longrightarrow> at_least c (f_add x y) \<and> at_least c (f_add y x)"
  by (cases x; cases y) (auto simp: at_least_def [of _ "FNum _"] at_least_def [of _ "FInf _"]
      at_least_def [of _ FNaN] intro: at_least_round)

lemma squares_at_least:
  assumes "\<forall>k \<in> set ks. at_least 0 (g k)" "at_least c x" "0 \<le> c" "round_mag c = c"
  shows "at_least c (foldl (\<lambda>a k. f_add a (g k)) x ks)"
  using assms by (induction ks arbitrary: x) (simp_all add: at_least_add)

lemma sum_abs_le:
  "(\<And>x. x \<in> set xs \<Longrightarrow> \<bar>g x :: rat\<bar> \<le> c) \<Longrightarrow> (\<Sum>x\<leftarrow>xs. \<bar>g x\<bar>) \<le> of_nat (length xs) * c"
proof (induction xs)
  case (Cons x xs)
  have "(\<Sum>x\<leftarrow>xs. \<bar>g x\<bar>) \<le> of_nat (length xs) * c" "\<bar>g x\<bar> \<le> c"
    using Cons by auto
  then show ?case by (simp add: algebra_simps)
qed simp

lemma sum_first: "(\<Sum>k\<leftarrow>[0..<n]. of_nat k :: rat) = of_nat n * (of_nat n - 1) / 2"
  by (induction n) (simp_all add: field_simps)

lemma sum_line:
  "(\<Sum>k\<leftarrow>[0..<n]. of_int (a + b * int k) :: rat) = of_nat n * (of_int a + of_int b * ((of_nat n - 1) / 2))"
  by (induction n) (simp_all add: field_simps)

text \<open>The size of a history the arithmetic is exact for.\<close>

definition tame :: "int \<Rightarrow> int \<Rightarrow> nat \<Rightarrow> bool" where
  "tame a b n \<longleftrightarrow> 2 \<le> n \<and> n \<le> 2 ^ 17 \<and> 0 \<le> a \<and> int n * a \<le> 2 ^ 50 \<and> \<bar>b\<bar> * int n ^ 3 \<le> 2 ^ 50"

lemma tame_rat:
  assumes "tame a b n"
  shows "2 \<le> (of_nat n :: rat)" "(of_nat n :: rat) \<le> 2 ^ 17" "0 \<le> (of_int a :: rat)"
    "(of_nat n :: rat) * of_int a \<le> 2 ^ 50" "\<bar>of_int b :: rat\<bar> * of_nat n ^ 3 \<le> 2 ^ 50"
proof -
  have t: "2 \<le> n" "n \<le> 2 ^ 17" "0 \<le> a" "int n * a \<le> 2 ^ 50" "\<bar>b\<bar> * int n ^ 3 \<le> 2 ^ 50"
    using assms by (auto simp: tame_def)
  show "2 \<le> (of_nat n :: rat)" "0 \<le> (of_int a :: rat)" using t by simp_all
  have "(of_nat n :: rat) \<le> of_nat (2 ^ 17)" using t(2) by (intro of_nat_mono)
  then show "(of_nat n :: rat) \<le> 2 ^ 17" by simp
  have "(of_int (int n * a) :: rat) \<le> of_int (2 ^ 50)" using t(4) by (simp only: of_int_le_iff)
  then show "(of_nat n :: rat) * of_int a \<le> 2 ^ 50" by simp
  have "(of_int (\<bar>b\<bar> * int n ^ 3) :: rat) \<le> of_int (2 ^ 50)" using t(5) by (simp only: of_int_le_iff)
  then show "\<bar>of_int b :: rat\<bar> * of_nat n ^ 3 \<le> 2 ^ 50" by simp
qed

lemma tame_powers:
  assumes "tame a b n"
  shows "\<bar>of_int b :: rat\<bar> * of_nat n ^ 2 \<le> 2 ^ 49" "\<bar>of_int b :: rat\<bar> * of_nat n \<le> 2 ^ 48"
    "\<bar>of_int b :: rat\<bar> \<le> 2 ^ 47" "(of_nat n :: rat) ^ 3 \<le> 2 ^ 51"
proof -
  note t = tame_rat [OF assms]
  have pw: "x * 2 \<le> x * of_nat n" if "0 \<le> x" for x :: rat
    using mult_left_mono [OF t(1) that] .
  have e: "\<bar>of_int b :: rat\<bar> * of_nat n ^ 3 = \<bar>of_int b\<bar> * of_nat n ^ 2 * of_nat n"
    "\<bar>of_int b :: rat\<bar> * of_nat n ^ 2 = \<bar>of_int b\<bar> * of_nat n * of_nat n"
    by (simp_all add: power3_eq_cube power2_eq_square)
  show a: "\<bar>of_int b :: rat\<bar> * of_nat n ^ 2 \<le> 2 ^ 49"
    using pw [of "\<bar>of_int b\<bar> * of_nat n ^ 2"] t(5) unfolding e(1) by simp
  show b: "\<bar>of_int b :: rat\<bar> * of_nat n \<le> 2 ^ 48"
    using pw [of "\<bar>of_int b\<bar> * of_nat n"] a unfolding e(2) by simp
  show "\<bar>of_int b :: rat\<bar> \<le> 2 ^ 47"
    using pw [of "\<bar>of_int b\<bar>"] b by simp
  have "(of_nat n :: rat) ^ 3 \<le> (2 ^ 17) ^ 3"
    using t(1,2) by (intro power_mono) auto
  then show "(of_nat n :: rat) ^ 3 \<le> 2 ^ 51" by simp
qed

lemma tame_values:
  assumes "tame a b n" "k < n" "straight t0 a b ss" "length ss = n"
  shows "sample_seconds t0 (ss ! k) = FNum (of_nat k)"
    "sample_bytes (ss ! k) = FNum (of_int (a + b * int k))"
    "\<bar>of_int (a + b * int k) :: rat\<bar> \<le> of_int a + \<bar>of_int b\<bar> * of_nat n"
proof -
  have o: "on_line t0 a b k (ss ! k)" using assms by (simp add: straight_def)
  have k: "k \<le> 2 ^ 17" using assms(1,2) by (simp add: tame_def)
  have kn: "(of_nat k :: rat) \<le> of_nat n" using assms(2) by simp
  have "\<bar>of_int b\<bar> * (of_nat k :: rat) \<le> \<bar>of_int b\<bar> * of_nat n"
    using kn by (intro mult_left_mono) auto
  moreover have "\<bar>of_int (b * int k) :: rat\<bar> = \<bar>of_int b\<bar> * of_nat k"
    by (simp add: abs_mult)
  ultimately show b: "\<bar>of_int (a + b * int k) :: rat\<bar> \<le> of_int a + \<bar>of_int b\<bar> * of_nat n"
    using tame_rat(3) [OF assms(1)] by simp
  have "(of_int a :: rat) \<le> of_nat n * of_int a"
    using mult_right_mono [OF tame_rat(1) [OF assms(1)] tame_rat(3) [OF assms(1)]] tame_rat(3) [OF assms(1)] by simp
  then have "(of_int (a + b * int k) :: rat) \<le> of_int (2 ^ 53)"
    using b tame_rat(4) [OF assms(1)] tame_powers(2) [OF assms(1)] by simp
  then have "a + b * int k \<le> 2 ^ 53" by (simp only: of_int_le_iff)
  then show "sample_seconds t0 (ss ! k) = FNum (of_nat k)"
    "sample_bytes (ss ! k) = FNum (of_int (a + b * int k))"
    using on_line_values [OF o k] by auto
qed

lemma index_sum_exact:
  assumes "tame a b n"
  shows "foldl (\<lambda>x k. f_add x (FNum (of_nat k))) (FNum 0) [0..<n] = FNum (\<Sum>k\<leftarrow>[0..<n]. of_nat k)"
proof -
  note t = tame_rat [OF assms]
  have "(\<Sum>k\<leftarrow>[0..<n]. \<bar>of_nat k :: rat\<bar>) \<le> of_nat (length [0..<n]) * 2 ^ 17"
  proof (rule sum_abs_le)
    fix k assume "k \<in> set [0..<n]"
    then have "(of_nat k :: rat) \<le> of_nat n" by simp
    then show "\<bar>of_nat k :: rat\<bar> \<le> 2 ^ 17" using t(2) by simp
  qed
  also have "\<dots> \<le> 2 ^ 51" using t(2) by simp
  finally show ?thesis
    by (intro sum_exact [THEN conjunct1] quarters_half halves_int)
qed

lemma line_sum_exact:
  assumes "tame a b n" "length ss = n" "straight t0 a b ss"
  shows "foldl (\<lambda>x k. f_add x (FNum (of_int (a + b * int k)))) (FNum 0) [0..<n] =
    FNum (\<Sum>k\<leftarrow>[0..<n]. of_int (a + b * int k))"
proof -
  have "(\<Sum>k\<leftarrow>[0..<n]. \<bar>of_int (a + b * int k) :: rat\<bar>) \<le>
      of_nat (length [0..<n]) * (of_int a + \<bar>of_int b\<bar> * of_nat n)"
  proof (rule sum_abs_le)
    fix k assume "k \<in> set [0..<n]"
    then show "\<bar>of_int (a + b * int k) :: rat\<bar> \<le> of_int a + \<bar>of_int b\<bar> * of_nat n"
      using tame_values(3) [OF assms(1) _ assms(3,2)] by simp
  qed
  also have "\<dots> = of_nat n * of_int a + \<bar>of_int b\<bar> * of_nat n ^ 2"
    by (simp add: algebra_simps power2_eq_square)
  also have "\<dots> \<le> 2 ^ 51" using tame_rat(4) [OF assms(1)] tame_powers(1) [OF assms(1)] by simp
  finally show ?thesis
    by (intro sum_exact [THEN conjunct1] quarters_half halves_int)
qed

lemma line_sums:
  assumes "tame a b n" "length ss = n" "straight t0 a b ss"
  shows "foldl (sum_step t0) (FNum 0, FNum 0) ss =
    (FNum (of_nat n * ((of_nat n - 1) / 2)),
     FNum (of_nat n * (of_int a + of_int b * ((of_nat n - 1) / 2))))"
proof -
  have "foldl (sum_step t0) (FNum 0, FNum 0) ss =
      foldl (\<lambda>acc k. (f_add (fst acc) (FNum (of_nat k)), f_add (snd acc) (FNum (of_int (a + b * int k)))))
        (FNum 0, FNum 0) [0..<n]"
    unfolding foldl_samples [of "sum_step t0"] assms(2)
    by (intro foldl_cong_set) (simp add: sum_step_def tame_values(1,2) [OF assms(1) _ assms(3,2)] del: of_int_add)
  also have "\<dots> = (foldl (\<lambda>x k. f_add x (FNum (of_nat k))) (FNum 0) [0..<n],
      foldl (\<lambda>x k. f_add x (FNum (of_int (a + b * int k)))) (FNum 0) [0..<n])"
    by (rule foldl_pair)
  finally show ?thesis
    unfolding index_sum_exact [OF assms(1)] line_sum_exact [OF assms] sum_first sum_line by simp
qed

text \<open>The means are exact, and so are the deviations from them.\<close>

definition dev :: "nat \<Rightarrow> nat \<Rightarrow> rat" where
  "dev n k = of_nat k - (of_nat n - 1) / 2"

lemma halves_dev: "halves (dev n k)"
proof -
  have "dev n k = of_int (2 * int k - int n + 1) / 2"
    by (simp add: dev_def field_simps)
  then show ?thesis unfolding halves_def by blast
qed

lemma halves_mean: "halves ((of_nat n - 1) / 2)" "halves (of_int a + of_int b * ((of_nat n - 1) / 2))"
proof -
  have e: "(of_nat n - 1) / 2 = (of_int (int n - 1) :: rat) / 2"
    "of_int a + of_int b * ((of_nat n - 1) / 2) = (of_int (2 * a + b * (int n - 1)) :: rat) / 2"
    by (simp_all add: field_simps)
  show "halves ((of_nat n - 1) / 2)" unfolding e(1) halves_def by blast
  show "halves (of_int a + of_int b * ((of_nat n - 1) / 2))" unfolding e(2) halves_def by blast
qed

lemma abs_dev_le: "k < n \<Longrightarrow> \<bar>dev n k\<bar> \<le> of_nat n"
proof -
  assume "k < n"
  then have "(of_nat k :: rat) + 1 \<le> of_nat n" by (metis Suc_leI of_nat_Suc of_nat_mono add.commute)
  moreover have "(0 :: rat) \<le> of_nat k" by simp
  moreover have "x + 1 \<le> y \<Longrightarrow> 0 \<le> x \<Longrightarrow> \<bar>x - (y - 1) / 2\<bar> \<le> y" for x y :: rat
    by (simp add: abs_le_iff field_simps)
  ultimately show ?thesis unfolding dev_def by blast
qed

lemma dev_zero: "2 \<le> n \<Longrightarrow> 1 / 2 \<le> \<bar>dev n 0\<bar>"
proof -
  assume "2 \<le> n"
  then have "(of_nat 2 :: rat) \<le> of_nat n" by (intro of_nat_mono)
  then show ?thesis by (simp add: dev_def)
qed

lemma line_means:
  assumes "tame a b n"
  shows "f_div (FNum (of_nat n * ((of_nat n - 1) / 2))) (f_of_int (int n)) = FNum ((of_nat n - 1) / 2)"
    "f_div (FNum (of_nat n * (of_int a + of_int b * ((of_nat n - 1) / 2)))) (f_of_int (int n)) =
       FNum (of_int a + of_int b * ((of_nat n - 1) / 2))"
proof -
  note t = tame_rat [OF assms] and p = tame_powers [OF assms]
  have n: "f_of_int (int n) = FNum (of_nat n)"
    using assms f64_round_int [of "int n"] by (simp add: f_of_int_def tame_def)
  have nz: "(of_nat n :: rat) \<noteq> 0" using t(1) by simp
  have m: "\<bar>(of_nat n - 1) / 2 :: rat\<bar> \<le> of_nat n" using t(1) by (simp add: abs_le_iff)
  have "\<bar>of_int b * ((of_nat n - 1) / 2) :: rat\<bar> \<le> \<bar>of_int b\<bar> * of_nat n"
    unfolding abs_mult using m by (intro mult_left_mono) auto
  then have "\<bar>of_int a + of_int b * ((of_nat n - 1) / 2) :: rat\<bar> \<le> of_int a + \<bar>of_int b\<bar> * of_nat n"
    using t(3) by linarith
  moreover have "(of_int a :: rat) \<le> of_nat n * of_int a"
    using mult_right_mono [OF t(1) t(3)] t(3) by simp
  ultimately have y: "\<bar>of_int a + of_int b * ((of_nat n - 1) / 2) :: rat\<bar> \<le> 2 ^ 51"
    using t(4) p(2) by simp
  have x: "\<bar>(of_nat n - 1) / 2 :: rat\<bar> \<le> 2 ^ 51" using m t(2) by simp
  show "f_div (FNum (of_nat n * ((of_nat n - 1) / 2))) (f_of_int (int n)) = FNum ((of_nat n - 1) / 2)"
    using round_quarters [OF quarters_half [OF halves_mean(1)] x] nz by (simp add: n)
  show "f_div (FNum (of_nat n * (of_int a + of_int b * ((of_nat n - 1) / 2)))) (f_of_int (int n)) =
       FNum (of_int a + of_int b * ((of_nat n - 1) / 2))"
    using round_quarters [OF quarters_half [OF halves_mean(2)] y] nz
    unfolding n f_div.simps nonzero_mult_div_cancel_left [OF nz] by (simp only: if_False)
qed

lemma line_devs:
  assumes "tame a b n" "length ss = n" "straight t0 a b ss" "k < n"
  shows "f_sub (sample_seconds t0 (ss ! k)) (FNum ((of_nat n - 1) / 2)) = FNum (dev n k)"
    "f_sub (sample_bytes (ss ! k)) (FNum (of_int a + of_int b * ((of_nat n - 1) / 2))) = FNum (of_int b * dev n k)"
proof -
  note v = tame_values [OF assms(1,4,3,2)]
  note t = tame_rat [OF assms(1)] and p = tame_powers [OF assms(1)]
  have dx: "\<bar>dev n k\<bar> \<le> 2 ^ 51" using abs_dev_le [OF assms(4)] t(2) by simp
  have dy: "of_int (a + b * int k) - (of_int a + of_int b * ((of_nat n - 1) / 2)) = of_int b * dev n k"
    by (simp add: dev_def algebra_simps)
  have "\<bar>of_int b * dev n k\<bar> \<le> \<bar>of_int b\<bar> * of_nat n"
    unfolding abs_mult using abs_dev_le [OF assms(4)] by (intro mult_left_mono) auto
  then have db: "\<bar>of_int b * dev n k\<bar> \<le> 2 ^ 51" using p(2) by simp
  show "f_sub (sample_seconds t0 (ss ! k)) (FNum ((of_nat n - 1) / 2)) = FNum (dev n k)"
    unfolding v dev_def using dx unfolding dev_def by (intro f_sub_exact halves_mean halves_int)
  show "f_sub (sample_bytes (ss ! k)) (FNum (of_int a + of_int b * ((of_nat n - 1) / 2))) = FNum (of_int b * dev n k)"
    unfolding v dy [symmetric] using db unfolding dy [symmetric]
    by (intro f_sub_exact halves_mean halves_int)
qed

definition sum_sq :: "nat \<Rightarrow> rat" where
  "sum_sq n = (\<Sum>k\<leftarrow>[0..<n]. dev n k * dev n k)"

lemma line_variance:
  assumes "tame a b n" "length ss = n" "straight t0 a b ss"
  shows "foldl (variance_step t0 (FNum ((of_nat n - 1) / 2)) (FNum (of_int a + of_int b * ((of_nat n - 1) / 2))))
      (FNum 0, FNum 0) ss = (FNum (of_int b * sum_sq n), FNum (sum_sq n))"
proof -
  note t = tame_rat [OF assms(1)] and p = tame_powers [OF assms(1)]
  have sq: "\<bar>dev n k * dev n k\<bar> \<le> of_nat n ^ 2" if "k < n" for k
    using mult_mono [OF abs_dev_le abs_dev_le, OF that that] by (simp add: power2_eq_square)
  have bsq: "\<bar>dev n k * (of_int b * dev n k)\<bar> \<le> \<bar>of_int b\<bar> * of_nat n ^ 2" if "k < n" for k
  proof -
    have "\<bar>dev n k * (of_int b * dev n k)\<bar> = \<bar>of_int b\<bar> * \<bar>dev n k * dev n k\<bar>"
      by (simp add: abs_mult)
    also have "\<dots> \<le> \<bar>of_int b\<bar> * of_nat n ^ 2" using sq [OF that] by (intro mult_left_mono) auto
    finally show ?thesis .
  qed
  have n2: "(of_nat n :: rat) ^ 2 \<le> 2 ^ 51"
    using t(1,2) power_mono [of "of_nat n :: rat" "2 ^ 17" 2] by simp
  have m: "f_mul (FNum (dev n k)) (FNum (of_int b * dev n k)) = FNum (dev n k * (of_int b * dev n k))"
    "f_mul (FNum (dev n k)) (FNum (dev n k)) = FNum (dev n k * dev n k)" if "k < n" for k
    using bsq [OF that] sq [OF that] p(1) n2
    by (intro f_mul_exact halves_dev halves_scale; simp)+
  have "foldl (variance_step t0 (FNum ((of_nat n - 1) / 2)) (FNum (of_int a + of_int b * ((of_nat n - 1) / 2))))
      (FNum 0, FNum 0) ss =
    foldl (\<lambda>acc k. (f_add (fst acc) (FNum (dev n k * (of_int b * dev n k))), f_add (snd acc) (FNum (dev n k * dev n k))))
      (FNum 0, FNum 0) [0..<n]"
    unfolding foldl_samples [of "variance_step _ _ _"] assms(2)
    by (intro foldl_cong_set)
      (simp only: variance_step_def line_devs [OF assms] m Let_def set_upt atLeastLessThan_iff)
  also have "\<dots> = (foldl (\<lambda>x k. f_add x (FNum (dev n k * (of_int b * dev n k)))) (FNum 0) [0..<n],
      foldl (\<lambda>x k. f_add x (FNum (dev n k * dev n k))) (FNum 0) [0..<n])"
    by (rule foldl_pair)
  also have "foldl (\<lambda>x k. f_add x (FNum (dev n k * (of_int b * dev n k)))) (FNum 0) [0..<n] =
      FNum (\<Sum>k\<leftarrow>[0..<n]. dev n k * (of_int b * dev n k))"
  proof -
    have "(\<Sum>k\<leftarrow>[0..<n]. \<bar>dev n k * (of_int b * dev n k)\<bar>) \<le> of_nat (length [0..<n]) * (\<bar>of_int b\<bar> * of_nat n ^ 2)"
      using bsq by (intro sum_abs_le) simp
    also have "\<dots> = \<bar>of_int b\<bar> * of_nat n ^ 3" by (simp add: power3_eq_cube power2_eq_square)
    also have "\<dots> \<le> 2 ^ 51" using t(5) by simp
    finally show ?thesis
      by (intro sum_exact [THEN conjunct1] quarters_prod halves_dev halves_scale)
  qed
  also have "foldl (\<lambda>x k. f_add x (FNum (dev n k * dev n k))) (FNum 0) [0..<n] =
      FNum (\<Sum>k\<leftarrow>[0..<n]. dev n k * dev n k)"
  proof -
    have "(\<Sum>k\<leftarrow>[0..<n]. \<bar>dev n k * dev n k\<bar>) \<le> of_nat (length [0..<n]) * (of_nat n ^ 2)"
      using sq by (intro sum_abs_le) simp
    also have "\<dots> = of_nat n ^ 3" by (simp add: power3_eq_cube power2_eq_square)
    also have "\<dots> \<le> 2 ^ 51" using p(4) .
    finally show ?thesis
      by (intro sum_exact [THEN conjunct1] quarters_prod halves_dev)
  qed
  also have "(\<Sum>k\<leftarrow>[0..<n]. dev n k * (of_int b * dev n k)) = of_int b * sum_sq n"
    unfolding sum_sq_def sum_list_const_mult [symmetric]
    by (rule arg_cong [of _ _ sum_list], rule map_cong) (simp_all add: algebra_simps)
  finally show ?thesis by (simp only: sum_sq_def)
qed

lemma sum_sq_pos: "2 \<le> n \<Longrightarrow> 0 < sum_sq n"
proof -
  assume n: "2 \<le> n"
  then have u: "[0..<n] = 0 # [1..<n]" by (simp add: upt_rec)
  have "0 \<le> (\<Sum>k\<leftarrow>[1..<n]. dev n k * dev n k)"
    by (rule sum_list_nonneg) auto
  moreover have "dev n 0 \<noteq> 0" using dev_zero [OF n] by auto
  then have "0 < dev n 0 * dev n 0" by (simp add: zero_less_mult_iff) linarith
  ultimately show ?thesis unfolding sum_sq_def u by simp
qed

lemma line_residuals:
  assumes "tame a b n" "length ss = n" "straight t0 a b ss"
  shows "\<exists>q. foldl (residual_step t0 (FNum (of_int a + of_int b * ((of_nat n - 1) / 2))) (FNum (of_int b)) (FNum (of_int a)))
      (FNum 0, FNum 0) ss = (FNum 0, q) \<and> (if b = 0 then q = FNum 0 else at_least (1 / 4) q)"
proof -
  note t = tame_rat [OF assms(1)] and p = tame_powers [OF assms(1)]
  have pr: "f_add (FNum (of_int a)) (f_mul (FNum (of_int b)) (FNum (of_nat k))) = FNum (of_int (a + b * int k))"
    if "k < n" for k
  proof -
    have "\<bar>of_int b * of_nat k :: rat\<bar> \<le> \<bar>of_int b\<bar> * of_nat n"
      using that by (simp add: abs_mult mult_left_mono)
    then have m: "f_mul (FNum (of_int b)) (FNum (of_nat k)) = FNum (of_int b * of_nat k)"
      using p(2) by (intro f_mul_exact halves_int) simp
    have "\<bar>of_int (a + b * int k) :: rat\<bar> \<le> 2 ^ 51"
      using tame_values(3) [OF assms(1) that assms(3,2)] t(4) p(2)
        mult_right_mono [OF t(1) t(3)] t(3) by simp
    then have "f64_round (of_int (a + b * int k)) = FNum (of_int (a + b * int k))"
      by (intro round_quarters quarters_half halves_int)
    then show ?thesis unfolding m by simp
  qed
  have z: "f_sub (FNum x) (FNum x) = FNum 0" "f_mul (FNum 0) (FNum 0) = FNum 0" for x
    by (simp_all add: f_sub_def)
  have ld: "f_sub (FNum (of_int (a + b * int k))) (FNum (of_int a + of_int b * ((of_nat n - 1) / 2))) =
      FNum (of_int b * dev n k)" if "k < n" for k
    using line_devs(2) [OF assms that] unfolding tame_values(2) [OF assms(1) that assms(3,2)] .
  define g where "g k = f_mul (FNum (of_int b * dev n k)) (FNum (of_int b * dev n k))" for k
  have "foldl (residual_step t0 (FNum (of_int a + of_int b * ((of_nat n - 1) / 2))) (FNum (of_int b)) (FNum (of_int a)))
      (FNum 0, FNum 0) ss =
    foldl (\<lambda>acc k. (f_add (fst acc) (FNum 0), f_add (snd acc) (g k))) (FNum 0, FNum 0) [0..<n]"
    unfolding foldl_samples [of "residual_step _ _ _ _"] assms(2)
    by (intro foldl_cong_set)
      (simp only: residual_step_def g_def ld tame_values(1,2) [OF assms(1) _ assms(3,2)]
        pr z Let_def set_upt atLeastLessThan_iff)
  also have "\<dots> = (foldl (\<lambda>x k. f_add x (FNum 0)) (FNum 0) [0..<n], foldl (\<lambda>x k. f_add x (g k)) (FNum 0) [0..<n])"
    by (rule foldl_pair)
  also have "foldl (\<lambda>x k. f_add x (FNum 0)) (FNum 0) [0..<n] = FNum 0"
    by (induction n) simp_all
  finally have r: "foldl (residual_step t0 (FNum (of_int a + of_int b * ((of_nat n - 1) / 2))) (FNum (of_int b)) (FNum (of_int a)))
      (FNum 0, FNum 0) ss = (FNum 0, foldl (\<lambda>x k. f_add x (g k)) (FNum 0) [0..<n])" .
  have "foldl (\<lambda>x k. f_add x (g k)) (FNum 0) [0..<n] = FNum 0" if "b = 0"
    using that by (induction n) (simp_all add: g_def)
  moreover have "at_least (1 / 4) (foldl (\<lambda>x k. f_add x (g k)) (FNum 0) [0..<n])" if "b \<noteq> 0"
  proof -
    have u: "[0..<n] = 0 # [1..<n]" using assms(1) by (simp add: tame_def upt_rec)
    have g: "at_least 0 (g k)" for k
      by (simp add: g_def at_least_round)
    have one: "(1 :: rat) \<le> \<bar>of_int b\<bar>" using that by linarith
    have "1 * (1 / 2) \<le> \<bar>of_int b\<bar> * \<bar>dev n 0\<bar>"
      using one dev_zero [of n] assms(1) by (intro mult_mono) (auto simp: tame_def)
    then have "(1 / 2) * (1 / 2) \<le> (\<bar>of_int b\<bar> * \<bar>dev n 0\<bar>) * (\<bar>of_int b\<bar> * \<bar>dev n 0\<bar>)"
      by (intro mult_mono) auto
    also have "\<dots> = (of_int b * dev n 0) * (of_int b * dev n 0)"
      by (metis abs_mult abs_mult_self_eq)
    finally have big: "1 / 4 \<le> (of_int b * dev n 0) * (of_int b * dev n 0)" by simp
    have q: "round_mag (1 / 4) = 1 / 4"
      using round_mag_dyadic [of 1 "- 2"] by (simp add: pow2_def)
    have g0: "at_least (1 / 4) (g 0)"
      unfolding g_def f_mul.simps using big q by (intro at_least_round) simp_all
    have "at_least (1 / 4) (f_add (FNum 0) (g 0))"
      using at_least_add [of "FNum 0", OF _ g0] q by (simp add: at_least_def)
    then show ?thesis
      unfolding u foldl.simps using g q by (intro squares_at_least) auto
  qed
  ultimately show ?thesis using r by auto
qed

lemma fit_straight_line:
  assumes "tame a b n" "length ss = n" "straight t0 a b ss"
  shows "fit_slope ss t0 = (FNum (of_int b), FNum 1, True)"
proof -
  note t = tame_rat [OF assms(1)] and p = tame_powers [OF assms(1)]
  have n2: "2 \<le> n" using assms(1) by (simp add: tame_def)
  have S: "sum_sq n \<noteq> 0" using sum_sq_pos [OF n2] by simp
  have bi: "\<bar>of_int b :: rat\<bar> \<le> 2 ^ 51" using p(3) by simp
  have slope: "f_div (FNum (of_int b * sum_sq n)) (FNum (sum_sq n)) = FNum (of_int b)"
    using S round_quarters [OF quarters_half [OF halves_int(1)] bi] by simp
  have m: "\<bar>(of_nat n - 1) / 2 :: rat\<bar> \<le> of_nat n" using t(1) by (simp add: abs_le_iff)
  have "\<bar>of_int b * ((of_nat n - 1) / 2) :: rat\<bar> \<le> \<bar>of_int b\<bar> * of_nat n"
    unfolding abs_mult using m by (intro mult_left_mono) auto
  then have "f_mul (FNum (of_int b)) (FNum ((of_nat n - 1) / 2)) = FNum (of_int b * ((of_nat n - 1) / 2))"
    using p(2) by (intro f_mul_exact halves_int halves_mean) simp
  moreover have "f_sub (FNum (of_int a + of_int b * ((of_nat n - 1) / 2))) (FNum (of_int b * ((of_nat n - 1) / 2))) = FNum (of_int a)"
  proof -
    have "(of_int a :: rat) \<le> of_nat n * of_int a"
      using mult_right_mono [OF t(1) t(3)] t(3) by simp
    then have "\<bar>of_int a :: rat\<bar> \<le> 2 ^ 51" using t(3,4) by simp
    then show ?thesis
      using f_sub_exact [OF halves_mean(2) halves_scale [OF halves_mean(1)], of a b n b n] by simp
  qed
  ultimately have ic: "f_sub (FNum (of_int a + of_int b * ((of_nat n - 1) / 2)))
      (f_mul (FNum (of_int b)) (FNum ((of_nat n - 1) / 2))) = FNum (of_int a)" by simp
  obtain q where q: "foldl (residual_step t0 (FNum (of_int a + of_int b * ((of_nat n - 1) / 2))) (FNum (of_int b)) (FNum (of_int a)))
      (FNum 0, FNum 0) ss = (FNum 0, q)" "if b = 0 then q = FNum 0 else at_least (1 / 4) q"
    using line_residuals [OF assms] by blast
  have nz: "\<not> f_eq (FNum (sum_sq n)) (FNum 0)" using S by simp
  have r: "\<not> f_eq q (FNum 0) \<Longrightarrow>
      f_max (FNum 0) (f_min (FNum 1) (f_sub (FNum 1) (f_div (FNum 0) q))) = FNum 1"
  proof -
    assume "\<not> f_eq q (FNum 0)"
    then have "at_least (1 / 4) q" using q(2) by (auto split: if_splits)
    then have "f_div (FNum 0) q = FNum 0" by (auto simp: at_least_def)
    moreover have "f64_round 1 = FNum 1" using f64_round_int [of 1] by simp
    ultimately show ?thesis by (simp add: f_sub_def f_min_def f_max_def)
  qed
  show ?thesis
    unfolding fit_slope_def Let_def line_sums [OF assms] prod.case assms(2) line_means [OF assms(1)]
      line_variance [OF assms] slope ic q(1)
    using nz r by (simp only: if_False) simp
qed

subsection \<open>What the analysis reports\<close>

lemma analyse_short: "length ss < 2 \<Longrightarrow> \<not> tr_projected (analyse ss) \<and> tr_time_to_limit (analyse ss) = Some 0"
  by (simp add: analyse_def min_trend_samples_def)

lemma project_true:
  "project_time_to_limit st slope = (d, True) \<Longrightarrow>
     \<not> f_le slope (FNum 0) \<and> ms_limit st \<noteq> unlimited \<and> ms_limit st \<noteq> 0"
  by (auto simp: project_time_to_limit_def Let_def split: if_splits)

lemma analyse_long:
  assumes "2 \<le> length ss" "fit_slope ss (sm_time (ss ! 0)) = (slope, r, True)"
  shows "analyse ss = \<lparr>tr_bytes_per_second = slope, tr_r_squared = r, tr_samples = length ss,
    tr_window = time_sub (sm_time (last ss)) (sm_time (ss ! 0)),
    tr_time_to_limit = fst (project_time_to_limit (sm_stats (last ss)) slope),
    tr_projected = snd (project_time_to_limit (sm_stats (last ss)) slope)\<rparr>"
proof -
  have "ss \<noteq> []" using assms(1) by auto
  then have "ss ! (length ss - 1) = last ss" by (simp add: last_conv_nth)
  then show ?thesis
    using assms by (simp add: analyse_def min_trend_samples_def Let_def split: prod.split)
qed

lemma analyse_unfit:
  assumes "2 \<le> length ss" "fit_slope ss (sm_time (ss ! 0)) = (slope, r, False)"
  shows "tr_time_to_limit (analyse ss) = Some 0 \<and> \<not> tr_projected (analyse ss)"
  using assms by (simp add: analyse_def min_trend_samples_def Let_def)

lemma analysed_projection:
  assumes "length ss \<le> 2 ^ 51"
  shows "\<exists>d. tr_time_to_limit (analyse ss) = Some d \<and> 0 \<le> d \<and> d \<le> max_duration \<and>
    (tr_projected (analyse ss) \<longrightarrow>
       \<not> f_le (tr_bytes_per_second (analyse ss)) (FNum 0) \<and>
       ms_limit (sm_stats (last ss)) \<noteq> unlimited \<and> ms_limit (sm_stats (last ss)) \<noteq> 0)"
proof (cases "length ss < 2")
  case True
  then show ?thesis using analyse_short by (simp add: max_duration_def)
next
  case False
  obtain slope r ok where f: "fit_slope ss (sm_time (ss ! 0)) = (slope, r, ok)"
    using prod_cases3 by blast
  show ?thesis
  proof (cases ok)
    case True
    have "ss \<noteq> []" using False by auto
    then have "slope \<noteq> FNaN" using fit_slope_not_nan [OF assms _ f] by simp
    then obtain d b where p: "project_time_to_limit (sm_stats (last ss)) slope = (Some d, b)"
      "0 \<le> d" "d \<le> max_duration"
      using project_safe by blast
    show ?thesis
      using False f True p project_true [of "sm_stats (last ss)" slope "Some d"]
      by (cases b) (auto simp: analyse_long)
  next
    case no: False
    then have "tr_time_to_limit (analyse ss) = Some 0 \<and> \<not> tr_projected (analyse ss)"
      using analyse_unfit [of ss slope r] False f by simp
    then show ?thesis by (simp add: max_duration_def)
  qed
qed

subsection \<open>Properties\<close>

text \<open>C12: However steep, flat or broken the history is, the projected time to the limit is a
  duration between zero and the largest one: the guard in front of the conversion is tight
  enough that no projection overflows 64-bit nanoseconds and turns negative. A projection
  is made only for a cgroup that grows and has a limit.\<close>

theorem projection_never_overflows:
  assumes "length ss \<le> 2 ^ 51"
  shows "\<exists>d. tr_time_to_limit (analyse ss) = Some d \<and> 0 \<le> d \<and> d \<le> max_duration \<and>
    (tr_projected (analyse ss) \<longrightarrow>
       \<not> f_le (tr_bytes_per_second (analyse ss)) (FNum 0) \<and>
       ms_limit (sm_stats (last ss)) \<noteq> unlimited \<and> ms_limit (sm_stats (last ss)) \<noteq> 0)"
  using assms by (rule analysed_projection)

theorem projection_never_overflows_witness:
  "\<exists>d. tr_time_to_limit (analyse [sample_zero, sample_zero\<lparr>sm_time := 1\<rparr>]) = Some d \<and> 0 \<le> d \<and> d \<le> max_duration"
  using projection_never_overflows [of "[sample_zero, sample_zero\<lparr>sm_time := 1\<rparr>]"] by auto

text \<open>C14: A history sampled once a second along a straight line is fitted exactly: the growth
  rate reported is the line's slope to the last byte, the fit is perfect, and a flat history
  has rate zero and is not projected. All the rounding of the double-precision sums, means
  and squares cancels out for such histories, up to 2^17 samples.\<close>

theorem straight_growth_fitted_exactly:
  assumes "tame a b (length ss)" "straight t0 a b ss"
  shows "tr_bytes_per_second (analyse ss) = FNum (of_int b) \<and> tr_r_squared (analyse ss) = FNum 1 \<and>
    tr_window (analyse ss) = int (length ss - 1) * second \<and>
    (tr_projected (analyse ss) \<longrightarrow> 0 < b)"
proof -
  have n: "2 \<le> length ss" "length ss \<le> 2 ^ 17" using assms(1) by (auto simp: tame_def)
  have ne: "ss \<noteq> []" using n by auto
  have t0: "sm_time (ss ! 0) = t0"
    using assms(2) n(1) ne by (simp add: straight_def on_line_def)
  have f: "fit_slope ss (sm_time (ss ! 0)) = (FNum (of_int b), FNum 1, True)"
    using fit_straight_line [OF assms(1) refl assms(2)] by (simp add: t0)
  have tl: "sm_time (last ss) = t0 + int (length ss - 1) * second"
    using assms(2) n(1) ne by (simp add: straight_def on_line_def last_conv_nth)
  have w: "time_sub (sm_time (last ss)) (sm_time (ss ! 0)) = int (length ss - 1) * second"
    using n by (simp add: tl t0 time_sub_def min_duration_def max_duration_def second_def of_nat_diff)
  have "tr_projected (analyse ss) \<Longrightarrow> 0 < b"
  proof -
    assume "tr_projected (analyse ss)"
    then have "snd (project_time_to_limit (sm_stats (last ss)) (FNum (of_int b)))"
      by (simp add: analyse_long [OF n(1) f])
    then have "\<not> f_le (FNum (of_int b)) (FNum 0)"
      using project_true [of "sm_stats (last ss)" "FNum (of_int b)"] by (metis prod.collapse)
    then show ?thesis by (auto simp: f_le_def)
  qed
  then show ?thesis using w by (simp add: analyse_long [OF n(1) f])
qed

definition demo_line :: "sample list" where
  "demo_line = [sample_zero\<lparr>sm_time := 5, sm_stats := mem_stats_zero\<lparr>ms_current := 100\<rparr>\<rparr>,
     sample_zero\<lparr>sm_time := 5 + second, sm_stats := mem_stats_zero\<lparr>ms_current := 164\<rparr>\<rparr>,
     sample_zero\<lparr>sm_time := 5 + 2 * second, sm_stats := mem_stats_zero\<lparr>ms_current := 228\<rparr>\<rparr>]"

theorem straight_growth_fitted_exactly_witness:
  "tr_bytes_per_second (analyse demo_line) = FNum 64 \<and> tr_window (analyse demo_line) = 2 * second"
proof -
  have "tame 100 64 (length demo_line)" by (simp add: tame_def demo_line_def)
  moreover have "straight 5 100 64 demo_line"
    by (auto simp: straight_def on_line_def demo_line_def sample_zero_def mem_stats_zero_def
        less_Suc_eq numeral_3_eq_3)
  ultimately show ?thesis
    using straight_growth_fitted_exactly [of 100 64 demo_line 5] by (simp add: demo_line_def)
qed

end
