(* ===== verification/Sampler.thy ===== *)
theory Sampler
  imports Trend
begin

section \<open>The sampler\<close>

text \<open>
  Models \<open>src/internal/sampler/sampler.go\<close>: the options and their defaults, one collection
  pass, the delayed eviction of vanished cgroups and the queries. The file system changes
  while a pass runs, so a pass takes the hierarchy as the discovery walk saw it and, for each
  path, the hierarchies its statistics and its pressure were read from. The loop of \<open>Run\<close> is
  the sequence of passes its ticker triggers; it ends at the first failing pass.
\<close>

definition default_interval :: duration where
  "default_interval = second"

definition default_history_size :: int where
  "default_history_size = 60"

definition default_retention :: duration where
  "default_retention = 30 * second"

record sampler_options =
  so_fs :: "cgfs option"
  so_prefix :: string
  so_interval :: duration
  so_history_size :: int
  so_retention :: duration

record sampler =
  sp_prefix :: string
  sp_interval :: duration
  sp_history_size :: int
  sp_retention :: duration
  sp_rings :: "(string, ring) gomap"
  sp_vanished_at :: "(string, time) gomap"

definition sampler_new :: "sampler_options \<Rightarrow> err + sampler" where
  "sampler_new opts =
     (if so_fs opts = None then Inl (EMsg ''sampler requires a cgroup filesystem'')
      else Inr \<lparr>sp_prefix = so_prefix opts,
        sp_interval = (if so_interval opts \<le> 0 then default_interval else so_interval opts),
        sp_history_size = (if so_history_size opts \<le> 0 then default_history_size else so_history_size opts),
        sp_retention = (if so_retention opts \<le> 0 then default_retention else so_retention opts),
        sp_rings = [], sp_vanished_at = []\<rparr>)"

text \<open>A ring that cannot be made is a panic, \<open>None\<close>, and so is an addition beyond its buffer.\<close>

definition sampler_record :: "string \<Rightarrow> sample \<Rightarrow> sampler \<Rightarrow> sampler option" where
  "sampler_record path sm s =
     (case map_get (sp_rings s) path of
        Some r \<Rightarrow> map_option (\<lambda>r. s\<lparr>sp_rings := map_put path r (sp_rings s)\<rparr>) (ring_push sm r)
      | None \<Rightarrow>
          (case new_ring (sp_history_size s) of
             None \<Rightarrow> None
           | Some r \<Rightarrow> map_option (\<lambda>r. s\<lparr>sp_rings := map_put path r (sp_rings s)\<rparr>) (ring_push sm r)))"

text \<open>\<open>reads path\<close> are the hierarchies the statistics and the pressure of \<open>path\<close> are read from.\<close>

fun collect_paths ::
  "(string \<Rightarrow> cgfs \<times> cgfs) \<Rightarrow> time \<Rightarrow> string list \<Rightarrow> string list \<Rightarrow> sampler \<Rightarrow> (string list \<times> sampler) option" where
  "collect_paths reads now [] live s = Some (live, s)"
| "collect_paths reads now (path # paths) live s =
     (case read_memory_stats (fst (reads path)) path of
        Inl e \<Rightarrow> collect_paths reads now paths live s
      | Inr stats \<Rightarrow>
          (let p = (case read_psi (snd (reads path)) path of Inl e \<Rightarrow> psi_zero | Inr p \<Rightarrow> p);
               sm = \<lparr>sm_time = now, sm_stats = stats, sm_psi = p\<rparr>
           in case sampler_record path sm s of
                None \<Rightarrow> None
              | Some s' \<Rightarrow> collect_paths reads now paths (path # live) s'))"

definition evict_step :: "string list \<Rightarrow> time \<Rightarrow> string \<Rightarrow> sampler \<Rightarrow> sampler" where
  "evict_step live now path s =
     (if path \<in> set live then s\<lparr>sp_vanished_at := map_del path (sp_vanished_at s)\<rparr>
      else case map_get (sp_vanished_at s) path of
             None \<Rightarrow> s\<lparr>sp_vanished_at := map_put path now (sp_vanished_at s)\<rparr>
           | Some first_missed \<Rightarrow>
               if sp_retention s \<le> time_sub now first_missed
               then s\<lparr>sp_rings := map_del path (sp_rings s), sp_vanished_at := map_del path (sp_vanished_at s)\<rparr>
               else s)"

definition sampler_evict :: "string list \<Rightarrow> time \<Rightarrow> sampler \<Rightarrow> sampler" where
  "sampler_evict live now s = fold (evict_step live now) (map_keys (sp_rings s)) s"

text \<open>The outer \<open>option\<close> is the panic, the inner sum the error \<open>Collect\<close> returns.\<close>

definition collect :: "cgfs \<Rightarrow> (string \<Rightarrow> cgfs \<times> cgfs) \<Rightarrow> time \<Rightarrow> sampler \<Rightarrow> (err + sampler) option" where
  "collect fs reads now s =
     (case discover fs (sp_prefix s) of
        Inl e \<Rightarrow> Some (Inl e)
      | Inr paths \<Rightarrow>
          (case collect_paths reads now paths [] s of
             None \<Rightarrow> None
           | Some (live, s') \<Rightarrow> Some (Inr (sampler_evict live now s'))))"

text \<open>\<open>Run\<close>: one pass up front and one per tick, until a pass fails.\<close>

fun sampler_run ::
  "(cgfs \<times> (string \<Rightarrow> cgfs \<times> cgfs) \<times> time) list \<Rightarrow> sampler \<Rightarrow> (err + sampler) option" where
  "sampler_run [] s = Some (Inr s)"
| "sampler_run ((fs, reads, now) # ps) s =
     (case collect fs reads now s of
        None \<Rightarrow> None
      | Some (Inl e) \<Rightarrow> Some (Inl e)
      | Some (Inr s') \<Rightarrow> sampler_run ps s')"

definition history :: "sampler \<Rightarrow> string \<Rightarrow> sample list option" where
  "history s path = map_option ring_samples (map_get (sp_rings s) path)"

definition sampler_latest :: "sampler \<Rightarrow> string \<Rightarrow> sample option" where
  "sampler_latest s path = (case map_get (sp_rings s) path of None \<Rightarrow> None | Some r \<Rightarrow> ring_latest r)"

definition sampler_trend :: "sampler \<Rightarrow> string \<Rightarrow> trend option" where
  "sampler_trend s path = map_option analyse (history s path)"

definition tracked :: "sampler \<Rightarrow> string list" where
  "tracked s = sort (map_keys (sp_rings s))"

subsection \<open>The invariant\<close>

definition sampler_ok :: "sampler \<Rightarrow> bool" where
  "sampler_ok s \<longleftrightarrow>
     map_wf (sp_rings s) \<and> 0 < sp_history_size s \<and> 0 < sp_retention s \<and>
     (\<forall>p r. map_get (sp_rings s) p = Some r \<longrightarrow> ring_ok r \<and> int (ring_cap r) = sp_history_size s) \<and>
     (\<forall>p. map_get (sp_vanished_at s) p \<noteq> None \<longrightarrow> map_get (sp_rings s) p \<noteq> None)"

definition same_config :: "sampler \<Rightarrow> sampler \<Rightarrow> bool" where
  "same_config s t \<longleftrightarrow>
     sp_prefix t = sp_prefix s \<and> sp_history_size t = sp_history_size s \<and> sp_retention t = sp_retention s"

lemma same_config_refl [simp]: "same_config s s"
  by (simp add: same_config_def)

lemma same_config_trans: "same_config s t \<Longrightarrow> same_config t u \<Longrightarrow> same_config s u"
  by (simp add: same_config_def)

lemma sampler_new_ok: "sampler_new opts = Inr s \<Longrightarrow> sampler_ok s"
  by (auto simp: sampler_new_def sampler_ok_def default_history_size_def default_retention_def second_def
      split: if_splits)

text \<open>What a recording does to the history of each path.\<close>

lemma sampler_record_ok:
  assumes "sampler_ok s"
  shows "\<exists>s'. sampler_record path sm s = Some s' \<and> sampler_ok s' \<and> same_config s s' \<and>
    sp_vanished_at s' = sp_vanished_at s \<and>
    history s' = (history s)(path \<mapsto>
      keep_last (nat (sp_history_size s)) ((case history s path of None \<Rightarrow> [] | Some h \<Rightarrow> h) @ [sm]))"
proof (cases "map_get (sp_rings s) path")
  case None
  obtain r where r: "new_ring (sp_history_size s) = Some r"
    using assms by (auto simp: sampler_ok_def new_ring_def)
  note ok = new_ring_ok [OF r]
  have cap: "ring_cap r = nat (sp_history_size s)" using ok by (metis nat_int)
  have "ring_samples (ring_add sm r) = keep_last (nat (sp_history_size s)) [sm]"
    using ok ring.contents_add [of r sm] cap by simp
  then show ?thesis
    using None r ok assms ring.inv_add [of r sm] ring.cap_add [of r sm]
    by (auto simp: sampler_record_def ring_push_ok sampler_ok_def same_config_def history_def fun_eq_iff)
next
  case (Some r)
  then have ok: "ring_ok r" "int (ring_cap r) = sp_history_size s"
    using assms by (auto simp: sampler_ok_def)
  then have cap: "ring_cap r = nat (sp_history_size s)" by (metis nat_int)
  have "ring_samples (ring_add sm r) = keep_last (nat (sp_history_size s)) (ring_samples r @ [sm])"
    using ring.contents_add [OF ok(1), of sm] cap by simp
  then show ?thesis
    using Some ok assms ring.inv_add [OF ok(1), of sm] ring.cap_add [OF ok(1), of sm]
    by (auto simp: sampler_record_def ring_push_ok sampler_ok_def same_config_def history_def fun_eq_iff)
qed

text \<open>A pass over the discovered paths: what is read is recorded, what is not is left alone.\<close>

definition read_ok :: "(string \<Rightarrow> cgfs \<times> cgfs) \<Rightarrow> string \<Rightarrow> bool" where
  "read_ok reads path \<longleftrightarrow> is_ok (read_memory_stats (fst (reads path)) path)"

lemma collect_paths_ok:
  "sampler_ok s \<Longrightarrow> \<exists>live' s'. collect_paths reads now paths live s = Some (live', s') \<and>
     sampler_ok s' \<and> same_config s s' \<and> sp_vanished_at s' = sp_vanished_at s \<and>
     set live' = set live \<union> {p \<in> set paths. read_ok reads p} \<and>
     (\<forall>p. p \<notin> set paths \<or> \<not> read_ok reads p \<longrightarrow> history s' p = history s p) \<and>
     (\<forall>p stats. p \<in> set paths \<longrightarrow> read_memory_stats (fst (reads p)) p = Inr stats \<longrightarrow>
        (\<exists>h sm. history s' p = Some (h @ [sm]) \<and> sm_time sm = now \<and> sm_stats sm = stats))"
proof (induction paths arbitrary: live s)
  case Nil
  then show ?case by simp
next
  case (Cons path paths)
  show ?case
  proof (cases "read_memory_stats (fst (reads path)) path")
    case (Inl e)
    then have n: "\<not> read_ok reads path" by (simp add: read_ok_def)
    show ?thesis
      using Cons.IH [OF Cons.prems, of live] Inl n by auto
  next
    case (Inr stats)
    define sm where "sm = \<lparr>sm_time = now, sm_stats = stats,
      sm_psi = (case read_psi (snd (reads path)) path of Inl e \<Rightarrow> psi_zero | Inr p \<Rightarrow> p)\<rparr>"
    obtain s1 where s1: "sampler_record path sm s = Some s1" "sampler_ok s1" "same_config s s1"
      "sp_vanished_at s1 = sp_vanished_at s"
      "history s1 = (history s)(path \<mapsto>
         keep_last (nat (sp_history_size s)) ((case history s path of None \<Rightarrow> [] | Some h \<Rightarrow> h) @ [sm]))"
      using sampler_record_ok [OF Cons.prems] by blast
    have pos: "0 < nat (sp_history_size s)" using Cons.prems by (simp add: sampler_ok_def)
    have h1: "\<exists>h. history s1 path = Some (h @ [sm])"
      using s1(5) pos keep_last_append [of "[sm]" "nat (sp_history_size s)"] by simp
    obtain live' s' where r: "collect_paths reads now paths (path # live) s1 = Some (live', s')"
      "sampler_ok s'" "same_config s1 s'" "sp_vanished_at s' = sp_vanished_at s1"
      "set live' = set (path # live) \<union> {p \<in> set paths. read_ok reads p}"
      "\<forall>p. p \<notin> set paths \<or> \<not> read_ok reads p \<longrightarrow> history s' p = history s1 p"
      "\<forall>p stats. p \<in> set paths \<longrightarrow> read_memory_stats (fst (reads p)) p = Inr stats \<longrightarrow>
         (\<exists>h sm. history s' p = Some (h @ [sm]) \<and> sm_time sm = now \<and> sm_stats sm = stats)"
      using Cons.IH [OF s1(2), of "path # live"] by blast
    have ok: "read_ok reads path" using Inr by (simp add: read_ok_def)
    have c: "collect_paths reads now (path # paths) live s = Some (live', s')"
      using Inr s1(1) r(1) by (simp add: sm_def)
    have live: "set live' = set live \<union> {p \<in> set (path # paths). read_ok reads p}"
      using r(5) ok by auto
    have miss: "history s' p = history s p" if "p \<notin> set (path # paths) \<or> \<not> read_ok reads p" for p
      using that r(6) s1(5) ok by auto
    have hit: "\<exists>h sm. history s' p = Some (h @ [sm]) \<and> sm_time sm = now \<and> sm_stats sm = st"
      if "p \<in> set (path # paths)" "read_memory_stats (fst (reads p)) p = Inr st" for p st
    proof (cases "p \<in> set paths")
      case True
      then show ?thesis using r(7) that(2) by blast
    next
      case False
      then have "p = path" "st = stats" using that Inr by auto
      then show ?thesis using False h1 r(6) by (auto simp: sm_def)
    qed
    have van: "sp_vanished_at s' = sp_vanished_at s" using r(4) s1(4) by simp
    show ?thesis
      by (intro exI [of _ live'] exI [of _ s'] conjI allI impI)
        (fact c r(2) same_config_trans [OF s1(3) r(3)] van live | erule miss | erule (1) hit)+
  qed
qed

subsection \<open>Eviction\<close>

text \<open>
  What one eviction does to one path. The loop ranges over a Go map while deleting from it;
  since each step touches its own path only, the order of the range does not matter.
\<close>

definition evict_view :: "sampler \<Rightarrow> string \<Rightarrow> ring option \<times> time option \<times> duration" where
  "evict_view s p = (map_get (sp_rings s) p, map_get (sp_vanished_at s) p, sp_retention s)"

definition evict_local ::
  "string list \<Rightarrow> time \<Rightarrow> string \<Rightarrow> ring option \<times> time option \<times> duration \<Rightarrow> ring option \<times> time option \<times> duration" where
  "evict_local live now p v =
     (case v of (r, van, ret) \<Rightarrow>
        if p \<in> set live then (r, None, ret)
        else case van of
               None \<Rightarrow> (r, Some now, ret)
             | Some t \<Rightarrow> if ret \<le> time_sub now t then (None, None, ret) else (r, van, ret))"

lemma evict_step_view:
  "evict_view (evict_step live now k s) p =
     (if p = k then evict_local live now p (evict_view s p) else evict_view s p)"
  by (auto simp: evict_view_def evict_step_def evict_local_def split: option.split)

lemma evict_any_order:
  "distinct ks \<Longrightarrow> evict_view (fold (evict_step live now) ks s) p =
     (if p \<in> set ks then evict_local live now p (evict_view s p) else evict_view s p)"
  by (rule fold_local_update [OF evict_step_view])

lemma sampler_evict_view:
  "map_wf (sp_rings s) \<Longrightarrow> evict_view (sampler_evict live now s) p =
     (if map_get (sp_rings s) p \<noteq> None then evict_local live now p (evict_view s p) else evict_view s p)"
  using evict_any_order [of "map_keys (sp_rings s)" live now s p]
  by (simp add: sampler_evict_def map_wf_def map_keys_iff)

lemma evict_step_config:
  "same_config s (evict_step live now k s) \<and> (map_wf (sp_rings s) \<longrightarrow> map_wf (sp_rings (evict_step live now k s)))"
  by (auto simp: evict_step_def same_config_def split: option.split)

lemma evict_fold_config:
  "same_config s (fold (evict_step live now) ks s) \<and>
     (map_wf (sp_rings s) \<longrightarrow> map_wf (sp_rings (fold (evict_step live now) ks s)))"
proof (induction ks arbitrary: s)
  case (Cons k ks)
  then show ?case
    using evict_step_config [of s live now k] same_config_trans by fastforce
qed simp

lemma sampler_evict_config:
  "same_config s (sampler_evict live now s)"
  "map_wf (sp_rings s) \<Longrightarrow> map_wf (sp_rings (sampler_evict live now s))"
  using evict_fold_config by (auto simp: sampler_evict_def)

lemma sampler_evict_ok:
  assumes "sampler_ok s"
  shows "sampler_ok (sampler_evict live now s)"
proof -
  let ?t = "sampler_evict live now s"
  have wf: "map_wf (sp_rings s)" using assms by (simp add: sampler_ok_def)
  note v = sampler_evict_view [OF wf, of live now]
  have r: "map_get (sp_rings ?t) p = None \<or> map_get (sp_rings ?t) p = map_get (sp_rings s) p" for p
    using v [of p]
    by (auto simp: evict_view_def evict_local_def split: if_splits option.splits)
  have van: "map_get (sp_rings ?t) p \<noteq> None" if "map_get (sp_vanished_at ?t) p \<noteq> None" for p
  proof (cases "map_get (sp_rings s) p")
    case None
    then have "map_get (sp_vanished_at s) p = None" using assms by (auto simp: sampler_ok_def)
    then show ?thesis using None v [of p] that by (simp add: evict_view_def)
  next
    case (Some r)
    then show ?thesis
      using v [of p] that
      by (auto simp: evict_view_def evict_local_def split: if_splits option.splits)
  qed
  show ?thesis
    using assms r van sampler_evict_config [of s live now] wf
    unfolding sampler_ok_def same_config_def by (metis option.distinct(1))
qed

subsection \<open>One pass, path by path\<close>

definition pass_sees :: "cgfs \<Rightarrow> (string \<Rightarrow> cgfs \<times> cgfs) \<Rightarrow> string \<Rightarrow> string \<Rightarrow> bool" where
  "pass_sees fs reads pfx p \<longleftrightarrow>
     (\<exists>found. discover fs pfx = Inr found \<and> p \<in> set found \<and> read_ok reads p)"

lemma evict_history:
  assumes "sampler_ok s"
  shows "history (sampler_evict live now s) p =
      (if p \<in> set live then history s p
       else case map_get (sp_vanished_at s) p of
              None \<Rightarrow> history s p
            | Some t \<Rightarrow> if sp_retention s \<le> time_sub now t then None else history s p)"
    and "map_get (sp_vanished_at (sampler_evict live now s)) p =
      (if history s p = None \<or> p \<in> set live then None
       else case map_get (sp_vanished_at s) p of
              None \<Rightarrow> Some now
            | Some t \<Rightarrow> if sp_retention s \<le> time_sub now t then None else Some t)"
proof -
  have wf: "map_wf (sp_rings s)" using assms by (simp add: sampler_ok_def)
  have n: "map_get (sp_rings s) p = None \<Longrightarrow> map_get (sp_vanished_at s) p = None"
    using assms by (auto simp: sampler_ok_def)
  show "history (sampler_evict live now s) p =
      (if p \<in> set live then history s p
       else case map_get (sp_vanished_at s) p of
              None \<Rightarrow> history s p
            | Some t \<Rightarrow> if sp_retention s \<le> time_sub now t then None else history s p)"
    "map_get (sp_vanished_at (sampler_evict live now s)) p =
      (if history s p = None \<or> p \<in> set live then None
       else case map_get (sp_vanished_at s) p of
              None \<Rightarrow> Some now
            | Some t \<Rightarrow> if sp_retention s \<le> time_sub now t then None else Some t)"
    using sampler_evict_view [OF wf, of live now p] n
    by (cases "map_get (sp_rings s) p"; cases "map_get (sp_vanished_at s) p";
        simp add: evict_view_def evict_local_def history_def split: if_splits)+
qed

lemma collect_ok:
  assumes "sampler_ok s"
  shows "(case discover fs (sp_prefix s) of
       Inl e \<Rightarrow> collect fs reads now s = Some (Inl e)
     | Inr found \<Rightarrow> \<exists>s'. collect fs reads now s = Some (Inr s') \<and> sampler_ok s' \<and> same_config s s' \<and>
         (\<forall>p. \<not> (p \<in> set found \<and> read_ok reads p) \<longrightarrow>
            history s' p = (case map_get (sp_vanished_at s) p of
                None \<Rightarrow> history s p
              | Some t \<Rightarrow> if sp_retention s \<le> time_sub now t then None else history s p) \<and>
            map_get (sp_vanished_at s') p = (if history s p = None then None
              else case map_get (sp_vanished_at s) p of
                None \<Rightarrow> Some now
              | Some t \<Rightarrow> if sp_retention s \<le> time_sub now t then None else Some t)) \<and>
         (\<forall>p stats. p \<in> set found \<longrightarrow> read_memory_stats (fst (reads p)) p = Inr stats \<longrightarrow>
            map_get (sp_vanished_at s') p = None \<and>
            (\<exists>h sm. history s' p = Some (h @ [sm]) \<and> sm_time sm = now \<and> sm_stats sm = stats)))"
proof (cases "discover fs (sp_prefix s)")
  case (Inl e)
  then show ?thesis by (simp add: collect_def)
next
  case (Inr found)
  obtain live s1 where c: "collect_paths reads now found [] s = Some (live, s1)"
    "sampler_ok s1" "same_config s s1" "sp_vanished_at s1 = sp_vanished_at s"
    "set live = {p \<in> set found. read_ok reads p}"
    "\<And>p. p \<notin> set found \<or> \<not> read_ok reads p \<Longrightarrow> history s1 p = history s p"
    "\<And>p stats. p \<in> set found \<Longrightarrow> read_memory_stats (fst (reads p)) p = Inr stats \<Longrightarrow>
       \<exists>h sm. history s1 p = Some (h @ [sm]) \<and> sm_time sm = now \<and> sm_stats sm = stats"
    using collect_paths_ok [OF assms, of reads now found "[]"] by auto
  have r: "sp_retention s1 = sp_retention s" using c(3) by (simp add: same_config_def)
  have "collect fs reads now s = Some (Inr (sampler_evict live now s1))"
    using Inr c(1) by (simp add: collect_def)
  moreover have "sampler_ok (sampler_evict live now s1)" "same_config s (sampler_evict live now s1)"
    using sampler_evict_ok [OF c(2)] same_config_trans [OF c(3) sampler_evict_config(1)] by auto
  moreover have "history (sampler_evict live now s1) p = (case map_get (sp_vanished_at s) p of
                None \<Rightarrow> history s p
              | Some t \<Rightarrow> if sp_retention s \<le> time_sub now t then None else history s p) \<and>
      map_get (sp_vanished_at (sampler_evict live now s1)) p = (if history s p = None then None
              else case map_get (sp_vanished_at s) p of
                None \<Rightarrow> Some now
              | Some t \<Rightarrow> if sp_retention s \<le> time_sub now t then None else Some t)"
    if "\<not> (p \<in> set found \<and> read_ok reads p)" for p
  proof -
    have "p \<notin> set live" "history s1 p = history s p" using that c(5,6) by blast+
    then show ?thesis
      using evict_history [OF c(2), of live now p] unfolding c(4) r by (simp split: option.split)
  qed
  moreover have "map_get (sp_vanished_at (sampler_evict live now s1)) p = None \<and>
      (\<exists>h sm. history (sampler_evict live now s1) p = Some (h @ [sm]) \<and> sm_time sm = now \<and> sm_stats sm = stats)"
    if "p \<in> set found" "read_memory_stats (fst (reads p)) p = Inr stats" for p stats
  proof -
    have "p \<in> set live" using that c(5) by (simp add: read_ok_def)
    then show ?thesis
      using evict_history [OF c(2), of live now p] c(7) [OF that] by simp
  qed
  ultimately show ?thesis unfolding Inr sum.case by blast
qed

lemma run_misses:
  assumes "sampler_ok s" "history s p = Some h" "map_get (sp_vanished_at s) p = Some t0"
    and "\<forall>(fs, reads, t) \<in> set ps. \<not> pass_sees fs reads (sp_prefix s) p \<and> time_sub t t0 < sp_retention s"
    and "sampler_run ps s = Some (Inr s')"
  shows "sampler_ok s' \<and> same_config s s' \<and> history s' p = Some h \<and> map_get (sp_vanished_at s') p = Some t0"
  using assms
proof (induction ps arbitrary: s)
  case Nil
  then show ?case by simp
next
  case (Cons pass ps)
  obtain fs reads t where pass: "pass = (fs, reads, t)" by (cases pass) auto
  have miss: "\<not> pass_sees fs reads (sp_prefix s) p" "time_sub t t0 < sp_retention s"
    using Cons.prems(4) pass by auto
  obtain found s1 where s1: "discover fs (sp_prefix s) = Inr found" "collect fs reads t s = Some (Inr s1)"
    "sampler_ok s1" "same_config s s1" "sampler_run ps s1 = Some (Inr s')"
    "\<not> (p \<in> set found \<and> read_ok reads p) \<Longrightarrow>
       history s1 p = Some h \<and> map_get (sp_vanished_at s1) p = Some t0"
    using Cons.prems(2,3,5) pass miss(2) collect_ok [OF Cons.prems(1), of fs reads t]
    by (cases "discover fs (sp_prefix s)") auto
  then have k: "history s1 p = Some h" "map_get (sp_vanished_at s1) p = Some t0"
    using miss(1) by (auto simp: pass_sees_def)
  have cfg: "sp_prefix s1 = sp_prefix s" "sp_retention s1 = sp_retention s"
    using s1(4) by (simp_all add: same_config_def)
  have "sampler_ok s' \<and> same_config s1 s' \<and> history s' p = Some h \<and> map_get (sp_vanished_at s') p = Some t0"
    using Cons.prems(4) by (intro Cons.IH [OF s1(3) k _ s1(5)]) (auto simp: cfg)
  then show ?case using same_config_trans [OF s1(4)] by blast
qed

lemma history_bounded:
  "sampler_ok s \<Longrightarrow> history s p = Some h \<Longrightarrow> int (length h) \<le> sp_history_size s"
proof -
  assume ok: "sampler_ok s" and h: "history s p = Some h"
  then obtain r where r: "map_get (sp_rings s) p = Some r" "h = ring_samples r"
    by (auto simp: history_def)
  then have "ring_ok r" "int (ring_cap r) = sp_history_size s" using ok by (auto simp: sampler_ok_def)
  then show ?thesis using ring.bounded [of r] r(2) by simp
qed

text \<open>A hierarchy in which nothing can be read, and a sampler that still holds a history.\<close>

lemma empty_not_read: "\<not> read_ok (\<lambda>_. (empty_cgfs, empty_cgfs)) p"
proof -
  have "fs_lookup (Dir None None []) (rooted_segs p @ [''memory.current'']) = Inl NotExist"
    by (cases "rooted_segs p") simp_all
  then have "cgroup_file empty_cgfs p ''memory.current'' = Inl (EFs NotExist)"
    by (simp add: cgroup_file_lookup mount_segs_def empty_cgfs_def)
  then have "read_memory_stats empty_cgfs p = Inl (EFs NotExist)"
    by (simp add: read_memory_stats_def read_memory_stats_v2_def read_uint_def Let_def cgroup_file_def
        hierarchy_dir_v2 empty_cgfs_def)
  then show ?thesis by (simp add: read_ok_def)
qed

definition demo_sampler :: sampler where
  "demo_sampler = \<lparr>sp_prefix = [], sp_interval = second, sp_history_size = 1, sp_retention = 30,
     sp_rings = [(''/gone'', \<lparr>rg_samples = [sample_zero], rg_next = 0, rg_filled = True\<rparr>)],
     sp_vanished_at = []\<rparr>"

lemma demo_sampler_ok: "sampler_ok demo_sampler" "history demo_sampler ''/gone'' = Some [sample_zero]"
  "map_get (sp_vanished_at demo_sampler) ''/gone'' = None"
  by (simp_all add: sampler_ok_def demo_sampler_def map_wf_def map_keys_def map_get_def ring_ok_def
      ring_cap_def history_def ring_samples_def)

subsection \<open>Properties\<close>

text \<open>C10: A collection pass never panics, and fails only when the discovery walk fails. It leaves
  a consistent sampler in which every cgroup that could be read ends with this pass's
  reading, within the configured size, and is no longer waiting to be evicted. A cgroup that
  could not be read does not stop the pass for the others.\<close>

theorem pass_records_every_readable_cgroup:
  assumes "sampler_ok s" "discover fs (sp_prefix s) = Inr found"
  shows "\<exists>s'. collect fs reads now s = Some (Inr s') \<and> sampler_ok s' \<and>
    (\<forall>p stats. p \<in> set found \<longrightarrow> read_memory_stats (fst (reads p)) p = Inr stats \<longrightarrow>
       map_get (sp_vanished_at s') p = None \<and>
       (\<exists>h sm. history s' p = Some (h @ [sm]) \<and> sm_time sm = now \<and> sm_stats sm = stats \<and>
          int (length (h @ [sm])) \<le> sp_history_size s))"
proof -
  obtain s' where s': "collect fs reads now s = Some (Inr s')" "sampler_ok s'" "same_config s s'"
    "\<And>p stats. p \<in> set found \<Longrightarrow> read_memory_stats (fst (reads p)) p = Inr stats \<Longrightarrow>
       map_get (sp_vanished_at s') p = None \<and>
       (\<exists>h sm. history s' p = Some (h @ [sm]) \<and> sm_time sm = now \<and> sm_stats sm = stats)"
    using collect_ok [OF assms(1), of fs reads now] unfolding assms(2) sum.case by blast
  have "sp_history_size s' = sp_history_size s" using s'(3) by (simp add: same_config_def)
  then have "int (length h) \<le> sp_history_size s" if "history s' p = Some h" for p h
    using history_bounded [OF s'(2) that] by simp
  then show ?thesis using s' by metis
qed

theorem pass_records_every_readable_cgroup_witness:
  "\<exists>s'. collect demo_v2 (\<lambda>_. (demo_v2, demo_v2)) 9 demo_sampler = Some (Inr s') \<and> sampler_ok s'"
proof -
  have "sp_prefix demo_sampler = []" by (simp add: demo_sampler_def)
  then obtain found where "discover demo_v2 (sp_prefix demo_sampler) = Inr found"
    using demo_v2_discover by auto
  then show ?thesis using pass_records_every_readable_cgroup [OF demo_sampler_ok(1)] by blast
qed

text \<open>C9: The history of a cgroup that has vanished outlives it by the retention time, so the
  report of a kill can still be written: through any passes less than the retention after
  the first one that missed it the history is unchanged, sample for sample, and the first
  pass at or after that time drops it.\<close>

theorem vanished_history_kept_for_retention:
  assumes "sampler_ok s" "history s p = Some h" "map_get (sp_vanished_at s) p = None"
    and "\<forall>(fs, reads, t) \<in> set ((f0, r0, t0) # ps). \<not> pass_sees fs reads (sp_prefix s) p"
    and "\<forall>(fs, reads, t) \<in> set ps. time_sub t t0 < sp_retention s"
    and "sampler_run ((f0, r0, t0) # ps) s = Some (Inr s')"
  shows "history s' p = Some h \<and>
    (\<forall>f r t s2. \<not> pass_sees f r (sp_prefix s) p \<longrightarrow> sp_retention s \<le> time_sub t t0 \<longrightarrow>
       collect f r t s' = Some (Inr s2) \<longrightarrow> history s2 p = None)"
proof -
  have miss0: "\<not> pass_sees f0 r0 (sp_prefix s) p" using assms(4) by simp
  obtain found s1 where s1: "discover f0 (sp_prefix s) = Inr found" "collect f0 r0 t0 s = Some (Inr s1)"
    "sampler_ok s1" "same_config s s1" "sampler_run ps s1 = Some (Inr s')"
    "\<not> (p \<in> set found \<and> read_ok r0 p) \<Longrightarrow>
       history s1 p = Some h \<and> map_get (sp_vanished_at s1) p = Some t0"
    using assms(2,3,6) collect_ok [OF assms(1), of f0 r0 t0]
    by (cases "discover f0 (sp_prefix s)") auto
  then have k: "history s1 p = Some h" "map_get (sp_vanished_at s1) p = Some t0"
    using miss0 by (auto simp: pass_sees_def)
  have cfg: "sp_prefix s1 = sp_prefix s" "sp_retention s1 = sp_retention s"
    using s1(4) by (simp_all add: same_config_def)
  have all: "\<forall>(fs, reads, t) \<in> set ps. \<not> pass_sees fs reads (sp_prefix s1) p \<and> time_sub t t0 < sp_retention s1"
    using assms(4,5) unfolding cfg by fastforce
  have e: "sampler_ok s'" "same_config s1 s'" "history s' p = Some h" "map_get (sp_vanished_at s') p = Some t0"
    using run_misses [OF s1(3) k all s1(5)] by auto
  have "history s2 p = None"
    if a: "\<not> pass_sees f r (sp_prefix s) p" "sp_retention s \<le> time_sub t t0" "collect f r t s' = Some (Inr s2)"
    for f r t s2
  proof -
    have c: "sp_prefix s' = sp_prefix s" "sp_retention s' = sp_retention s"
      using e(2) cfg by (simp_all add: same_config_def)
    show ?thesis
      using collect_ok [OF e(1), of f r t] a e(3,4) c
      by (cases "discover f (sp_prefix s)") (auto simp: pass_sees_def)
  qed
  then show ?thesis using e(3) by blast
qed

theorem vanished_history_kept_for_retention_witness:
  "\<exists>s'. sampler_run [(demo_v2, \<lambda>_. (empty_cgfs, empty_cgfs), 100), (demo_v2, \<lambda>_. (empty_cgfs, empty_cgfs), 129)]
     demo_sampler = Some (Inr s') \<and> history s' ''/gone'' = Some [sample_zero]"
proof -
  let ?r = "\<lambda>_ :: string. (empty_cgfs, empty_cgfs)"
  have pf: "sp_prefix demo_sampler = []" by (simp add: demo_sampler_def)
  obtain found where d: "discover demo_v2 [] = Inr found" using demo_v2_discover by auto
  obtain s1 where s1: "collect demo_v2 ?r 100 demo_sampler = Some (Inr s1)" "sampler_ok s1" "same_config demo_sampler s1"
    using collect_ok [OF demo_sampler_ok(1), of demo_v2 ?r 100] unfolding pf d sum.case by blast
  have "discover demo_v2 (sp_prefix s1) = Inr found" using s1(3) pf d by (simp add: same_config_def)
  then obtain s2 where s2: "collect demo_v2 ?r 129 s1 = Some (Inr s2)"
    using collect_ok [OF s1(2), of demo_v2 ?r 129] by auto
  have run: "sampler_run [(demo_v2, ?r, 100), (demo_v2, ?r, 129)] demo_sampler = Some (Inr s2)"
    using s1(1) s2 by simp
  have miss: "\<not> pass_sees f ?r x ''/gone''" for f x
    using empty_not_read by (simp add: pass_sees_def)
  have t: "time_sub 129 100 < sp_retention demo_sampler"
    by (simp add: time_sub_def min_duration_def max_duration_def demo_sampler_def)
  show ?thesis
    using vanished_history_kept_for_retention [OF demo_sampler_ok _ _ run] miss t run by auto
qed

end
