(* ===== verification/Poller.thy ===== *)
theory Poller
  imports CgroupFS ProcFS
begin

section \<open>Kill events and the polling detector\<close>

text \<open>
  Models the event types of \<open>src/internal/detector/detector.go\<close> and the polling detector of
  \<open>poller.go\<close>: the baseline, the comparison of counters, the inference of the victim from
  two process snapshots, and the eviction of vanished cgroups. The node changes while a pass
  runs, so a pass takes a \<open>poll_view\<close>: for each of its reads, the tree that read sees.
\<close>

datatype source = SourceEBPF | SourcePoller | SourceFake

definition source_string :: "source \<Rightarrow> string" where
  "source_string src = (case src of SourceEBPF \<Rightarrow> ''ebpf'' | SourcePoller \<Rightarrow> ''poller'' | SourceFake \<Rightarrow> ''fake'')"

record victim =
  v_pid :: int
  v_nspid :: int
  v_comm :: string
  v_cmdline :: "string list"
  v_rss_bytes :: u64
  v_inferred :: bool
  v_known :: bool

definition victim_zero :: victim where
  "victim_zero = \<lparr>v_pid = 0, v_nspid = 0, v_comm = [], v_cmdline = [], v_rss_bytes = 0,
     v_inferred = False, v_known = False\<rparr>"

record kill_event =
  ke_time :: time
  ke_cgroup_path :: string
  ke_victim :: victim
  ke_kill_count :: u64
  ke_group_kill :: "bool option"
  ke_source :: source

definition victim_from_process :: "process \<Rightarrow> victim" where
  "victim_from_process p = \<lparr>v_pid = p_pid p, v_nspid = p_nspid p, v_comm = p_comm p,
     v_cmdline = p_cmdline p, v_rss_bytes = p_rss_bytes p, v_inferred = True, v_known = True\<rparr>"

subsection \<open>The poller\<close>

definition default_poll_interval :: duration where
  "default_poll_interval = 500000000"

record poller_options =
  po_cgroup :: "cgfs option"
  po_has_proc :: bool
  po_prefix :: string
  po_interval :: duration

record poller =
  pl_has_proc :: bool
  pl_prefix :: string
  pl_interval :: duration
  pl_counters :: "(string, u64) gomap"
  pl_snapshots :: "(string, (int, process) gomap) gomap"

definition new_poller :: "poller_options \<Rightarrow> err + poller" where
  "new_poller opts =
     (if po_cgroup opts = None then Inl (EMsg ''poller requires a cgroup filesystem'')
      else Inr \<lparr>pl_has_proc = po_has_proc opts, pl_prefix = po_prefix opts,
        pl_interval = (if po_interval opts \<le> 0 then default_poll_interval else po_interval opts),
        pl_counters = [], pl_snapshots = []\<rparr>)"

text \<open>
  The trees the reads of one pass see: the discovery walk, and for each path its
  statistics, the survivors, the two calls of the group-kill check, and the membership file
  and the \<open>/proc\<close> of the new snapshot.
\<close>

record poll_view =
  pv_walk :: cgfs
  pv_stats :: "string \<Rightarrow> cgfs"
  pv_survivors :: "string \<Rightarrow> cgfs"
  pv_group :: "string \<Rightarrow> cgfs \<times> fsnode"
  pv_members :: "string \<Rightarrow> cgfs"
  pv_proc :: "string \<Rightarrow> procfs"

definition read_group_kill :: "poll_view \<Rightarrow> string \<Rightarrow> bool option" where
  "read_group_kill v path =
     (case read_oom_group (fst (pv_group v path)) (snd (pv_group v path)) path of
        Inl e \<Rightarrow> None
      | Inr b \<Rightarrow> Some b)"

definition vanished_candidates :: "int list \<Rightarrow> (int, process) gomap \<Rightarrow> process list" where
  "vanished_candidates alive previous =
     map snd (filter (\<lambda>(pid, p). pid \<notin> set alive) previous)"

definition infer_victim :: "poll_view \<Rightarrow> string \<Rightarrow> poller \<Rightarrow> victim" where
  "infer_victim v path s =
     (case map_get (pl_snapshots s) path of
        None \<Rightarrow> victim_zero
      | Some previous \<Rightarrow>
          if \<not> pl_has_proc s then victim_zero
          else case procs_in (pv_survivors v path) path of
                 Inl e \<Rightarrow> victim_zero
               | Inr alive \<Rightarrow>
                   (case sort_key mem_key (vanished_candidates alive previous) of
                      [] \<Rightarrow> victim_zero
                    | p # _ \<Rightarrow> victim_from_process p))"

fun detect_paths :: "poll_view \<Rightarrow> time \<Rightarrow> string list \<Rightarrow> poller \<Rightarrow> kill_event list \<times> poller" where
  "detect_paths v now [] s = ([], s)"
| "detect_paths v now (path # paths) s =
     (case read_memory_stats (pv_stats v path) path of
        Inl e \<Rightarrow> detect_paths v now paths s
      | Inr stats \<Rightarrow>
          (let current = oom_kills stats;
               previous = map_get (pl_counters s) path;
               s1 = s\<lparr>pl_counters := map_put path current (pl_counters s)\<rparr>;
               rest = detect_paths v now paths s1
           in case previous of
                None \<Rightarrow> rest
              | Some n \<Rightarrow>
                  if current \<le> n then rest
                  else (\<lparr>ke_time = now, ke_cgroup_path = path, ke_victim = infer_victim v path s1,
                          ke_kill_count = current, ke_group_kill = read_group_kill v path,
                          ke_source = SourcePoller\<rparr> # fst rest, snd rest)))"

definition by_pid :: "process list \<Rightarrow> (int, process) gomap" where
  "by_pid ps = fold (\<lambda>p m. map_put (p_pid p) p m) ps []"

fun refresh_snapshots :: "poll_view \<Rightarrow> string list \<Rightarrow> poller \<Rightarrow> poller" where
  "refresh_snapshots v [] s = s"
| "refresh_snapshots v (path # paths) s =
     (if \<not> pl_has_proc s then s
      else case procs_in (pv_members v path) path of
             Inl e \<Rightarrow> refresh_snapshots v paths s
           | Inr pids \<Rightarrow>
               refresh_snapshots v paths
                 (s\<lparr>pl_snapshots := map_put path (by_pid (processes_with_pids (pv_proc v path) pids))
                      (pl_snapshots s)\<rparr>))"

definition poller_evict_step :: "string list \<Rightarrow> string \<Rightarrow> poller \<Rightarrow> poller" where
  "poller_evict_step live path s =
     (if path \<in> set live then s
      else s\<lparr>pl_counters := map_del path (pl_counters s), pl_snapshots := map_del path (pl_snapshots s)\<rparr>)"

definition poller_evict :: "string list \<Rightarrow> poller \<Rightarrow> poller" where
  "poller_evict live s = fold (poller_evict_step live) (map_keys (pl_counters s)) s"

fun prime_counters :: "poll_view \<Rightarrow> string list \<Rightarrow> poller \<Rightarrow> poller" where
  "prime_counters v [] s = s"
| "prime_counters v (path # paths) s =
     (case read_memory_stats (pv_stats v path) path of
        Inl e \<Rightarrow> prime_counters v paths s
      | Inr stats \<Rightarrow>
          prime_counters v paths (s\<lparr>pl_counters := map_put path (oom_kills stats) (pl_counters s)\<rparr>))"

definition prime :: "poll_view \<Rightarrow> poller \<Rightarrow> err + poller" where
  "prime v s =
     res_bind (discover (pv_walk v) (pl_prefix s)) (\<lambda>paths.
       Inr (refresh_snapshots v paths (prime_counters v paths s)))"

text \<open>The events come out in order; the channel may take only some of them on cancellation.\<close>

definition poll :: "poll_view \<Rightarrow> time \<Rightarrow> poller \<Rightarrow> err + kill_event list \<times> poller" where
  "poll v now s =
     res_bind (discover (pv_walk v) (pl_prefix s)) (\<lambda>paths.
       let (events, s1) = detect_paths v now paths s
       in Inr (events, poller_evict paths (refresh_snapshots v paths s1)))"

text \<open>The loop of the detector: one poll per tick, ending at the first that fails.\<close>

fun poll_loop :: "(poll_view \<times> time) list \<Rightarrow> poller \<Rightarrow> kill_event list \<times> poller" where
  "poll_loop [] s = ([], s)"
| "poll_loop ((v, now) # ticks) s =
     (case poll v now s of
        Inl e \<Rightarrow> ([], s)
      | Inr (events, s1) \<Rightarrow> (events @ fst (poll_loop ticks s1), snd (poll_loop ticks s1)))"

subsection \<open>Counters\<close>

definition kills_of :: "poll_view \<Rightarrow> string \<Rightarrow> u64 option" where
  "kills_of v p = (case read_memory_stats (pv_stats v p) p of Inl e \<Rightarrow> None | Inr m \<Rightarrow> Some (oom_kills m))"

lemma detect_config:
  "detect_paths v now paths s = (es, s') \<Longrightarrow>
     pl_prefix s' = pl_prefix s \<and> pl_has_proc s' = pl_has_proc s \<and> pl_snapshots s' = pl_snapshots s"
proof (induction paths arbitrary: s es s')
  case (Cons path paths)
  show ?case
  proof (cases "read_memory_stats (pv_stats v path) path")
    case (Inl e)
    then show ?thesis using Cons by simp
  next
    case (Inr m)
    define s1 where "s1 = s\<lparr>pl_counters := map_put path (oom_kills m) (pl_counters s)\<rparr>"
    obtain es1 s2 where r: "detect_paths v now paths s1 = (es1, s2)" by force
    have "s' = s2" using Cons.prems Inr r by (auto simp: s1_def Let_def split: option.splits if_splits)
    then show ?thesis using Cons.IH [OF r] by (simp add: s1_def)
  qed
qed simp

lemma detect_counters:
  "map_get (pl_counters (snd (detect_paths v now paths s))) p =
     (if p \<in> set paths \<and> kills_of v p \<noteq> None then kills_of v p else map_get (pl_counters s) p)"
proof (induction paths arbitrary: s)
  case (Cons path paths)
  show ?case
  proof (cases "read_memory_stats (pv_stats v path) path")
    case (Inl e)
    then show ?thesis using Cons by (auto simp: kills_of_def)
  next
    case (Inr m)
    define s1 where "s1 = s\<lparr>pl_counters := map_put path (oom_kills m) (pl_counters s)\<rparr>"
    have "snd (detect_paths v now (path # paths) s) = snd (detect_paths v now paths s1)"
      using Inr by (simp add: s1_def Let_def split: option.split)
    then show ?thesis
      using Cons [of s1] Inr by (auto simp: s1_def kills_of_def)
  qed
qed simp

text \<open>The events of one path in one pass: one exactly when its counter rose since the last.\<close>

definition events_of :: "string \<Rightarrow> kill_event list \<Rightarrow> kill_event list" where
  "events_of p es = filter (\<lambda>e. ke_cgroup_path e = p) es"

lemma detect_events:
  "map ke_kill_count (events_of p (fst (detect_paths v now paths s))) =
     (case (map_get (pl_counters s) p, kills_of v p) of
        (Some n, Some c) \<Rightarrow> if p \<in> set paths \<and> n < c then [c] else []
      | _ \<Rightarrow> [])"
proof (induction paths arbitrary: s)
  case Nil
  then show ?case by (simp add: events_of_def split: option.split)
next
  case (Cons path paths)
  show ?case
  proof (cases "read_memory_stats (pv_stats v path) path")
    case (Inl e)
    then show ?thesis using Cons by (auto simp: kills_of_def split: option.split)
  next
    case (Inr m)
    define s1 where "s1 = s\<lparr>pl_counters := map_put path (oom_kills m) (pl_counters s)\<rparr>"
    have k: "kills_of v path = Some (oom_kills m)" using Inr by (simp add: kills_of_def)
    have IH: "map ke_kill_count (events_of p (fst (detect_paths v now paths s1))) =
       (case (map_get (pl_counters s1) p, kills_of v p) of
          (Some n, Some c) \<Rightarrow> if p \<in> set paths \<and> n < c then [c] else [] | _ \<Rightarrow> [])"
      by (rule Cons.IH)
    show ?thesis
    proof (cases "p = path")
      case False
      then have "events_of p (fst (detect_paths v now (path # paths) s)) =
          events_of p (fst (detect_paths v now paths s1))"
        using Inr by (simp add: s1_def events_of_def Let_def split: option.split)
      moreover have "p \<in> set (path # paths) \<longleftrightarrow> p \<in> set paths" using False by simp
      ultimately show ?thesis using IH False unfolding s1_def by (simp only:) simp
    next
      case True
      have none: "events_of p (fst (detect_paths v now paths s1)) = []"
        using IH k True by (simp add: s1_def)
      show ?thesis
        using Inr none k True
        by (cases "map_get (pl_counters s) path")
          (simp_all add: s1_def events_of_def Let_def not_le not_less)
    qed
  qed
qed

lemma refresh_counters: "pl_counters (refresh_snapshots v paths s) = pl_counters s \<and>
    pl_prefix (refresh_snapshots v paths s) = pl_prefix s \<and> pl_has_proc (refresh_snapshots v paths s) = pl_has_proc s"
  by (induction paths arbitrary: s) (auto split: sum.split)

lemma evict_step_get:
  "(map_get (pl_counters (poller_evict_step live k s)) p, map_get (pl_snapshots (poller_evict_step live k s)) p) =
     (if p = k then (if p \<in> set live then (map_get (pl_counters s) p, map_get (pl_snapshots s) p) else (None, None))
      else (map_get (pl_counters s) p, map_get (pl_snapshots s) p))"
  by (auto simp: poller_evict_step_def)

lemma poller_evict_get:
  assumes "map_wf (pl_counters s)"
  shows "(map_get (pl_counters (poller_evict live s)) p, map_get (pl_snapshots (poller_evict live s)) p) =
    (if map_get (pl_counters s) p \<noteq> None \<and> p \<notin> set live then (None, None)
     else (map_get (pl_counters s) p, map_get (pl_snapshots s) p))"
proof -
  let ?view = "\<lambda>s p. (map_get (pl_counters s) p, map_get (pl_snapshots s) p)"
  have "?view (fold (poller_evict_step live) (map_keys (pl_counters s)) s) p =
      (if p \<in> set (map_keys (pl_counters s))
       then (if p \<in> set live then ?view s p else (None, None)) else ?view s p)"
    using assms
    by (intro fold_local_update [where view = ?view and g = "\<lambda>p x. if p \<in> set live then x else (None, None)"])
      (auto simp: poller_evict_step_def map_wf_def)
  then show ?thesis by (auto simp: poller_evict_def map_keys_iff)
qed

lemma evict_fold_wf:
  "map_wf (pl_counters s) \<Longrightarrow> map_wf (pl_counters (fold (poller_evict_step live) ks s)) \<and>
     pl_prefix (fold (poller_evict_step live) ks s) = pl_prefix s \<and>
     pl_has_proc (fold (poller_evict_step live) ks s) = pl_has_proc s"
  by (induction ks arbitrary: s) (auto simp: poller_evict_step_def)

lemma poller_evict_wf:
  "map_wf (pl_counters s) \<Longrightarrow> map_wf (pl_counters (poller_evict live s)) \<and>
     pl_prefix (poller_evict live s) = pl_prefix s \<and> pl_has_proc (poller_evict live s) = pl_has_proc s"
  unfolding poller_evict_def by (rule evict_fold_wf)

lemma detect_wf: "map_wf (pl_counters s) \<Longrightarrow> map_wf (pl_counters (snd (detect_paths v now paths s)))"
proof (induction paths arbitrary: s)
  case (Cons path paths)
  then show ?case by (simp add: Let_def split: sum.split option.split)
qed simp

subsection \<open>A pass\<close>

lemma poll_pass:
  assumes "poll v now s = Inr (es, s')" "map_wf (pl_counters s)"
  shows "\<exists>found. discover (pv_walk v) (pl_prefix s) = Inr found \<and>
    map_wf (pl_counters s') \<and> pl_prefix s' = pl_prefix s \<and> pl_has_proc s' = pl_has_proc s \<and>
    es = fst (detect_paths v now found s) \<and>
    map_get (pl_counters s') p =
      (if p \<notin> set found then None else case kills_of v p of None \<Rightarrow> map_get (pl_counters s) p | Some c \<Rightarrow> Some c) \<and>
    map ke_kill_count (events_of p es) =
      (case (map_get (pl_counters s) p, kills_of v p) of
         (Some n, Some c) \<Rightarrow> if p \<in> set found \<and> n < c then [c] else [] | _ \<Rightarrow> [])"
proof -
  obtain found where f: "discover (pv_walk v) (pl_prefix s) = Inr found"
    using assms(1) by (auto simp: poll_def)
  obtain es1 s1 where d: "detect_paths v now found s = (es1, s1)" by force
  define s2 where "s2 = refresh_snapshots v found s1"
  have r: "es = es1" "s' = poller_evict found s2"
    using assms(1) f d by (auto simp: poll_def s2_def Let_def)
  have wf: "map_wf (pl_counters s2)"
    using detect_wf [OF assms(2), of v now found] d by (simp add: s2_def refresh_counters)
  have c1: "map_get (pl_counters s2) p =
      (if p \<in> set found \<and> kills_of v p \<noteq> None then kills_of v p else map_get (pl_counters s) p)"
    using detect_counters [of v now found s p] d by (simp add: s2_def refresh_counters)
  have "map_get (pl_counters s') p = (if p \<notin> set found then None else map_get (pl_counters s2) p)"
    using poller_evict_get [OF wf, of found p] r(2) by (auto split: if_splits)
  then have c: "map_get (pl_counters s') p =
      (if p \<notin> set found then None else case kills_of v p of None \<Rightarrow> map_get (pl_counters s) p | Some c \<Rightarrow> Some c)"
    using c1 by (auto split: option.split)
  have "map_wf (pl_counters s') \<and> pl_prefix s' = pl_prefix s \<and> pl_has_proc s' = pl_has_proc s"
    using poller_evict_wf [OF wf, of found] r(2) refresh_counters [of v found s1] detect_config [OF d]
    by (simp add: s2_def)
  then show ?thesis
    using f d r(1) c detect_events [of p v now found s] by auto
qed

text \<open>
  A cgroup that every pass discovers and reads, with the readings \<open>cs\<close> of its counter: the
  events are one for each reading that differs from the one before.
\<close>

definition watched :: "string \<Rightarrow> string \<Rightarrow> poll_view \<times> time \<Rightarrow> u64 \<Rightarrow> bool" where
  "watched pfx p tick c \<longleftrightarrow>
     (\<exists>found. discover (pv_walk (fst tick)) pfx = Inr found \<and> p \<in> set found) \<and> kills_of (fst tick) p = Some c"

lemma poll_loop_counts:
  assumes "map_wf (pl_counters s)" "map_get (pl_counters s) p = Some n"
    and "list_all2 (watched (pl_prefix s) p) ticks cs" "sorted (n # cs)"
  shows "map ke_kill_count (events_of p (fst (poll_loop ticks s))) = tl (remdups_adj (n # cs)) \<and>
    map_get (pl_counters (snd (poll_loop ticks s))) p = Some (last (n # cs))"
  using assms
proof (induction ticks arbitrary: s n cs)
  case Nil
  then show ?case by (simp add: events_of_def)
next
  case (Cons tick ticks)
  obtain v now where tick: "tick = (v, now)" by force
  obtain c cs' where cs: "cs = c # cs'" "watched (pl_prefix s) p tick c"
    "list_all2 (watched (pl_prefix s) p) ticks cs'"
    using Cons.prems(3) by (cases cs) auto
  have w: "kills_of v p = Some c" "\<exists>found. discover (pv_walk v) (pl_prefix s) = Inr found \<and> p \<in> set found"
    using cs(2) by (auto simp: watched_def tick)
  obtain fd where fd: "discover (pv_walk v) (pl_prefix s) = Inr fd" using w(2) by blast
  obtain ed sd where "detect_paths v now fd s = (ed, sd)" by force
  then obtain es s1 where q: "poll v now s = Inr (es, s1)"
    using fd by (simp add: poll_def)
  obtain found where pass: "discover (pv_walk v) (pl_prefix s) = Inr found"
    "map_wf (pl_counters s1)" "pl_prefix s1 = pl_prefix s"
    "map_get (pl_counters s1) p = (if p \<notin> set found then None
       else case kills_of v p of None \<Rightarrow> map_get (pl_counters s) p | Some c \<Rightarrow> Some c)"
    "map ke_kill_count (events_of p es) =
      (case (map_get (pl_counters s) p, kills_of v p) of
         (Some n, Some c) \<Rightarrow> if p \<in> set found \<and> n < c then [c] else [] | _ \<Rightarrow> [])"
    using poll_pass [OF q Cons.prems(1), of p] by auto
  have pf: "p \<in> set found" using w(2) pass(1) by auto
  have e: "map ke_kill_count (events_of p es) = (if n < c then [c] else [])"
    using pass(5) pf w(1) Cons.prems(2) by simp
  have c1: "map_get (pl_counters s1) p = Some c" using pass(4) pf w(1) by simp
  have srt: "sorted (c # cs')" "n \<le> c" using Cons.prems(4) cs(1) by auto
  have IH: "map ke_kill_count (events_of p (fst (poll_loop ticks s1))) = tl (remdups_adj (c # cs')) \<and>
      map_get (pl_counters (snd (poll_loop ticks s1))) p = Some (last (c # cs'))"
    using Cons.IH [OF pass(2) c1 _ srt(1)] cs(3) pass(3) by simp
  have "remdups_adj (c # cs') = c # tl (remdups_adj (c # cs'))"
    by (metis hd_Cons_tl hd_remdups_adj list.sel(1) list.distinct(1) remdups_adj_Nil_iff)
  then have "tl (remdups_adj (n # c # cs')) = (if n < c then [c] else []) @ tl (remdups_adj (c # cs'))"
    using srt(2) by auto
  then show ?case
    using IH e q by (simp add: tick cs(1) events_of_def)
qed

subsection \<open>Victims\<close>

lemma set_vanished: "set (vanished_candidates alive previous) = {p. \<exists>pid. (pid, p) \<in> set previous \<and> pid \<notin> set alive}"
  by (force simp: vanished_candidates_def)

text \<open>A snapshot files each process under its own PID.\<close>

definition snapshot_ok :: "(int, process) gomap \<Rightarrow> bool" where
  "snapshot_ok m \<longleftrightarrow> map_wf m \<and> (\<forall>pid p. map_get m pid = Some p \<longrightarrow> p_pid p = pid)"

lemma snapshot_entries: "snapshot_ok m \<Longrightarrow> (pid, p) \<in> set m \<longleftrightarrow> map_get m pid = Some p"
  by (simp add: snapshot_ok_def map_wf_def map_keys_def map_get_def)

lemma snapshot_put: "snapshot_ok m \<Longrightarrow> snapshot_ok (map_put (p_pid p) p m)"
  by (simp add: snapshot_ok_def)

lemma by_pid_ok: "snapshot_ok (by_pid ps)"
proof -
  have "snapshot_ok m \<Longrightarrow> snapshot_ok (fold (\<lambda>p m. map_put (p_pid p) p m) ps m)" for m
    by (induction ps arbitrary: m) (simp_all add: snapshot_put)
  moreover have "snapshot_ok []" by (simp add: snapshot_ok_def)
  ultimately show ?thesis by (simp add: by_pid_def)
qed

lemma infer_victim_heaviest:
  assumes "map_get (pl_snapshots s) path = Some previous" "snapshot_ok previous" "pl_has_proc s"
    "procs_in (pv_survivors v path) path = Inr alive"
  shows "(v_known (infer_victim v path s) \<longleftrightarrow> (\<exists>pid p. map_get previous pid = Some p \<and> pid \<notin> set alive)) \<and>
    (v_known (infer_victim v path s) \<longrightarrow>
       (\<exists>p. infer_victim v path s = victim_from_process p \<and>
          map_get previous (p_pid p) = Some p \<and> p_pid p \<notin> set alive \<and>
          (\<forall>pid q. map_get previous pid = Some q \<longrightarrow> pid \<notin> set alive \<longrightarrow>
             p_rss_bytes q < p_rss_bytes p \<or> p_rss_bytes q = p_rss_bytes p \<and> p_pid p \<le> pid)))"
proof -
  define cs where "cs = sort_key mem_key (vanished_candidates alive previous)"
  have iv: "infer_victim v path s = (case cs of [] \<Rightarrow> victim_zero | p # _ \<Rightarrow> victim_from_process p)"
    using assms by (simp add: infer_victim_def cs_def)
  have cs: "p \<in> set cs \<longleftrightarrow> (\<exists>pid. map_get previous pid = Some p \<and> pid \<notin> set alive)" for p
    using snapshot_entries [OF assms(2)] by (auto simp: cs_def set_vanished)
  show ?thesis
  proof (cases cs)
    case Nil
    have "\<not> (\<exists>pid p. map_get previous pid = Some p \<and> pid \<notin> set alive)"
    proof
      assume "\<exists>pid p. map_get previous pid = Some p \<and> pid \<notin> set alive"
      then obtain p where "p \<in> set cs" using cs by blast
      then show False using Nil by simp
    qed
    then show ?thesis using Nil by (simp add: iv victim_zero_def)
  next
    case (Cons p ps)
    have first: "mem_key p \<le> mem_key q" if "q \<in> set cs" for q
    proof -
      have "sorted (map mem_key (p # ps))" using Cons by (simp add: cs_def [symmetric] flip: Cons) (simp add: cs_def)
      then show ?thesis using that Cons by auto
    qed
    obtain pid where pid: "map_get previous pid = Some p" "pid \<notin> set alive" using cs Cons by auto
    have pp: "p_pid p = pid" using assms(2) pid(1) by (simp add: snapshot_ok_def)
    have "p_rss_bytes q < p_rss_bytes p \<or> p_rss_bytes q = p_rss_bytes p \<and> p_pid p \<le> j"
      if "map_get previous j = Some q" "j \<notin> set alive" for j q
    proof -
      have "p_pid q = j" using assms(2) that(1) by (simp add: snapshot_ok_def)
      moreover have "mem_key p \<le> mem_key q" using first cs that by blast
      ultimately show ?thesis by (auto simp: mem_key_def)
    qed
    then show ?thesis
      using pid pp Cons by (auto simp: iv victim_from_process_def)
  qed
qed

text \<open>The order in which the loop met the candidates does not matter.\<close>

lemma candidates_any_order:
  assumes "snapshot_ok m" "mset m' = mset m"
  shows "sort_key mem_key (vanished_candidates alive m') = sort_key mem_key (vanished_candidates alive m)"
proof (rule sort_key_unique [symmetric])
  show "mset (sort_key mem_key (vanished_candidates alive m)) = mset (vanished_candidates alive m')"
    using assms(2) by (simp add: vanished_candidates_def)
  fix p q
  assume "p \<in> set (vanished_candidates alive m')" "q \<in> set (vanished_candidates alive m')" "mem_key p = mem_key q"
  moreover have "set m' = set m" using assms(2) by (rule mset_eq_setD)
  ultimately obtain i j where ij: "map_get m i = Some p" "map_get m j = Some q" "p_pid p = p_pid q"
    using snapshot_entries [OF assms(1)] by (auto simp: set_vanished mem_key_def)
  then have "i = j" using assms(1) by (auto simp: snapshot_ok_def)
  then show "p = q" using ij by simp
qed simp

subsection \<open>The invariant of the poller\<close>

definition snapshots_ok :: "(string, (int, process) gomap) gomap \<Rightarrow> bool" where
  "snapshots_ok m \<longleftrightarrow> (\<forall>p x. map_get m p = Some x \<longrightarrow> snapshot_ok x)"

definition poller_ok :: "poller \<Rightarrow> bool" where
  "poller_ok s \<longleftrightarrow> map_wf (pl_counters s) \<and> snapshots_ok (pl_snapshots s)"

lemma new_poller_ok: "new_poller opts = Inr s \<Longrightarrow> poller_ok s"
  by (auto simp: new_poller_def poller_ok_def snapshots_ok_def split: if_splits)

lemma snapshots_put: "snapshots_ok m \<Longrightarrow> snapshot_ok x \<Longrightarrow> snapshots_ok (map_put k x m)"
  by (auto simp: snapshots_ok_def split: if_splits)

lemma refresh_ok:
  "snapshots_ok (pl_snapshots s) \<Longrightarrow> snapshots_ok (pl_snapshots (refresh_snapshots v paths s))"
proof (induction paths arbitrary: s)
  case (Cons path paths)
  show ?case
  proof (cases "procs_in (pv_members v path) path")
    case (Inl e)
    then show ?thesis using Cons by simp
  next
    case (Inr pids)
    then show ?thesis using Cons.prems by (simp add: Cons.IH snapshots_put by_pid_ok)
  qed
qed simp

lemma refresh_untouched:
  "p \<notin> set paths \<Longrightarrow> map_get (pl_snapshots (refresh_snapshots v paths s)) p = map_get (pl_snapshots s) p"
  by (induction paths arbitrary: s) (auto split: sum.split)

lemma prime_counters_get:
  "map_get (pl_counters (prime_counters v paths s)) p =
     (if p \<in> set paths \<and> kills_of v p \<noteq> None then kills_of v p else map_get (pl_counters s) p)"
proof (induction paths arbitrary: s)
  case (Cons path paths)
  then show ?case by (cases "read_memory_stats (pv_stats v path) path") (auto simp: kills_of_def)
qed simp

lemma prime_counters_keeps:
  "pl_snapshots (prime_counters v paths s) = pl_snapshots s \<and> pl_prefix (prime_counters v paths s) = pl_prefix s \<and>
     pl_has_proc (prime_counters v paths s) = pl_has_proc s \<and>
     (map_wf (pl_counters s) \<longrightarrow> map_wf (pl_counters (prime_counters v paths s)))"
  by (induction paths arbitrary: s) (simp_all split: sum.split)

lemma prime_ok:
  assumes "poller_ok s" "prime v s = Inr s'"
  shows "poller_ok s'"
proof -
  obtain found where s': "s' = refresh_snapshots v found (prime_counters v found s)"
    using assms(2) by (auto simp: prime_def)
  then show ?thesis
    using assms(1) refresh_ok [of "prime_counters v found s" v found] prime_counters_keeps [of v found s]
    by (simp add: poller_ok_def refresh_counters)
qed

lemma poll_ok:
  assumes "poller_ok s" "poll v now s = Inr (es, s')"
  shows "poller_ok s'"
proof -
  obtain found where f: "discover (pv_walk v) (pl_prefix s) = Inr found"
    using assms(2) by (auto simp: poll_def)
  obtain s1 where d: "detect_paths v now found s = (es, s1)" "s' = poller_evict found (refresh_snapshots v found s1)"
    using assms(2) f by (auto simp: poll_def split: prod.splits)
  have wf: "map_wf (pl_counters (refresh_snapshots v found s1))"
    using detect_wf [of s v now found] assms(1) d(1) by (simp add: refresh_counters poller_ok_def)
  have sn: "snapshots_ok (pl_snapshots (refresh_snapshots v found s1))"
    using refresh_ok [of s1 v found] detect_config [OF d(1)] assms(1) by (simp add: poller_ok_def)
  have "map_get (pl_snapshots s') p = None \<or>
      map_get (pl_snapshots s') p = map_get (pl_snapshots (refresh_snapshots v found s1)) p" for p
    using poller_evict_get [OF wf, of found p] d(2) by (auto split: if_splits)
  then have "snapshots_ok (pl_snapshots s')"
    using sn unfolding snapshots_ok_def by (metis option.distinct(1))
  then show ?thesis
    using poller_evict_wf [OF wf, of found] d(2) by (simp add: poller_ok_def)
qed

subsection \<open>Properties\<close>

definition demo_kill_fs :: "string \<Rightarrow> cgfs" where
  "demo_kill_fs kills = \<lparr>cg_root = Dir None None [(''cgroup.controllers'', File (Inr [])),
     (''pod'', Dir None None [(''memory.current'', File (Inr ''7'')), (''memory.max'', File (Inr ''max'')),
        (''memory.events'', File (Inr (''oom_kill '' @ kills)))])], cg_version = V2\<rparr>"

definition demo_view :: "string \<Rightarrow> poll_view" where
  "demo_view kills = \<lparr>pv_walk = demo_v2, pv_stats = (\<lambda>_. demo_kill_fs kills), pv_survivors = (\<lambda>_. demo_v2),
     pv_group = (\<lambda>_. (demo_v2, cg_root demo_v2)), pv_members = (\<lambda>_. demo_v2), pv_proc = (\<lambda>_. demo_proc)\<rparr>"

lemma demo_kill_file:
  "plain_seg n \<Longrightarrow> cgroup_file (demo_kill_fs k) ''/pod'' n =
     (if n = ''memory.current'' then Inr ''7'' else if n = ''memory.max'' then Inr ''max''
      else if n = ''memory.events'' then Inr (''oom_kill '' @ k) else Inl (EFs NotExist))"
  by (simp add: cgroup_file_lookup mount_segs_def rooted_segs_pod demo_kill_fs_def)

lemma demo_kills:
  assumes "k = show_nat (unat w)" "length k < 100"
  shows "kills_of (demo_view k) ''/pod'' = Some w"
proof -
  have f: "fs_read (cg_root (demo_kill_fs k)) (path_join (clean_cgroup_path ''/pod'') n) = cgroup_file (demo_kill_fs k) ''/pod'' n" for n
    by (simp add: cgroup_file_def hierarchy_dir_v2 demo_kill_fs_def)
  have v: "cg_version (demo_kill_fs k) = V2" by (simp add: demo_kill_fs_def)
  have t: "trim_space ''7'' = ''7''" "trim_space ''max'' = ''max''" by simp_all
  have u: "parse_uint ''7'' = Inr 7"
    using parse_uint_show_nat [of 7] by (simp add: show_nat.simps digit_char_eval)
  have ev: "parse_key_value (''oom_kill '' @ k) = Inr (map_put ''oom_kill'' w [])"
  proof -
    have g: "CHR 0x0A \<notin> set k" "CHR 0x0D \<notin> set k"
      using show_nat_digits [of "unat w"] unfolding assms(1) by (rule is_digits_not_mem; simp add: digit_val_def)+
    have sl: "split_on (CHR 0x0A) (''oom_kill '' @ k) = [''oom_kill '' @ k]"
      using g(1) by (intro split_on_no_sep) simp
    have "drop_cr (''oom_kill '' @ k) = ''oom_kill '' @ k" using g(2) by (intro drop_cr_id) simp
    then have s: "scan_lines (''oom_kill '' @ k) = ([''oom_kill '' @ k], False)"
      using assms(2) unfolding scan_lines_def raw_lines_def Let_def sl by (simp add: max_token_def)
    have "kv_key ''oom_kill''" by (simp add: kv_key_def)
    then have "key_value_line [] (kv_text (''oom_kill'', w)) = map_put ''oom_kill'' w []"
      by (rule key_value_line_text)
    then show ?thesis using assms(1) unfolding parse_key_value_def s by (simp add: kv_text_def)
  qed
  have "(case read_memory_stats (demo_kill_fs k) ''/pod'' of Inl e \<Rightarrow> None | Inr m \<Rightarrow> Some (oom_kills m)) = Some w"
    by (simp add: read_memory_stats_def read_memory_stats_v2_def v Let_def read_uint_def read_limit_def
        read_uint_optional_def read_key_value_optional_def f demo_kill_file parse_cg_uint_def t u
        parse_limit_def max_value_def oom_kills_def mem_stats_zero_def events_from_def map_get_or_def)
      (use ev in \<open>simp add: events_from_def map_get_or_def oom_kills_def\<close>)
  then show ?thesis by (simp add: kills_of_def demo_view_def)
qed

text \<open>C7: While a cgroup is watched, every rise of its kill counter is reported exactly once. For
  any sequence of passes that discover the cgroup and read the rising counter values, the
  events it gives rise to carry exactly the successive distinct values after the one it
  started from: nothing is reported twice, and no rise between two passes is lost.\<close>

theorem every_counter_rise_reported_once:
  assumes "poller_ok s" "map_get (pl_counters s) p = Some n"
    and "list_all2 (watched (pl_prefix s) p) ticks cs" "sorted (n # cs)"
  shows "map ke_kill_count (events_of p (fst (poll_loop ticks s))) = tl (remdups_adj (n # cs))"
  using poll_loop_counts [OF _ assms(2-4)] assms(1) by (simp add: poller_ok_def)

definition demo_poller :: poller where
  "demo_poller = \<lparr>pl_has_proc = True, pl_prefix = [], pl_interval = 1, pl_counters = [(''/pod'', 3)],
     pl_snapshots = []\<rparr>"

lemma demo_found: "\<exists>found. discover demo_v2 [] = Inr found \<and> ''/pod'' \<in> set found"
proof -
  have l: "listable (cg_root demo_v2)" "fs_wf (cg_root demo_v2)"
    by (simp_all add: demo_v2_def plain_seg_def)
  have r: "rooted_segs [] = []" by (simp add: rooted_segs_def)
  have h: "hierarchy_dir demo_v2 [] = ''.''"
    by (simp add: hierarchy_dir_segs mount_segs_def segs_name_def r demo_v2_def)
  have p: "path_join ''.'' ''pod'' = ''pod''" "path_join ''pod'' ''memory.current'' = ''pod/memory.current''"
    "path_join ''.'' ''memory.current'' = ''memory.current''"
    using path_join_dot [of "''pod''"] path_join_plain [of "[''pod'']" "''memory.current''"]
      path_join_dot [of "''memory.current''"]
    by (simp_all add: plain_seg_def)
  have st: "is_ok (fs_stat (cg_root demo_v2) ''pod/memory.current'')"
    by (simp add: demo_v2_def fs_stat_def fs_node_def fs_segs_def)
  have rel: "relative_to_hierarchy demo_v2 ''pod'' = ''/pod''"
    by (simp add: relative_to_hierarchy_def demo_v2_def)
  obtain found where f: "discover demo_v2 [] = Inr found" using demo_v2_discover by blast
  have "found = foldl (visit (discover_step demo_v2)) [] (tree_entries ''.'' (cg_root demo_v2))"
    using f by (simp add: discover_def h walk_def fs_stat_def fs_node_def Let_def
        walk_dir_visits_all(1) [OF discover_never_stops l(1)])
  then have "found = map (\<lambda>e. relative_to_hierarchy demo_v2 (fst e))
     (filter (\<lambda>e. is_dir (snd e) \<and> is_ok (fs_stat (cg_root demo_v2) (path_join (fst e) (marker_file demo_v2))))
       (tree_entries ''.'' (cg_root demo_v2)))"
    by (simp add: foldl_discover)
  moreover have "(''pod'', the (map_of (case cg_root demo_v2 of Dir i l es \<Rightarrow> es | _ \<Rightarrow> []) ''pod'')) \<in>
      set (tree_entries ''.'' (cg_root demo_v2))"
    by (simp add: demo_v2_def p)
  moreover have "marker_file demo_v2 = ''memory.current''" by (simp add: marker_file_def demo_v2_def)
  ultimately have "relative_to_hierarchy demo_v2 ''pod'' \<in> set found"
    using st by (force simp: p demo_v2_def)
  then show ?thesis using f rel by auto
qed

lemma empty_cgfs_discover: "discover empty_cgfs [] = Inr []"
proof -
  have r: "rooted_segs [] = []" by (simp add: rooted_segs_def)
  have h: "hierarchy_dir empty_cgfs [] = ''.''"
    by (simp add: hierarchy_dir_segs mount_segs_def segs_name_def r empty_cgfs_def)
  have l: "listable (cg_root empty_cgfs)" by (simp add: empty_cgfs_def)
  have m: "path_join ''.'' ''memory.current'' = ''memory.current''"
    using path_join_dot [of "''memory.current''"] by (simp add: plain_seg_def)
  have "discover empty_cgfs [] = Inr (foldl (visit (discover_step empty_cgfs)) [] (tree_entries ''.'' (cg_root empty_cgfs)))"
    by (simp add: discover_def h walk_def fs_stat_def fs_node_def Let_def
        walk_dir_visits_all(1) [OF discover_never_stops l])
  then show ?thesis
    by (simp add: foldl_discover) (simp add: empty_cgfs_def m fs_stat_def fs_node_def fs_segs_def marker_file_def)
qed

theorem every_counter_rise_reported_once_witness:
  "map ke_kill_count (events_of ''/pod'' (fst (poll_loop
      [(demo_view ''3'', 10), (demo_view ''5'', 20), (demo_view ''5'', 30), (demo_view ''6'', 40)] demo_poller))) = [5, 6]"
proof -
  have k: "kills_of (demo_view ''3'') ''/pod'' = Some 3" "kills_of (demo_view ''5'') ''/pod'' = Some 5"
    "kills_of (demo_view ''6'') ''/pod'' = Some 6"
    by (rule demo_kills; simp add: show_nat.simps digit_char_eval)+
  have w: "watched [] ''/pod'' (demo_view k, t) c \<longleftrightarrow> kills_of (demo_view k) ''/pod'' = Some c" for k t c
    using demo_found by (simp add: watched_def demo_view_def)
  have s: "poller_ok demo_poller" "map_get (pl_counters demo_poller) ''/pod'' = Some 3" "pl_prefix demo_poller = []"
    by (simp_all add: poller_ok_def snapshots_ok_def demo_poller_def map_wf_def map_keys_def map_get_def)
  show ?thesis
    using every_counter_rise_reported_once [OF s(1,2), of
        "[(demo_view ''3'', 10), (demo_view ''5'', 20), (demo_view ''5'', 30), (demo_view ''6'', 40)]" "[3, 5, 5, 6]"]
    by (simp add: s(3) w k)
qed

lemma inferred_gone:
  assumes "poller_ok s" "map_get (pl_snapshots s) path = Some previous" "pl_has_proc s"
    and "procs_in (pv_survivors v path) path = Inr alive" "v_known (infer_victim v path s)"
  shows "v_pid (infer_victim v path s) \<notin> set alive"
proof -
  have "snapshot_ok previous" using assms(1,2) by (auto simp: poller_ok_def snapshots_ok_def)
  then obtain p where "infer_victim v path s = victim_from_process p" "p_pid p \<notin> set alive"
    using infer_victim_heaviest [OF assms(2) _ assms(3,4)] assms(5) by blast
  then show ?thesis by (simp add: victim_from_process_def)
qed

text \<open>C8: The victim a poll names is the heaviest process that has vanished. When the survivors can
  be listed, a victim is named exactly when some process of the previous snapshot is gone,
  and it is then the one of them with the most resident memory, the lowest PID among equals;
  in whatever order the loop over the snapshot meets them.\<close>

theorem inferred_victim_is_heaviest_vanished:
  assumes "poller_ok s" "map_get (pl_snapshots s) path = Some previous" "pl_has_proc s"
    and "procs_in (pv_survivors v path) path = Inr alive"
  shows "(v_known (infer_victim v path s) \<longleftrightarrow> (\<exists>pid p. map_get previous pid = Some p \<and> pid \<notin> set alive)) \<and>
    (v_known (infer_victim v path s) \<longrightarrow>
       (\<exists>p. infer_victim v path s = victim_from_process p \<and>
          map_get previous (p_pid p) = Some p \<and> p_pid p \<notin> set alive \<and>
          (\<forall>pid q. map_get previous pid = Some q \<longrightarrow> pid \<notin> set alive \<longrightarrow>
             p_rss_bytes q < p_rss_bytes p \<or> p_rss_bytes q = p_rss_bytes p \<and> p_pid p \<le> pid))) \<and>
    (\<forall>m. mset m = mset previous \<longrightarrow>
       sort_key mem_key (vanished_candidates alive m) = sort_key mem_key (vanished_candidates alive previous))"
proof -
  have "snapshot_ok previous" using assms(1,2) by (auto simp: poller_ok_def snapshots_ok_def)
  then show ?thesis
    using infer_victim_heaviest [OF assms(2) _ assms(3,4)] candidates_any_order [of previous] by blast
qed

definition demo_process :: "int \<Rightarrow> u64 \<Rightarrow> process" where
  "demo_process pid rss = \<lparr>p_pid = pid, p_nspid = 1, p_ppid = 0, p_comm = ''java'', p_cmdline = [], p_state = ''S'',
     p_rss_bytes = rss, p_vm_size_bytes = rss, p_cgroup_path = ''/pod'', p_pid_namespace = 0\<rparr>"

definition demo_survivors :: cgfs where
  "demo_survivors = \<lparr>cg_root = Dir None None [(''pod'', Dir None None
     [(''cgroup.procs'', File (Inr (unlines (map itoa [41] @ [[]] @ map itoa []))))])], cg_version = V2\<rparr>"

lemma demo_survivors_pids: "procs_in demo_survivors ''/pod'' = Inr [41]"
proof -
  have d: "demo_survivors = \<lparr>cg_root = Dir None None [(''pod'', Dir None None
      [(''cgroup.procs'', File (Inr (unlines (map itoa [41] @ [[]] @ map itoa []))))])], cg_version = V2\<rparr>"
    by (rule demo_survivors_def)
  have "parse_pid_list (unlines (map itoa [41] @ [[]] @ map itoa [])) = Inr ([41] @ [])"
    by (rule parse_pid_list_torn) (simp_all add: short_line_def max_token_def)
  moreover have "fs_read (cg_root demo_survivors) (path_join (clean_cgroup_path ''/pod'') ''cgroup.procs'') =
      Inr (unlines (map itoa [41] @ [[]] @ map itoa []))"
    by (simp only: fs_read_def clean_is_segs_name fs_node_path_join d) (simp add: rooted_segs_pod plain_seg_def fs_node_path_join)
  ultimately show ?thesis by (simp add: procs_in_def)
qed

theorem inferred_victim_is_heaviest_vanished_witness:
  "\<exists>p. infer_victim ((demo_view [])\<lparr>pv_survivors := (\<lambda>_. demo_survivors)\<rparr>) ''/pod''
     (demo_poller\<lparr>pl_snapshots := [(''/pod'', by_pid [demo_process 41 9, demo_process 42 5, demo_process 43 7])]\<rparr>)
     = victim_from_process p \<and> p_pid p \<noteq> 41"
proof -
  let ?m = "by_pid [demo_process 41 9, demo_process 42 5, demo_process 43 7]"
  let ?s = "demo_poller\<lparr>pl_snapshots := [(''/pod'', ?m)]\<rparr>"
  let ?v = "(demo_view [])\<lparr>pv_survivors := (\<lambda>_. demo_survivors)\<rparr>"
  have ok: "poller_ok ?s"
    by (simp add: poller_ok_def snapshots_ok_def demo_poller_def map_wf_def map_keys_def map_get_def by_pid_ok)
  have g: "map_get (pl_snapshots ?s) ''/pod'' = Some ?m" "pl_has_proc ?s"
    by (simp_all add: map_get_def demo_poller_def)
  have a: "procs_in (pv_survivors ?v ''/pod'') ''/pod'' = Inr [41]" by (simp add: demo_survivors_pids)
  have m: "map_get ?m 43 = Some (demo_process 43 7)" by (simp add: by_pid_def demo_process_def)
  have "v_known (infer_victim ?v ''/pod'' ?s)"
    using inferred_victim_is_heaviest_vanished [OF ok g a] m by (metis numeral_eq_iff num.distinct(5) empty_iff insert_iff list.set num.inject(2))
  then show ?thesis
    using inferred_victim_is_heaviest_vanished [OF ok g a] by (metis insertI1 list.set(2))
qed

text \<open>Starting the poller reports nothing of the past. After the baseline was taken, the first
  pass emits events only for cgroups whose counter the baseline read, each with a count above
  the one read then.\<close>

theorem baseline_hides_history:
  assumes "new_poller opts = Inr s0" "prime v s0 = Inr s" "poll v' now s = Inr (es, s')" "e \<in> set es"
  shows "\<exists>n. kills_of v (ke_cgroup_path e) = Some n \<and> n < ke_kill_count e \<and>
    kills_of v' (ke_cgroup_path e) = Some (ke_kill_count e)"
proof -
  obtain found where p: "s = refresh_snapshots v found (prime_counters v found s0)"
    using assms(2) by (auto simp: prime_def)
  have c0: "pl_counters s0 = []" using assms(1) by (auto simp: new_poller_def split: if_splits)
  let ?p = "ke_cgroup_path e"
  have wf: "map_wf (pl_counters s)"
    using prime_ok [OF new_poller_ok [OF assms(1)] assms(2)] by (simp add: poller_ok_def)
  have base: "map_get (pl_counters s) ?p = Some n \<Longrightarrow> kills_of v ?p = Some n" for n
    using prime_counters_get [of v found s0 ?p] c0 by (simp add: p refresh_counters split: if_splits)
  have ev: "ke_kill_count e \<in> set (map ke_kill_count (events_of ?p es))"
    using assms(4) by (auto simp: events_of_def)
  obtain fd where "map ke_kill_count (events_of ?p es) =
      (case (map_get (pl_counters s) ?p, kills_of v' ?p) of
         (Some n, Some c) \<Rightarrow> if ?p \<in> set fd \<and> n < c then [c] else [] | _ \<Rightarrow> [])"
    using poll_pass [OF assms(3) wf, of ?p] by blast
  then show ?thesis
    using ev base by (auto split: option.splits if_splits)
qed

text \<open>Eviction walks the counters only. A cgroup whose counter was never read keeps the process
  snapshot taken of it through any number of passes after it is gone.\<close>

theorem snapshot_without_counter_never_evicted:
  assumes "poller_ok s" "map_get (pl_counters s) p = None"
    and "\<forall>tick \<in> set ticks. \<exists>found. discover (pv_walk (fst tick)) (pl_prefix s) = Inr found \<and> p \<notin> set found"
  shows "map_get (pl_snapshots (snd (poll_loop ticks s))) p = map_get (pl_snapshots s) p"
  using assms
proof (induction ticks arbitrary: s)
  case (Cons tick ticks)
  obtain v now where tick: "tick = (v, now)" by force
  obtain found where f: "discover (pv_walk v) (pl_prefix s) = Inr found" "p \<notin> set found"
    using Cons.prems(3) tick by auto
  obtain es s1 where d: "detect_paths v now found s = (es, s1)" by force
  define s2 where "s2 = refresh_snapshots v found s1"
  have q: "poll v now s = Inr (es, poller_evict found s2)" using f d by (simp add: poll_def s2_def)
  have wf: "map_wf (pl_counters s2)"
    using detect_wf [of s v now found] Cons.prems(1) d by (simp add: s2_def refresh_counters poller_ok_def)
  have "map_get (pl_counters s2) p = None"
    using detect_counters [of v now found s p] d f(2) Cons.prems(2) by (simp add: s2_def refresh_counters)
  then have kept: "map_get (pl_counters (poller_evict found s2)) p = None"
      "map_get (pl_snapshots (poller_evict found s2)) p = map_get (pl_snapshots s2) p"
    using poller_evict_get [OF wf, of found p] by (auto split: if_splits)
  have "map_get (pl_snapshots s2) p = map_get (pl_snapshots s) p"
    using f(2) detect_config [OF d] by (simp add: s2_def refresh_untouched)
  moreover have "map_get (pl_snapshots (snd (poll_loop ticks (poller_evict found s2)))) p =
      map_get (pl_snapshots (poller_evict found s2)) p"
    using Cons.prems(3) kept(1) poll_ok [OF Cons.prems(1) q] poll_pass [OF q, of p] Cons.prems(1)
    by (intro Cons.IH) (auto simp: poller_ok_def)
  ultimately show ?case using kept q tick by simp
qed simp

definition demo_options :: poller_options where
  "demo_options = \<lparr>po_cgroup = Some demo_v2, po_has_proc = False, po_prefix = [], po_interval = 1\<rparr>"

theorem baseline_hides_history_witness:
  "\<exists>s0 s es s' e n. new_poller demo_options = Inr s0 \<and> prime (demo_view ''3'') s0 = Inr s \<and>
     poll (demo_view ''5'') 9 s = Inr (es, s') \<and> e \<in> set es \<and> ke_cgroup_path e = ''/pod'' \<and>
     kills_of (demo_view ''3'') ''/pod'' = Some n \<and> n < ke_kill_count e"
proof -
  have k: "kills_of (demo_view ''3'') ''/pod'' = Some 3" "kills_of (demo_view ''5'') ''/pod'' = Some 5"
    by (rule demo_kills; simp add: show_nat.simps digit_char_eval)+
  obtain s0 where n: "new_poller demo_options = Inr s0" "pl_prefix s0 = []"
    by (simp add: new_poller_def demo_options_def)
  obtain found where f: "discover demo_v2 [] = Inr found" "''/pod'' \<in> set found" using demo_found by blast
  have w: "pv_walk (demo_view x) = demo_v2" for x by (simp add: demo_view_def)
  obtain s where p: "prime (demo_view ''3'') s0 = Inr s" by (simp add: prime_def f w n(2))
  then have s: "map_get (pl_counters s) ''/pod'' = Some 3" "pl_prefix s = []"
    using f k(1) n(2) by (auto simp: prime_def w refresh_counters prime_counters_get prime_counters_keeps)
  obtain es s' where q: "poll (demo_view ''5'') 9 s = Inr (es, s')"
    by (cases "detect_paths (demo_view ''5'') 9 found s") (simp add: poll_def f w s(2))
  have "map_wf (pl_counters s)"
    using prime_ok [OF new_poller_ok [OF n(1)] p] by (simp add: poller_ok_def)
  then have "map ke_kill_count (events_of ''/pod'' es) = [5]"
    using poll_pass [OF q, of "''/pod''"] s f k(2) by (auto simp: w)
  then have "events_of ''/pod'' es \<noteq> []" by auto
  then obtain e where e: "e \<in> set es" "ke_cgroup_path e = ''/pod''"
    by (auto simp: events_of_def filter_empty_conv)
  show ?thesis
    using baseline_hides_history [OF n(1) p q e(1)] n(1) p q e by auto
qed

theorem snapshot_without_counter_never_evicted_witness:
  "map_get (pl_snapshots (snd (poll_loop [((demo_view [])\<lparr>pv_walk := empty_cgfs\<rparr>, 5)]
      (demo_poller\<lparr>pl_snapshots := [(''/gone'', by_pid [demo_process 42 5])]\<rparr>)))) ''/gone'' =
    Some (by_pid [demo_process 42 5])"
proof -
  let ?s = "demo_poller\<lparr>pl_snapshots := [(''/gone'', by_pid [demo_process 42 5])]\<rparr>"
  have "poller_ok ?s" "map_get (pl_counters ?s) ''/gone'' = None" "pl_prefix ?s = []"
    by (simp_all add: poller_ok_def snapshots_ok_def demo_poller_def map_wf_def map_keys_def map_get_def by_pid_ok)
  moreover have "map_get (pl_snapshots ?s) ''/gone'' = Some (by_pid [demo_process 42 5])"
    by (simp add: map_get_def)
  ultimately show ?thesis
    using snapshot_without_counter_never_evicted [of ?s "''/gone''" "[((demo_view [])\<lparr>pv_walk := empty_cgfs\<rparr>, 5)]"]
    by (simp add: empty_cgfs_discover)
qed

end
