(* ===== verification/Ebpf.thy ===== *)
theory Ebpf
  imports Poller
begin

section \<open>The eBPF detector\<close>

text \<open>
  Models \<open>src/internal/detector/ebpf.go\<close>, \<open>ebpf_supported.go\<close> and \<open>ebpf_unsupported.go\<close>: the
  decoder of the probe's records, the index from cgroup IDs to paths, and the enrichment of a
  record into a kill event; and the scripted detector of \<open>fake.go\<close>. A byte slice is a string.
  The probe is in \<open>Probe\<close>; what \<open>Read\<close> returns is the argument of \<open>trace_loop\<close>.
\<close>

subsection \<open>Records\<close>

definition event_size :: nat where
  "event_size = 112"

definition bpf_event_size :: nat where
  "bpf_event_size = 112"

record raw_event =
  re_timestamp_ns :: u64
  re_memcg_id :: u64
  re_task_cgroup_id :: u64
  re_anon_rss_pages :: u64
  re_file_rss_pages :: u64
  re_shmem_rss_pages :: u64
  re_total_vm_pages :: u64
  re_limit_pages :: u64
  re_badness_points :: u64
  re_pid :: u32
  re_tid :: u32
  re_ppid :: u32
  re_nspid :: u32
  re_oom_score_adj :: u32
  re_memcg_oom :: "8 word"
  re_comm :: string

text \<open>
  Little-endian numbers. \<open>BadnessPoints\<close> and \<open>OOMScoreAdj\<close> are signed in the source: the
  model keeps their bits, \<open>sint\<close> reads them.
\<close>

fun le_nat :: "string \<Rightarrow> nat" where
  "le_nat [] = 0"
| "le_nat (b # bs) = of_char b + 256 * le_nat bs"

definition le_word :: "string \<Rightarrow> 'a :: len word" where
  "le_word bs = of_nat (le_nat bs)"

fun split_fields :: "nat list \<Rightarrow> string \<Rightarrow> string list" where
  "split_fields [] bs = []"
| "split_fields (n # ns) bs = take n bs # split_fields ns (drop n bs)"

definition raw_widths :: "nat list" where
  "raw_widths = [8, 8, 8, 8, 8, 8, 8, 8, 8, 4, 4, 4, 4, 4, 1, 3, 16]"

definition decode_event :: "string \<Rightarrow> err + raw_event" where
  "decode_event sample =
     (if length sample \<noteq> event_size then Inl (EMsg ''ebpf sample size'')
      else let fs = split_fields raw_widths sample in
        Inr \<lparr>re_timestamp_ns = le_word (fs ! 0), re_memcg_id = le_word (fs ! 1),
          re_task_cgroup_id = le_word (fs ! 2), re_anon_rss_pages = le_word (fs ! 3),
          re_file_rss_pages = le_word (fs ! 4), re_shmem_rss_pages = le_word (fs ! 5),
          re_total_vm_pages = le_word (fs ! 6), re_limit_pages = le_word (fs ! 7),
          re_badness_points = le_word (fs ! 8), re_pid = le_word (fs ! 9), re_tid = le_word (fs ! 10),
          re_ppid = le_word (fs ! 11), re_nspid = le_word (fs ! 12),
          re_oom_score_adj = le_word (fs ! 13), re_memcg_oom = le_word (fs ! 14),
          re_comm = fs ! 16\<rparr>)"

definition raw_comm :: "raw_event \<Rightarrow> string" where
  "raw_comm r =
     (case index_byte (re_comm r) (CHR 0x00) of
        Some e \<Rightarrow> take e (re_comm r)
      | None \<Rightarrow> re_comm r)"

definition rss_bytes :: "raw_event \<Rightarrow> int \<Rightarrow> u64" where
  "rss_bytes r page_size =
     (if page_size \<le> 0 then 0
      else (re_anon_rss_pages r + re_file_rss_pages r + re_shmem_rss_pages r) * of_int page_size)"

text \<open>The conversion of the timestamp to a signed duration wraps, as in Go.\<close>

definition raw_kill_event :: "raw_event \<Rightarrow> string \<Rightarrow> int \<Rightarrow> time \<Rightarrow> kill_event" where
  "raw_kill_event r cpath page_size boot_time =
     \<lparr>ke_time = boot_time + sint (re_timestamp_ns r), ke_cgroup_path = cpath,
      ke_victim = \<lparr>v_pid = uint (re_pid r), v_nspid = uint (re_nspid r), v_comm = raw_comm r, v_cmdline = [],
        v_rss_bytes = rss_bytes r page_size, v_inferred = False, v_known = True\<rparr>,
      ke_kill_count = 0, ke_group_kill = None, ke_source = SourceEBPF\<rparr>"

subsection \<open>The index of cgroups\<close>

type_synonym cgroup_map = "(u64, string) gomap"

text \<open>\<open>listing\<close> is what the lister returns if it is called; the index comes back updated.\<close>

definition index_path :: "err + cgroup_map \<Rightarrow> u64 \<Rightarrow> cgroup_map \<Rightarrow> string option \<times> cgroup_map" where
  "index_path listing i by_id =
     (if i = 0 then (None, by_id)
      else case map_get by_id i of
             Some p \<Rightarrow> (Some p, by_id)
           | None \<Rightarrow>
               (case listing of
                  Inl e \<Rightarrow> (None, by_id)
                | Inr fresh \<Rightarrow> (map_get fresh i, fresh)))"

text \<open>
  The walk below the root of the hierarchy. Names are relative to that root, so that
  \<open>filepath.Rel\<close> is the name itself.
\<close>

definition inode_step :: "cgroup_map walk_fn" where
  "inode_step name node err index =
     (case err of
        Some e \<Rightarrow> (WNil, index)
      | None \<Rightarrow>
          (case node of
             Some (Dir (Some ino) l es) \<Rightarrow>
               (WNil, map_put ino (if name = ''.'' then ''/'' else ''/'' @ name) index)
           | _ \<Rightarrow> (WNil, index)))"

definition cgroup_inode_lister :: "fs_err + fsnode \<Rightarrow> err + cgroup_map" where
  "cgroup_inode_lister mount =
     (case mount of
        Inl e \<Rightarrow> Inl (EFs e)
      | Inr tree \<Rightarrow>
          (case walk tree ''.'' inode_step [] of
             (Some e, index) \<Rightarrow> Inl e
           | (None, index) \<Rightarrow> Inr index))"

subsection \<open>The detector\<close>

record ebpf_options =
  eo_cgroup_root :: string
  eo_has_cgroup :: bool
  eo_has_proc :: bool

record ebpf =
  eb_has_cgroup :: bool
  eb_has_proc :: bool
  eb_index :: cgroup_map
  eb_page_size :: int
  eb_boot_time :: time

definition monotonic_origin :: "err + int \<Rightarrow> time \<Rightarrow> err + time" where
  "monotonic_origin clock now = res_bind clock (\<lambda>ns. Inr (now - ns))"

text \<open>\<open>loaded\<close> is the outcome of loading the probe, \<open>clock\<close> that of reading the clock.\<close>

definition new_ebpf :: "ebpf_options \<Rightarrow> err + unit \<Rightarrow> err + int \<Rightarrow> time \<Rightarrow> int \<Rightarrow> err + ebpf" where
  "new_ebpf opts loaded clock now page_size =
     (if eo_cgroup_root opts = [] then Inl (EMsg ''ebpf detector requires a cgroup root'')
      else case loaded of
             Inl e \<Rightarrow> Inl EEBPFUnsupported
           | Inr _ \<Rightarrow>
               if bpf_event_size \<noteq> event_size then Inl EEBPFUnsupported
               else res_bind (monotonic_origin clock now) (\<lambda>boot.
                 Inr \<lparr>eb_has_cgroup = eo_has_cgroup opts, eb_has_proc = eo_has_proc opts, eb_index = [],
                   eb_page_size = page_size, eb_boot_time = boot\<rparr>))"

definition new_ebpf_unsupported :: "ebpf_options \<Rightarrow> err + ebpf" where
  "new_ebpf_unsupported opts = Inl EEBPFUnsupported"

text \<open>
  What the reads for one record see: \<open>/proc\<close>, the two listings the index may ask for, the
  cgroup's statistics, and the two calls of the group-kill check.
\<close>

record trace_view =
  tv_proc :: procfs
  tv_task_listing :: "err + cgroup_map"
  tv_memcg_listing :: "err + cgroup_map"
  tv_stats :: cgfs
  tv_group :: "cgfs \<times> fsnode"

definition resolve_by_id :: "trace_view \<Rightarrow> raw_event \<Rightarrow> cgroup_map \<Rightarrow> string \<times> cgroup_map" where
  "resolve_by_id v raw by_id =
     (case index_path (tv_task_listing v) (re_task_cgroup_id raw) by_id of
        (Some p, m) \<Rightarrow> (p, m)
      | (None, m) \<Rightarrow>
          (case index_path (tv_memcg_listing v) (re_memcg_id raw) m of
             (Some p, m') \<Rightarrow> (p, m')
           | (None, m') \<Rightarrow> ([], m')))"

definition resolve_cgroup :: "trace_view \<Rightarrow> raw_event \<Rightarrow> process option \<Rightarrow> cgroup_map \<Rightarrow> string \<times> cgroup_map" where
  "resolve_cgroup v raw victim by_id =
     (case victim of
        Some p \<Rightarrow> if p_cgroup_path p \<noteq> [] then (p_cgroup_path p, by_id) else resolve_by_id v raw by_id
      | None \<Rightarrow> resolve_by_id v raw by_id)"

definition enrich :: "trace_view \<Rightarrow> raw_event \<Rightarrow> ebpf \<Rightarrow> kill_event \<times> ebpf" where
  "enrich v raw d =
     (let victim = (if eb_has_proc d
                    then case read_process (tv_proc v) (uint (re_pid raw)) of Inl e \<Rightarrow> None | Inr p \<Rightarrow> Some p
                    else None);
          (cpath, by_id) = resolve_cgroup v raw victim (eb_index d);
          event = raw_kill_event raw cpath (eb_page_size d) (eb_boot_time d);
          event = (case victim of
                     None \<Rightarrow> event
                   | Some p \<Rightarrow>
                       (let w = (ke_victim event)\<lparr>v_cmdline := p_cmdline p\<rparr>
                        in event\<lparr>ke_victim := (if v_nspid w = 0 then w\<lparr>v_nspid := p_nspid p\<rparr> else w)\<rparr>));
          event = (if eb_has_cgroup d \<and> ke_cgroup_path event \<noteq> []
                   then event\<lparr>ke_kill_count :=
                            (case read_memory_stats (tv_stats v) (ke_cgroup_path event) of
                               Inl e \<Rightarrow> ke_kill_count event
                             | Inr stats \<Rightarrow> oom_kills stats),
                          ke_group_kill :=
                            (case read_oom_group (fst (tv_group v)) (snd (tv_group v)) (ke_cgroup_path event) of
                               Inl e \<Rightarrow> None
                             | Inr b \<Rightarrow> Some b)\<rparr>
                   else event)
      in (event, d\<lparr>eb_index := by_id\<rparr>))"

text \<open>The read loop, on the samples the ring buffer yields before it is closed.\<close>

fun trace_loop :: "(trace_view \<times> string) list \<Rightarrow> ebpf \<Rightarrow> kill_event list \<times> ebpf" where
  "trace_loop [] d = ([], d)"
| "trace_loop ((v, sample) # rest) d =
     (case decode_event sample of
        Inl e \<Rightarrow> trace_loop rest d
      | Inr raw \<Rightarrow>
          (let (event, d1) = enrich v raw d; (events, d2) = trace_loop rest d1
           in (event # events, d2)))"

subsection \<open>The scripted detector\<close>

text \<open>The events in the channel so far; sending on a closed channel panics (\<open>None\<close>).\<close>

record fake =
  fk_scripted :: "kill_event list"
  fk_events :: "kill_event list"
  fk_started :: bool
  fk_closed :: bool

definition new_fake :: "kill_event list \<Rightarrow> fake" where
  "new_fake events = \<lparr>fk_scripted = events, fk_events = [], fk_started = False, fk_closed = False\<rparr>"

definition fake_emit :: "kill_event \<Rightarrow> fake \<Rightarrow> fake option" where
  "fake_emit e f = (if fk_closed f then None else Some (f\<lparr>fk_events := fk_events f @ [e]\<rparr>))"

fun fake_emit_all :: "kill_event list \<Rightarrow> fake \<Rightarrow> fake option" where
  "fake_emit_all [] f = Some f"
| "fake_emit_all (e # es) f = Option.bind (fake_emit e f) (fake_emit_all es)"

text \<open>Started with a context that is not yet done.\<close>

definition fake_start :: "fake \<Rightarrow> fake option" where
  "fake_start f =
     (if fk_started f then Some f
      else fake_emit_all (fk_scripted f) (f\<lparr>fk_started := True\<rparr>))"

definition fake_close :: "fake \<Rightarrow> fake" where
  "fake_close f = f\<lparr>fk_closed := True\<rparr>"

subsection \<open>Bytes and numbers\<close>

fun put_le :: "nat \<Rightarrow> nat \<Rightarrow> string" where
  "put_le 0 n = []"
| "put_le (Suc k) n = char_of n # put_le k (n div 256)"

lemma length_put_le [simp]: "length (put_le k n) = k"
  by (induction k arbitrary: n) simp_all

lemma le_nat_put_le: "le_nat (put_le k n) = n mod 256 ^ k"
proof (induction k arbitrary: n)
  case (Suc k)
  have "le_nat (put_le (Suc k) n) = n mod 256 + 256 * (n div 256 mod 256 ^ k)"
    by (simp add: Suc of_char_of)
  also have "\<dots> = n mod 256 ^ Suc k"
    by (simp add: mod_mult2_eq)
  finally show ?case .
qed simp

lemma put_le_le_nat: "length bs = k \<Longrightarrow> put_le k (le_nat bs) = bs"
proof (induction bs arbitrary: k)
  case (Cons b bs)
  have b: "(of_char b :: nat) < 256" by simp
  have "char_of (of_char b + 256 * le_nat bs) = b"
  proof -
    have "(of_char b + 256 * le_nat bs) mod 256 = (of_char b :: nat)" using b by simp
    then show ?thesis by (metis char_of_mod_256 char_of_char)
  qed
  moreover have "(of_char b + 256 * le_nat bs) div 256 = le_nat bs" using b by simp
  ultimately show ?case using Cons by auto
qed simp

lemma le_nat_bound: "le_nat bs < 256 ^ length bs"
proof (induction bs)
  case (Cons b bs)
  have "le_nat (b # bs) < 256 * Suc (le_nat bs)" by simp
  also have "\<dots> \<le> 256 * 256 ^ length bs"
    using Cons by (intro mult_le_mono2) simp
  finally show ?case by simp
qed simp

lemma pow256: "(256 :: nat) ^ k = 2 ^ (8 * k)"
  by (simp add: power_mult)

declare put_le.simps(2) [simp del]

lemma le_word_put_le:
  "LENGTH('a) = 8 * k \<Longrightarrow> le_word (put_le k (unat (w :: 'a :: len word))) = w"
  using unsigned_less [of w, where 'a = nat] by (simp add: le_word_def le_nat_put_le pow256)

lemma put_le_le_word:
  assumes "LENGTH('a) = 8 * k" "length bs = k"
  shows "put_le k (unat (le_word bs :: 'a :: len word)) = bs"
proof -
  have "unat (of_nat (le_nat bs) :: 'a word) = le_nat bs"
    using le_nat_bound [of bs] assms by (simp add: unsigned_of_nat take_bit_nat_eq_self pow256)
  then show ?thesis using put_le_le_nat [OF assms(2)] by (simp add: le_word_def)
qed

subsection \<open>The layout of a record\<close>

lemma split_fields_concat: "split_fields (map length fs) (concat fs) = fs"
  by (induction fs) simp_all

lemma concat_split_fields: "length bs = sum_list ns \<Longrightarrow> concat (split_fields ns bs) = bs"
  by (induction ns arbitrary: bs) simp_all

text \<open>The fields of \<open>struct oom_event\<close> as the probe lays them out, padding included.\<close>

definition wire_fields :: "raw_event \<Rightarrow> string \<Rightarrow> string list" where
  "wire_fields r pad =
     [put_le 8 (unat (re_timestamp_ns r)), put_le 8 (unat (re_memcg_id r)), put_le 8 (unat (re_task_cgroup_id r)),
      put_le 8 (unat (re_anon_rss_pages r)), put_le 8 (unat (re_file_rss_pages r)), put_le 8 (unat (re_shmem_rss_pages r)),
      put_le 8 (unat (re_total_vm_pages r)), put_le 8 (unat (re_limit_pages r)), put_le 8 (unat (re_badness_points r)),
      put_le 4 (unat (re_pid r)), put_le 4 (unat (re_tid r)), put_le 4 (unat (re_ppid r)), put_le 4 (unat (re_nspid r)),
      put_le 4 (unat (re_oom_score_adj r)), put_le 1 (unat (re_memcg_oom r)), pad, re_comm r]"

definition wire_event :: "raw_event \<Rightarrow> string \<Rightarrow> string" where
  "wire_event r pad = concat (wire_fields r pad)"

lemma wire_fields_widths:
  "length pad = 3 \<Longrightarrow> length (re_comm r) = 16 \<Longrightarrow> map length (wire_fields r pad) = raw_widths"
  by (simp add: wire_fields_def raw_widths_def)

lemma raw_widths_total: "sum_list raw_widths = event_size"
  by (simp add: raw_widths_def event_size_def)

lemma decode_wire:
  assumes "length pad = 3" "length (re_comm r) = 16"
  shows "decode_event (wire_event r pad) = Inr r"
proof -
  have fs: "split_fields raw_widths (wire_event r pad) = wire_fields r pad"
    unfolding wire_event_def wire_fields_widths [OF assms, symmetric] by (rule split_fields_concat)
  have "length (wire_event r pad) = sum_list (map length (wire_fields r pad))"
    by (simp add: wire_event_def length_concat)
  then have "length (wire_event r pad) = event_size"
    by (simp add: wire_fields_widths [OF assms] raw_widths_total)
  then show ?thesis
    unfolding decode_event_def Let_def fs by (simp add: wire_fields_def le_word_put_le)
qed

lemma decode_ok_iff: "is_ok (decode_event s) \<longleftrightarrow> length s = 112"
  by (simp add: decode_event_def event_size_def Let_def)

lemma decode_only_wire:
  assumes "decode_event s = Inr r"
  shows "\<exists>pad. length pad = 3 \<and> length (re_comm r) = 16 \<and> s = wire_event r pad"
proof -
  define fs where "fs = split_fields raw_widths s"
  have len: "length s = 112" using assms by (simp add: decode_event_def event_size_def split: if_splits)
  have widths: "length (fs ! 0) = 8" "length (fs ! 1) = 8" "length (fs ! 2) = 8" "length (fs ! 3) = 8"
    "length (fs ! 4) = 8" "length (fs ! 5) = 8" "length (fs ! 6) = 8" "length (fs ! 7) = 8" "length (fs ! 8) = 8"
    "length (fs ! 9) = 4" "length (fs ! 10) = 4" "length (fs ! 11) = 4" "length (fs ! 12) = 4"
    "length (fs ! 13) = 4" "length (fs ! 14) = 1" "length (fs ! 15) = 3" "length (fs ! 16) = 16"
    using len by (simp_all add: fs_def raw_widths_def)
  have r: "wire_fields r (fs ! 15) = [fs ! 0, fs ! 1, fs ! 2, fs ! 3, fs ! 4, fs ! 5, fs ! 6, fs ! 7, fs ! 8,
      fs ! 9, fs ! 10, fs ! 11, fs ! 12, fs ! 13, fs ! 14, fs ! 15, fs ! 16]"
    using assms widths
    by (auto simp: decode_event_def Let_def fs_def [symmetric] wire_fields_def put_le_le_word split: if_splits)
  moreover have "fs = [fs ! 0, fs ! 1, fs ! 2, fs ! 3, fs ! 4, fs ! 5, fs ! 6, fs ! 7, fs ! 8,
      fs ! 9, fs ! 10, fs ! 11, fs ! 12, fs ! 13, fs ! 14, fs ! 15, fs ! 16]"
    by (simp add: fs_def raw_widths_def)
  moreover have "concat fs = s"
    using concat_split_fields [of s raw_widths] len by (simp add: fs_def raw_widths_total event_size_def)
  moreover have "length (re_comm r) = 16"
    using assms widths(17) by (auto simp: decode_event_def Let_def fs_def split: if_splits)
  ultimately show ?thesis
    using widths(16) by (intro exI [of _ "fs ! 15"]) (metis wire_event_def)
qed

subsection \<open>The index agrees with discovery\<close>

definition entry_ino :: "string \<times> fsnode \<Rightarrow> u64 option" where
  "entry_ino e = (case snd e of Dir i l es \<Rightarrow> i | _ \<Rightarrow> None)"

definition index_name :: "string \<Rightarrow> string" where
  "index_name name = (if name = ''.'' then ''/'' else ''/'' @ name)"

definition unique_inodes :: "fsnode \<Rightarrow> bool" where
  "unique_inodes t \<longleftrightarrow>
     (\<forall>d \<in> set (tree_entries ''.'' t). \<forall>e \<in> set (tree_entries ''.'' t).
        entry_ino d \<noteq> None \<and> entry_ino d = entry_ino e \<longrightarrow> fst d = fst e)"

lemma visit_inode_step:
  "visit inode_step m e = (case entry_ino e of None \<Rightarrow> m | Some i \<Rightarrow> map_put i (index_name (fst e)) m)"
  by (cases e)
    (auto simp: visit_def inode_step_def entry_ino_def index_name_def split: fsnode.split option.split)

lemma inode_step_never_stops: "never_stops inode_step"
  by (auto simp: never_stops_def inode_step_def split: fsnode.split option.split)

lemma foldl_inode_step:
  assumes uniq: "\<And>d e. d \<in> S \<Longrightarrow> e \<in> S \<Longrightarrow> entry_ino d = Some i \<Longrightarrow> entry_ino e = Some i \<Longrightarrow> fst d = fst e"
    and "set es \<subseteq> S" "e \<in> set es" "entry_ino e = Some i"
  shows "map_get (foldl (visit inode_step) m es) i = Some (index_name (fst e))"
  using assms(2,3)
proof (induction es rule: rev_induct)
  case (snoc d es)
  show ?case
  proof (cases "entry_ino d = Some i")
    case True
    then have "fst d = fst e" using snoc.prems assms(4) by (intro uniq) auto
    then show ?thesis using True by (simp add: visit_inode_step)
  next
    case False
    then have "e \<in> set es" using snoc.prems(2) assms(4) by auto
    then have "map_get (foldl (visit inode_step) m es) i = Some (index_name (fst e))"
      using snoc by simp
    moreover have "map_get (visit inode_step m' d) i = map_get m' i" for m'
      using False by (simp add: visit_inode_step split: option.split)
    ultimately show ?thesis by simp
  qed
qed simp

lemma lister_knows:
  assumes "fs_wf t" "listable t" "unique_inodes t" "cgroup_inode_lister (Inr t) = Inr idx"
    and "plain xs" "fs_lookup t xs = Inr (Dir (Some i) l es)"
  shows "map_get idx i = Some (index_name (segs_name xs))"
proof -
  let ?e = "(segs_name xs, Dir (Some i) l es)"
  have idx: "idx = foldl (visit inode_step) [] (tree_entries ''.'' t)"
    using assms(4) walk_dir_visits_all(1) [OF inode_step_never_stops assms(2)]
    by (simp add: cgroup_inode_lister_def walk_def fs_node_def)
  have "?e \<in> set (tree_entries ''.'' t)"
    using tree_entries_lookup [OF assms(1,5) _ assms(6), of "[]"] by (cases "xs = []") (simp_all add: segs_name_def)
  then have "map_get (foldl (visit inode_step) [] (tree_entries ''.'' t)) i = Some (index_name (fst ?e))"
    using assms(3) by (intro foldl_inode_step [of "set (tree_entries ''.'' t)"])
      (auto simp: unique_inodes_def entry_ino_def)
  then show ?thesis by (simp add: idx)
qed

lemma index_finds_discovered:
  assumes "cg_version f = V2" "fs_wf (cg_root f)" "listable (cg_root f)" "unique_inodes (cg_root f)"
    and "discover f pfx = Inr found" "p \<in> set found"
    and "fs_lookup (cg_root f) (mount_segs f p) = Inr (Dir (Some i) l es)"
  shows "\<exists>idx. cgroup_inode_lister (Inr (cg_root f)) = Inr idx \<and> map_get idx i = Some p"
proof -
  obtain xs where xs: "plain xs" "p = relative_to_hierarchy f (segs_name xs)"
    using discover_canonical [OF assms(2,5,6)] by (auto simp: walk_meets_def)
  have m: "mount_segs f p = xs"
    using relative_to_hierarchy_mount [OF xs(1), of f] assms(1) xs(2) by simp
  have p: "p = index_name (segs_name xs)"
    using xs assms(1) by (simp add: relative_to_hierarchy_def index_name_def)
  obtain idx where idx: "cgroup_inode_lister (Inr (cg_root f)) = Inr idx"
    using walk_dir_visits_all(1) [OF inode_step_never_stops assms(3)]
    by (simp add: cgroup_inode_lister_def walk_def fs_node_def)
  have "map_get idx i = Some p"
    using lister_knows [OF assms(2,3,4) idx xs(1)] assms(7) m p by simp
  then show ?thesis using idx by blast
qed

subsection \<open>Enrichment\<close>

text \<open>What the kernel reported passes through unchanged, whatever the reads find.\<close>

definition reports_raw :: "ebpf \<Rightarrow> raw_event \<Rightarrow> kill_event \<Rightarrow> bool" where
  "reports_raw d raw e \<longleftrightarrow>
     ke_source e = SourceEBPF \<and> ke_time e = eb_boot_time d + sint (re_timestamp_ns raw) \<and>
     v_known (ke_victim e) \<and> \<not> v_inferred (ke_victim e) \<and> v_pid (ke_victim e) = uint (re_pid raw) \<and>
     v_comm (ke_victim e) = raw_comm raw \<and> v_rss_bytes (ke_victim e) = rss_bytes raw (eb_page_size d) \<and>
     (v_nspid (ke_victim e) = uint (re_nspid raw) \<or> re_nspid raw = 0)"

definition same_host :: "ebpf \<Rightarrow> ebpf \<Rightarrow> bool" where
  "same_host d e \<longleftrightarrow> eb_has_cgroup e = eb_has_cgroup d \<and> eb_has_proc e = eb_has_proc d \<and>
     eb_page_size e = eb_page_size d \<and> eb_boot_time e = eb_boot_time d"

lemma enrich_reports_raw:
  assumes "enrich v raw d = (e, d')"
  shows "reports_raw d raw e \<and> same_host d d'"
proof -
  define victim where "victim = (if eb_has_proc d
     then case read_process (tv_proc v) (uint (re_pid raw)) of Inl e \<Rightarrow> None | Inr p \<Rightarrow> Some p else None)"
  obtain cp m where r: "resolve_cgroup v raw victim (eb_index d) = (cp, m)" by force
  have z: "uint (re_nspid raw) = 0 \<longleftrightarrow> re_nspid raw = 0" by (simp add: uint_0_iff)
  have "enrich v raw d = (e, d')" by (rule assms)
  then show ?thesis
    unfolding enrich_def victim_def [symmetric] Let_def r prod.case
    by (cases victim; cases "re_nspid raw = 0"; cases "eb_has_cgroup d"; cases "cp = []")
      (auto simp: reports_raw_def same_host_def raw_kill_event_def z)
qed

definition decoded :: "(trace_view \<times> string) list \<Rightarrow> raw_event list" where
  "decoded samples = concat (map (\<lambda>(v, s). case decode_event s of Inl e \<Rightarrow> [] | Inr r \<Rightarrow> [r]) samples)"

lemma trace_loop_reports: "list_all2 (reports_raw d) (decoded samples) (fst (trace_loop samples d))"
proof (induction samples d rule: trace_loop.induct)
  case (1 d)
  then show ?case by (simp add: decoded_def)
next
  case (2 v sample rest d)
  show ?case
  proof (cases "decode_event sample")
    case (Inl e)
    then show ?thesis using 2(1) by (simp add: decoded_def)
  next
    case (Inr raw)
    obtain e d1 where en: "enrich v raw d = (e, d1)" by force
    obtain es d2 where tl: "trace_loop rest d1 = (es, d2)" by force
    have r: "reports_raw d raw e" "same_host d d1" using enrich_reports_raw [OF en] by auto
    have "list_all2 (reports_raw d1) (decoded rest) es"
      using 2(2) [OF Inr en [symmetric] refl] tl by simp
    moreover have "reports_raw d1 = reports_raw d"
      using r(2) by (intro ext) (simp add: reports_raw_def same_host_def)
    ultimately show ?thesis
      using Inr en tl r(1) by (simp add: decoded_def)
  qed
qed

lemma fake_start_once: "fake_start f = Some f1 \<Longrightarrow> fake_start f1 = Some f1"
proof -
  have "fake_emit_all es g = Some h \<Longrightarrow> fk_started h = fk_started g" for es g h
    by (induction es arbitrary: g) (auto simp: fake_emit_def split: bind_splits if_splits)
  then show "fake_start f = Some f1 \<Longrightarrow> fake_start f1 = Some f1"
    by (fastforce simp: fake_start_def split: if_splits)
qed

lemma fake_start_events:
  "\<not> fk_closed f \<Longrightarrow> \<not> fk_started f \<Longrightarrow>
     fake_start f = Some (f\<lparr>fk_started := True, fk_events := fk_events f @ fk_scripted f\<rparr>)"
proof -
  have "\<not> fk_closed g \<Longrightarrow> fake_emit_all es g = Some (g\<lparr>fk_events := fk_events g @ es\<rparr>)" for es g
    by (induction es arbitrary: g) (auto simp: fake_emit_def)
  then show "\<not> fk_closed f \<Longrightarrow> \<not> fk_started f \<Longrightarrow>
     fake_start f = Some (f\<lparr>fk_started := True, fk_events := fk_events f @ fk_scripted f\<rparr>)"
    by (simp add: fake_start_def)
qed

subsection \<open>Properties\<close>

text \<open>C26: The decoder and the probe agree on every byte. A sample decodes to a record exactly when
  it is that record laid out as the probe's C structure, whatever its three bytes of padding
  hold, and every sample of the right size decodes: no field is misplaced or lost.\<close>

theorem kernel_record_layout:
  "(decode_event s = Inr r \<longleftrightarrow>
      (\<exists>pad. length pad = 3 \<and> length (re_comm r) = 16 \<and> s = wire_event r pad)) \<and>
   (is_ok (decode_event s) \<longleftrightarrow> length s = 112)"
  using decode_only_wire [of s r] decode_wire [of _ r] decode_ok_iff [of s] by blast

text \<open>The read loop reports every sample that decodes, once and in order, and goes on past
  those that do not. What the kernel said about a kill survives the enrichment: the victim's
  PID, name and memory and the time, never marked as inferred, whatever \<open>/proc\<close> and the
  cgroup files hold by then.\<close>

theorem every_traced_kill_reported:
  "list_all2 (reports_raw d) (decoded samples) (fst (trace_loop samples d))"
  by (rule trace_loop_reports)

text \<open>C29: The index from cgroup IDs speaks the language of discovery: the path it gives for the ID
  of a discovered cgroup is the very string discovery returned, which the sampler's history
  is filed under.\<close>

theorem index_agrees_with_discovery:
  assumes "cg_version f = V2" "fs_wf (cg_root f)" "listable (cg_root f)" "unique_inodes (cg_root f)"
    and "discover f pfx = Inr found" "p \<in> set found"
    and "fs_lookup (cg_root f) (mount_segs f p) = Inr (Dir (Some i) l es)" "i \<noteq> 0"
  shows "fst (index_path (cgroup_inode_lister (Inr (cg_root f))) i []) = Some p"
  using index_finds_discovered [OF assms(1-7)] assms(8) by (auto simp: index_path_def)

definition demo_inodes :: cgfs where
  "demo_inodes = \<lparr>cg_root = Dir (Some 1) None [(''memory.current'', File (Inr ''9'')),
     (''pod'', Dir (Some 2) None [(''memory.current'', File (Inr ''7''))])], cg_version = V2\<rparr>"

lemma demo_inodes_wf:
  "cg_version demo_inodes = V2" "fs_wf (cg_root demo_inodes)" "listable (cg_root demo_inodes)"
  "unique_inodes (cg_root demo_inodes)"
  using path_join_dot [of "''pod''"] path_join_plain [of "[''pod'']" "''memory.current''"]
    path_join_dot [of "''memory.current''"]
  by (simp_all add: demo_inodes_def plain_seg_def unique_inodes_def entry_ino_def)

lemma demo_inodes_discovered: "\<exists>found. discover demo_inodes [] = Inr found \<and> ''/'' \<in> set found"
proof -
  have h: "hierarchy_dir demo_inodes [] = ''.''"
    by (simp add: hierarchy_dir_segs mount_segs_def segs_name_def rooted_segs_def demo_inodes_def)
  have j: "path_join ''.'' ''memory.current'' = ''memory.current''"
    using path_join_dot [of "''memory.current''"] by (simp add: plain_seg_def)
  have mk: "marker_file demo_inodes = ''memory.current''" by (simp add: marker_file_def demo_inodes_def)
  define found where "found = foldl (visit (discover_step demo_inodes)) [] (tree_entries ''.'' (cg_root demo_inodes))"
  have d: "discover demo_inodes [] = Inr found"
    by (simp add: discover_def h walk_def fs_stat_def fs_node_def Let_def found_def
        walk_dir_visits_all(1) [OF discover_never_stops demo_inodes_wf(3)])
  have "is_ok (fs_stat (cg_root demo_inodes) ''memory.current'')"
    by (simp add: demo_inodes_def fs_stat_def fs_node_def fs_segs_def)
  moreover have "is_dir (cg_root demo_inodes)" by (simp add: demo_inodes_def)
  ultimately have "relative_to_hierarchy demo_inodes ''.'' \<in> set found"
    using tree_entries_self [of "''.''" "cg_root demo_inodes"]
    by (auto simp: found_def foldl_discover mk j intro!: image_eqI [of _ _ "(''.'', cg_root demo_inodes)"])
  then show ?thesis using d by (simp add: relative_to_hierarchy_def)
qed

lemma demo_inodes_root:
  "fs_lookup (cg_root demo_inodes) (mount_segs demo_inodes ''/'') =
     Inr (Dir (Some 1) None [(''memory.current'', File (Inr ''9'')),
       (''pod'', Dir (Some 2) None [(''memory.current'', File (Inr ''7''))])])"
  by (simp add: mount_segs_def demo_inodes_def rooted_segs_def)

theorem index_agrees_with_discovery_witness:
  "\<exists>found p. discover demo_inodes [] = Inr found \<and> p \<in> set found \<and>
     fst (index_path (cgroup_inode_lister (Inr (cg_root demo_inodes))) 1 []) = Some p"
  using demo_inodes_discovered
    index_agrees_with_discovery [OF demo_inodes_wf _ _ demo_inodes_root] by (metis one_neq_zero)

text \<open>The victim's own \<open>/proc\<close> entry decides the cgroup of a traced kill, and it is relative to
  the daemon's cgroup namespace: the \<open>..\<close> elements in front are dropped and the path left
  over is reported as it stands, whatever absolute path the index has for the ID in the
  record.\<close>

theorem namespace_relative_path_wins:
  assumes "eb_has_proc d" "read_process (tv_proc v) (uint (re_pid raw)) = Inr p"
    and "fs_read (pf_root (tv_proc v)) (path_join (itoa (uint (re_pid raw))) ''cgroup'') =
      Inr (unlines [cgroup_text ''0'' [] (''/'' @ join ''/'' (replicate n ''..'' @ xs))])"
    and "plain xs" "short_line (cgroup_text ''0'' [] (''/'' @ join ''/'' (replicate n ''..'' @ xs)))"
  shows "ke_cgroup_path (fst (enrich v raw d)) = ''/'' @ join ''/'' xs"
proof -
  have "parse_cgroup (unlines (cgroup_texts [] @ [cgroup_text ''0'' [] (''/'' @ join ''/'' (replicate n ''..'' @ xs))] @
      cgroup_texts [])) = Inr (path_clean (''/'' @ join ''/'' (replicate n ''..'' @ xs)))"
    using assms(5) by (intro parse_cgroup_unified) (simp_all add: cgroup_texts_def)
  moreover have "path_clean (''/'' @ join ''/'' (replicate n ''..'' @ xs)) = ''/'' @ join ''/'' xs"
    using normalise_climb [OF assms(4), of n] by (simp add: normalise_cgroup_path_def)
  ultimately have "parse_cgroup (unlines [cgroup_text ''0'' [] (''/'' @ join ''/'' (replicate n ''..'' @ xs))]) =
      Inr (''/'' @ join ''/'' xs)"
    by (simp add: cgroup_texts_def)
  then have "p_cgroup_path p = ''/'' @ join ''/'' xs"
    using assms(2) by (auto simp: read_process_def Let_def assms(3))
  then show ?thesis
    using assms(1,2) by (simp add: enrich_def resolve_cgroup_def raw_kill_event_def Let_def)
qed

definition demo_namespaced_proc :: procfs where
  "demo_namespaced_proc = \<lparr>pf_root = Dir None None
     [(''7'', Dir None None
        [(''status'', File (Inr (unlines (kernel_status ''java'' ''S'' 7 1 [7] 2048 1024)))),
         (''cgroup'', File (Inr (unlines [cgroup_text ''0'' [] (''/'' @ join ''/'' (replicate 2 ''..'' @ [''podB'']))])))])],
     pf_links = False\<rparr>"

definition demo_raw :: raw_event where
  "demo_raw = \<lparr>re_timestamp_ns = 0, re_memcg_id = 0, re_task_cgroup_id = 5, re_anon_rss_pages = 1,
     re_file_rss_pages = 0, re_shmem_rss_pages = 0, re_total_vm_pages = 1, re_limit_pages = 1,
     re_badness_points = 0, re_pid = 7, re_tid = 7, re_ppid = 1, re_nspid = 1, re_oom_score_adj = 0,
     re_memcg_oom = 1, re_comm = []\<rparr>"

definition demo_trace_view :: trace_view where
  "demo_trace_view = \<lparr>tv_proc = demo_namespaced_proc, tv_task_listing = Inr [(5, ''/kubepods.slice/podA/podB'')],
     tv_memcg_listing = Inr [], tv_stats = empty_cgfs, tv_group = (empty_cgfs, cg_root empty_cgfs)\<rparr>"

definition demo_ebpf :: ebpf where
  "demo_ebpf = \<lparr>eb_has_cgroup = False, eb_has_proc = True, eb_index = [(5, ''/kubepods.slice/podA/podB'')],
     eb_page_size = 4096, eb_boot_time = 0\<rparr>"

lemma demo_raw_status: "is_ok (read_process demo_namespaced_proc 7)"
proof -
  let ?ls = "kernel_status ''java'' ''S'' 7 1 [7] 2048 1024"
  have sh: "\<forall>l \<in> set ?ls. short_line l"
    by (simp add: kernel_status_def status_kv_def short_line_def max_token_def show_nat.simps digit_char_eval)
  have i: "itoa 7 = ''7''" by (simp add: itoa_def show_nat.simps digit_char_eval)
  have j: "path_join ''7'' ''status'' = ''7/status''"
    using path_join_plain [of "[''7'']" "''status''"] by (simp add: plain_seg_def)
  have "fs_read (pf_root demo_namespaced_proc) ''7/status'' = Inr (unlines ?ls)"
    by (simp add: demo_namespaced_proc_def fs_read_def fs_node_def fs_segs_def)
  moreover have "is_ok (parse_status (unlines ?ls))"
    unfolding parse_status_def scan_lines_unlines [OF sh] Let_def prod.case
    by (subst parse_kernel_status_lines) simp_all
  ultimately show ?thesis
    unfolding read_process_def i j Let_def by (auto simp: is_ok_iff)
qed

theorem namespace_relative_path_wins_witness:
  "ke_cgroup_path (fst (enrich demo_trace_view demo_raw demo_ebpf)) = ''/'' @ join ''/'' [''podB''] \<and>
   map_get (eb_index demo_ebpf) (re_task_cgroup_id demo_raw) = Some ''/kubepods.slice/podA/podB''"
proof -
  have i: "itoa 7 = ''7''" by (simp add: itoa_def show_nat.simps digit_char_eval)
  have j: "path_join ''7'' ''cgroup'' = ''7/cgroup''"
    using path_join_plain [of "[''7'']" "''cgroup''"] by (simp add: plain_seg_def)
  have u: "uint (re_pid demo_raw) = 7" by (simp add: demo_raw_def)
  obtain p where p: "read_process demo_namespaced_proc 7 = Inr p"
    using demo_raw_status by (auto simp: is_ok_iff)
  have "ke_cgroup_path (fst (enrich demo_trace_view demo_raw demo_ebpf)) = ''/'' @ join ''/'' [''podB'']"
  proof (rule namespace_relative_path_wins [where n = 2])
    show "read_process (tv_proc demo_trace_view) (uint (re_pid demo_raw)) = Inr p"
      using p u by (simp add: demo_trace_view_def)
    show "fs_read (pf_root (tv_proc demo_trace_view)) (path_join (itoa (uint (re_pid demo_raw))) ''cgroup'') =
        Inr (unlines [cgroup_text ''0'' [] (''/'' @ join ''/'' (replicate 2 ''..'' @ [''podB'']))])"
      unfolding u i j by (simp add: demo_trace_view_def demo_namespaced_proc_def fs_read_def fs_node_def fs_segs_def)
    show "short_line (cgroup_text ''0'' [] (''/'' @ join ''/'' (replicate 2 ''..'' @ [''podB''])))"
      by (simp add: cgroup_text_def short_line_def max_token_def numeral_2_eq_2)
  qed (simp_all add: demo_ebpf_def plain_seg_def)
  then show ?thesis by (simp add: demo_ebpf_def demo_raw_def map_get_def)
qed

end
