(* ===== verification/Probe.thy ===== *)
theory Probe
  imports Ebpf
begin

section \<open>The BPF probe\<close>

text \<open>
  Models \<open>src/internal/detector/bpf/oomtracer.bpf.c\<close> and the kernel types of \<open>oom_types.h\<close>: the
  program that runs inside the kernel when it has chosen a victim, on a store of the kernel's
  structures by address, and what its records become in the daemon. The helpers of the kernel
  are arguments: the clock's reading and whether the ring buffer had room. A read of an
  address that is not mapped yields zeros, which is what \<open>bpf_probe_read_kernel\<close> documents.
\<close>

subsection \<open>The kernel's structures\<close>

type_synonym addr = u64

record kernfs_node =
  kn_id :: u64

record cgroup_node =
  cg_kn :: addr

record cgroup_subsys_state =
  css_cgroup :: addr

record mem_cgroup =
  mg_css :: cgroup_subsys_state

record css_set =
  cs_dfl_cgrp :: addr

text \<open>The flexible array \<open>numbers\<close> of a \<open>struct pid\<close>, by level; only \<open>nr\<close> of an element is read.\<close>

record pid_struct =
  pd_level :: u32
  pd_numbers :: "nat \<Rightarrow> u32"

text \<open>The resident-set counters, in the two layouts of the kernel's history. They are signed.\<close>

record mm_rss_stat =
  rs_count :: "nat \<Rightarrow> u64"

record mm_struct =
  ms_total_vm :: u64
  ms_rss_stat :: "nat \<Rightarrow> u64"

record mm_struct_pre62 =
  mp_rss_stat :: mm_rss_stat

record signal_struct =
  sg_oom_score_adj :: "16 word"

record task_struct =
  ts_pid :: u32
  ts_tgid :: u32
  ts_real_parent :: addr
  ts_thread_pid :: addr
  ts_mm :: addr
  ts_signal :: addr
  ts_cgroups :: addr
  ts_comm :: string

record oom_control =
  oc_memcg :: addr
  oc_totalpages :: u64
  oc_chosen :: addr
  oc_chosen_points :: u64

text \<open>
  The memory the program can read, one typed store for each structure, and whether the
  running kernel has the type \<open>struct mm_rss_stat\<close>, which is settled when the program is loaded.
\<close>

record kernel =
  km_oom_controls :: "addr \<Rightarrow> oom_control option"
  km_tasks :: "addr \<Rightarrow> task_struct option"
  km_pids :: "addr \<Rightarrow> pid_struct option"
  km_signals :: "addr \<Rightarrow> signal_struct option"
  km_mms :: "addr \<Rightarrow> mm_struct option"
  km_mms_pre62 :: "addr \<Rightarrow> mm_struct_pre62 option"
  km_css_sets :: "addr \<Rightarrow> css_set option"
  km_mem_cgroups :: "addr \<Rightarrow> mem_cgroup option"
  km_cgroups :: "addr \<Rightarrow> cgroup_node option"
  km_kernfs :: "addr \<Rightarrow> kernfs_node option"
  km_has_mm_rss_stat :: bool

definition core_read :: "(addr \<Rightarrow> 'a option) \<Rightarrow> ('a \<Rightarrow> 'b :: zero) \<Rightarrow> addr \<Rightarrow> 'b" where
  "core_read store field a = (case store a of None \<Rightarrow> 0 | Some s \<Rightarrow> field s)"

definition task_comm_len :: nat where
  "task_comm_len = 16"

definition mm_filepages :: nat where
  "mm_filepages = 0"

definition mm_anonpages :: nat where
  "mm_anonpages = 1"

definition mm_shmempages :: nat where
  "mm_shmempages = 3"

text \<open>The first argument of the probed function, in the registers the context holds in order.\<close>

datatype arch = Arm64 | X86

definition oom_parm1 :: "arch \<Rightarrow> (nat \<Rightarrow> u64) \<Rightarrow> addr" where
  "oom_parm1 a ctx = (case a of Arm64 \<Rightarrow> ctx 0 | X86 \<Rightarrow> ctx 14)"

subsection \<open>The program\<close>

definition read_rss :: "kernel \<Rightarrow> addr \<Rightarrow> nat \<Rightarrow> u64" where
  "read_rss k mm idx =
     (let v = (if km_has_mm_rss_stat k
               then core_read (km_mms_pre62 k) (\<lambda>old. rs_count (mp_rss_stat old) idx) mm
               else core_read (km_mms k) (\<lambda>m. ms_rss_stat m idx) mm)
      in if sint v < 0 then 0 else v)"

definition ns_pid :: "kernel \<Rightarrow> addr \<Rightarrow> u32" where
  "ns_pid k task =
     (let thread_pid = core_read (km_tasks k) ts_thread_pid task
      in if thread_pid = 0 then 0
         else let level = core_read (km_pids k) pd_level thread_pid
           in if 32 < level then 0
              else core_read (km_pids k) (\<lambda>p. pd_numbers p (unat level)) thread_pid)"

text \<open>
  \<open>bpf_core_read_str\<close> into a buffer that was cleared: it copies up to a terminating NUL and
  leaves room for one, and the buffer stays clear when the task cannot be read.
\<close>

definition read_comm :: "kernel \<Rightarrow> addr \<Rightarrow> string" where
  "read_comm k task =
     (let s = (case km_tasks k task of
                 None \<Rightarrow> []
               | Some t \<Rightarrow> take (task_comm_len - 1) (takeWhile (\<lambda>c. c \<noteq> CHR 0x00) (ts_comm t)))
      in s @ replicate (task_comm_len - length s) (CHR 0x00))"

definition cgroup_id :: "kernel \<Rightarrow> addr \<Rightarrow> u64" where
  "cgroup_id k cgrp = core_read (km_kernfs k) kn_id (core_read (km_cgroups k) cg_kn cgrp)"

text \<open>The record of one kill, field by field in the order the program fills it.\<close>

definition cleared_event :: raw_event where
  "cleared_event = \<lparr>re_timestamp_ns = 0, re_memcg_id = 0, re_task_cgroup_id = 0, re_anon_rss_pages = 0,
     re_file_rss_pages = 0, re_shmem_rss_pages = 0, re_total_vm_pages = 0, re_limit_pages = 0,
     re_badness_points = 0, re_pid = 0, re_tid = 0, re_ppid = 0, re_nspid = 0, re_oom_score_adj = 0,
     re_memcg_oom = 0, re_comm = replicate task_comm_len (CHR 0x00)\<rparr>"

definition fill_event :: "kernel \<Rightarrow> u64 \<Rightarrow> addr \<Rightarrow> addr \<Rightarrow> raw_event" where
  "fill_event k now oc chosen =
     (let event = cleared_event\<lparr>
            re_timestamp_ns := now,
            re_limit_pages := core_read (km_oom_controls k) oc_totalpages oc,
            re_badness_points := core_read (km_oom_controls k) oc_chosen_points oc,
            re_tid := core_read (km_tasks k) ts_pid chosen,
            re_pid := core_read (km_tasks k) ts_tgid chosen,
            re_ppid := core_read (km_tasks k) ts_tgid (core_read (km_tasks k) ts_real_parent chosen),
            re_nspid := ns_pid k chosen,
            re_oom_score_adj :=
              scast (core_read (km_signals k) sg_oom_score_adj (core_read (km_tasks k) ts_signal chosen)),
            re_comm := read_comm k chosen\<rparr>;
          memcg = core_read (km_oom_controls k) oc_memcg oc;
          event = (if memcg = 0 then event
                   else event\<lparr>re_memcg_oom := 1,
                     re_memcg_id := cgroup_id k (core_read (km_mem_cgroups k) (\<lambda>m. css_cgroup (mg_css m)) memcg)\<rparr>);
          event = event\<lparr>re_task_cgroup_id :=
                     cgroup_id k (core_read (km_css_sets k) cs_dfl_cgrp (core_read (km_tasks k) ts_cgroups chosen))\<rparr>;
          mm = core_read (km_tasks k) ts_mm chosen
      in if mm = 0 then event
         else event\<lparr>re_total_vm_pages := core_read (km_mms k) ms_total_vm mm,
           re_anon_rss_pages := read_rss k mm mm_anonpages,
           re_file_rss_pages := read_rss k mm mm_filepages,
           re_shmem_rss_pages := read_rss k mm mm_shmempages\<rparr>)"

text \<open>
  One call of the probed function: the registers, the kernel's memory, the clock's reading
  and whether the ring buffer had room. The value is what the program submits.
\<close>

record firing =
  fi_arch :: arch
  fi_ctx :: "nat \<Rightarrow> u64"
  fi_kernel :: kernel
  fi_now :: u64
  fi_room :: bool

definition trace_oom_kill_process :: "firing \<Rightarrow> string option" where
  "trace_oom_kill_process f =
     (let oc = oom_parm1 (fi_arch f) (fi_ctx f)
      in if oc = 0 then None
         else let chosen = core_read (km_oom_controls (fi_kernel f)) oc_chosen oc
           in if chosen = 0 \<or> chosen = - 1 then None
              else if \<not> fi_room f then None
              else Some (wire_event (fill_event (fi_kernel f) (fi_now f) oc chosen) (replicate 3 (CHR 0x00))))"

text \<open>The samples of a run of the program, in the order of its calls.\<close>

definition probe_samples :: "firing list \<Rightarrow> string list" where
  "probe_samples fs = List.map_filter trace_oom_kill_process fs"

subsection \<open>The record bpf2go generates\<close>

text \<open>
  The Go structure generated from the compiled object, field by field with its width. The
  decoder of the daemon is held to it: the same widths in the same order, and their sum the
  size both sides check.
\<close>

definition oomtracer_oom_event :: "(string \<times> nat) list" where
  "oomtracer_oom_event =
     [(''TimestampNs'', 8), (''MemcgId'', 8), (''TaskCgroupId'', 8), (''AnonRssPages'', 8), (''FileRssPages'', 8),
      (''ShmemRssPages'', 8), (''TotalVmPages'', 8), (''LimitPages'', 8), (''BadnessPoints'', 8), (''Pid'', 4),
      (''Tid'', 4), (''Ppid'', 4), (''Nspid'', 4), (''OomScoreAdj'', 4), (''MemcgOom'', 1), (''Pad'', 3), (''Comm'', 16)]"

lemma generated_layout:
  "map snd oomtracer_oom_event = raw_widths" "sum_list (map snd oomtracer_oom_event) = bpf_event_size"
  by (simp_all add: oomtracer_oom_event_def raw_widths_def bpf_event_size_def)

subsection \<open>What the kernel knows of the kill\<close>

text \<open>The task the kernel settled on, when it settled on one.\<close>

definition kernel_victim :: "firing \<Rightarrow> addr option" where
  "kernel_victim f =
     (let oc = oom_parm1 (fi_arch f) (fi_ctx f);
          chosen = core_read (km_oom_controls (fi_kernel f)) oc_chosen oc
      in if oc = 0 \<or> chosen = 0 \<or> chosen = - 1 then None else Some chosen)"

definition caught :: "firing \<Rightarrow> bool" where
  "caught f \<longleftrightarrow> kernel_victim f \<noteq> None \<and> fi_room f"

text \<open>
  A resident-set counter as the integer it stands for: per-CPU deltas can leave it below
  zero, and then nothing is resident. The memory of a task is the sum of three of them.
\<close>

definition resident_pages :: "kernel \<Rightarrow> addr \<Rightarrow> nat \<Rightarrow> int" where
  "resident_pages k mm idx =
     max 0 (sint (if km_has_mm_rss_stat k
                  then core_read (km_mms_pre62 k) (\<lambda>old. rs_count (mp_rss_stat old) idx) mm
                  else core_read (km_mms k) (\<lambda>m. ms_rss_stat m idx) mm))"

definition task_pages :: "kernel \<Rightarrow> addr \<Rightarrow> int" where
  "task_pages k task =
     (let mm = core_read (km_tasks k) ts_mm task
      in if mm = 0 then 0
         else resident_pages k mm mm_anonpages + resident_pages k mm mm_filepages + resident_pages k mm mm_shmempages)"

definition task_name :: "kernel \<Rightarrow> addr \<Rightarrow> string" where
  "task_name k task = (case km_tasks k task of None \<Rightarrow> [] | Some t \<Rightarrow> takeWhile (\<lambda>c. c \<noteq> CHR 0x00) (ts_comm t))"

definition task_cgroup :: "kernel \<Rightarrow> addr \<Rightarrow> u64" where
  "task_cgroup k task = cgroup_id k (core_read (km_css_sets k) cs_dfl_cgrp (core_read (km_tasks k) ts_cgroups task))"

text \<open>The task sits in the cgroup whose directory has this inode.\<close>

definition in_cgroup :: "kernel \<Rightarrow> addr \<Rightarrow> u64 \<Rightarrow> bool" where
  "in_cgroup k task i \<longleftrightarrow>
     (case km_tasks k task of
        None \<Rightarrow> False
      | Some t \<Rightarrow>
          (case km_css_sets k (ts_cgroups t) of
             None \<Rightarrow> False
           | Some cs \<Rightarrow>
               (case km_cgroups k (cs_dfl_cgrp cs) of
                  None \<Rightarrow> False
                | Some cg \<Rightarrow> map_option kn_id (km_kernfs k (cg_kn cg)) = Some i)))"

definition reports_victim :: "ebpf \<Rightarrow> firing \<Rightarrow> kill_event \<Rightarrow> bool" where
  "reports_victim d f e \<longleftrightarrow>
     (\<exists>task. kernel_victim f = Some task \<and> ke_source e = SourceEBPF \<and>
        ke_time e = eb_boot_time d + sint (fi_now f) \<and> v_known (ke_victim e) \<and> \<not> v_inferred (ke_victim e) \<and>
        v_pid (ke_victim e) = uint (core_read (km_tasks (fi_kernel f)) ts_tgid task) \<and>
        v_comm (ke_victim e) = take 15 (task_name (fi_kernel f) task) \<and>
        uint (v_rss_bytes (ke_victim e)) =
          (if eb_page_size d \<le> 0 then 0 else task_pages (fi_kernel f) task * eb_page_size d mod 2 ^ 64) \<and>
        (ns_pid (fi_kernel f) task \<noteq> 0 \<longrightarrow> v_nspid (ke_victim e) = uint (ns_pid (fi_kernel f) task)))"

lemma in_cgroup_id: "in_cgroup k task i \<Longrightarrow> task_cgroup k task = i"
  by (auto simp: in_cgroup_def task_cgroup_def cgroup_id_def core_read_def split: option.splits)

lemma trace_caught:
  "trace_oom_kill_process f =
     (case kernel_victim f of
        Some task \<Rightarrow> if fi_room f
          then Some (wire_event (fill_event (fi_kernel f) (fi_now f) (oom_parm1 (fi_arch f) (fi_ctx f)) task)
                 (replicate 3 (CHR 0x00)))
          else None
      | None \<Rightarrow> None)"
  by (simp add: trace_oom_kill_process_def kernel_victim_def Let_def)

lemma read_comm_length: "length (read_comm k task) = 16"
  by (simp add: read_comm_def task_comm_len_def Let_def split: option.split)

lemma fill_event_fields:
  "re_timestamp_ns (fill_event k now oc task) = now"
  "re_pid (fill_event k now oc task) = core_read (km_tasks k) ts_tgid task"
  "re_nspid (fill_event k now oc task) = ns_pid k task"
  "re_comm (fill_event k now oc task) = read_comm k task"
  "re_task_cgroup_id (fill_event k now oc task) = task_cgroup k task"
  by (simp_all add: fill_event_def Let_def task_cgroup_def)

lemma fill_event_decodes:
  "decode_event (wire_event (fill_event k now oc task) (replicate 3 (CHR 0x00))) = Inr (fill_event k now oc task)"
  by (rule decode_wire) (simp_all add: fill_event_fields read_comm_length)

lemma index_byte_padded:
  "CHR 0x00 \<notin> set s \<Longrightarrow> index_byte (s @ replicate (Suc n) (CHR 0x00)) (CHR 0x00) = Some (length s)"
  by (induction s) auto

lemma raw_comm_filled: "raw_comm (fill_event k now oc task) = take 15 (task_name k task)"
proof -
  define s where "s = take 15 (task_name k task)"
  have nul: "CHR 0x00 \<notin> set s"
    by (auto simp: s_def task_name_def dest!: in_set_takeD set_takeWhileD split: option.splits)
  have "length s \<le> 15" by (simp add: s_def)
  then have pad: "Suc (15 - length s) = 16 - length s" by simp
  have "read_comm k task = s @ replicate (Suc (15 - length s)) (CHR 0x00)"
    unfolding pad by (simp add: read_comm_def s_def task_name_def task_comm_len_def Let_def split: option.split)
  then show ?thesis
    using index_byte_padded [OF nul] by (simp add: raw_comm_def fill_event_fields s_def [symmetric] del: replicate.simps)
qed

lemma read_rss_resident: "uint (read_rss k mm idx) = resident_pages k mm idx"
proof -
  have "uint (if sint v < 0 then 0 else v) = max 0 (sint v)" for v :: u64
  proof -
    have "uint v = sint v mod 2 ^ 64"
      using uint_word_of_int [of "sint v", where 'a = 64] by simp
    moreover have "sint v < 2 ^ 63" using sint_lt [of v] by simp
    ultimately show ?thesis by simp
  qed
  then show ?thesis by (simp add: read_rss_def resident_pages_def Let_def)
qed

lemma rss_bytes_filled:
  "uint (rss_bytes (fill_event k now oc task) page) =
     (if page \<le> 0 then 0 else task_pages k task * page mod 2 ^ 64)"
proof (cases "page \<le> 0")
  case False
  let ?e = "fill_event k now oc task"
  have "uint (re_anon_rss_pages ?e) + uint (re_file_rss_pages ?e) + uint (re_shmem_rss_pages ?e) = task_pages k task"
    by (simp add: fill_event_def cleared_event_def Let_def task_pages_def read_rss_resident)
  moreover have "uint ((a + b + c) * of_int page) = (uint a + uint b + uint c) * page mod 2 ^ 64" for a b c :: u64
    by (simp add: uint_word_ariths mod_simps take_bit_eq_mod uint_word_of_int)
  ultimately show ?thesis using False by (simp add: rss_bytes_def)
qed (simp add: rss_bytes_def)

subsection \<open>What the daemon reports of it\<close>

definition traced :: "(firing \<times> trace_view) list \<Rightarrow> (trace_view \<times> string) list" where
  "traced fvs = List.map_filter (\<lambda>(f, v). map_option (Pair v) (trace_oom_kill_process f)) fvs"

lemma filled_reported:
  assumes "reports_raw d (fill_event (fi_kernel f) (fi_now f) (oom_parm1 (fi_arch f) (fi_ctx f)) task) e"
    and "kernel_victim f = Some task"
  shows "reports_victim d f e"
  using assms
  by (auto simp: reports_raw_def reports_victim_def fill_event_fields raw_comm_filled rss_bytes_filled)

lemma decoded_traced:
  "decoded (traced fvs) = map (\<lambda>f. fill_event (fi_kernel f) (fi_now f) (oom_parm1 (fi_arch f) (fi_ctx f))
     (the (kernel_victim f))) (filter caught (map fst fvs))"
proof (induction fvs)
  case (Cons fv fvs)
  show ?case
  proof (cases fv)
    case (Pair f v)
    then show ?thesis
      using Cons
      by (cases "kernel_victim f"; cases "fi_room f")
        (simp_all add: traced_def decoded_def map_filter_def trace_caught caught_def fill_event_decodes)
  qed
qed (simp add: traced_def decoded_def map_filter_def)

lemma caught_reported:
  assumes "list_all2 (reports_raw d) (map (\<lambda>f. fill_event (fi_kernel f) (fi_now f) (oom_parm1 (fi_arch f) (fi_ctx f))
     (the (kernel_victim f))) fs) es" "list_all caught fs"
  shows "list_all2 (reports_victim d) fs es"
  using assms
proof (induction fs arbitrary: es)
  case (Cons f fs)
  then show ?case by (auto simp: list_all2_Cons1 caught_def intro: filled_reported)
qed simp

subsection \<open>Properties\<close>

text \<open>C27: What the kernel decided is what the daemon reports. Of every call of
  \<open>oom_kill_process\<close> that settled on a task while the ring buffer had room there is one event,
  in order, whatever the reads of \<open>/proc\<close> and the cgroup files see by then: it names the task's
  thread group as the PID, its name up to the NUL within fifteen bytes, as its memory the sum
  of the anonymous, file and shared counters (one that is negative counting for nothing) in
  either layout of the kernel, its PID in the innermost namespace, and the kernel's own time.
  The sentinel pointer for a victim that is already being reaped is never followed.\<close>

theorem probe_reports_every_victim:
  "list_all2 (reports_victim d) (filter caught (map fst fvs)) (fst (trace_loop (traced fvs) d))"
  using trace_loop_reports [of d "traced fvs"] unfolding decoded_traced
  by (rule caught_reported) (simp add: list_all_iff)

lemma enrich_by_id:
  assumes "\<not> eb_has_proc d \<or> \<not> is_ok (read_process (tv_proc v) (uint (re_pid raw)))"
  shows "ke_cgroup_path (fst (enrich v raw d)) = fst (resolve_by_id v raw (eb_index d))"
proof -
  have "(if eb_has_proc d then case read_process (tv_proc v) (uint (re_pid raw)) of Inl e \<Rightarrow> None | Inr p \<Rightarrow> Some p
     else None) = None"
    using assms by (cases "read_process (tv_proc v) (uint (re_pid raw))") auto
  then show ?thesis
    by (cases "resolve_by_id v raw (eb_index d)")
      (simp add: enrich_def resolve_cgroup_def raw_kill_event_def Let_def)
qed

text \<open>C28: A kill the kernel reports is filed under the victim's own cgroup even when \<open>/proc\<close> has
  forgotten the process: the ID the probe reads from the task's cgroup is the inode of its
  directory, and the daemon's index turns it into the very path discovery returned, which is
  where the sampler keeps its history.\<close>

theorem traced_kill_lands_on_its_cgroup:
  assumes "kernel_victim f = Some task" "fi_room f" "in_cgroup (fi_kernel f) task i" "i \<noteq> 0"
    and "\<not> eb_has_proc d \<or>
      \<not> is_ok (read_process (tv_proc v) (uint (core_read (km_tasks (fi_kernel f)) ts_tgid task)))"
    and "map_get (eb_index d) i = None" "tv_task_listing v = cgroup_inode_lister (Inr (cg_root h))"
    and "cg_version h = V2" "fs_wf (cg_root h)" "listable (cg_root h)" "unique_inodes (cg_root h)"
    and "discover h pfx = Inr found" "p \<in> set found"
    and "fs_lookup (cg_root h) (mount_segs h p) = Inr (Dir (Some i) l es)"
  shows "map ke_cgroup_path (fst (trace_loop (traced [(f, v)]) d)) = [p]"
proof -
  define raw where "raw = fill_event (fi_kernel f) (fi_now f) (oom_parm1 (fi_arch f) (fi_ctx f)) task"
  have raw: "re_task_cgroup_id raw = i" "re_pid raw = core_read (km_tasks (fi_kernel f)) ts_tgid task"
    using in_cgroup_id [OF assms(3)] by (simp_all add: raw_def fill_event_fields)
  obtain idx where "tv_task_listing v = Inr idx" "map_get idx i = Some p"
    using index_finds_discovered [OF assms(8-14)] assms(7) by auto
  then have "fst (resolve_by_id v raw (eb_index d)) = p"
    using assms(4,6) raw(1) by (simp add: resolve_by_id_def index_path_def)
  then have "ke_cgroup_path (fst (enrich v raw d)) = p"
    using enrich_by_id [of d v raw] assms(5) raw(2) by simp
  moreover have "traced [(f, v)] = [(v, wire_event raw (replicate 3 (CHR 0x00)))]"
    using assms(1,2) by (simp add: traced_def map_filter_def trace_caught raw_def)
  moreover have "decode_event (wire_event raw (replicate 3 (CHR 0x00))) = Inr raw"
    unfolding raw_def by (rule fill_event_decodes)
  ultimately show ?thesis by (cases "enrich v raw d") simp
qed

text \<open>A kernel after 6.2 that kills \<open>java\<close>, whose counter of shared pages reads below zero.\<close>

definition demo_task :: task_struct where
  "demo_task = \<lparr>ts_pid = 71, ts_tgid = 70, ts_real_parent = 0, ts_thread_pid = 0, ts_mm = 0x70, ts_signal = 0,
     ts_cgroups = 0x30, ts_comm = ''java'' @ replicate 12 (CHR 0x00)\<rparr>"

definition demo_kernel :: kernel where
  "demo_kernel = \<lparr>km_oom_controls = [0x10 \<mapsto> \<lparr>oc_memcg = 0, oc_totalpages = 9, oc_chosen = 0x20, oc_chosen_points = 8\<rparr>],
     km_tasks = [0x20 \<mapsto> demo_task], km_pids = Map.empty, km_signals = Map.empty,
     km_mms = [0x70 \<mapsto> \<lparr>ms_total_vm = 9, ms_rss_stat = (\<lambda>i. [2, 5, 0, - 1] ! i)\<rparr>], km_mms_pre62 = Map.empty,
     km_css_sets = [0x30 \<mapsto> \<lparr>cs_dfl_cgrp = 0x40\<rparr>], km_mem_cgroups = Map.empty,
     km_cgroups = [0x40 \<mapsto> \<lparr>cg_kn = 0x50\<rparr>], km_kernfs = [0x50 \<mapsto> \<lparr>kn_id = 1\<rparr>], km_has_mm_rss_stat = False\<rparr>"

definition demo_firing :: firing where
  "demo_firing = \<lparr>fi_arch = X86, fi_ctx = (\<lambda>i. if i = 14 then 0x10 else 0), fi_kernel = demo_kernel, fi_now = 5, fi_room = True\<rparr>"

definition demo_traced_host :: ebpf where
  "demo_traced_host = \<lparr>eb_has_cgroup = False, eb_has_proc = False, eb_index = [], eb_page_size = 4096, eb_boot_time = 0\<rparr>"

lemma demo_firing_victim: "kernel_victim demo_firing = Some 0x20"
  by (simp add: kernel_victim_def demo_firing_def demo_kernel_def oom_parm1_def core_read_def Let_def)

lemma demo_firing_cgroup: "in_cgroup (fi_kernel demo_firing) 0x20 1"
  by (simp add: in_cgroup_def demo_firing_def demo_kernel_def demo_task_def)

lemma demo_firing_pages: "task_pages demo_kernel 0x20 = 7"
  by (simp add: task_pages_def resident_pages_def demo_kernel_def demo_task_def core_read_def Let_def
      mm_anonpages_def mm_filepages_def mm_shmempages_def)

theorem probe_reports_every_victim_witness:
  "\<exists>e. fst (trace_loop (traced [(demo_firing, demo_trace_view)]) demo_traced_host) = [e] \<and> v_pid (ke_victim e) = 70 \<and>
     v_comm (ke_victim e) = ''java'' \<and> uint (v_rss_bytes (ke_victim e)) = 7 * 4096"
proof -
  have c: "filter caught (map fst [(demo_firing, demo_trace_view)]) = [demo_firing]"
    by (simp add: caught_def demo_firing_victim) (simp add: demo_firing_def)
  obtain e where e: "fst (trace_loop (traced [(demo_firing, demo_trace_view)]) demo_traced_host) = [e]"
    "reports_victim demo_traced_host demo_firing e"
    using probe_reports_every_victim [of demo_traced_host "[(demo_firing, demo_trace_view)]"] unfolding c
    by (auto simp: list_all2_Cons1)
  have "fi_kernel demo_firing = demo_kernel" "eb_page_size demo_traced_host = 4096"
    by (simp_all add: demo_firing_def demo_traced_host_def)
  then have "v_pid (ke_victim e) = uint (core_read (km_tasks demo_kernel) ts_tgid 0x20)"
    "v_comm (ke_victim e) = take 15 (task_name demo_kernel 0x20)" "uint (v_rss_bytes (ke_victim e)) = 7 * 4096"
    using e(2) by (auto simp: reports_victim_def demo_firing_victim demo_firing_pages)
  then show ?thesis
    using e(1) by (simp add: demo_kernel_def demo_task_def core_read_def task_name_def)
qed

theorem traced_kill_lands_on_its_cgroup_witness:
  "map ke_cgroup_path (fst (trace_loop (traced [(demo_firing,
     demo_trace_view\<lparr>tv_task_listing := cgroup_inode_lister (Inr (cg_root demo_inodes))\<rparr>)]) demo_traced_host)) = [''/'']"
proof -
  obtain found where "discover demo_inodes [] = Inr found" "''/'' \<in> set found"
    using demo_inodes_discovered by blast
  then show ?thesis
    by (intro traced_kill_lands_on_its_cgroup [OF demo_firing_victim _ demo_firing_cgroup _ _ _ _
          demo_inodes_wf _ _ demo_inodes_root])
      (simp_all add: demo_firing_def demo_traced_host_def)
qed

end
