(* ===== verification/OomReport.thy ===== *)
theory OomReport
  imports Resolver Trend Poller
begin

section \<open>Reports\<close>

text \<open>
  Models \<open>src/internal/oom/report.go\<close>: the report and its parts, the trajectory drawn from the
  sampled history, the process listing with the victim taken out, and the two figures derived
  from a trajectory.
\<close>

record trajectory_point =
  tp_time :: time
  tp_used_bytes :: u64
  tp_limit_bytes :: u64
  tp_ratio :: f64
  tp_pressure_full :: f64

record process_snapshot =
  ps_pid :: int
  ps_nspid :: int
  ps_comm :: string
  ps_cmdline :: "string list"
  ps_rss_bytes :: u64

datatype victim_match = VictimMatchNone | VictimMatchHostPID | VictimMatchNSPid | VictimMatchUnset

text \<open>\<open>VictimMatchUnset\<close> is the empty string, the zero value of the source's string type.\<close>

record report =
  rp_id :: string
  rp_time :: time
  rp_identity :: identity
  rp_victim :: victim
  rp_source :: source
  rp_kill_count :: u64
  rp_limit_bytes :: u64
  rp_peak_bytes :: u64
  rp_trajectory :: "trajectory_point list"
  rp_processes :: "process_snapshot list"
  rp_victim_match :: victim_match
  rp_group_kill :: "bool option"
  rp_trend :: trend

definition trend_zero :: trend where
  "trend_zero = \<lparr>tr_bytes_per_second = FNum 0, tr_r_squared = FNum 0, tr_samples = 0, tr_window = 0,
     tr_time_to_limit = Some 0, tr_projected = False\<rparr>"

definition report_zero :: report where
  "report_zero = \<lparr>rp_id = [], rp_time = 0, rp_identity = identity_zero, rp_victim = victim_zero,
     rp_source = SourceFake, rp_kill_count = 0, rp_limit_bytes = 0, rp_peak_bytes = 0, rp_trajectory = [],
     rp_processes = [], rp_victim_match = VictimMatchUnset, rp_group_kill = None, rp_trend = trend_zero\<rparr>"

definition report_unlimited :: u64 where
  "report_unlimited = 18446744073709551615"

definition trajectory_point_from :: "sample \<Rightarrow> trajectory_point" where
  "trajectory_point_from s =
     (let stats = sm_stats s;
          limit = (if ms_limit stats = report_unlimited then 0 else ms_limit stats)
      in \<lparr>tp_time = sm_time s, tp_used_bytes = ms_current stats, tp_limit_bytes = limit,
          tp_ratio = usage_ratio stats, tp_pressure_full = psi_avg10 (psi_full (sm_psi s))\<rparr>)"

definition trajectory_from :: "sample list \<Rightarrow> trajectory_point list" where
  "trajectory_from samples = foldl (\<lambda>points s. points @ [trajectory_point_from s]) [] samples"

definition victim_nspid_unambiguous :: "process list \<Rightarrow> int \<Rightarrow> bool" where
  "victim_nspid_unambiguous procs ns_pid =
     (if ns_pid = 0 then False
      else foldl (\<lambda>seen p. if p_nspid p = ns_pid then seen + 1 else seen) (0 :: int) procs = 1)"

definition match_victim :: "process \<Rightarrow> victim \<Rightarrow> bool \<Rightarrow> victim_match" where
  "match_victim p v ns_match =
     (if v_pid v \<noteq> 0 \<and> p_pid p = v_pid v then VictimMatchHostPID
      else if ns_match \<and> v_nspid v \<noteq> 0 \<and> p_nspid p = v_nspid v then VictimMatchNSPid
      else VictimMatchNone)"

definition snapshot_of :: "process \<Rightarrow> process_snapshot" where
  "snapshot_of p = \<lparr>ps_pid = p_pid p, ps_nspid = p_nspid p, ps_comm = p_comm p, ps_cmdline = p_cmdline p,
     ps_rss_bytes = p_rss_bytes p\<rparr>"

fun list_processes :: "victim \<Rightarrow> bool \<Rightarrow> process list \<Rightarrow> victim_match \<Rightarrow> process_snapshot list \<times> victim_match" where
  "list_processes v ns_match [] m = ([], m)"
| "list_processes v ns_match (p # ps) m =
     (let found = match_victim p v ns_match
      in if found \<noteq> VictimMatchNone \<and> m = VictimMatchNone
         then list_processes v ns_match ps found
         else (case list_processes v ns_match ps m of (out, m') \<Rightarrow> (snapshot_of p # out, m')))"

definition processes_from :: "process list \<Rightarrow> victim \<Rightarrow> process_snapshot list \<times> victim_match" where
  "processes_from procs v =
     list_processes v (victim_nspid_unambiguous procs (v_nspid v)) procs VictimMatchNone"

definition peak_ratio :: "report \<Rightarrow> f64" where
  "peak_ratio r =
     foldl (\<lambda>peak point. if f_lt peak (tp_ratio point) then tp_ratio point else peak) (FNum 0) (rp_trajectory r)"

definition report_window :: "report \<Rightarrow> duration" where
  "report_window r =
     (if length (rp_trajectory r) < 2 then 0
      else time_sub (tp_time (rp_trajectory r ! (length (rp_trajectory r) - 1))) (tp_time (rp_trajectory r ! 0)))"

subsection \<open>Trajectories\<close>

lemma trajectory_from_map: "trajectory_from samples = map trajectory_point_from samples"
proof -
  have "foldl (\<lambda>points s. points @ [trajectory_point_from s]) acc samples = acc @ map trajectory_point_from samples"
    for acc by (induction samples arbitrary: acc) simp_all
  then show ?thesis by (simp add: trajectory_from_def)
qed

definition unit_ratio :: "f64 \<Rightarrow> bool" where
  "unit_ratio x \<longleftrightarrow> (\<exists>q. x = FNum q \<and> 0 \<le> q \<and> q \<le> 1)"

lemma foldl_peak:
  assumes "unit_ratio a" "list_all (\<lambda>p. unit_ratio (tp_ratio p)) ps"
  defines "m \<equiv> foldl (\<lambda>peak p. if f_lt peak (tp_ratio p) then tp_ratio p else peak) a ps"
  shows "unit_ratio m \<and> (m = a \<or> m \<in> tp_ratio ` set ps) \<and> \<not> f_lt m a \<and> list_all (\<lambda>p. \<not> f_lt m (tp_ratio p)) ps"
  using assms(1,2) unfolding m_def
proof (induction ps arbitrary: a)
  case Nil
  then show ?case by (auto simp: unit_ratio_def)
next
  case (Cons p ps)
  define b where "b = (if f_lt a (tp_ratio p) then tp_ratio p else a)"
  define m where "m = foldl (\<lambda>peak p. if f_lt peak (tp_ratio p) then tp_ratio p else peak) b ps"
  have IH: "unit_ratio m \<and> (m = b \<or> m \<in> tp_ratio ` set ps) \<and> \<not> f_lt m b \<and> list_all (\<lambda>p. \<not> f_lt m (tp_ratio p)) ps"
    unfolding m_def using Cons.prems by (intro Cons.IH) (auto simp: b_def)
  obtain x y z where n: "m = FNum x" "a = FNum y" "tp_ratio p = FNum z"
    using IH Cons.prems by (auto simp: unit_ratio_def)
  have "\<not> f_lt (FNum x) b" using IH n(1) by simp
  then have "\<not> f_lt m a \<and> \<not> f_lt m (tp_ratio p)"
    by (auto simp: b_def n split: if_splits)
  then show ?case using IH by (auto simp: m_def b_def split: if_splits)
qed

subsection \<open>Listings\<close>

lemma foldl_count: "foldl (\<lambda>seen p. if p_nspid p = n then seen + 1 else seen) (k :: int) ps =
    k + int (length (filter (\<lambda>p. p_nspid p = n) ps))"
  by (induction ps arbitrary: k) auto

lemma unambiguous_iff:
  "victim_nspid_unambiguous ps n \<longleftrightarrow> n \<noteq> 0 \<and> length (filter (\<lambda>p. p_nspid p = n) ps) = 1"
  by (simp add: victim_nspid_unambiguous_def foldl_count)

lemma list_matched: "m \<noteq> VictimMatchNone \<Longrightarrow> list_processes v b ps m = (map snapshot_of ps, m)"
  by (induction ps) simp_all

lemma list_no_match:
  "\<forall>p \<in> set ps. match_victim p v b = VictimMatchNone \<Longrightarrow>
     list_processes v b ps VictimMatchNone = (map snapshot_of ps, VictimMatchNone)"
  by (induction ps) simp_all

lemma list_first_match:
  "\<forall>p \<in> set pre. match_victim p v b = VictimMatchNone \<Longrightarrow> match_victim p v b \<noteq> VictimMatchNone \<Longrightarrow>
     list_processes v b (pre @ p # post) VictimMatchNone = (map snapshot_of (pre @ post), match_victim p v b)"
  by (induction pre) (simp_all add: list_matched)

text \<open>The three ways a listing ends, by what its processes bear.\<close>

lemma host_pid_leaves:
  assumes "procs = pre @ p # post" "v_pid v \<noteq> 0" "p_pid p = v_pid v" "\<forall>q \<in> set pre. p_pid q \<noteq> v_pid v"
    and "v_nspid v = 0 \<or> p_nspid p = v_nspid v \<or> (\<forall>q \<in> set pre. p_nspid q \<noteq> v_nspid v)"
  shows "processes_from procs v = (map snapshot_of (pre @ post), VictimMatchHostPID)"
proof -
  let ?b = "victim_nspid_unambiguous procs (v_nspid v)"
  have "match_victim q v ?b = VictimMatchNone" if q: "q \<in> set pre" for q
  proof (cases "v_nspid v \<noteq> 0 \<and> p_nspid q = v_nspid v")
    case True
    then have "p_nspid p = v_nspid v" using assms(5) q by blast
    then have "\<not> ?b" using True q assms(1) by (auto simp: unambiguous_iff in_set_conv_decomp)
    then show ?thesis using assms(4) q by (simp add: match_victim_def)
  next
    case False
    then show ?thesis using assms(4) q by (auto simp: match_victim_def)
  qed
  moreover have "match_victim p v ?b = VictimMatchHostPID" using assms(2,3) by (simp add: match_victim_def)
  ultimately show ?thesis
    unfolding processes_from_def using list_first_match [of pre v ?b p post] by (simp add: assms(1))
qed

lemma nspid_leaves:
  assumes "v_pid v = 0 \<or> (\<forall>q \<in> set procs. p_pid q \<noteq> v_pid v)" "procs = pre @ p # post" "v_nspid v \<noteq> 0"
    and "p_nspid p = v_nspid v" "\<forall>q \<in> set (pre @ post). p_nspid q \<noteq> v_nspid v"
  shows "processes_from procs v = (map snapshot_of (pre @ post), VictimMatchNSPid)"
proof -
  have "filter (\<lambda>q. p_nspid q = v_nspid v) pre = []" "filter (\<lambda>q. p_nspid q = v_nspid v) post = []"
    using assms(5) by (simp_all add: filter_empty_conv)
  then have b: "victim_nspid_unambiguous procs (v_nspid v)" using assms(2-4) by (simp add: unambiguous_iff)
  have "\<forall>q \<in> set pre. match_victim q v True = VictimMatchNone"
    using assms(1,2,5) by (auto simp: match_victim_def)
  moreover have "match_victim p v True = VictimMatchNSPid" using assms(1-4) by (auto simp: match_victim_def)
  ultimately show ?thesis
    unfolding processes_from_def using b list_first_match [of pre v True p post] by (simp add: assms(2))
qed

lemma nobody_leaves:
  assumes "v_pid v = 0 \<or> (\<forall>q \<in> set procs. p_pid q \<noteq> v_pid v)"
    and "v_nspid v = 0 \<or> length (filter (\<lambda>q. p_nspid q = v_nspid v) procs) \<noteq> 1"
  shows "processes_from procs v = (map snapshot_of procs, VictimMatchNone)"
  unfolding processes_from_def
  by (rule list_no_match) (use assms in \<open>auto simp: match_victim_def unambiguous_iff\<close>)

subsection \<open>Properties\<close>

text \<open>C25: The process the kernel killed leaves the listing, and no other does. The first process
  that bears the victim's host PID is the one left out, every other one stays in order, and
  the match says so; it is enough that the two identifiers do not point at different
  processes, that is, that this process bears the victim's PID inside the container as well,
  or none listed before it does. When the listing shows no such host PID, as under a nested
  runtime, the one process that bears the victim's container PID is left out, and the match
  says that; and when no process bears it, or several do, nothing is left out and no match is
  claimed. Where the identifiers do contradict each other the earlier one wins
  (\<open>earlier_nspid_match_wins\<close> below), although the comments of the source call the host PID
  the authoritative one.\<close>

theorem victim_leaves_the_listing:
  "(\<forall>pre p post. procs = pre @ p # post \<longrightarrow> v_pid v \<noteq> 0 \<longrightarrow> p_pid p = v_pid v \<longrightarrow>
      (\<forall>q \<in> set pre. p_pid q \<noteq> v_pid v) \<longrightarrow>
      v_nspid v = 0 \<or> p_nspid p = v_nspid v \<or> (\<forall>q \<in> set pre. p_nspid q \<noteq> v_nspid v) \<longrightarrow>
      processes_from procs v = (map snapshot_of (pre @ post), VictimMatchHostPID)) \<and>
   (v_pid v = 0 \<or> (\<forall>q \<in> set procs. p_pid q \<noteq> v_pid v) \<longrightarrow>
      (\<forall>pre p post. procs = pre @ p # post \<longrightarrow> v_nspid v \<noteq> 0 \<longrightarrow> p_nspid p = v_nspid v \<longrightarrow>
         (\<forall>q \<in> set (pre @ post). p_nspid q \<noteq> v_nspid v) \<longrightarrow>
         processes_from procs v = (map snapshot_of (pre @ post), VictimMatchNSPid)) \<and>
      (v_nspid v = 0 \<or> length (filter (\<lambda>q. p_nspid q = v_nspid v) procs) \<noteq> 1 \<longrightarrow>
         processes_from procs v = (map snapshot_of procs, VictimMatchNone)))"
  by (intro conjI allI impI)
    ((rule host_pid_leaves; assumption) | (rule nspid_leaves; assumption) | (rule nobody_leaves; assumption))+

theorem victim_leaves_the_listing_witness:
  "processes_from [demo_process 12 900, (demo_process 40 100)\<lparr>p_nspid := 7\<rparr>, demo_process 41 50]
      (victim_zero\<lparr>v_pid := 40, v_nspid := 7, v_known := True\<rparr>) =
    ([snapshot_of (demo_process 12 900), snapshot_of (demo_process 41 50)], VictimMatchHostPID) \<and>
   processes_from [demo_process 12 900, (demo_process 40 100)\<lparr>p_nspid := 7\<rparr>, demo_process 41 50]
      (victim_zero\<lparr>v_pid := 1397320, v_nspid := 7, v_known := True\<rparr>) =
    ([snapshot_of (demo_process 12 900), snapshot_of (demo_process 41 50)], VictimMatchNSPid) \<and>
   processes_from [demo_process 12 900, (demo_process 40 100)\<lparr>p_nspid := 7\<rparr>, (demo_process 41 50)\<lparr>p_nspid := 7\<rparr>]
      (victim_zero\<lparr>v_pid := 1397320, v_nspid := 7, v_known := True\<rparr>) =
    ([snapshot_of (demo_process 12 900), snapshot_of ((demo_process 40 100)\<lparr>p_nspid := 7\<rparr>),
      snapshot_of ((demo_process 41 50)\<lparr>p_nspid := 7\<rparr>)], VictimMatchNone)"
proof (intro conjI)
  let ?a = "demo_process 12 900" and ?b = "(demo_process 40 100)\<lparr>p_nspid := 7\<rparr>" and ?c = "demo_process 41 50"
  let ?v = "victim_zero\<lparr>v_pid := 40, v_nspid := 7, v_known := True\<rparr>"
    and ?w = "victim_zero\<lparr>v_pid := 1397320, v_nspid := 7, v_known := True\<rparr>"
  show "processes_from [?a, ?b, ?c] ?v = ([snapshot_of ?a, snapshot_of ?c], VictimMatchHostPID)"
    using victim_leaves_the_listing [of "[?a, ?b, ?c]" ?v, THEN conjunct1, rule_format, of "[?a]" ?b "[?c]"]
    by (simp add: demo_process_def victim_zero_def)
  have "processes_from [?a, ?b, ?c] ?w = (map snapshot_of ([?a] @ [?c]), VictimMatchNSPid)"
    by (rule victim_leaves_the_listing [of "[?a, ?b, ?c]" ?w, THEN conjunct2, THEN mp, THEN conjunct1, rule_format,
        of "[?a]" ?b "[?c]"]) (auto simp: demo_process_def victim_zero_def)
  then show "processes_from [?a, ?b, ?c] ?w = ([snapshot_of ?a, snapshot_of ?c], VictimMatchNSPid)" by simp
  show "processes_from [?a, ?b, ?c\<lparr>p_nspid := 7\<rparr>] ?w =
      ([snapshot_of ?a, snapshot_of ?b, snapshot_of (?c\<lparr>p_nspid := 7\<rparr>)], VictimMatchNone)"
    using victim_leaves_the_listing [of "[?a, ?b, ?c\<lparr>p_nspid := 7\<rparr>]" ?w, THEN conjunct2, THEN mp, THEN conjunct2, THEN mp]
    by (simp add: demo_process_def victim_zero_def)
qed

text \<open>The host PID is not preferred over the PID inside the container: the first match in the
  order of the listing wins. When the process the second identifier points at is listed
  before the one the first points at, it is left out and the process with the victim's host
  PID stays in the report.\<close>

theorem earlier_nspid_match_wins:
  assumes "filter (\<lambda>q. p_nspid q = v_nspid v) (p # mid @ q # post) = [p]" "v_nspid v \<noteq> 0"
    and "p_pid p \<noteq> v_pid v" "p_pid q = v_pid v"
  shows "processes_from (p # mid @ q # post) v = (map snapshot_of (mid @ q # post), VictimMatchNSPid)"
proof -
  have u: "victim_nspid_unambiguous (p # mid @ q # post) (v_nspid v)"
    using assms(1,2) by (simp add: unambiguous_iff del: filter.simps)
  have "p \<in> set (filter (\<lambda>q. p_nspid q = v_nspid v) (p # mid @ q # post))" unfolding assms(1) by simp
  then have "p_nspid p = v_nspid v" unfolding set_filter by simp
  then have "match_victim p v True = VictimMatchNSPid" using assms(2,3) by (simp add: match_victim_def)
  then show ?thesis
    using list_first_match [of "[]" v True p "mid @ q # post"] u by (simp add: processes_from_def del: filter.simps)
qed

theorem earlier_nspid_match_wins_witness:
  "processes_from [(demo_process 12 900)\<lparr>p_nspid := 1\<rparr>, (demo_process 40 100)\<lparr>p_nspid := 8\<rparr>]
      (victim_zero\<lparr>v_pid := 40, v_nspid := 1, v_known := True\<rparr>) =
    ([snapshot_of ((demo_process 40 100)\<lparr>p_nspid := 8\<rparr>)], VictimMatchNSPid)"
  using earlier_nspid_match_wins [of "victim_zero\<lparr>v_pid := 40, v_nspid := 1, v_known := True\<rparr>"
    "(demo_process 12 900)\<lparr>p_nspid := 1\<rparr>" "[]" "(demo_process 40 100)\<lparr>p_nspid := 8\<rparr>" "[]"]
  by (simp add: demo_process_def victim_zero_def)

text \<open>The trajectory of a report has one point per sample, in order, and every ratio in it and
  the peak drawn from it is a number from 0 to 1; the peak is no less than any of them.\<close>

theorem trajectory_peak_is_its_maximum:
  "let ps = trajectory_from samples; peak = peak_ratio (r\<lparr>rp_trajectory := ps\<rparr>)
   in map tp_time ps = map sm_time samples \<and>
      map tp_used_bytes ps = map (\<lambda>s. ms_current (sm_stats s)) samples \<and>
      unit_ratio peak \<and> (peak = FNum 0 \<or> peak \<in> tp_ratio ` set ps) \<and>
      list_all (\<lambda>p. unit_ratio (tp_ratio p) \<and> \<not> f_lt peak (tp_ratio p)) ps"
proof -
  define ps where "ps = trajectory_from samples"
  define peak where "peak = peak_ratio (r\<lparr>rp_trajectory := ps\<rparr>)"
  have u: "list_all (\<lambda>p. unit_ratio (tp_ratio p)) ps"
    using usage_ratio_range
    by (simp add: ps_def trajectory_from_map trajectory_point_from_def Let_def unit_ratio_def list_all_iff)
  have "unit_ratio (FNum 0)" by (simp add: unit_ratio_def)
  note pk = foldl_peak [OF this u]
  have "peak = foldl (\<lambda>peak p. if f_lt peak (tp_ratio p) then tp_ratio p else peak) (FNum 0) ps"
    by (simp add: peak_def peak_ratio_def)
  moreover have "map tp_time ps = map sm_time samples"
    "map tp_used_bytes ps = map (\<lambda>s. ms_current (sm_stats s)) samples"
    by (simp_all add: ps_def trajectory_from_map trajectory_point_from_def Let_def)
  ultimately show ?thesis
    using pk u unfolding ps_def [symmetric] Let_def peak_def [symmetric] by (simp add: list_all_iff)
qed

end
