(* ===== verification/ReportStore.thy ===== *)
theory ReportStore
  imports OomReport BoundedHistory
begin

section \<open>The report store\<close>

text \<open>
  Models \<open>src/internal/store/store.go\<close>: the bounded store of reports with its index from
  report IDs to positions. Its methods hold a lock for their whole body, so each is one step.
  It is a \<open>keyed_history\<close>: additions under a new ID push the oldest report out, an addition
  under a known ID replaces the report in place.
\<close>

record report_filter =
  rf_namespace :: string
  rf_pod :: string
  rf_container :: string
  rf_limit :: int

definition filter_matches :: "report_filter \<Rightarrow> report \<Rightarrow> bool" where
  "filter_matches f r =
     (if rf_namespace f \<noteq> [] \<and> id_namespace (rp_identity r) \<noteq> rf_namespace f then False
      else if rf_pod f \<noteq> [] \<and> id_pod_name (rp_identity r) \<noteq> rf_pod f then False
      else if rf_container f \<noteq> [] \<and> id_container_name (rp_identity r) \<noteq> rf_container f then False
      else True)"

definition default_capacity :: int where
  "default_capacity = 256"

record memory_store =
  mm_capacity :: int
  mm_ordered :: "report list"
  mm_by_id :: "(string, nat) gomap"

definition new_memory :: "int \<Rightarrow> memory_store" where
  "new_memory capacity =
     \<lparr>mm_capacity = (if capacity \<le> 0 then default_capacity else capacity), mm_ordered = [], mm_by_id = []\<rparr>"

definition reindex :: "memory_store \<Rightarrow> memory_store" where
  "reindex m = m\<lparr>mm_by_id :=
     foldl (\<lambda>by_id i. map_put (rp_id (mm_ordered m ! i)) i by_id) [] [0..<length (mm_ordered m)]\<rparr>"

text \<open>An index out of range would panic in Go; \<open>store_ok\<close> below rules it out.\<close>

definition store_put :: "report \<Rightarrow> memory_store \<Rightarrow> memory_store" where
  "store_put r m =
     (case map_get (mm_by_id m) (rp_id r) of
        Some i \<Rightarrow> m\<lparr>mm_ordered := (mm_ordered m)[i := r]\<rparr>
      | None \<Rightarrow>
          (let m1 = (if mm_capacity m \<le> int (length (mm_ordered m))
                     then reindex (m\<lparr>mm_ordered := tl (mm_ordered m)\<rparr>) else m);
               m2 = m1\<lparr>mm_ordered := mm_ordered m1 @ [r]\<rparr>
           in m2\<lparr>mm_by_id := map_put (rp_id r) (length (mm_ordered m2) - 1) (mm_by_id m2)\<rparr>))"

definition store_get :: "string \<Rightarrow> memory_store \<Rightarrow> err + report" where
  "store_get i m =
     (case map_get (mm_by_id m) i of
        None \<Rightarrow> Inl EReportNotFound
      | Some n \<Rightarrow> Inr (mm_ordered m ! n))"

definition store_list :: "report_filter \<Rightarrow> memory_store \<Rightarrow> report list" where
  "store_list f m =
     (let matched = rev (filter (filter_matches f) (mm_ordered m))
      in if 0 < rf_limit f \<and> rf_limit f < int (length matched) then take (nat (rf_limit f)) matched else matched)"

definition store_len :: "memory_store \<Rightarrow> nat" where
  "store_len m = length (mm_ordered m)"

subsection \<open>The index is exact\<close>

definition ids :: "memory_store \<Rightarrow> string list" where
  "ids m = map rp_id (mm_ordered m)"

definition index_exact :: "memory_store \<Rightarrow> bool" where
  "index_exact m \<longleftrightarrow>
     (\<forall>i n. map_get (mm_by_id m) i = Some n \<longleftrightarrow> n < length (mm_ordered m) \<and> rp_id (mm_ordered m ! n) = i)"

definition store_ok :: "memory_store \<Rightarrow> bool" where
  "store_ok m \<longleftrightarrow> 0 < mm_capacity m \<and> int (length (mm_ordered m)) \<le> mm_capacity m \<and>
     distinct (ids m) \<and> index_exact m"

lemma store_ok_new: "store_ok (new_memory c)"
  by (simp add: store_ok_def new_memory_def ids_def index_exact_def default_capacity_def)

lemma reindex_fold:
  assumes "distinct (map rp_id xs)" "k \<le> length xs"
  shows "map_get (foldl (\<lambda>by_id i. map_put (rp_id (xs ! i)) i by_id) [] [0..<k]) i = Some n \<longleftrightarrow>
    n < k \<and> rp_id (xs ! n) = i"
  using assms(2)
proof (induction k)
  case (Suc k)
  have "rp_id (xs ! k) = rp_id (xs ! n) \<longleftrightarrow> k = n" if "n < Suc k"
    using that Suc.prems assms(1) nth_eq_iff_index_eq [OF assms(1), of k n] by simp
  then show ?case using Suc by (auto simp: less_Suc_eq)
qed simp

lemma reindex_exact: "distinct (ids m) \<Longrightarrow> index_exact (reindex m)"
  by (simp add: index_exact_def reindex_def ids_def reindex_fold)

lemma known_iff:
  assumes "index_exact m"
  shows "map_get (mm_by_id m) i = None \<longleftrightarrow> i \<notin> set (ids m)"
proof -
  have "map_get (mm_by_id m) i \<noteq> None \<longleftrightarrow> (\<exists>n. map_get (mm_by_id m) i = Some n)" by auto
  also have "\<dots> \<longleftrightarrow> (\<exists>n < length (mm_ordered m). rp_id (mm_ordered m ! n) = i)"
    using assms by (auto simp: index_exact_def)
  also have "\<dots> \<longleftrightarrow> i \<in> set (ids m)"
    by (auto simp: ids_def in_set_conv_nth image_iff) (metis nth_mem)
  finally show ?thesis by blast
qed

lemma index_exact_snoc:
  assumes "index_exact m" "rp_id r \<notin> set (ids m)"
  shows "index_exact (m\<lparr>mm_ordered := mm_ordered m @ [r],
    mm_by_id := map_put (rp_id r) (length (mm_ordered m)) (mm_by_id m)\<rparr>)"
proof -
  have "rp_id (mm_ordered m ! n) \<noteq> rp_id r" if "n < length (mm_ordered m)" for n
    using assms(2) that by (metis ids_def length_map nth_map nth_mem)
  then show ?thesis
    using assms(1) by (auto simp: index_exact_def nth_append less_Suc_eq)
qed

text \<open>What is kept of the old reports when one with a new ID comes in.\<close>

definition kept :: "memory_store \<Rightarrow> report list" where
  "kept m = (if mm_capacity m \<le> int (length (mm_ordered m)) then tl (mm_ordered m) else mm_ordered m)"

lemma kept_ids: "set (map rp_id (kept m)) \<subseteq> set (ids m)"
  by (cases "mm_ordered m") (auto simp: kept_def ids_def)

lemma kept_distinct: "distinct (ids m) \<Longrightarrow> distinct (map rp_id (kept m))"
  by (cases "mm_ordered m") (auto simp: kept_def ids_def)

lemma store_put_new:
  assumes "store_ok m" "rp_id r \<notin> set (ids m)"
  shows "mm_ordered (store_put r m) = kept m @ [r] \<and> store_ok (store_put r m) \<and>
    mm_capacity (store_put r m) = mm_capacity m"
proof -
  define m1 where "m1 = (if mm_capacity m \<le> int (length (mm_ordered m))
    then reindex (m\<lparr>mm_ordered := tl (mm_ordered m)\<rparr>) else m)"
  have none: "map_get (mm_by_id m) (rp_id r) = None"
    using assms by (simp add: store_ok_def known_iff)
  have o: "mm_ordered m1 = kept m" "mm_capacity m1 = mm_capacity m"
    by (simp_all add: m1_def kept_def reindex_def)
  have d: "distinct (ids m)" using assms(1) by (simp add: store_ok_def)
  have i1: "ids m1 = map rp_id (kept m)" by (simp add: ids_def o)
  have "index_exact m1"
  proof (cases "mm_capacity m \<le> int (length (mm_ordered m))")
    case True
    have "distinct (ids (m\<lparr>mm_ordered := tl (mm_ordered m)\<rparr>))"
      using kept_distinct [OF d] True by (simp add: ids_def kept_def)
    then show ?thesis using True by (simp add: m1_def reindex_exact)
  next
    case False
    then show ?thesis using assms(1) by (simp add: m1_def store_ok_def)
  qed
  moreover have fresh: "rp_id r \<notin> set (ids m1)"
    using assms(2) kept_ids [of m] unfolding i1 by blast
  ultimately have ix: "index_exact (m1\<lparr>mm_ordered := mm_ordered m1 @ [r],
      mm_by_id := map_put (rp_id r) (length (mm_ordered m1)) (mm_by_id m1)\<rparr>)"
    by (rule index_exact_snoc)
  have put: "store_put r m = m1\<lparr>mm_ordered := mm_ordered m1 @ [r],
      mm_by_id := map_put (rp_id r) (length (mm_ordered m1)) (mm_by_id m1)\<rparr>"
    unfolding store_put_def none option.case m1_def [symmetric] Let_def by simp
  have "int (length (kept m)) < mm_capacity m"
    using assms(1) by (auto simp: kept_def store_ok_def)
  moreover have "distinct (map rp_id (kept m) @ [rp_id r])"
    using fresh kept_distinct [OF d] by (simp add: i1)
  moreover have "ids (store_put r m) = map rp_id (kept m) @ [rp_id r]" by (simp add: put ids_def o)
  moreover have "mm_ordered (store_put r m) = kept m @ [r]" "mm_capacity (store_put r m) = mm_capacity m"
    by (simp_all add: put o)
  moreover have "index_exact (store_put r m)" using ix by (simp only: put)
  moreover have "0 < mm_capacity m" using assms(1) by (simp add: store_ok_def)
  ultimately show ?thesis by (simp add: store_ok_def)
qed

lemma store_put_known:
  assumes "store_ok m" "n < length (mm_ordered m)" "rp_id (mm_ordered m ! n) = rp_id r"
  shows "mm_ordered (store_put r m) = (mm_ordered m)[n := r] \<and> store_ok (store_put r m) \<and>
    mm_capacity (store_put r m) = mm_capacity m \<and> mm_by_id (store_put r m) = mm_by_id m"
proof -
  have "map_get (mm_by_id m) (rp_id r) = Some n"
    using assms by (simp add: store_ok_def index_exact_def)
  then have put: "store_put r m = m\<lparr>mm_ordered := (mm_ordered m)[n := r]\<rparr>"
    by (simp add: store_put_def)
  have same: "map rp_id ((mm_ordered m)[n := r]) = ids m"
    using assms(2,3) by (simp add: ids_def map_update) (metis assms(3) list_update_id map_update)
  have "index_exact (m\<lparr>mm_ordered := (mm_ordered m)[n := r]\<rparr>)"
    using assms by (auto simp: store_ok_def index_exact_def nth_list_update)
  then show ?thesis using put same assms(1) by (simp add: store_ok_def ids_def)
qed

lemma store_put_ok: "store_ok m \<Longrightarrow> store_ok (store_put r m) \<and> mm_capacity (store_put r m) = mm_capacity m"
  using store_put_new store_put_known by (metis ids_def in_set_conv_nth length_map nth_map)

interpretation reports: keyed_history "\<lambda>m. nat (mm_capacity m)" mm_ordered store_put store_ok
  "\<lambda>r m. rp_id r \<notin> set (ids m)"
proof unfold_locales
  fix m r
  assume ok: "store_ok m"
  show "store_ok (store_put r m)" "nat (mm_capacity (store_put r m)) = nat (mm_capacity m)"
    using store_put_ok [OF ok] by auto
  show "0 < nat (mm_capacity m)" "length (mm_ordered m) \<le> nat (mm_capacity m)"
    using ok by (auto simp: store_ok_def)
  assume "rp_id r \<notin> set (ids m)"
  then have "mm_ordered (store_put r m) = kept m @ [r]" using store_put_new [OF ok] by simp
  also have "\<dots> = keep_last (nat (mm_capacity m)) (mm_ordered m @ [r])"
  proof (cases "mm_capacity m \<le> int (length (mm_ordered m))")
    case True
    then have "length (mm_ordered m) = nat (mm_capacity m)" "0 < nat (mm_capacity m)"
      using ok by (auto simp: store_ok_def)
    then show ?thesis using True by (simp add: kept_def keep_last_Suc_full)
  next
    case False
    then show ?thesis by (simp add: kept_def)
  qed
  finally show "mm_ordered (store_put r m) = keep_last (nat (mm_capacity m)) (mm_ordered m @ [r])" .
qed

lemma store_get_iff:
  "store_ok m \<Longrightarrow> store_get i m = Inr r \<longleftrightarrow> r \<in> set (mm_ordered m) \<and> rp_id r = i"
proof -
  assume ok: "store_ok m"
  then have ix: "index_exact m" and d: "distinct (map rp_id (mm_ordered m))"
    by (simp_all add: store_ok_def ids_def)
  have "store_get i m = Inr r \<longleftrightarrow> (\<exists>n. map_get (mm_by_id m) i = Some n \<and> mm_ordered m ! n = r)"
    by (auto simp: store_get_def split: option.split)
  then show ?thesis using ix by (auto simp: index_exact_def in_set_conv_nth)
qed

lemma store_get_missing: "store_ok m \<Longrightarrow> store_get i m = Inl EReportNotFound \<longleftrightarrow> i \<notin> set (ids m)"
  by (auto simp: store_get_def store_ok_def simp flip: known_iff split: option.split)

lemma fresh_reports:
  "store_ok m \<Longrightarrow> distinct (map rp_id rs) \<Longrightarrow> set (map rp_id rs) \<inter> set (ids m) = {} \<Longrightarrow>
     fresh_all (\<lambda>r m. rp_id r \<notin> set (ids m)) store_put rs m"
proof (induction rs arbitrary: m)
  case (Cons r rs)
  have fresh: "rp_id r \<notin> set (ids m)" using Cons.prems(3) by auto
  have sub: "set (ids (store_put r m)) \<subseteq> insert (rp_id r) (set (ids m))"
    using store_put_new [OF Cons.prems(1) fresh] kept_ids [of m] by (auto simp: ids_def)
  have "rp_id r \<notin> set (map rp_id rs)" "set (map rp_id rs) \<inter> set (ids m) = {}"
    using Cons.prems(2,3) by auto
  then have "set (map rp_id rs) \<inter> set (ids (store_put r m)) = {}" using sub by blast
  then show ?case
    using Cons.IH [of "store_put r m"] Cons.prems(2) store_put_ok [OF Cons.prems(1)] fresh by simp
qed simp

subsection \<open>Properties\<close>

text \<open>C17: The store holds the newest reports. After any reports with different IDs were put into a
  new store it holds exactly the last ones up to its capacity: each can be fetched by its ID,
  every other ID is answered with "not found", and a listing is those that match, newest
  first, cut to the requested number.\<close>

theorem store_holds_newest_reports:
  assumes "distinct (map rp_id rs)"
  shows "let m = fold store_put rs (new_memory c); held = keep_last (nat (if c \<le> 0 then 256 else c)) rs
    in (\<forall>i r. store_get i m = Inr r \<longleftrightarrow> r \<in> set held \<and> rp_id r = i) \<and>
       (\<forall>i. store_get i m = Inl EReportNotFound \<longleftrightarrow> i \<notin> rp_id ` set held) \<and>
       (\<forall>f. store_list f m = (let found = rev (filter (filter_matches f) held)
          in if 0 < rf_limit f then take (nat (rf_limit f)) found else found)) \<and>
       store_len m = min (nat (if c \<le> 0 then 256 else c)) (length rs)"
proof -
  define m where "m = fold store_put rs (new_memory c)"
  define n where "n = nat (if c \<le> 0 then 256 else c)"
  have new: "store_ok (new_memory c)" "ids (new_memory c) = []" "mm_ordered (new_memory c) = []"
    "nat (mm_capacity (new_memory c)) = n"
    by (auto simp: store_ok_new n_def) (simp_all add: new_memory_def ids_def default_capacity_def n_def)
  have held: "mm_ordered m = keep_last n rs"
    using reports.add_fresh_all [OF new(1) fresh_reports [OF new(1) assms]] new by (simp add: m_def)
  have ok: "store_ok m" using reports.inv_all [OF new(1), of rs] by (simp add: m_def)
  have "store_list f m = (let found = rev (filter (filter_matches f) (keep_last n rs))
      in if 0 < rf_limit f then take (nat (rf_limit f)) found else found)" for f
    by (auto simp: store_list_def held Let_def)
  moreover have "store_len m = min n (length rs)" by (simp add: store_len_def held)
  ultimately show ?thesis
    unfolding m_def [symmetric] n_def [symmetric] Let_def
    using store_get_iff [OF ok] store_get_missing [OF ok] by (simp add: held ids_def)
qed

theorem store_holds_newest_reports_witness:
  "let m = fold store_put [report_zero\<lparr>rp_id := ''a''\<rparr>, report_zero\<lparr>rp_id := ''b''\<rparr>, report_zero\<lparr>rp_id := ''c''\<rparr>]
       (new_memory 2)
   in store_get ''a'' m = Inl EReportNotFound \<and> store_get ''c'' m = Inr (report_zero\<lparr>rp_id := ''c''\<rparr>)"
proof -
  let ?rs = "[report_zero\<lparr>rp_id := ''a''\<rparr>, report_zero\<lparr>rp_id := ''b''\<rparr>, report_zero\<lparr>rp_id := ''c''\<rparr>]"
  have h: "keep_last (nat (if (2 :: int) \<le> 0 then 256 else 2)) ?rs =
      [report_zero\<lparr>rp_id := ''b''\<rparr>, report_zero\<lparr>rp_id := ''c''\<rparr>]"
    by (simp add: keep_last_def)
  have "distinct (map rp_id ?rs)" by simp
  then show ?thesis
    using store_holds_newest_reports [of ?rs 2] unfolding h Let_def by simp
qed

text \<open>A report put again under its ID takes the place of the old one: it is what a fetch returns
  from then on, no other report is lost or moved, and the order of the listing stays.\<close>

theorem store_replaces_in_place:
  assumes "store_ok m" "store_get (rp_id r) m = Inr old"
  shows "store_get (rp_id r) (store_put r m) = Inr r \<and>
    (\<forall>i. i \<noteq> rp_id r \<longrightarrow> store_get i (store_put r m) = store_get i m) \<and>
    map rp_id (mm_ordered (store_put r m)) = map rp_id (mm_ordered m)"
proof -
  obtain n where n: "n < length (mm_ordered m)" "rp_id (mm_ordered m ! n) = rp_id r"
    using assms store_get_iff by (metis in_set_conv_nth)
  note put = store_put_known [OF assms(1) n]
  then have by_id: "mm_by_id (store_put r m) = mm_by_id m" by simp
  have "store_get (rp_id r) (store_put r m) = Inr r"
    using store_get_iff [of "store_put r m" "rp_id r" r] put n(1) set_update_memI [of n "mm_ordered m" r] by simp
  moreover have "store_get i (store_put r m) = store_get i m" if "i \<noteq> rp_id r" for i
  proof (cases "map_get (mm_by_id m) i")
    case None
    then show ?thesis by (simp add: store_get_def by_id)
  next
    case (Some k)
    then have "k \<noteq> n" using assms(1) n(2) that by (auto simp: store_ok_def index_exact_def)
    then show ?thesis using Some put by (simp add: store_get_def by_id)
  qed
  moreover have "map rp_id ((mm_ordered m)[n := r]) = map rp_id (mm_ordered m)"
    using n(2) by (metis list_update_id map_update)
  ultimately show ?thesis using put by auto
qed

theorem store_replaces_in_place_witness:
  "store_get ''a'' (store_put (report_zero\<lparr>rp_id := ''a'', rp_kill_count := 2\<rparr>)
      (store_put (report_zero\<lparr>rp_id := ''a''\<rparr>) (new_memory 2))) =
    Inr (report_zero\<lparr>rp_id := ''a'', rp_kill_count := 2\<rparr>)"
proof -
  let ?m = "store_put (report_zero\<lparr>rp_id := ''a''\<rparr>) (new_memory 2)"
  have "store_ok ?m" using store_put_ok [OF store_ok_new] by blast
  moreover have "store_get ''a'' ?m = Inr (report_zero\<lparr>rp_id := ''a''\<rparr>)"
    by (simp add: store_put_def new_memory_def store_get_def Let_def)
  ultimately show ?thesis
    using store_replaces_in_place [of ?m "report_zero\<lparr>rp_id := ''a'', rp_kill_count := 2\<rparr>"] by simp
qed

end
