(* ===== verification/PodCache.thy ===== *)
theory PodCache
  imports Resolver
begin

section \<open>The pod cache\<close>

text \<open>
  Models \<open>src/internal/k8s/podcache.go\<close> and \<open>config.go\<close>, the node name and the credentials: the two
  maps behind the pod lookup, the handlers the informer calls, and the grace period of
  deleted pods. The informer itself belongs to client-go: what it delivers is the argument of
  the handlers, and whether the initial list completed in time that of \<open>wait_for_sync\<close>. Of a
  pod object only the fields the code reads are kept. Each handler holds the lock.
\<close>

record container_status =
  ks_name :: string
  ks_image :: string
  ks_container_id :: string
  ks_last_terminated :: "string option"

record k8s_pod =
  kp_uid :: string
  kp_namespace :: string
  kp_name :: string
  kp_node_name :: string
  kp_container_statuses :: "container_status list"
  kp_init_statuses :: "container_status list"
  kp_ephemeral_statuses :: "container_status list"
  kp_managed_fields :: "string list"
  kp_annotations :: "(string, string) gomap"

text \<open>What a handler may be given; the object in a tombstone need not be a pod either.\<close>

datatype k8s_obj = PodObj k8s_pod | Tombstone "k8s_pod option" | OtherObj

definition default_resync :: duration where
  "default_resync = 600 * second"

definition default_grace :: duration where
  "default_grace = 300 * second"

definition default_sync_timeout :: duration where
  "default_sync_timeout = 10 * second"

text \<open>What the caller asks for, and what client-go answers to \<open>SetTransform\<close> and \<open>AddEventHandler\<close>,
  which the constructor calls on the new informer.\<close>

record cache_options =
  ko_has_client :: bool
  ko_node :: string
  ko_resync :: duration
  ko_grace :: duration
  ko_transform_err :: "err option"
  ko_handler_err :: "err option"

record burial =
  bu_pod :: pod_info
  bu_expires :: time

record pod_cache =
  pc_node :: string
  pc_resync :: duration
  pc_grace :: duration
  pc_live :: "(string, pod_info) gomap"
  pc_buried :: "(string, burial) gomap"
  pc_synced :: bool

definition new_pod_cache :: "cache_options \<Rightarrow> err + pod_cache" where
  "new_pod_cache opts =
     (if \<not> ko_has_client opts then Inl (EMsg ''pod cache requires a kubernetes client'')
      else if ko_node opts = [] then Inl (EMsg ''pod cache requires a node name'')
      else case ko_transform_err opts of
             Some e \<Rightarrow> Inl e
           | None \<Rightarrow>
               (case ko_handler_err opts of
                  Some e \<Rightarrow> Inl e
                | None \<Rightarrow>
                    Inr \<lparr>pc_node = ko_node opts,
                      pc_resync = (if ko_resync opts = 0 then default_resync else ko_resync opts),
                      pc_grace = (if ko_grace opts = 0 then default_grace else ko_grace opts),
                      pc_live = [], pc_buried = [], pc_synced = False\<rparr>))"

definition wait_for_sync :: "bool \<Rightarrow> pod_cache \<Rightarrow> err option \<times> pod_cache" where
  "wait_for_sync has_synced c =
     (if \<not> has_synced then (Some (EMsg ''pod cache did not sync''), c)
      else (None, c\<lparr>pc_synced := True\<rparr>))"

definition cache_lookup :: "time \<Rightarrow> pod_cache \<Rightarrow> pod_lookup" where
  "cache_lookup now c uid =
     (case map_get (pc_live c) uid of
        Some pod \<Rightarrow> Some pod
      | None \<Rightarrow>
          (case map_get (pc_buried c) uid of
             Some grave \<Rightarrow> if \<not> bu_expires grave < now then Some (bu_pod grave) else None
           | None \<Rightarrow> None))"

definition cache_len :: "pod_cache \<Rightarrow> nat" where
  "cache_len c = length (map_keys (pc_live c))"

definition add_container :: "string \<Rightarrow> string \<Rightarrow> string \<Rightarrow> pod_info \<Rightarrow> pod_info" where
  "add_container name img cid info =
     (if cid = [] then info
      else info\<lparr>pi_containers := map_put (strip_runtime_prefix cid) \<lparr>ci_name = name, ci_image = img\<rparr>
             (pi_containers info)\<rparr>)"

definition add_status :: "container_status \<Rightarrow> pod_info \<Rightarrow> pod_info" where
  "add_status st info =
     (let info = add_container (ks_name st) (ks_image st) (ks_container_id st) info
      in case ks_last_terminated st of
           None \<Rightarrow> info
         | Some cid \<Rightarrow> add_container (ks_name st) (ks_image st) cid info)"

definition pod_info_from :: "k8s_pod \<Rightarrow> pod_info" where
  "pod_info_from pod =
     fold add_status (kp_container_statuses pod @ kp_init_statuses pod @ kp_ephemeral_statuses pod)
       \<lparr>pi_namespace = kp_namespace pod, pi_name = kp_name pod, pi_node = kp_node_name pod, pi_containers = []\<rparr>"

definition upsert :: "k8s_obj \<Rightarrow> pod_cache \<Rightarrow> pod_cache" where
  "upsert obj c =
     (case obj of
        PodObj pod \<Rightarrow>
          c\<lparr>pc_live := map_put (kp_uid pod) (pod_info_from pod) (pc_live c),
            pc_buried := map_del (kp_uid pod) (pc_buried c)\<rparr>
      | _ \<Rightarrow> c)"

definition sweep_step :: "time \<Rightarrow> string \<Rightarrow> pod_cache \<Rightarrow> pod_cache" where
  "sweep_step now uid c =
     (case map_get (pc_buried c) uid of
        Some grave \<Rightarrow> if bu_expires grave < now then c\<lparr>pc_buried := map_del uid (pc_buried c)\<rparr> else c
      | None \<Rightarrow> c)"

definition sweep :: "time \<Rightarrow> pod_cache \<Rightarrow> pod_cache" where
  "sweep now c = fold (sweep_step now) (map_keys (pc_buried c)) c"

definition removed_pod :: "k8s_obj \<Rightarrow> k8s_pod option" where
  "removed_pod obj = (case obj of PodObj pod \<Rightarrow> Some pod | Tombstone pod \<Rightarrow> pod | OtherObj \<Rightarrow> None)"

text \<open>The clock is read twice: for the expiry, and again by the sweep.\<close>

definition remove_pod :: "k8s_obj \<Rightarrow> time \<Rightarrow> time \<Rightarrow> pod_cache \<Rightarrow> pod_cache" where
  "remove_pod obj now later c =
     (case removed_pod obj of
        None \<Rightarrow> c
      | Some pod \<Rightarrow>
          (let uid = kp_uid pod;
               info = (case map_get (pc_live c) uid of Some i \<Rightarrow> i | None \<Rightarrow> pod_info_from pod)
           in sweep later (c\<lparr>pc_live := map_del uid (pc_live c),
                pc_buried := map_put uid \<lparr>bu_pod = info, bu_expires = now + pc_grace c\<rparr> (pc_buried c)\<rparr>)))"

definition last_applied :: string where
  "last_applied = ''kubectl.kubernetes.io/last-applied-configuration''"

definition trim_pod :: "k8s_obj \<Rightarrow> k8s_obj" where
  "trim_pod obj =
     (case obj of
        PodObj pod \<Rightarrow> PodObj (pod\<lparr>kp_managed_fields := [],
          kp_annotations := map_del last_applied (kp_annotations pod)\<rparr>)
      | _ \<Rightarrow> obj)"

text \<open>\<open>env\<close> is the value of the \<open>NODE_NAME\<close> variable, empty when it is not set.\<close>

definition node_name :: "string \<Rightarrow> string \<Rightarrow> err + string" where
  "node_name flag env =
     (if flag \<noteq> [] then Inr flag
      else if env \<noteq> [] then Inr env
      else Inl (EMsg ''node name is unknown''))"

text \<open>
  Credentials for the API server. Of a configuration the fields are kept that the code sets, and
  the address. client-go reads it: \<open>kr_in_cluster\<close> is the answer of \<open>rest.InClusterConfig\<close>,
  \<open>kr_is_not_in_cluster\<close> whether an error is \<open>rest.ErrNotInCluster\<close>, and \<open>kr_load\<close> what the loading
  rules find with an explicit path, or by default when it is empty.
\<close>

record rest_cfg =
  rc_host :: string
  rc_qps :: nat
  rc_burst :: nat
  rc_user_agent :: string

record kube_source =
  kr_in_cluster :: "err + rest_cfg"
  kr_is_not_in_cluster :: "err \<Rightarrow> bool"
  kr_load :: "string \<Rightarrow> err + rest_cfg"

definition client_qps :: nat where
  "client_qps = 5"

definition client_burst :: nat where
  "client_burst = 10"

definition user_agent :: string where
  "user_agent = ''oom-oracle''"

definition load_rest_config :: "kube_source \<Rightarrow> string \<Rightarrow> err + rest_cfg" where
  "load_rest_config src kubeconfig =
     (if kubeconfig = [] then
        (case kr_in_cluster src of
           Inr cfg \<Rightarrow> Inr cfg
         | Inl e \<Rightarrow> if \<not> kr_is_not_in_cluster src e then Inl e else kr_load src [])
      else kr_load src kubeconfig)"

definition rest_config :: "kube_source \<Rightarrow> string \<Rightarrow> err + rest_cfg" where
  "rest_config src kubeconfig =
     res_bind (load_rest_config src kubeconfig) (\<lambda>cfg.
       Inr (cfg\<lparr>rc_qps := client_qps, rc_burst := client_burst, rc_user_agent := user_agent\<rparr>))"

text \<open>An explicit kubeconfig is all that counts; without one a token that cannot be read is reported,
  never papered over by a kubeconfig.\<close>

lemma explicit_kubeconfig_wins:
  "kubeconfig \<noteq> [] \<Longrightarrow> kr_load src = kr_load src' \<Longrightarrow> rest_config src kubeconfig = rest_config src' kubeconfig"
  by (simp add: rest_config_def load_rest_config_def)

lemma unreadable_token_reported:
  "kr_in_cluster src = Inl e \<Longrightarrow> \<not> kr_is_not_in_cluster src e \<Longrightarrow> rest_config src [] = Inl e"
  by (simp add: rest_config_def load_rest_config_def)

lemma rest_config_polite:
  "rest_config src kubeconfig = Inr cfg \<Longrightarrow> rc_qps cfg = 5 \<and> rc_burst cfg = 10 \<and> rc_user_agent cfg = ''oom-oracle''"
  by (auto simp: rest_config_def res_bind_Inr_iff client_qps_def client_burst_def user_agent_def)

subsection \<open>What the informer delivers\<close>

datatype cache_event = PodSeen k8s_obj | PodGone k8s_obj time time

fun cache_step :: "cache_event \<Rightarrow> pod_cache \<Rightarrow> pod_cache" where
  "cache_step (PodSeen obj) c = upsert (trim_pod obj) c"
| "cache_step (PodGone obj now later) c = remove_pod (trim_pod obj) now later c"

fun event_uid :: "cache_event \<Rightarrow> string option" where
  "event_uid (PodSeen obj) = (case obj of PodObj pod \<Rightarrow> Some (kp_uid pod) | _ \<Rightarrow> None)"
| "event_uid (PodGone obj now later) = map_option kp_uid (removed_pod obj)"

fun event_time :: "cache_event \<Rightarrow> time" where
  "event_time (PodSeen obj) = 0"
| "event_time (PodGone obj now later) = later"

lemma sweep_get:
  assumes "map_wf (pc_buried c)"
  shows "map_get (pc_buried (sweep now c)) u =
    (case map_get (pc_buried c) u of
       Some g \<Rightarrow> if bu_expires g < now then None else Some g | None \<Rightarrow> None)"
proof -
  have "map_get (pc_buried (fold (sweep_step now) (map_keys (pc_buried c)) c)) u =
      (if u \<in> set (map_keys (pc_buried c))
       then (case map_get (pc_buried c) u of Some g \<Rightarrow> if bu_expires g < now then None else Some g | None \<Rightarrow> None)
       else map_get (pc_buried c) u)"
    using assms
    by (intro fold_local_update [where view = "\<lambda>c u. map_get (pc_buried c) u" and
          g = "\<lambda>u x. case x of Some g \<Rightarrow> if bu_expires g < now then None else Some g | None \<Rightarrow> None"])
      (auto simp: sweep_step_def map_wf_def split: option.splits)
  then show ?thesis by (auto simp: sweep_def map_keys_iff split: option.splits)
qed

lemma sweep_frame:
  "pc_live (sweep now c) = pc_live c \<and> pc_grace (sweep now c) = pc_grace c \<and> pc_synced (sweep now c) = pc_synced c \<and>
     (map_wf (pc_buried c) \<longrightarrow> map_wf (pc_buried (sweep now c)))"
proof -
  have "pc_live (fold (sweep_step now) ks c) = pc_live c \<and> pc_grace (fold (sweep_step now) ks c) = pc_grace c \<and>
      pc_synced (fold (sweep_step now) ks c) = pc_synced c \<and>
      (map_wf (pc_buried c) \<longrightarrow> map_wf (pc_buried (fold (sweep_step now) ks c)))" for ks
    by (induction ks arbitrary: c) (simp_all add: sweep_step_def split: option.split)
  then show ?thesis by (simp add: sweep_def)
qed

definition cache_ok :: "pod_cache \<Rightarrow> bool" where
  "cache_ok c \<longleftrightarrow> map_wf (pc_live c) \<and> map_wf (pc_buried c)"

lemma new_pod_cache_ok: "new_pod_cache opts = Inr c \<Longrightarrow> cache_ok c \<and> \<not> pc_synced c"
  by (auto simp: new_pod_cache_def cache_ok_def split: if_splits option.splits)

lemma upsert_ok: "cache_ok c \<Longrightarrow> cache_ok (upsert obj c)"
  by (simp add: upsert_def cache_ok_def split: k8s_obj.split)

lemma remove_pod_ok: "cache_ok c \<Longrightarrow> cache_ok (remove_pod obj now later c)"
  by (simp add: remove_pod_def cache_ok_def Let_def sweep_frame split: option.split)

lemma cache_step_ok: "cache_ok c \<Longrightarrow> cache_ok (cache_step e c)"
  by (cases e) (simp_all add: upsert_ok remove_pod_ok)

lemma cache_step_synced: "pc_synced (cache_step e c) = pc_synced c"
  by (cases e) (auto simp: upsert_def remove_pod_def Let_def sweep_frame split: k8s_obj.split option.split)

interpretation cache_dir: pod_directory "cache_lookup now" "\<lambda>pod. upsert (PodObj pod)" kp_uid pod_info_from cache_ok
  for now
  by unfold_locales (auto simp: cache_ok_def cache_lookup_def upsert_def split: option.split)

text \<open>An event about another pod leaves a pod's entries alone, save for a sweep past the grace.\<close>

lemma cache_step_other:
  assumes "cache_ok c" "event_uid e \<noteq> Some u" "event_time e \<le> now"
  shows "map_get (pc_live (cache_step e c)) u = map_get (pc_live c) u \<and>
    (\<forall>g. map_get (pc_buried c) u = Some g \<longrightarrow> now \<le> bu_expires g \<longrightarrow>
       map_get (pc_buried (cache_step e c)) u = Some g)"
proof (cases e)
  case (PodSeen obj)
  then show ?thesis using assms(2) by (auto simp: upsert_def trim_pod_def split: k8s_obj.splits)
next
  case (PodGone obj t later)
  then show ?thesis
  proof (cases "removed_pod (trim_pod obj)")
    case None
    then show ?thesis using PodGone by (simp add: remove_pod_def)
  next
    case (Some pod)
    have "removed_pod (trim_pod obj) = Some pod \<Longrightarrow> map_option kp_uid (removed_pod obj) = Some (kp_uid pod)"
      by (cases obj) (auto simp: trim_pod_def removed_pod_def)
    then have u: "u \<noteq> kp_uid pod" using assms(2) PodGone Some by auto
    have wf: "map_wf (map_put k g (pc_buried c))" for k g using assms(1) by (simp add: cache_ok_def)
    show ?thesis
      using PodGone Some u assms(3) by (auto simp: remove_pod_def Let_def sweep_frame sweep_get wf)
  qed
qed

subsection \<open>Properties\<close>

lemma cache_run_other:
  assumes "cache_ok c" "\<forall>e \<in> set es. event_uid e \<noteq> Some u \<and> event_time e \<le> now"
    and "map_get (pc_live c) u = None" "map_get (pc_buried c) u = Some g" "now \<le> bu_expires g"
  shows "map_get (pc_live (fold cache_step es c)) u = None \<and> map_get (pc_buried (fold cache_step es c)) u = Some g"
  using assms(1-4)
proof (induction es arbitrary: c)
  case (Cons e es)
  have "map_get (pc_live (cache_step e c)) u = None" "map_get (pc_buried (cache_step e c)) u = Some g"
    using cache_step_other [of c e u now] Cons.prems assms(5) by auto
  then show ?case using Cons.IH [of "cache_step e c"] Cons.prems cache_step_ok by simp
qed simp

lemma pod_info_trimmed: "trim_pod (PodObj pod) = PodObj pod' \<Longrightarrow> pod_info_from pod' = pod_info_from pod \<and> kp_uid pod' = kp_uid pod"
  by (auto simp: trim_pod_def pod_info_from_def)

lemma cache_step_grace: "pc_grace (cache_step e c) = pc_grace c"
  by (cases e) (auto simp: upsert_def remove_pod_def Let_def sweep_frame split: k8s_obj.split option.split)

lemma cache_seen: "map_get (pc_live (cache_step (PodSeen (PodObj pod)) c)) (kp_uid pod) = Some (pod_info_from pod)"
  by (simp add: upsert_def trim_pod_def pod_info_from_def)

text \<open>Deliveries about other pods keep a living pod known, with the grace the cache was made with.\<close>

lemma cache_run_live:
  assumes "cache_ok c" "\<forall>e \<in> set es. event_uid e \<noteq> Some u"
  shows "cache_ok (fold cache_step es c) \<and> map_get (pc_live (fold cache_step es c)) u = map_get (pc_live c) u \<and>
    pc_grace (fold cache_step es c) = pc_grace c"
  using assms
proof (induction es arbitrary: c)
  case (Cons e es)
  have "map_get (pc_live (cache_step e c)) u = map_get (pc_live c) u"
    using cache_step_other [of c e u "event_time e"] Cons.prems by simp
  then show ?case using Cons.IH [of "cache_step e c"] Cons.prems cache_step_ok cache_step_grace by simp
qed simp

lemma buried_lookup:
  assumes "cache_ok c" "removed_pod obj = Some pod" "map_get (pc_live c) (kp_uid pod) = Some info" "later \<le> t + pc_grace c"
    and "\<forall>e \<in> set es. event_uid e \<noteq> Some (kp_uid pod) \<and> event_time e \<le> t + pc_grace c"
  shows "cache_lookup now (fold cache_step es (remove_pod obj t later c)) (kp_uid pod) =
    (if now \<le> t + pc_grace c then Some info else None)"
proof -
  define u where "u = kp_uid pod"
  define g where "g = \<lparr>bu_pod = info, bu_expires = t + pc_grace c\<rparr>"
  define c1 where "c1 = remove_pod obj t later c"
  have wf: "map_wf (map_put u g (pc_buried c))" using assms(1) by (simp add: cache_ok_def)
  have c1: "c1 = sweep later (c\<lparr>pc_live := map_del u (pc_live c), pc_buried := map_put u g (pc_buried c)\<rparr>)"
    using assms(2,3) by (simp add: c1_def remove_pod_def u_def g_def Let_def)
  have "map_get (pc_live c1) u = None" "map_get (pc_buried c1) u = Some g"
    using assms(4) wf by (simp_all add: c1 sweep_frame sweep_get g_def)
  moreover have "cache_ok c1" using assms(1) by (simp add: c1_def remove_pod_ok)
  ultimately have "map_get (pc_live (fold cache_step es c1)) u = None"
      "map_get (pc_buried (fold cache_step es c1)) u = Some g"
    using cache_run_other [of c1 es u "t + pc_grace c" g] assms(5) by (auto simp: u_def g_def)
  then show ?thesis
    by (simp add: c1_def [symmetric] u_def [symmetric] cache_lookup_def g_def)
qed

text \<open>The whole life of a pod in the cache: seen, then removed, whatever is delivered about others.\<close>

lemma trimmed_removed: "map_option kp_uid (removed_pod obj) = Some u \<Longrightarrow> \<exists>pod. removed_pod (trim_pod obj) = Some pod \<and> kp_uid pod = u"
  by (cases obj) (auto simp: trim_pod_def removed_pod_def)

lemma pod_life_lookup:
  assumes "cache_ok c" "\<forall>e \<in> set before. event_uid e \<noteq> Some (kp_uid pod)"
    and "event_uid (PodGone obj t later) = Some (kp_uid pod)" "later \<le> t + pc_grace c" "now \<le> t + pc_grace c"
    and "\<forall>e \<in> set after. event_uid e \<noteq> Some (kp_uid pod) \<and> event_time e \<le> t + pc_grace c"
  shows "cache_lookup now (fold cache_step (PodSeen (PodObj pod) # before @ PodGone obj t later # after) c) (kp_uid pod) =
    Some (pod_info_from pod)"
proof -
  let ?c0 = "cache_step (PodSeen (PodObj pod)) c"
  let ?c1 = "fold cache_step before ?c0"
  have "cache_ok ?c1 \<and> map_get (pc_live ?c1) (kp_uid pod) = map_get (pc_live ?c0) (kp_uid pod) \<and> pc_grace ?c1 = pc_grace ?c0"
    by (rule cache_run_live [OF cache_step_ok [OF assms(1)] assms(2)])
  then have c1: "cache_ok ?c1" "map_get (pc_live ?c1) (kp_uid pod) = Some (pod_info_from pod)" "pc_grace ?c1 = pc_grace c"
    by (simp_all only: cache_seen cache_step_grace)
  obtain gone where gone: "removed_pod (trim_pod obj) = Some gone" "kp_uid gone = kp_uid pod"
    using trimmed_removed [of obj "kp_uid pod"] assms(3) by auto
  have "cache_lookup now (fold cache_step after (remove_pod (trim_pod obj) t later ?c1)) (kp_uid gone) =
      (if now \<le> t + pc_grace ?c1 then Some (pod_info_from pod) else None)"
    by (rule buried_lookup [OF c1(1) gone(1)]) (use c1(2,3) gone(2) assms(4,6) in auto)
  then show ?thesis using assms(5) by (simp add: c1(3) gone(2) del: cache_step.simps(1))
qed

text \<open>C15: A deleted pod stays resolvable for its grace period. When a known pod is removed, then for
  any later deliveries about other pods, sweeps included, a lookup up to the end of the grace
  still gives what was known of the pod while it lived, and not what came with the delete.
  After that moment it gives nothing.\<close>

theorem deleted_pod_answers_for_its_grace:
  assumes "cache_ok c" "map_get (pc_live c) (kp_uid pod) = Some info" "0 \<le> pc_grace c" "later \<le> t + pc_grace c"
    and "\<forall>e \<in> set es. event_uid e \<noteq> Some (kp_uid pod) \<and> event_time e \<le> t + pc_grace c"
  shows "(\<forall>now \<le> t + pc_grace c.
      cache_lookup now (fold cache_step es (remove_pod (PodObj pod) t later c)) (kp_uid pod) = Some info) \<and>
    (\<forall>now > t + pc_grace c.
      cache_lookup now (fold cache_step es (remove_pod (PodObj pod) t later c)) (kp_uid pod) = None)"
  using buried_lookup [OF assms(1) _ assms(2,4,5), of "PodObj pod"] by (auto simp: removed_pod_def)

definition demo_pod :: "string \<Rightarrow> k8s_pod" where
  "demo_pod uid = \<lparr>kp_uid = uid, kp_namespace = ''shop'', kp_name = ''cart-0'', kp_node_name = ''n1'',
     kp_container_statuses = [\<lparr>ks_name = ''app'', ks_image = ''cart:2'', ks_container_id = ''containerd://c2'',
       ks_last_terminated = Some ''containerd://c1''\<rparr>],
     kp_init_statuses = [], kp_ephemeral_statuses = [], kp_managed_fields = [], kp_annotations = []\<rparr>"

definition demo_cache :: pod_cache where
  "demo_cache = \<lparr>pc_node = ''n1'', pc_resync = default_resync, pc_grace = 300, pc_live = [],
     pc_buried = [], pc_synced = True\<rparr>"

lemma demo_cache_ok: "cache_ok demo_cache"
  by (simp add: cache_ok_def demo_cache_def)

theorem deleted_pod_answers_for_its_grace_witness:
  "cache_lookup 400 (fold cache_step [PodGone (PodObj (demo_pod ''p2'')) 350 360]
      (remove_pod (PodObj ((demo_pod ''p1'')\<lparr>kp_namespace := []\<rparr>)) 100 101
        (upsert (PodObj (demo_pod ''p1'')) demo_cache))) ''p1'' = Some (pod_info_from (demo_pod ''p1''))"
proof -
  let ?c = "upsert (PodObj (demo_pod ''p1'')) demo_cache"
  have "map_get (pc_live ?c) ''p1'' = Some (pod_info_from (demo_pod ''p1''))" "pc_grace ?c = 300"
    by (simp_all add: upsert_def demo_cache_def) (simp add: demo_pod_def)
  then show ?thesis
    using deleted_pod_answers_for_its_grace [of ?c "(demo_pod ''p1'')\<lparr>kp_namespace := []\<rparr>"
        "pod_info_from (demo_pod ''p1'')" 101 100 "[PodGone (PodObj (demo_pod ''p2'')) 350 360]"]
      upsert_ok [OF demo_cache_ok]
    by (simp add: removed_pod_def demo_pod_def)
qed

text \<open>The container IDs a pod object names, with what they stand for, in the order they are added.\<close>

definition status_ids :: "container_status \<Rightarrow> (string \<times> container_info) list" where
  "status_ids st = filter (\<lambda>(cid, i). cid \<noteq> [])
     ((ks_container_id st, \<lparr>ci_name = ks_name st, ci_image = ks_image st\<rparr>) #
      (case ks_last_terminated st of None \<Rightarrow> [] | Some cid \<Rightarrow> [(cid, \<lparr>ci_name = ks_name st, ci_image = ks_image st\<rparr>)]))"

definition pod_statuses :: "k8s_pod \<Rightarrow> container_status list" where
  "pod_statuses pod = kp_container_statuses pod @ kp_init_statuses pod @ kp_ephemeral_statuses pod"

definition put_id :: "string \<times> container_info \<Rightarrow> (string, container_info) gomap \<Rightarrow> (string, container_info) gomap" where
  "put_id e m = map_put (strip_runtime_prefix (fst e)) (snd e) m"

lemma add_status_ids:
  "pi_containers (add_status st i) = fold put_id (status_ids st) (pi_containers i) \<and>
     pi_namespace (add_status st i) = pi_namespace i \<and> pi_name (add_status st i) = pi_name i"
  by (auto simp: add_status_def add_container_def status_ids_def put_id_def Let_def split: option.split)

lemma add_statuses_ids:
  "pi_containers (fold add_status sts i) = fold put_id (concat (map status_ids sts)) (pi_containers i) \<and>
     pi_namespace (fold add_status sts i) = pi_namespace i \<and> pi_name (fold add_status sts i) = pi_name i"
  by (induction sts arbitrary: i) (simp_all add: add_status_ids)

lemma pod_info_from_ids:
  "pi_containers (pod_info_from pod) = fold put_id (concat (map status_ids (pod_statuses pod))) [] \<and>
     pi_namespace (pod_info_from pod) = kp_namespace pod \<and> pi_name (pod_info_from pod) = kp_name pod"
  using add_statuses_ids [of "pod_statuses pod"] by (simp add: pod_info_from_def pod_statuses_def)

lemma fold_put_id:
  assumes "e \<in> set es"
    and "\<And>d. d \<in> set es \<Longrightarrow> strip_runtime_prefix (fst d) = strip_runtime_prefix (fst e) \<Longrightarrow> snd d = snd e"
  shows "map_get (fold put_id es m) (strip_runtime_prefix (fst e)) = Some (snd e)"
  using assms
proof (induction es rule: rev_induct)
  case (snoc d es)
  show ?case
  proof (cases "strip_runtime_prefix (fst d) = strip_runtime_prefix (fst e)")
    case True
    then have "snd d = snd e" by (intro snoc.prems(2)) simp_all
    then show ?thesis using True by (simp add: put_id_def [of d])
  next
    case False
    then have "e \<in> set es" using snoc.prems(1) by auto
    then have "map_get (fold put_id es m) (strip_runtime_prefix (fst e)) = Some (snd e)"
      by (intro snoc.IH snoc.prems(2)) simp_all
    then show ?thesis using False by (simp add: put_id_def [of d])
  qed
qed simp

text \<open>Whether an object tells what container an ID stands for: some status carries the ID, currently or
  as that of the last termination, and no other container's does.\<close>

definition names_container :: "k8s_pod \<Rightarrow> string \<Rightarrow> container_info \<Rightarrow> bool" where
  "names_container pod cid info \<longleftrightarrow>
     (\<exists>st \<in> set (pod_statuses pod). \<exists>d \<in> set (status_ids st). strip_runtime_prefix (fst d) = cid \<and> snd d = info) \<and>
     (\<forall>st \<in> set (pod_statuses pod). \<forall>d \<in> set (status_ids st). strip_runtime_prefix (fst d) = cid \<longrightarrow> snd d = info)"

lemma named_container:
  assumes "names_container pod cid info"
  shows "map_get (pi_containers (pod_info_from pod)) cid = Some info"
proof -
  let ?es = "concat (map status_ids (pod_statuses pod))"
  obtain e where e: "e \<in> set ?es" "strip_runtime_prefix (fst e) = cid" "snd e = info"
    using assms by (auto simp: names_container_def)
  have "\<And>d. d \<in> set ?es \<Longrightarrow> strip_runtime_prefix (fst d) = strip_runtime_prefix (fst e) \<Longrightarrow> snd d = snd e"
    using assms e(2,3) by (auto simp: names_container_def)
  then show ?thesis
    using fold_put_id [OF e(1)] e(2,3) unfolding pod_info_from_ids [THEN conjunct1] by auto
qed

text \<open>A kill is named after the container that died even when it has restarted since. Once the
  cache has seen a pod, a container path of that pod resolves to the pod's namespace and name,
  and its container ID to the name and image of the status that carries it, be it the current
  ID or the one of the last termination, with the runtime's scheme in front cut off.\<close>

theorem restarted_container_still_named:
  assumes "cache_ok c" "parse_cgroup_path cpath = Some sc" "sc_kind sc = ScopeContainer" "sc_pod_uid sc = kp_uid pod"
    and "st \<in> set (pod_statuses pod)" "cid \<noteq> []"
    and "ks_container_id st = cid \<or> ks_last_terminated st = Some cid"
    and "strip_runtime_prefix cid = sc_container_id sc"
    and "\<forall>s \<in> set (pod_statuses pod). \<forall>d \<in> set (status_ids s).
      strip_runtime_prefix (fst d) = sc_container_id sc \<longrightarrow> snd d = \<lparr>ci_name = ks_name st, ci_image = ks_image st\<rparr>"
  shows "\<exists>i. resolve (Some (cache_lookup now (upsert (PodObj pod) c))) cpath = Some i \<and> id_resolved i \<and>
    id_namespace i = kp_namespace pod \<and> id_pod_name i = kp_name pod \<and>
    id_container_name i = ks_name st \<and> id_image i = ks_image st"
proof -
  let ?info = "\<lparr>ci_name = ks_name st, ci_image = ks_image st\<rparr>"
  have "(cid, ?info) \<in> set (status_ids st)" using assms(7) by (elim disjE) (simp_all add: status_ids_def assms(6))
  then have "\<exists>d \<in> set (status_ids st). strip_runtime_prefix (fst d) = sc_container_id sc \<and> snd d = ?info"
    using assms(8) by (intro bexI [of _ "(cid, ?info)"]) simp_all
  then have "names_container pod (sc_container_id sc) ?info"
    using assms(5,9) unfolding names_container_def by blast
  then have m: "map_get (pi_containers (pod_info_from pod)) (sc_container_id sc) = Some ?info" by (rule named_container)
  have "cache_lookup now (upsert (PodObj pod) c) (sc_pod_uid sc) = Some (pod_info_from pod)"
    using cache_dir.lookup_learn [OF assms(1), of now pod "sc_pod_uid sc"] unfolding assms(4) by simp
  then show ?thesis
    using m pod_info_from_ids [of pod, THEN conjunct2] unfolding resolve_def assms(2) Let_def option.case
    by (simp add: assms(3))
qed

text \<open>A cache whose initial list did not complete within the timeout reports itself unsynced for
  good: no delivery that comes later changes that, although each of them fills the maps.\<close>

theorem late_sync_never_noticed:
  assumes "new_pod_cache opts = Inr c"
  shows "\<not> pc_synced (fold cache_step es (snd (wait_for_sync False c))) \<and>
    (\<forall>pod now. \<not> pc_synced (fold cache_step (es @ [PodSeen (PodObj pod)]) (snd (wait_for_sync False c))) \<and>
       cache_lookup now (fold cache_step (es @ [PodSeen (PodObj pod)]) (snd (wait_for_sync False c))) (kp_uid pod) \<noteq> None)"
proof -
  have run: "pc_synced (fold cache_step es d) = pc_synced d" for es d
    by (induction es arbitrary: d) (simp_all add: cache_step_synced)
  have start: "\<not> pc_synced (snd (wait_for_sync False c))"
    using new_pod_cache_ok [OF assms] by (simp add: wait_for_sync_def)
  have seen: "cache_lookup now (cache_step (PodSeen (PodObj pod)) d) (kp_uid pod) \<noteq> None" for now d pod
    by (simp add: trim_pod_def upsert_def cache_lookup_def)
  show ?thesis
    using start seen by (simp add: run cache_step_synced del: cache_step.simps not_None_eq)
qed

theorem late_sync_never_noticed_witness:
  "\<exists>c. new_pod_cache \<lparr>ko_has_client = True, ko_node = ''n1'', ko_resync = 0, ko_grace = 0,
     ko_transform_err = None, ko_handler_err = None\<rparr> = Inr c \<and>
     \<not> pc_synced (fold cache_step [PodSeen (PodObj (demo_pod ''p1''))] (snd (wait_for_sync False c)))"
proof -
  obtain c where c: "new_pod_cache \<lparr>ko_has_client = True, ko_node = ''n1'', ko_resync = 0, ko_grace = 0,
     ko_transform_err = None, ko_handler_err = None\<rparr> = Inr c"
    by (simp add: new_pod_cache_def)
  show ?thesis using late_sync_never_noticed [OF c, of "[PodSeen (PodObj (demo_pod ''p1''))]"] c by blast
qed

theorem restarted_container_still_named_witness:
  "\<exists>i. resolve (Some (cache_lookup 5 (upsert (PodObj (demo_pod ''7'')) demo_cache))) ''/kubepods/pod7/c1'' = Some i \<and>
     id_resolved i \<and> id_namespace i = ''shop'' \<and> id_pod_name i = ''cart-0'' \<and> id_container_name i = ''app'' \<and>
     id_image i = ''cart:2''"
proof -
  let ?st = "\<lparr>ks_name = ''app'', ks_image = ''cart:2'', ks_container_id = ''containerd://c2'',
    ks_last_terminated = Some ''containerd://c1''\<rparr>"
  have st: "pod_statuses (demo_pod ''7'') = [?st]" by (simp add: pod_statuses_def demo_pod_def)
  have strip: "strip_runtime_prefix ''containerd://c1'' = ''c1''"
    by (simp add: strip_runtime_prefix_def go_eval)
  have "\<exists>i. resolve (Some (cache_lookup 5 (upsert (PodObj (demo_pod ''7'')) demo_cache))) ''/kubepods/pod7/c1'' = Some i \<and>
      id_resolved i \<and> id_namespace i = kp_namespace (demo_pod ''7'') \<and> id_pod_name i = kp_name (demo_pod ''7'') \<and>
      id_container_name i = ks_name ?st \<and> id_image i = ks_image ?st"
    by (rule restarted_container_still_named [OF demo_cache_ok parse_demo_path, where cid = "''containerd://c1''"])
      (simp_all add: st strip demo_scope_def status_ids_def, simp add: demo_pod_def)
  then show ?thesis by (simp add: demo_pod_def)
qed

end
