(* ===== verification/GoTime.thy ===== *)
theory GoTime
  imports GoStrconv
begin

section \<open>Times and durations as text\<close>

text \<open>
  What the program uses of Go's \<open>time\<close> package to print: the civil date of an instant, the four
  layouts that occur, and \<open>Duration.String\<close>, \<open>Round\<close> and \<open>Truncate\<close>. Where an instant is
  printed, the number that models it counts nanoseconds from the Unix epoch. A time zone is a
  pair of an offset from UTC in seconds and a name, since the zone database is not code of
  this repository.
\<close>

definition pad_left :: "nat \<Rightarrow> char \<Rightarrow> string \<Rightarrow> string" where
  "pad_left w c s = replicate (w - length s) c @ s"

definition two_digits :: "int \<Rightarrow> string" where
  "two_digits n = pad_left 2 (CHR ''0'') (show_nat (nat n))"

definition year_digits :: "int \<Rightarrow> string" where
  "year_digits y = (if y < 0 then ''-'' else []) @ pad_left 4 (CHR ''0'') (show_nat (nat \<bar>y\<bar>))"

record civil =
  cv_year :: int
  cv_month :: int
  cv_day :: int
  cv_hour :: int
  cv_minute :: int
  cv_second :: int

text \<open>Days are counted in eras of 400 Gregorian years that begin on the first of March.\<close>

definition civil_of :: "time \<Rightarrow> civil" where
  "civil_of t =
     (let secs = t div 1000000000;
          z = secs div 86400 + 719468;
          r = secs mod 86400;
          doe = z mod 146097;
          yoe = (doe - doe div 1460 + doe div 36524 - doe div 146096) div 365;
          doy = doe - (365 * yoe + yoe div 4 - yoe div 100);
          mp = (5 * doy + 2) div 153;
          m = (if mp < 10 then mp + 3 else mp - 9);
          y = yoe + z div 146097 * 400
      in \<lparr>cv_year = (if m \<le> 2 then y + 1 else y), cv_month = m, cv_day = doy - (153 * mp + 2) div 5 + 1,
          cv_hour = r div 3600, cv_minute = r div 60 mod 60, cv_second = r mod 60\<rparr>)"

type_synonym zone = "int \<times> string"

definition utc :: zone where
  "utc = (0, ''UTC'')"

definition in_zone :: "zone \<Rightarrow> time \<Rightarrow> civil" where
  "in_zone z t = civil_of (t + fst z * 1000000000)"

text \<open>The layouts \<open>20060102T150405Z\<close>, \<open>15:04:05\<close> and \<open>2006-01-02 15:04:05 MST\<close>.\<close>

definition format_id_stamp :: "time \<Rightarrow> string" where
  "format_id_stamp t =
     (let c = civil_of t in year_digits (cv_year c) @ two_digits (cv_month c) @ two_digits (cv_day c) @ ''T'' @
        two_digits (cv_hour c) @ two_digits (cv_minute c) @ two_digits (cv_second c) @ ''Z'')"

definition format_clock :: "zone \<Rightarrow> time \<Rightarrow> string" where
  "format_clock z t =
     (let c = in_zone z t in
        two_digits (cv_hour c) @ '':'' @ two_digits (cv_minute c) @ '':'' @ two_digits (cv_second c))"

definition format_full :: "zone \<Rightarrow> time \<Rightarrow> string" where
  "format_full z t =
     (let c = in_zone z t in
        year_digits (cv_year c) @ ''-'' @ two_digits (cv_month c) @ ''-'' @ two_digits (cv_day c) @ '' '' @
        format_clock z t @ '' '' @ snd z)"

lemma civil_examples:
  "civil_of 0 = \<lparr>cv_year = 1970, cv_month = 1, cv_day = 1, cv_hour = 0, cv_minute = 0, cv_second = 0\<rparr>"
  "civil_of (1709208000 * 1000000000) =
     \<lparr>cv_year = 2024, cv_month = 2, cv_day = 29, cv_hour = 12, cv_minute = 0, cv_second = 0\<rparr>"
  by code_simp+

subsection \<open>Durations\<close>

text \<open>\<open>d.Truncate(time.Second)\<close>, and \<open>d.Round(time.Second)\<close> with halves away from zero.\<close>

definition quot_second :: "duration \<Rightarrow> int" where
  "quot_second d = (if 0 \<le> d then d div second else - ((- d) div second))"

definition truncate_second :: "duration \<Rightarrow> duration" where
  "truncate_second d = quot_second d * second"

definition round_second :: "duration \<Rightarrow> duration" where
  "round_second d =
     (let r = \<bar>d\<bar> mod second;
          a = (if r + r < second then \<bar>d\<bar> - r else \<bar>d\<bar> + second - r)
      in if d < 0 then (if - a < min_duration then min_duration else - a)
         else (if max_duration < a then max_duration else a))"

text \<open>The digits after the point without trailing zeros, and the point itself if any are left.\<close>

definition strip_zeros :: "string \<Rightarrow> string" where
  "strip_zeros s = rev (dropWhile (\<lambda>c. c = CHR ''0'') (rev s))"

definition decimal_part :: "nat \<Rightarrow> nat \<Rightarrow> string" where
  "decimal_part v prec =
     (let ds = strip_zeros (pad_left prec (CHR ''0'') (show_nat (v mod 10 ^ prec)))
      in if ds = [] then [] else ''.'' @ ds)"

definition micro_sign :: string where
  "micro_sign = [CHR 0xC2, CHR 0xB5]"

definition duration_string :: "duration \<Rightarrow> string" where
  "duration_string d =
     (if d = 0 then ''0s''
      else
        let u = nat \<bar>d\<bar>; sign = (if d < 0 then ''-'' else []) in
        sign @
        (if u < 1000 then show_nat u @ ''ns''
         else if u < 1000000 then show_nat (u div 1000) @ decimal_part u 3 @ micro_sign @ ''s''
         else if u < 1000000000 then show_nat (u div 1000000) @ decimal_part u 6 @ ''ms''
         else
           let s = u div 1000000000; m = s div 60; h = m div 60 in
           (if h > 0 then show_nat h @ ''h'' else []) @
           (if m > 0 then show_nat (m mod 60) @ ''m'' else []) @
           show_nat (s mod 60) @ decimal_part u 9 @ ''s''))"

lemma round_second_whole: "0 \<le> d \<Longrightarrow> d \<le> max_duration - second \<Longrightarrow> second dvd round_second d \<and> 0 \<le> round_second d"
proof -
  assume d: "0 \<le> d" "d \<le> max_duration - second"
  have s: "0 < second" by (simp add: second_def)
  then have r: "0 \<le> d mod second" "d mod second < second" by simp_all
  have dv: "second dvd d - d mod second" by (simp add: minus_mod_eq_mult_div)
  then have "second dvd d - d mod second + second" by (rule dvd_add) simp
  then have up: "second dvd d + second - d mod second" by (simp add: algebra_simps)
  have "round_second d = d - d mod second \<or> round_second d = d + second - d mod second"
    using d r by (auto simp: round_second_def Let_def)
  moreover have "d mod second \<le> d" using d(1) s by (simp add: zmod_le_nonneg_dividend)
  ultimately show ?thesis using dv up d r by auto
qed

lemma length_show_two: "m < 100 \<Longrightarrow> length (show_nat m) = (if m < 10 then 1 else 2)"
proof -
  assume m: "m < 100"
  have one: "length (show_nat k) = 1" if "k < 10" for k
    using that by (subst show_nat.simps) simp
  show ?thesis
  proof (cases "m < 10")
    case False
    have "m div 10 < 10" using m by auto
    then show ?thesis using False one by (subst show_nat.simps) simp
  qed (simp add: one)
qed

lemma length_two_digits: "0 \<le> n \<Longrightarrow> n < 100 \<Longrightarrow> length (two_digits n) = 2"
  using length_show_two [of "nat n"] by (simp add: two_digits_def pad_left_def split: if_splits)

lemma length_format_clock: "length (format_clock z t) = 8"
proof -
  define r where "r = (t + fst z * 1000000000) div 1000000000 mod 86400"
  have r: "0 \<le> r" "r < 86400" by (simp_all add: r_def)
  have "cv_hour (in_zone z t) = r div 3600" "cv_minute (in_zone z t) = r div 60 mod 60" "cv_second (in_zone z t) = r mod 60"
    by (simp_all only: in_zone_def civil_of_def Let_def r_def civil.select_convs)
  moreover have "r div 3600 < 24" using r by linarith
  moreover have "0 \<le> r div 3600" using r by (simp add: pos_imp_zdiv_nonneg_iff)
  ultimately show ?thesis by (simp add: format_clock_def Let_def length_two_digits)
qed

end
