(* ===== verification/Daemon.thy ===== *)
theory Daemon
  imports ReportStore Sampler Ebpf GoTime
begin

section \<open>The daemon: from kill events to reports\<close>

text \<open>
  Models \<open>src/internal/daemon/daemon.go\<close>: the assembly of a report from an event, the counters,
  the handling of one event, and the \<open>Run\<close> loop as a step relation over its channels. The
  store is an interface in the code, so \<open>handle\<close> takes its \<open>Put\<close> as an argument; the program
  gives it the memory store. Of the log only the condition of one warning is modelled; the reports passed to \<open>OnReport\<close> are
  recorded in the order of the calls.
\<close>

record daemon_options =
  dp_detector :: "source option"
  dp_has_sampler :: bool
  dp_store :: "memory_store option"
  dp_has_cgroup :: bool
  dp_has_resolver :: bool
  dp_has_proc :: bool
  dp_has_on_report :: bool
  dp_include_nk :: bool

record daemon =
  dm_source :: source
  dm_store :: memory_store
  dm_has_cgroup :: bool
  dm_has_proc :: bool
  dm_has_on_report :: bool
  dm_include_nk :: bool
  dm_sequence :: u64
  dm_processed :: u64
  dm_skipped :: u64
  dm_unattributed :: u64
  dm_watching :: bool
  dm_announced :: "report list"

definition new_daemon :: "daemon_options \<Rightarrow> err + daemon" where
  "new_daemon opts =
     (case dp_detector opts of
        None \<Rightarrow> Inl (EMsg ''daemon requires a detector'')
      | Some src \<Rightarrow>
          if \<not> dp_has_sampler opts then Inl (EMsg ''daemon requires a sampler'')
          else case dp_store opts of
                 None \<Rightarrow> Inl (EMsg ''daemon requires a store'')
               | Some store \<Rightarrow>
                   if \<not> dp_has_resolver opts then Inl (EMsg ''daemon requires a resolver'')
                   else Inr \<lparr>dm_source = src, dm_store = store, dm_has_cgroup = dp_has_cgroup opts,
                     dm_has_proc = dp_has_proc opts, dm_has_on_report = dp_has_on_report opts,
                     dm_include_nk = dp_include_nk opts, dm_sequence = 0, dm_processed = 0, dm_skipped = 0,
                     dm_unattributed = 0, dm_watching = False, dm_announced = []\<rparr>)"

text \<open>
  What the reads for one event see: the pod directory, the sampler, the cgroup's statistics,
  the two calls of the group-kill check, its member list, and \<open>/proc\<close>.
\<close>

record report_view =
  rv_pods :: "pod_lookup option"
  rv_sampler :: sampler
  rv_stats :: cgfs
  rv_group :: "cgfs \<times> fsnode"
  rv_members :: cgfs
  rv_proc :: procfs

definition unlimited_limit :: u64 where
  "unlimited_limit = 18446744073709551615"

definition report_id :: "time \<Rightarrow> u64 \<Rightarrow> string" where
  "report_id t n = format_id_stamp t @ ''-'' @ show_nat (unat n)"

definition next_id :: "time \<Rightarrow> daemon \<Rightarrow> string \<times> daemon" where
  "next_id t d =
     (let d1 = d\<lparr>dm_sequence := dm_sequence d + 1\<rparr> in (report_id t (dm_sequence d1), d1))"

definition apply_live_stats :: "report_view \<Rightarrow> kill_event \<Rightarrow> daemon \<Rightarrow> report \<Rightarrow> report" where
  "apply_live_stats v e d r =
     (let r1 = (if dm_has_cgroup d
                then case read_memory_stats (rv_stats v) (ke_cgroup_path e) of
                       Inl err \<Rightarrow> r
                     | Inr stats \<Rightarrow>
                         (let r = (if rp_peak_bytes r < ms_peak stats then r\<lparr>rp_peak_bytes := ms_peak stats\<rparr> else r)
                          in if rp_limit_bytes r = 0 \<and> ms_limit stats \<noteq> unlimited_limit
                             then r\<lparr>rp_limit_bytes := ms_limit stats\<rparr> else r)
                else r)
      in if rp_peak_bytes r1 < v_rss_bytes (ke_victim e)
         then r1\<lparr>rp_peak_bytes := v_rss_bytes (ke_victim e)\<rparr> else r1)"

definition apply_group_kill :: "report_view \<Rightarrow> kill_event \<Rightarrow> daemon \<Rightarrow> report \<Rightarrow> report" where
  "apply_group_kill v e d r =
     (case ke_group_kill e of
        Some b \<Rightarrow> r\<lparr>rp_group_kill := Some b\<rparr>
      | None \<Rightarrow>
          if \<not> dm_has_cgroup d then r
          else case read_oom_group (fst (rv_group v)) (snd (rv_group v)) (ke_cgroup_path e) of
                 Inl err \<Rightarrow> r
               | Inr b \<Rightarrow> r\<lparr>rp_group_kill := Some b\<rparr>)"

definition apply_history :: "report_view \<Rightarrow> kill_event \<Rightarrow> report \<Rightarrow> report" where
  "apply_history v e r =
     (case history (rv_sampler v) (ke_cgroup_path e) of
        None \<Rightarrow> r
      | Some samples \<Rightarrow>
          if samples = [] then r
          else
            (let latest = samples ! (length samples - 1);
                 r = r\<lparr>rp_trajectory := trajectory_from samples, rp_trend := analyse samples,
                       rp_peak_bytes := ms_peak (sm_stats latest)\<rparr>
             in if ms_limit (sm_stats latest) \<noteq> unlimited_limit
                then r\<lparr>rp_limit_bytes := ms_limit (sm_stats latest)\<rparr> else r))"

definition apply_processes :: "report_view \<Rightarrow> kill_event \<Rightarrow> daemon \<Rightarrow> report \<Rightarrow> report" where
  "apply_processes v e d r =
     (if dm_has_proc d \<and> dm_has_cgroup d
      then case procs_in (rv_members v) (ke_cgroup_path e) of
             Inl err \<Rightarrow> r
           | Inr pids \<Rightarrow>
               (let (listed, m) = processes_from (processes_with_pids (rv_proc v) pids) (ke_victim e)
                in r\<lparr>rp_processes := listed, rp_victim_match := m\<rparr>)
      else r)"

text \<open>Whether the listing just made is warned about in the log.\<close>

definition warn_on_unfiltered_victim :: "report \<Rightarrow> bool" where
  "warn_on_unfiltered_victim r \<longleftrightarrow> v_known (rp_victim r) \<and> rp_victim_match r = VictimMatchNone"

definition build_report :: "report_view \<Rightarrow> kill_event \<Rightarrow> daemon \<Rightarrow> report option \<times> daemon" where
  "build_report v e d =
     (let found = resolve (rv_pods v) (ke_cgroup_path e) in
      if found = None \<and> \<not> dm_include_nk d then (None, d)
      else
        let identity = (case found of
              Some i \<Rightarrow> i
            | None \<Rightarrow> identity_zero\<lparr>id_scope := (id_scope identity_zero)\<lparr>sc_cgroup_path := ke_cgroup_path e\<rparr>\<rparr>);
            (i, d1) = next_id (ke_time e) d;
            r = report_zero\<lparr>rp_id := i, rp_time := ke_time e, rp_identity := identity, rp_victim := ke_victim e,
              rp_source := ke_source e, rp_kill_count := ke_kill_count e\<rparr>
        in (Some (apply_processes v e d1 (apply_group_kill v e d1 (apply_live_stats v e d1 (apply_history v e r)))),
            d1))"

type_synonym put = "report \<Rightarrow> memory_store \<Rightarrow> err + memory_store"

definition memory_put :: put where
  "memory_put r m = Inr (store_put r m)"

definition handle :: "put \<Rightarrow> report_view \<Rightarrow> kill_event \<Rightarrow> daemon \<Rightarrow> daemon" where
  "handle put v e d =
     (case build_report v e d of
        (None, d1) \<Rightarrow>
          (let d2 = d1\<lparr>dm_skipped := dm_skipped d1 + 1\<rparr>
           in if in_kubepods_tree (ke_cgroup_path e) then d2\<lparr>dm_unattributed := dm_unattributed d2 + 1\<rparr> else d2)
      | (Some r, d1) \<Rightarrow>
          (let d2 = (if dm_has_on_report d1 then d1\<lparr>dm_announced := dm_announced d1 @ [r]\<rparr> else d1)
           in case put r (dm_store d2) of
                Inl err \<Rightarrow> d2
              | Inr store \<Rightarrow> d2\<lparr>dm_store := store, dm_processed := dm_processed d2 + 1\<rparr>))"

definition ready :: "daemon \<Rightarrow> sampler \<Rightarrow> bool" where
  "ready d s \<longleftrightarrow> dm_watching d \<and> 0 < length (tracked s)"

definition daemon_tracked :: "sampler \<Rightarrow> nat" where
  "daemon_tracked s = length (tracked s)"

definition detector_name :: "daemon \<Rightarrow> string" where
  "detector_name d = source_string (dm_source d)"

subsection \<open>The loop\<close>

text \<open>
  The state of \<open>Run\<close> and of what it talks to: its own position, whether the context is done,
  the detector's channel with its closed flag, and the channel that receives the sampler's
  result once it has stopped. \<open>rs_result\<close> is what \<open>Run\<close> returned.
\<close>

datatype run_phase = RunStart | RunLoop | RunAwaitSampler | RunReturned

record run_state =
  rs_phase :: run_phase
  rs_daemon :: daemon
  rs_done :: bool
  rs_events :: "(report_view \<times> kill_event) list"
  rs_closed :: bool
  rs_sampler :: "err option option"
  rs_result :: "err option"

definition run_return :: "err option \<Rightarrow> run_state \<Rightarrow> run_state" where
  "run_return res s = s\<lparr>rs_phase := RunReturned, rs_result := res,
     rs_daemon := (rs_daemon s)\<lparr>dm_watching := False\<rparr>\<rparr>"

text \<open>The steps of \<open>Run\<close> itself; where several are possible, \<open>select\<close> picks any of them.\<close>

inductive loop_step :: "put \<Rightarrow> run_state \<Rightarrow> run_state \<Rightarrow> bool" for put where
  start_fails: "rs_phase s = RunStart \<Longrightarrow>
     loop_step put s (s\<lparr>rs_phase := RunReturned, rs_result := Some e\<rparr>)"
| start: "rs_phase s = RunStart \<Longrightarrow>
     loop_step put s (s\<lparr>rs_phase := RunLoop, rs_daemon := (rs_daemon s)\<lparr>dm_watching := True\<rparr>\<rparr>)"
| cancelled: "rs_phase s = RunLoop \<Longrightarrow> rs_done s \<Longrightarrow> loop_step put s (s\<lparr>rs_phase := RunAwaitSampler\<rparr>)"
| sampler_stopped: "rs_phase s = RunLoop \<Longrightarrow> rs_sampler s = Some res \<Longrightarrow> loop_step put s (run_return res s)"
| event: "rs_phase s = RunLoop \<Longrightarrow> rs_events s = (v, e) # rest \<Longrightarrow>
     loop_step put s (s\<lparr>rs_events := rest, rs_daemon := handle put v e (rs_daemon s)\<rparr>)"
| events_closed: "rs_phase s = RunLoop \<Longrightarrow> rs_events s = [] \<Longrightarrow> rs_closed s \<Longrightarrow>
     loop_step put s (s\<lparr>rs_phase := RunAwaitSampler\<rparr>)"
| sampler_awaited: "rs_phase s = RunAwaitSampler \<Longrightarrow> rs_sampler s = Some res \<Longrightarrow> loop_step put s (run_return res s)"

text \<open>
  What happens around it: the context is cancelled, the detector sends an event or closes its
  channel, and the sampler, which runs from the start on, fails or ends after a cancellation.
\<close>

inductive env_step :: "run_state \<Rightarrow> run_state \<Rightarrow> bool" where
  env_cancel: "env_step s (s\<lparr>rs_done := True\<rparr>)"
| env_event: "\<not> rs_closed s \<Longrightarrow> env_step s (s\<lparr>rs_events := rs_events s @ [x]\<rparr>)"
| env_close: "env_step s (s\<lparr>rs_closed := True\<rparr>)"
| env_sampler_fails: "rs_phase s = RunLoop \<or> rs_phase s = RunAwaitSampler \<Longrightarrow> rs_sampler s = None \<Longrightarrow>
     env_step s (s\<lparr>rs_sampler := Some (Some e)\<rparr>)"
| env_sampler_cancelled: "rs_phase s = RunLoop \<or> rs_phase s = RunAwaitSampler \<Longrightarrow> rs_sampler s = None \<Longrightarrow> rs_done s \<Longrightarrow>
     env_step s (s\<lparr>rs_sampler := Some None\<rparr>)"

definition run_step :: "put \<Rightarrow> run_state \<Rightarrow> run_state \<Rightarrow> bool" where
  "run_step put s t \<longleftrightarrow> loop_step put s t \<or> env_step s t"

inductive_cases loop_step_cases: "loop_step put s t"
inductive_cases env_step_cases: "env_step s t"

inductive run_steps :: "put \<Rightarrow> run_state \<Rightarrow> run_state \<Rightarrow> bool" for put where
  refl: "run_steps put s s"
| step: "run_steps put s t \<Longrightarrow> run_step put t u \<Longrightarrow> run_steps put s u"

subsection \<open>Report IDs\<close>

lemma report_id_inj: "report_id t m = report_id u n \<longleftrightarrow> format_id_stamp t = format_id_stamp u \<and> m = n"
proof -
  have tw: "takeWhile (\<lambda>c. c \<noteq> CHR ''-'') (rev (report_id t n)) = rev (show_nat (unat n))" for t n
  proof -
    have "CHR ''-'' \<notin> set (show_nat (unat n))"
      using show_nat_digits [of "unat n"] by (rule is_digits_not_mem) (simp add: digit_val_def)
    then have "\<forall>c \<in> set (rev (show_nat (unat n))). c \<noteq> CHR ''-''" by auto
    then have "takeWhile (\<lambda>c. c \<noteq> CHR ''-'') (rev (show_nat (unat n)) @ CHR ''-'' # rev (format_id_stamp t)) =
        rev (show_nat (unat n)) @ takeWhile (\<lambda>c. c \<noteq> CHR ''-'') (CHR ''-'' # rev (format_id_stamp t))"
      by (intro takeWhile_append2) blast
    then show ?thesis by (simp add: report_id_def)
  qed
  have "report_id t m = report_id u n \<Longrightarrow> m = n"
  proof -
    assume "report_id t m = report_id u n"
    then have "rev (show_nat (unat m)) = rev (show_nat (unat n))" using tw [of t m] tw [of u n] by simp
    then show "m = n" by (simp add: show_nat_inj word_unat_eq_iff)
  qed
  then show ?thesis by (auto simp: report_id_def)
qed

subsection \<open>What a report says\<close>

definition report_core :: "report \<Rightarrow> string \<times> time \<times> identity \<times> victim \<times> source \<times> u64" where
  "report_core r = (rp_id r, rp_time r, rp_identity r, rp_victim r, rp_source r, rp_kill_count r)"

lemma core_frames:
  "report_core (apply_history v e r) = report_core r"
  "report_core (apply_live_stats v e d r) = report_core r"
  "report_core (apply_group_kill v e d r) = report_core r"
  "report_core (apply_processes v e d r) = report_core r"
  by (auto simp: report_core_def apply_history_def apply_live_stats_def apply_group_kill_def apply_processes_def
      Let_def split: option.split sum.split prod.split)

definition placed :: "daemon \<Rightarrow> report_view \<times> kill_event \<Rightarrow> bool" where
  "placed d x \<longleftrightarrow> dm_include_nk d \<or> parse_cgroup_path (ke_cgroup_path (snd x)) \<noteq> None"

definition event_identity :: "report_view \<Rightarrow> kill_event \<Rightarrow> identity" where
  "event_identity v e =
     (case resolve (rv_pods v) (ke_cgroup_path e) of
        Some i \<Rightarrow> i
      | None \<Rightarrow> identity_zero\<lparr>id_scope := (id_scope identity_zero)\<lparr>sc_cgroup_path := ke_cgroup_path e\<rparr>\<rparr>)"

lemma resolve_None: "resolve pods p = None \<longleftrightarrow> parse_cgroup_path p = None"
  by (auto simp: resolve_def Let_def split: option.splits if_splits)

lemma build_report_skip: "\<not> placed d (v, e) \<Longrightarrow> build_report v e d = (None, d)"
  by (simp add: build_report_def placed_def resolve_None Let_def)

lemma build_report_placed:
  assumes "placed d (v, e)"
  shows "\<exists>r. build_report v e d = (Some r, d\<lparr>dm_sequence := dm_sequence d + 1\<rparr>) \<and>
    report_core r = (report_id (ke_time e) (dm_sequence d + 1), ke_time e, event_identity v e, ke_victim e,
      ke_source e, ke_kill_count e)"
proof -
  have "\<not> (resolve (rv_pods v) (ke_cgroup_path e) = None \<and> \<not> dm_include_nk d)"
    using assms by (auto simp: placed_def resolve_None)
  then show ?thesis
    by (simp add: build_report_def Let_def next_id_def core_frames event_identity_def)
      (simp add: report_core_def report_zero_def)
qed

lemma build_report_frame:
  "build_report v e d = (r, d') \<Longrightarrow> d' = d\<lparr>dm_sequence := dm_sequence d'\<rparr>"
  by (auto simp: build_report_def next_id_def Let_def split: if_splits)

lemma handle_skip:
  "\<not> placed d (v, e) \<Longrightarrow> handle put v e d =
     d\<lparr>dm_skipped := dm_skipped d + 1,
       dm_unattributed := dm_unattributed d + (if in_kubepods_tree (ke_cgroup_path e) then 1 else 0)\<rparr>"
  by (simp add: handle_def build_report_skip Let_def)

lemma handle_placed:
  assumes "placed d (v, e)"
  shows "\<exists>r. report_core r = (report_id (ke_time e) (dm_sequence d + 1), ke_time e, event_identity v e, ke_victim e,
      ke_source e, ke_kill_count e) \<and>
    handle memory_put v e d = d\<lparr>dm_sequence := dm_sequence d + 1,
      dm_announced := (if dm_has_on_report d then dm_announced d @ [r] else dm_announced d),
      dm_store := store_put r (dm_store d), dm_processed := dm_processed d + 1\<rparr>"
proof -
  obtain r where "build_report v e d = (Some r, d\<lparr>dm_sequence := dm_sequence d + 1\<rparr>)"
    "report_core r = (report_id (ke_time e) (dm_sequence d + 1), ke_time e, event_identity v e, ke_victim e,
      ke_source e, ke_kill_count e)"
    using build_report_placed [OF assms] by blast
  then show ?thesis by (intro exI [of _ r]) (simp add: handle_def memory_put_def Let_def)
qed

lemma handle_watching: "dm_watching (handle put v e d) = dm_watching d"
proof -
  obtain r d1 where b: "build_report v e d = (r, d1)" by force
  have "dm_watching d1 = dm_watching d"
    using build_report_frame [OF b] by (metis daemon.select_convs(11) daemon.surjective daemon.update_convs(7))
  then show ?thesis by (auto simp: handle_def b Let_def split: option.split sum.split)
qed

subsection \<open>The warning about a victim still listed\<close>

lemma build_report_processes:
  assumes "build_report v e d = (Some r, d')" "dm_has_proc d" "dm_has_cgroup d" "procs_in (rv_members v) (ke_cgroup_path e) = Inr pids"
  shows "(rp_processes r, rp_victim_match r) = processes_from (processes_with_pids (rv_proc v) pids) (ke_victim e) \<and>
    rp_victim r = ke_victim e"
proof -
  have d': "d' = d\<lparr>dm_sequence := dm_sequence d'\<rparr>" by (rule build_report_frame [OF assms(1)])
  have "dm_has_proc d'" "dm_has_cgroup d'" by (subst d', simp add: assms(2,3))+
  moreover have "rp_victim r = ke_victim e"
    using build_report_placed [of d v e] build_report_skip [of d v e] assms(1) by (auto simp: report_core_def)
  ultimately show ?thesis
    using assms(1,4) by (auto simp: build_report_def apply_processes_def Let_def split: if_splits prod.splits)
qed

text \<open>
  The victim a poll infers is one that has left its cgroup, so it is never in the listing made for
  the report afterwards: unless some process there happens to carry its number inside the
  container, the log warns, wrongly, that a killed process is listed.
\<close>

lemma polled_victims_raise_alarm:
  assumes "poller_ok s" "map_get (pl_snapshots s) (ke_cgroup_path e) = Some previous" "pl_has_proc s"
    and "procs_in (pv_survivors w (ke_cgroup_path e)) (ke_cgroup_path e) = Inr alive"
    and "ke_victim e = infer_victim w (ke_cgroup_path e) s" "v_known (ke_victim e)"
    and "build_report v e d = (Some r, d')" "dm_has_proc d" "dm_has_cgroup d"
    and "procs_in (rv_members v) (ke_cgroup_path e) = Inr pids" "set pids \<subseteq> set alive"
    and "\<forall>p \<in> set (processes_with_pids (rv_proc v) pids). p_nspid p \<noteq> v_nspid (ke_victim e)"
  shows "warn_on_unfiltered_victim r \<and> (\<forall>p \<in> set (rp_processes r). ps_pid p \<noteq> v_pid (ke_victim e))"
proof -
  let ?procs = "processes_with_pids (rv_proc v) pids"
  have away: "v_pid (ke_victim e) \<notin> set alive"
    unfolding assms(5) by (rule inferred_gone [OF assms(1-4)]) (use assms(6) in \<open>simp only: assms(5)\<close>)
  have gone: "\<forall>p \<in> set ?procs. p_pid p \<noteq> v_pid (ke_victim e)"
  proof
    fix p assume "p \<in> set ?procs"
    then have "p_pid p \<in> set alive" using listed_pids assms(11) by (meson subsetD)
    then show "p_pid p \<noteq> v_pid (ke_victim e)" using away by metis
  qed
  then have "\<forall>p \<in> set ?procs. match_victim p (ke_victim e) b = VictimMatchNone" for b
    using assms(12) by (auto simp: match_victim_def)
  then have "processes_from ?procs (ke_victim e) = (map snapshot_of ?procs, VictimMatchNone)"
    by (simp add: processes_from_def list_no_match)
  then have r: "rp_processes r = map snapshot_of ?procs" "rp_victim_match r = VictimMatchNone" "rp_victim r = ke_victim e"
    using build_report_processes [OF assms(7-10)] by simp_all
  have "\<forall>p \<in> set ?procs. ps_pid (snapshot_of p) \<noteq> v_pid (ke_victim e)"
    using gone by (simp add: snapshot_of_def)
  then show ?thesis unfolding warn_on_unfiltered_victim_def r using assms(6) by simp
qed

subsection \<open>A run over a list of events\<close>

definition handle_all :: "(report_view \<times> kill_event) list \<Rightarrow> daemon \<Rightarrow> daemon" where
  "handle_all evs d = fold (\<lambda>(v, e). handle memory_put v e) evs d"

definition event_facts :: "report_view \<times> kill_event \<Rightarrow> time \<times> identity \<times> victim \<times> source \<times> u64" where
  "event_facts x = (ke_time (snd x), event_identity (fst x) (snd x), ke_victim (snd x), ke_source (snd x), ke_kill_count (snd x))"

definition report_facts :: "report \<Rightarrow> time \<times> identity \<times> victim \<times> source \<times> u64" where
  "report_facts r = snd (report_core r)"

definition tallied :: "daemon \<Rightarrow> (report_view \<times> kill_event) list \<Rightarrow> daemon \<Rightarrow> bool" where
  "tallied d0 evs d \<longleftrightarrow>
     (let kept = filter (placed d0) evs in
      dm_sequence d = of_nat (length kept) \<and> dm_processed d = of_nat (length kept) \<and>
      dm_skipped d = of_nat (length (filter (\<lambda>x. \<not> placed d0 x) evs)) \<and>
      dm_unattributed d =
        of_nat (length (filter (\<lambda>x. \<not> placed d0 x \<and> in_kubepods_tree (ke_cgroup_path (snd x))) evs)) \<and>
      dm_include_nk d = dm_include_nk d0 \<and> store_ok (dm_store d) \<and>
      mm_capacity (dm_store d) = mm_capacity (dm_store d0) \<and>
      map report_facts (mm_ordered (dm_store d)) = keep_last (nat (mm_capacity (dm_store d0))) (map event_facts kept) \<and>
      (\<forall>i \<in> set (ids (dm_store d)). \<exists>t k. i = report_id t (of_nat k) \<and> k \<le> length kept))"

lemma of_nat_u64_inj: "m < 2 ^ 64 \<Longrightarrow> n < 2 ^ 64 \<Longrightarrow> (of_nat m :: u64) = of_nat n \<Longrightarrow> m = n"
  by (metis unat_of_nat_u64)

lemma tallied_step:
  assumes t: "tallied d0 evs d" and n: "length evs + 1 < 2 ^ 64"
  shows "tallied d0 (evs @ [x]) (handle memory_put (fst x) (snd x) d)"
proof -
  have p: "placed d x = placed d0 x" using t by (simp add: tallied_def placed_def Let_def)
  show ?thesis
  proof (cases "placed d0 x")
    case False
    then have h: "handle memory_put (fst x) (snd x) d = d\<lparr>dm_skipped := dm_skipped d + 1,
        dm_unattributed := dm_unattributed d + (if in_kubepods_tree (ke_cgroup_path (snd x)) then 1 else 0)\<rparr>"
      using p by (intro handle_skip) simp
    show ?thesis unfolding h using t False by (simp add: tallied_def Let_def)
  next
    case True
    define L where "L = length (filter (placed d0) evs)"
    have "L \<le> length evs" by (simp add: L_def)
    then have L: "L < 2 ^ 64" "Suc L < 2 ^ 64" using n by linarith+
    have sq: "dm_sequence d + 1 = of_nat (Suc L)" using t by (simp add: tallied_def Let_def L_def)
    obtain r where r: "report_core r = (report_id (ke_time (snd x)) (of_nat (Suc L)), ke_time (snd x),
        event_identity (fst x) (snd x), ke_victim (snd x), ke_source (snd x), ke_kill_count (snd x))"
      "handle memory_put (fst x) (snd x) d = d\<lparr>dm_sequence := of_nat (Suc L),
        dm_announced := (if dm_has_on_report d then dm_announced d @ [r] else dm_announced d),
        dm_store := store_put r (dm_store d), dm_processed := dm_processed d + 1\<rparr>"
      using handle_placed [of d "fst x" "snd x"] True p unfolding sq by auto
    have ok: "store_ok (dm_store d)" and cp: "mm_capacity (dm_store d) = mm_capacity (dm_store d0)"
      and old: "\<forall>i \<in> set (ids (dm_store d)). \<exists>t k. i = report_id t (of_nat k) \<and> k \<le> L"
      and held: "map report_facts (mm_ordered (dm_store d)) =
        keep_last (nat (mm_capacity (dm_store d0))) (map event_facts (filter (placed d0) evs))"
      using t by (simp_all add: tallied_def Let_def L_def)
    have rid: "rp_id r = report_id (ke_time (snd x)) (of_nat (Suc L))" "report_facts r = event_facts x"
      using r(1) by (simp_all add: report_core_def report_facts_def event_facts_def)
    have fresh: "rp_id r \<notin> set (ids (dm_store d))"
    proof
      assume "rp_id r \<in> set (ids (dm_store d))"
      then obtain t k where k: "rp_id r = report_id t (of_nat k)" "k \<le> L" using old by blast
      then have "(of_nat (Suc L) :: u64) = of_nat k" using rid(1) report_id_inj by metis
      then have "Suc L = k" using L k(2) by (intro of_nat_u64_inj) simp_all
      then show False using k(2) by simp
    qed
    note put = store_put_new [OF ok fresh]
    have "mm_ordered (store_put r (dm_store d)) = keep_last (nat (mm_capacity (dm_store d))) (mm_ordered (dm_store d) @ [r])"
      using reports.contents_add [OF ok fresh] by simp
    then have "map report_facts (mm_ordered (store_put r (dm_store d))) =
        keep_last (nat (mm_capacity (dm_store d0))) (map report_facts (mm_ordered (dm_store d)) @ [event_facts x])"
      using rid(2) cp by (simp flip: keep_last_map)
    also have "\<dots> = keep_last (nat (mm_capacity (dm_store d0))) (map event_facts (filter (placed d0) (evs @ [x])))"
      using True by (simp add: held keep_last_snoc)
    finally have held': "map report_facts (mm_ordered (store_put r (dm_store d))) =
        keep_last (nat (mm_capacity (dm_store d0))) (map event_facts (filter (placed d0) (evs @ [x])))" .
    have ids': "\<forall>i \<in> set (ids (store_put r (dm_store d))). \<exists>t k. i = report_id t (of_nat k) \<and> k \<le> Suc L"
    proof
      fix i assume "i \<in> set (ids (store_put r (dm_store d)))"
      then have "i = rp_id r \<or> i \<in> set (ids (dm_store d))"
        using put kept_ids [of "dm_store d"] by (auto simp: ids_def)
      then show "\<exists>t k. i = report_id t (of_nat k) \<and> k \<le> Suc L"
        using rid(1) old by (metis le_Suc_eq order_refl)
    qed
    show ?thesis
      unfolding r(2) tallied_def Let_def
      using t True held' ids' put cp by (simp add: tallied_def Let_def L_def)
  qed
qed

lemma tallied_all:
  assumes "tallied d0 [] d0" "length evs < 2 ^ 64"
  shows "tallied d0 evs (handle_all evs d0)"
  using assms(2)
proof (induction evs rule: rev_induct)
  case Nil
  then show ?case using assms(1) by (simp add: handle_all_def)
next
  case (snoc x evs)
  have "handle_all (evs @ [x]) d0 = handle memory_put (fst x) (snd x) (handle_all evs d0)"
    by (simp add: handle_all_def split: prod.split)
  then show ?case using snoc tallied_step [of d0 evs "handle_all evs d0" x] by simp
qed

lemma tallied_new:
  "new_daemon opts = Inr d \<Longrightarrow> dp_store opts = Some (new_memory c) \<Longrightarrow>
     tallied d [] d \<and> mm_capacity (dm_store d) = (if c \<le> 0 then 256 else c)"
  using store_ok_new [of c]
  by (auto simp: new_daemon_def tallied_def new_memory_def ids_def default_capacity_def
      split: option.splits if_splits)

text \<open>C1: Nothing a daemon is told about is lost silently. Over any list of kill events, the events it
  could place are all processed, the others are all skipped, those of them inside the kubepods
  tree are counted as unattributed, and the store holds exactly the newest placed events up to its
  capacity, in order and one report each, with the event's time, identity, victim, source and kill
  count.\<close>

theorem every_event_accounted_for:
  assumes "new_daemon opts = Inr d" "dp_store opts = Some (new_memory c)" "length evs < 2 ^ 64"
  shows "unat (dm_processed (handle_all evs d)) = length (filter (placed d) evs) \<and>
    unat (dm_processed (handle_all evs d)) + unat (dm_skipped (handle_all evs d)) = length evs \<and>
    unat (dm_unattributed (handle_all evs d)) =
      length (filter (\<lambda>x. \<not> placed d x \<and> in_kubepods_tree (ke_cgroup_path (snd x))) evs) \<and>
    map report_facts (mm_ordered (dm_store (handle_all evs d))) =
      keep_last (nat (if c \<le> 0 then 256 else c)) (map event_facts (filter (placed d) evs))"
proof -
  have t: "tallied d evs (handle_all evs d)" and c: "mm_capacity (dm_store d) = (if c \<le> 0 then 256 else c)"
    using tallied_new [OF assms(1,2)] tallied_all [OF _ assms(3)] by blast+
  have small: "length (filter P evs) < 2 ^ 64" for P
    using length_filter_le [of P evs] assms(3) by linarith
  have u: "unat (of_nat (length (filter P evs)) :: u64) = length (filter P evs)" for P
    by (rule unat_of_nat_u64 [OF small])
  show ?thesis
    using t c sum_length_filter_compl [of "placed d" evs] by (simp add: tallied_def Let_def u)
qed

subsection \<open>Demonstration data\<close>

definition demo_report_view :: report_view where
  "demo_report_view = \<lparr>rv_pods = None, rv_sampler = demo_sampler, rv_stats = demo_v2,
     rv_group = (demo_v2, cg_root demo_v2), rv_members = demo_v2, rv_proc = demo_proc\<rparr>"

definition demo_event :: "string \<Rightarrow> u64 \<Rightarrow> kill_event" where
  "demo_event path n = \<lparr>ke_time = 0, ke_cgroup_path = path, ke_victim = victim_zero\<lparr>v_rss_bytes := 11\<rparr>,
     ke_kill_count = n, ke_group_kill = Some True, ke_source = SourceEBPF\<rparr>"

definition demo_daemon_options :: "int \<Rightarrow> daemon_options" where
  "demo_daemon_options c = \<lparr>dp_detector = Some SourceEBPF, dp_has_sampler = True, dp_store = Some (new_memory c),
     dp_has_cgroup = True, dp_has_resolver = True, dp_has_proc = False, dp_has_on_report = True,
     dp_include_nk = False\<rparr>"

lemma demo_daemon: "\<exists>d. new_daemon (demo_daemon_options c) = Inr d \<and> \<not> dm_include_nk d \<and> dm_has_cgroup d"
  by (simp add: new_daemon_def demo_daemon_options_def)

lemma demo_paths:
  "parse_cgroup_path ''/kubepods/pod7/c1'' \<noteq> None" "parse_cgroup_path ''/sshd'' = None"
  by (simp add: parse_demo_path)
    (simp add: cgroup_path_defs split_path_def parse_pod_segment_def go_eval)

theorem every_event_accounted_for_witness:
  "\<exists>d. new_daemon (demo_daemon_options 1) = Inr d \<and>
     unat (dm_processed (handle_all [(demo_report_view, demo_event ''/kubepods/pod7/c1'' 4),
       (demo_report_view, demo_event ''/sshd'' 9)] d)) = 1"
proof -
  obtain d where d: "new_daemon (demo_daemon_options 1) = Inr d" "\<not> dm_include_nk d"
    using demo_daemon by blast
  have s: "dp_store (demo_daemon_options 1) = Some (new_memory 1)" by (simp add: demo_daemon_options_def)
  show ?thesis
    using every_event_accounted_for [OF d(1) s, of "[(demo_report_view, demo_event ''/kubepods/pod7/c1'' 4),
       (demo_report_view, demo_event ''/sshd'' 9)]"] d
    by (simp add: placed_def demo_event_def demo_paths)
qed

subsection \<open>The figures of a report\<close>

text \<open>What each source has to say about the peak and the limit, 0 where it says nothing.\<close>

definition sampled_peak :: "report_view \<Rightarrow> kill_event \<Rightarrow> u64" where
  "sampled_peak v e = (case history (rv_sampler v) (ke_cgroup_path e) of
     None \<Rightarrow> 0 | Some h \<Rightarrow> if h = [] then 0 else ms_peak (sm_stats (last h)))"

definition sampled_limit :: "report_view \<Rightarrow> kill_event \<Rightarrow> u64" where
  "sampled_limit v e = (case history (rv_sampler v) (ke_cgroup_path e) of
     None \<Rightarrow> 0 | Some h \<Rightarrow> if h = [] \<or> ms_limit (sm_stats (last h)) = unlimited_limit then 0 else ms_limit (sm_stats (last h)))"

definition live_peak :: "daemon \<Rightarrow> report_view \<Rightarrow> kill_event \<Rightarrow> u64" where
  "live_peak d v e = (if dm_has_cgroup d
     then case read_memory_stats (rv_stats v) (ke_cgroup_path e) of Inl _ \<Rightarrow> 0 | Inr m \<Rightarrow> ms_peak m else 0)"

definition live_limit :: "daemon \<Rightarrow> report_view \<Rightarrow> kill_event \<Rightarrow> u64" where
  "live_limit d v e = (if dm_has_cgroup d
     then case read_memory_stats (rv_stats v) (ke_cgroup_path e) of
       Inl _ \<Rightarrow> 0 | Inr m \<Rightarrow> if ms_limit m = unlimited_limit then 0 else ms_limit m else 0)"

definition live_group :: "daemon \<Rightarrow> report_view \<Rightarrow> kill_event \<Rightarrow> bool option" where
  "live_group d v e = (if dm_has_cgroup d
     then case read_oom_group (fst (rv_group v)) (snd (rv_group v)) (ke_cgroup_path e) of Inl _ \<Rightarrow> None | Inr b \<Rightarrow> Some b
     else None)"

lemma apply_history_figures:
  assumes "rp_peak_bytes r = 0" "rp_limit_bytes r = 0"
  shows "rp_peak_bytes (apply_history v e r) = sampled_peak v e"
    "rp_limit_bytes (apply_history v e r) = sampled_limit v e"
    "rp_group_kill (apply_history v e r) = rp_group_kill r"
  using assms
  by (auto simp: apply_history_def sampled_peak_def sampled_limit_def Let_def last_conv_nth split: option.split)

lemma raise_peak:
  "(if rp_peak_bytes r < x then r\<lparr>rp_peak_bytes := x\<rparr> else r) = r\<lparr>rp_peak_bytes := max (rp_peak_bytes r) x\<rparr>"
  by (simp add: max_def not_le order.strict_implies_order)

lemma max_word_zero: "max (x :: u64) 0 = x"
  by (simp add: max_def)

lemma apply_live_stats_figures:
  "rp_peak_bytes (apply_live_stats v e d r) = max (max (rp_peak_bytes r) (live_peak d v e)) (v_rss_bytes (ke_victim e))"
  "rp_limit_bytes (apply_live_stats v e d r) = (if rp_limit_bytes r = 0 then live_limit d v e else rp_limit_bytes r)"
  "rp_group_kill (apply_live_stats v e d r) = rp_group_kill r"
proof -
  have "rp_peak_bytes (apply_live_stats v e d r) = max (max (rp_peak_bytes r) (live_peak d v e)) (v_rss_bytes (ke_victim e))
    \<and> rp_limit_bytes (apply_live_stats v e d r) = (if rp_limit_bytes r = 0 then live_limit d v e else rp_limit_bytes r)
    \<and> rp_group_kill (apply_live_stats v e d r) = rp_group_kill r"
  proof (cases "dm_has_cgroup d")
    case False
    then show ?thesis by (simp add: apply_live_stats_def raise_peak live_peak_def live_limit_def max_word_zero)
  next
    case True
    then show ?thesis
      by (cases "read_memory_stats (rv_stats v) (ke_cgroup_path e)")
        (simp_all add: apply_live_stats_def raise_peak live_peak_def live_limit_def Let_def max_word_zero)
  qed
  then show "rp_peak_bytes (apply_live_stats v e d r) = max (max (rp_peak_bytes r) (live_peak d v e)) (v_rss_bytes (ke_victim e))"
    "rp_limit_bytes (apply_live_stats v e d r) = (if rp_limit_bytes r = 0 then live_limit d v e else rp_limit_bytes r)"
    "rp_group_kill (apply_live_stats v e d r) = rp_group_kill r" by blast+
qed

lemma apply_group_kill_figures:
  "rp_peak_bytes (apply_group_kill v e d r) = rp_peak_bytes r"
  "rp_limit_bytes (apply_group_kill v e d r) = rp_limit_bytes r"
  "rp_group_kill r = None \<Longrightarrow> rp_group_kill (apply_group_kill v e d r) =
     (if ke_group_kill e = None then live_group d v e else ke_group_kill e)"
  by (auto simp: apply_group_kill_def live_group_def split: option.split sum.split)

lemma apply_processes_figures:
  "rp_peak_bytes (apply_processes v e d r) = rp_peak_bytes r"
  "rp_limit_bytes (apply_processes v e d r) = rp_limit_bytes r"
  "rp_group_kill (apply_processes v e d r) = rp_group_kill r"
  by (auto simp: apply_processes_def split: sum.split prod.split)

text \<open>C4: The headline figures of a report. The peak is the highest of the last sampled high-water mark,
  the one read from the cgroup at report time and the victim's own resident memory; the limit is
  the sampled one if there is one and else the live one, with no limit reported as 0 and never as
  the kernel's sentinel; the group-kill flag is the detector's own reading whenever it has one
  and otherwise the late reading, absent when that fails.\<close>

theorem report_headline_figures:
  assumes "build_report v e d = (Some r, d')"
  shows "rp_peak_bytes r = max (max (sampled_peak v e) (live_peak d v e)) (v_rss_bytes (ke_victim e)) \<and>
    rp_limit_bytes r = (if sampled_limit v e = 0 then live_limit d v e else sampled_limit v e) \<and>
    rp_limit_bytes r \<noteq> unlimited_limit \<and>
    rp_group_kill r = (if ke_group_kill e = None then live_group d v e else ke_group_kill e)"
proof -
  have d': "d' = d\<lparr>dm_sequence := dm_sequence d'\<rparr>" by (rule build_report_frame [OF assms])
  have same: "live_peak d' v e = live_peak d v e" "live_limit d' v e = live_limit d v e" "live_group d' v e = live_group d v e"
    by (subst d', simp add: live_peak_def live_limit_def live_group_def)+
  obtain i ident where r: "r = apply_processes v e d' (apply_group_kill v e d' (apply_live_stats v e d' (apply_history v e
      (report_zero\<lparr>rp_id := i, rp_time := ke_time e, rp_identity := ident, rp_victim := ke_victim e,
        rp_source := ke_source e, rp_kill_count := ke_kill_count e\<rparr>))))"
    using assms by (auto simp: build_report_def Let_def split: if_splits prod.splits)
  have "sampled_limit v e \<noteq> unlimited_limit" "live_limit d v e \<noteq> unlimited_limit"
    by (auto simp: sampled_limit_def live_limit_def unlimited_limit_def split: option.split sum.split)
  then show ?thesis
    unfolding r
    by (simp add: apply_processes_figures apply_group_kill_figures apply_live_stats_figures apply_history_figures
        report_zero_def same)
qed

theorem report_headline_figures_witness:
  "\<exists>d r d'. build_report demo_report_view (demo_event ''/kubepods/pod7/c1'' 4) d = (Some r, d') \<and>
     rp_peak_bytes r = max (live_peak d demo_report_view (demo_event ''/kubepods/pod7/c1'' 4)) 11 \<and>
     rp_group_kill r = Some True"
proof -
  obtain d where d: "new_daemon (demo_daemon_options 1) = Inr d" "\<not> dm_include_nk d" "dm_has_cgroup d"
    using demo_daemon by blast
  let ?e = "demo_event ''/kubepods/pod7/c1'' 4"
  have "placed d (demo_report_view, ?e)" by (simp add: placed_def demo_event_def demo_paths)
  then obtain r d' where b: "build_report demo_report_view ?e d = (Some r, d')"
    using build_report_placed by blast
  have e: "ke_group_kill ?e = Some True" "v_rss_bytes (ke_victim ?e) = 11" "sampled_peak demo_report_view ?e = 0"
    by (simp_all add: demo_event_def sampled_peak_def demo_report_view_def history_def demo_sampler_def map_get_def)
  have z: "max (0 :: u64) x = x" for x by (simp add: max_def)
  have "rp_peak_bytes r = max (live_peak d demo_report_view ?e) 11" "rp_group_kill r = Some True"
    using report_headline_figures [OF b] unfolding e by (simp_all add: z)
  then show ?thesis using b by blast
qed

subsection \<open>The life of a run\<close>

text \<open>How a state of the loop is consistent, from the start of \<open>Run\<close> on.\<close>

definition run_ok :: "run_state \<Rightarrow> bool" where
  "run_ok s \<longleftrightarrow>
     (dm_watching (rs_daemon s) \<longleftrightarrow> rs_phase s = RunLoop \<or> rs_phase s = RunAwaitSampler) \<and>
     (rs_phase s = RunStart \<longrightarrow> rs_sampler s = None) \<and>
     (rs_sampler s = Some None \<longrightarrow> rs_done s) \<and>
     (rs_phase s = RunAwaitSampler \<longrightarrow> rs_done s \<or> rs_closed s \<and> rs_events s = []) \<and>
     (rs_phase s = RunReturned \<longrightarrow> rs_sampler s = Some (rs_result s) \<or> rs_sampler s = None \<and> rs_result s \<noteq> None)"

definition run_initial :: "daemon \<Rightarrow> run_state \<Rightarrow> bool" where
  "run_initial d s \<longleftrightarrow> rs_phase s = RunStart \<and> rs_daemon s = d \<and> rs_sampler s = None \<and> rs_result s = None"

lemma loop_step_ok: "loop_step put s t \<Longrightarrow> run_ok s \<Longrightarrow> run_ok t"
  by (induction rule: loop_step.induct) (auto simp: run_ok_def run_return_def handle_watching)

lemma env_step_ok: "env_step s t \<Longrightarrow> run_ok s \<Longrightarrow> run_ok t"
  by (induction rule: env_step.induct) (auto simp: run_ok_def)

lemma run_step_ok: "run_step put s t \<Longrightarrow> run_ok s \<Longrightarrow> run_ok t"
  using loop_step_ok env_step_ok by (auto simp: run_step_def)

lemma run_steps_ok: "run_steps put s t \<Longrightarrow> run_ok s \<Longrightarrow> run_ok t"
  by (induction rule: run_steps.induct) (auto intro: run_step_ok)

lemma run_initial_ok: "run_initial d s \<Longrightarrow> \<not> dm_watching d \<Longrightarrow> run_ok s"
  by (simp add: run_initial_def run_ok_def)

text \<open>Once \<open>Run\<close> waits for the sampler, it only ever goes on to return, and handles nothing more.\<close>

lemma env_step_frame:
  "env_step s t \<Longrightarrow> rs_phase t = rs_phase s \<and> rs_daemon t = rs_daemon s \<and> rs_result t = rs_result s \<and>
     (rs_sampler s = Some res \<longrightarrow> rs_sampler t = Some res)"
  by (induction rule: env_step.induct) auto

lemma loop_step_sampler: "loop_step put s t \<Longrightarrow> rs_sampler t = rs_sampler s \<and> rs_done t = rs_done s"
  by (induction rule: loop_step.induct) (auto simp: run_return_def)

lemma await_step:
  assumes "run_step put s t" "rs_phase s = RunAwaitSampler"
  shows "rs_phase t = RunAwaitSampler \<and> rs_daemon t = rs_daemon s \<or>
    rs_phase t = RunReturned \<and> rs_daemon t = (rs_daemon s)\<lparr>dm_watching := False\<rparr> \<and> rs_sampler s = Some (rs_result t)"
proof -
  have "loop_step put s t \<Longrightarrow> rs_phase t = RunReturned \<and> rs_daemon t = (rs_daemon s)\<lparr>dm_watching := False\<rparr> \<and>
      rs_sampler s = Some (rs_result t)"
    using assms(2) by (auto elim!: loop_step.cases simp: run_return_def)
  then show ?thesis using assms env_step_frame [of s t] by (auto simp: run_step_def)
qed

lemma returned_step:
  assumes "run_step put s t" "rs_phase s = RunReturned"
  shows "rs_phase t = RunReturned \<and> rs_daemon t = rs_daemon s \<and> (rs_sampler s = Some r \<longrightarrow> rs_sampler t = Some r)"
proof -
  have "\<not> loop_step put s t" using assms(2) by (auto elim: loop_step.cases)
  then show ?thesis using assms env_step_frame [of s t r] by (auto simp: run_step_def)
qed

lemma await_steps:
  "run_steps put s t \<Longrightarrow> rs_phase s = RunAwaitSampler \<Longrightarrow>
     rs_phase t = RunAwaitSampler \<and> rs_daemon t = rs_daemon s \<or>
     rs_phase t = RunReturned \<and> rs_daemon t = (rs_daemon s)\<lparr>dm_watching := False\<rparr> \<and> rs_sampler t \<noteq> None"
proof (induction rule: run_steps.induct)
  case (refl s)
  then show ?case by simp
next
  case (step s t u)
  consider (waiting) "rs_phase t = RunAwaitSampler" "rs_daemon t = rs_daemon s"
    | (over) "rs_phase t = RunReturned" "rs_daemon t = (rs_daemon s)\<lparr>dm_watching := False\<rparr>" "rs_sampler t \<noteq> None"
    using step by blast
  then show ?case
  proof cases
    case waiting
    have "rs_sampler t = Some r \<Longrightarrow> rs_sampler u = Some r" for r
      using step.hyps(2) loop_step_sampler [of put t u] env_step_frame [of t u r] by (auto simp: run_step_def)
    then show ?thesis using await_step [OF step.hyps(2) waiting(1)] waiting(2) by auto
  next
    case over
    then obtain r where "rs_sampler t = Some r" by blast
    then show ?thesis using over returned_step [OF step.hyps(2) over(1), of r] by simp
  qed
qed

text \<open>Wherever a run has got to, the daemon reports itself as watching exactly while \<open>Run\<close> is past
  the start of its detector and has not returned, so a failed start and every return leave it not
  ready; and \<open>Run\<close> returns without an error only when its context was cancelled.\<close>

theorem watching_exactly_while_running:
  assumes "run_initial d s" "\<not> dm_watching d" "run_steps put s t"
  shows "(dm_watching (rs_daemon t) \<longleftrightarrow> rs_phase t = RunLoop \<or> rs_phase t = RunAwaitSampler) \<and>
    (rs_phase t = RunReturned \<and> rs_result t = None \<longrightarrow> rs_done t)"
  using run_steps_ok [OF assms(3) run_initial_ok [OF assms(1,2)]] by (auto simp: run_ok_def)

text \<open>When the detector stops and its channel closes, \<open>Run\<close> does not: while the sampler keeps
  going nothing is handled any more, whatever else happens, and the daemon goes on calling itself
  watching, so that \<open>Ready\<close> still holds for any sampler with a cgroup in it. Only the sampler's
  own end, which without a cancellation is its failure, ends the run.\<close>

theorem closed_detector_stays_ready:
  assumes "rs_phase s = RunLoop" "rs_closed s" "rs_events s = []" "dm_watching (rs_daemon s)"
  shows "run_step put s (s\<lparr>rs_phase := RunAwaitSampler\<rparr>) \<and>
    (\<forall>t. run_steps put (s\<lparr>rs_phase := RunAwaitSampler\<rparr>) t \<and> rs_sampler t = None \<longrightarrow>
      rs_phase t = RunAwaitSampler \<and> rs_daemon t = rs_daemon s \<and>
      (\<forall>smp. tracked smp \<noteq> [] \<longrightarrow> ready (rs_daemon t) smp))"
proof (intro conjI allI impI)
  let ?w = "s\<lparr>rs_phase := RunAwaitSampler\<rparr>"
  show "run_step put s ?w" using assms by (simp add: run_step_def events_closed)
  fix t assume "run_steps put ?w t \<and> rs_sampler t = None"
  then have *: "rs_phase t = RunAwaitSampler" "rs_daemon t = rs_daemon s"
    using await_steps [of put ?w t] by auto
  show "rs_phase t = RunAwaitSampler" "rs_daemon t = rs_daemon s" by (fact *)+
  show "ready (rs_daemon t) smp" if "tracked smp \<noteq> []" for smp
    using * that assms(4) by (simp add: ready_def)
qed

text \<open>How many steps \<open>Run\<close> still has by itself.\<close>

definition steps_left :: "run_state \<Rightarrow> nat" where
  "steps_left s = (case rs_phase s of RunStart \<Rightarrow> length (rs_events s) + 3 | RunLoop \<Rightarrow> length (rs_events s) + 2
     | RunAwaitSampler \<Rightarrow> 1 | RunReturned \<Rightarrow> 0)"

lemma loop_step_decreases: "loop_step put s t \<Longrightarrow> steps_left t < steps_left s"
  by (induction rule: loop_step.induct) (auto simp: steps_left_def run_return_def)

lemma loop_steps_decrease: "(loop_step put ^^ n) s t \<Longrightarrow> n + steps_left t \<le> steps_left s"
proof (induction n arbitrary: t)
  case (Suc n)
  then obtain u where "(loop_step put ^^ n) s u" "loop_step put u t" by auto
  then show ?case using Suc.IH [of u] loop_step_decreases [of put u t] by simp
qed simp

definition stopping :: "err option \<Rightarrow> run_state \<Rightarrow> bool" where
  "stopping res s \<longleftrightarrow> rs_done s \<and> rs_sampler s = Some res \<and> rs_phase s \<noteq> RunStart \<and>
     (rs_phase s = RunReturned \<longrightarrow> rs_result s = res \<and> \<not> dm_watching (rs_daemon s))"

lemma loop_step_stopping: "loop_step put s t \<Longrightarrow> stopping res s \<Longrightarrow> stopping res t"
  by (induction rule: loop_step.induct) (auto simp: stopping_def run_return_def)

lemma loop_steps_stopping: "(loop_step put ^^ n) s t \<Longrightarrow> stopping res s \<Longrightarrow> stopping res t"
proof (induction n arbitrary: t)
  case (Suc n)
  then obtain u where "(loop_step put ^^ n) s u" "loop_step put u t" by auto
  then show ?case using Suc loop_step_stopping by blast
qed simp

lemma stopping_progress: "stopping res s \<Longrightarrow> (\<exists>t. loop_step put s t) \<longleftrightarrow> rs_phase s \<noteq> RunReturned"
proof (cases "rs_phase s")
  case RunLoop
  then show "stopping res s \<Longrightarrow> ?thesis" using sampler_stopped [of s res put] by (auto simp: stopping_def)
next
  case RunAwaitSampler
  then show "stopping res s \<Longrightarrow> ?thesis" using sampler_awaited [of s res put] by (auto simp: stopping_def)
next
  case RunReturned
  then show ?thesis by (auto elim: loop_step.cases)
qed (simp add: stopping_def)

text \<open>A cancelled run comes to an end, whatever \<open>select\<close> picks. Once the context is done and the
  sampler has stopped, every way \<open>Run\<close> can go on has at most two steps more than there are
  events waiting, none gets stuck before it returned, and what it then returned is the sampler's
  own result, with the daemon no longer watching.\<close>

theorem cancelled_run_terminates:
  assumes "rs_phase s = RunLoop \<or> rs_phase s = RunAwaitSampler" "rs_done s" "rs_sampler s = Some res"
    and "(loop_step put ^^ n) s t"
  shows "n \<le> length (rs_events s) + 2 \<and> ((\<exists>u. loop_step put t u) \<longleftrightarrow> rs_phase t \<noteq> RunReturned) \<and>
    (rs_phase t = RunReturned \<longrightarrow> rs_result t = res \<and> \<not> dm_watching (rs_daemon t))"
proof -
  have "stopping res s" using assms(1-3) by (auto simp: stopping_def)
  then have st: "stopping res t" by (rule loop_steps_stopping [OF assms(4)])
  moreover have "steps_left s \<le> length (rs_events s) + 2" using assms(1) by (auto simp: steps_left_def)
  ultimately show ?thesis
    using loop_steps_decrease [OF assms(4)] stopping_progress [OF st, of put] by (auto simp: stopping_def)
qed

subsection \<open>A run whose detector stops\<close>

definition demo_run :: "run_phase \<Rightarrow> daemon \<Rightarrow> run_state" where
  "demo_run ph d = \<lparr>rs_phase = ph, rs_daemon = d, rs_done = False, rs_events = [], rs_closed = True,
     rs_sampler = None, rs_result = None\<rparr>"

theorem watching_exactly_while_running_witness:
  "\<exists>d t. run_steps memory_put (demo_run RunStart d) t \<and> rs_phase t = RunLoop \<and> dm_watching (rs_daemon t)"
proof -
  obtain d where d: "new_daemon (demo_daemon_options 1) = Inr d" using demo_daemon by blast
  then have w: "\<not> dm_watching d" by (auto simp: new_daemon_def demo_daemon_options_def)
  let ?s = "demo_run RunStart d"
  let ?t = "?s\<lparr>rs_phase := RunLoop, rs_daemon := (rs_daemon ?s)\<lparr>dm_watching := True\<rparr>\<rparr>"
  have "run_step memory_put ?s ?t" unfolding run_step_def by (rule disjI1, rule loop_step.start) (simp add: demo_run_def)
  then have st: "run_steps memory_put ?s ?t" by (rule run_steps.step [OF run_steps.refl])
  have "run_initial d ?s" by (simp add: run_initial_def demo_run_def)
  then have "dm_watching (rs_daemon ?t)"
    using watching_exactly_while_running [OF _ w st] by simp
  then show ?thesis using st by (intro exI [of _ d] exI [of _ ?t]) simp
qed

theorem closed_detector_stays_ready_witness:
  "\<exists>s w. rs_closed s \<and> run_step memory_put s w \<and> rs_phase w = RunAwaitSampler \<and>
     ready (rs_daemon w) demo_sampler"
proof -
  obtain d where d: "new_daemon (demo_daemon_options 1) = Inr d" using demo_daemon by blast
  let ?s = "demo_run RunLoop (d\<lparr>dm_watching := True\<rparr>)"
  have h: "rs_phase ?s = RunLoop" "rs_closed ?s" "rs_events ?s = []" "dm_watching (rs_daemon ?s)"
    by (simp_all add: demo_run_def)
  have "tracked demo_sampler \<noteq> []"
    by (simp add: tracked_def demo_sampler_def map_keys_def)
  moreover have "rs_sampler (?s\<lparr>rs_phase := RunAwaitSampler\<rparr>) = None" by (simp add: demo_run_def)
  ultimately have "run_step memory_put ?s (?s\<lparr>rs_phase := RunAwaitSampler\<rparr>) \<and>
      ready (rs_daemon (?s\<lparr>rs_phase := RunAwaitSampler\<rparr>)) demo_sampler"
    using closed_detector_stays_ready [OF h, of memory_put] run_steps.refl by metis
  then show ?thesis using h(2) by (intro exI [of _ ?s] exI [of _ "?s\<lparr>rs_phase := RunAwaitSampler\<rparr>"]) simp
qed

theorem cancelled_run_terminates_witness:
  "\<exists>d t. loop_step memory_put ((demo_run RunLoop d)\<lparr>rs_done := True, rs_sampler := Some None\<rparr>) t \<and>
     rs_phase t = RunReturned \<and> rs_result t = None"
proof -
  obtain d where d: "new_daemon (demo_daemon_options 1) = Inr d" using demo_daemon by blast
  let ?s = "(demo_run RunLoop d)\<lparr>rs_done := True, rs_sampler := Some None\<rparr>"
  have h: "rs_phase ?s = RunLoop \<or> rs_phase ?s = RunAwaitSampler" "rs_done ?s" "rs_sampler ?s = Some None"
    by (simp_all add: demo_run_def)
  have one: "loop_step memory_put ?s (run_return None ?s)" using h by (intro sampler_stopped) (simp_all add: demo_run_def)
  then have "(loop_step memory_put ^^ 1) ?s (run_return None ?s)" by (auto simp: OO_def)
  from cancelled_run_terminates [OF h this] have "rs_result (run_return None ?s) = None" by (simp add: run_return_def)
  then show ?thesis using one by (intro exI [of _ d] exI [of _ "run_return None ?s"]) (simp add: run_return_def)
qed

end
