(* ===== verification/Api.thy ===== *)
theory Api
  imports ReportStore GoTime
begin

section \<open>The HTTP API\<close>

text \<open>
  Models \<open>src/internal/api/api.go\<close> and the renderers of \<open>src/internal/render/json.go\<close> it calls: the
  route table and every handler, as functions from a request to a response. The body of a
  response is the value handed to the JSON encoder, and whether the encoder takes it (a float that
  is no number and a year beyond 9999 make it fail); its bytes are in \<open>Wire\<close>. A request
  path is the list of the segments of the escaped path, a query the parsed parameters; the
  multiplexer cleans the path and decodes the segments. The body of an answer to \<open>HEAD\<close> is what
  the handler writes, which the server then drops. The listener,
  its shutdown (see \<open>serve_step\<close> in \<open>Service\<close>), the timeouts and failed writes are left out.
\<close>

record api_status =
  st_detector :: string
  st_cgroup_version :: string
  st_ready :: bool
  st_reports :: u64
  st_skipped :: u64
  st_unattributed :: u64
  st_tracked_cgroups :: nat
  st_uptime_seconds :: f64
  st_version :: string
  st_node :: string
  st_pod_cache_synced :: bool
  st_pods_tracked :: nat

definition api_status_zero :: api_status where
  "api_status_zero = \<lparr>st_detector = [], st_cgroup_version = [], st_ready = False, st_reports = 0, st_skipped = 0,
     st_unattributed = 0, st_tracked_cgroups = 0, st_uptime_seconds = FNum 0, st_version = [], st_node = [],
     st_pod_cache_synced = False, st_pods_tracked = 0\<rparr>"

text \<open>The store is an interface: the two calls the server makes, and what the two callbacks return.\<close>

record api_options =
  ao_list :: "(report_filter \<Rightarrow> err + report list) option"
  ao_get :: "string \<Rightarrow> err + report"
  ao_ready :: "bool option"
  ao_status :: "api_status option"

record api_server =
  as_list :: "report_filter \<Rightarrow> err + report list"
  as_get :: "string \<Rightarrow> err + report"
  as_ready :: bool
  as_status :: api_status

definition new_api :: "api_options \<Rightarrow> err + api_server" where
  "new_api opts =
     (case ao_list opts of
        None \<Rightarrow> Inl (EMsg ''api requires a store'')
      | Some lst \<Rightarrow>
          (let r = (case ao_ready opts of None \<Rightarrow> True | Some b \<Rightarrow> b)
           in Inr \<lparr>as_list = lst, as_get = ao_get opts, as_ready = r,
                as_status = (case ao_status opts of None \<Rightarrow> api_status_zero\<lparr>st_ready := r\<rparr> | Some s \<Rightarrow> s)\<rparr>))"

subsection \<open>Responses\<close>

datatype message = Msg string | MsgQuoted string string

datatype body =
    TextBody string
  | ErrorBody message
  | StatusBody api_status
  | ListBody "report list"
  | ReportBody report
  | RedirectBody "string list"

record response =
  hp_code :: nat
  hp_content_type :: string
  hp_nosniff :: bool
  hp_body :: body

definition write_json :: "nat \<Rightarrow> body \<Rightarrow> response" where
  "write_json code payload =
     \<lparr>hp_code = code, hp_content_type = ''application/json'', hp_nosniff = True, hp_body = payload\<rparr>"

definition write_text :: "nat \<Rightarrow> string \<Rightarrow> response" where
  "write_text code text =
     \<lparr>hp_code = code, hp_content_type = ''text/plain; charset=utf-8'', hp_nosniff = False, hp_body = TextBody text\<rparr>"

text \<open>Encoding a map of strings cannot fail.\<close>

definition write_error :: "nat \<Rightarrow> message \<Rightarrow> response" where
  "write_error code m = write_json code (ErrorBody m)"

subsection \<open>What the encoder takes\<close>

fun json_float_ok :: "f64 \<Rightarrow> bool" where
  "json_float_ok (FNum q) = True"
| "json_float_ok (FInf b) = False"
| "json_float_ok FNaN = False"

definition json_time_ok :: "time \<Rightarrow> bool" where
  "json_time_ok t \<longleftrightarrow> 0 \<le> cv_year (civil_of t) \<and> cv_year (civil_of t) \<le> 9999"

definition json_point_ok :: "trajectory_point \<Rightarrow> bool" where
  "json_point_ok p \<longleftrightarrow> json_time_ok (tp_time p) \<and> json_float_ok (tp_ratio p) \<and> json_float_ok (tp_pressure_full p)"

definition json_report_ok :: "report \<Rightarrow> bool" where
  "json_report_ok r \<longleftrightarrow> json_time_ok (rp_time r) \<and> list_all json_point_ok (rp_trajectory r) \<and>
     json_float_ok (tr_bytes_per_second (rp_trend r)) \<and> json_float_ok (tr_r_squared (rp_trend r))"

definition render_json :: "report \<Rightarrow> err + body" where
  "render_json r = (if json_report_ok r then Inr (ReportBody r) else Inl (EMsg ''marshaling report''))"

definition render_json_list :: "report list \<Rightarrow> err + body" where
  "render_json_list rs = (if list_all json_report_ok rs then Inr (ListBody rs) else Inl (EMsg ''marshaling reports''))"

subsection \<open>Handlers\<close>

type_synonym query = "(string, string list) gomap"

definition query_get :: "query \<Rightarrow> string \<Rightarrow> string" where
  "query_get q k = (case map_get q k of Some (v # _) \<Rightarrow> v | _ \<Rightarrow> [])"

definition handle_healthz :: response where
  "handle_healthz = write_text 200 (''ok'' @ [CHR 0x0A])"

definition handle_readyz :: "api_server \<Rightarrow> response" where
  "handle_readyz s =
     (if \<not> as_ready s then write_text 503 (''not ready'' @ [CHR 0x0A]) else write_text 200 (''ready'' @ [CHR 0x0A]))"

definition handle_status :: "api_server \<Rightarrow> response" where
  "handle_status s =
     (if json_float_ok (st_uptime_seconds (as_status s)) then write_json 200 (StatusBody (as_status s))
      else write_error 500 (Msg ''rendering status''))"

definition parse_filter :: "query \<Rightarrow> message + report_filter" where
  "parse_filter q =
     (let flt = \<lparr>rf_namespace = query_get q ''namespace'', rf_pod = query_get q ''pod'',
            rf_container = query_get q ''container'', rf_limit = 0\<rparr>;
          raw = query_get q ''limit''
      in if raw \<noteq> [] then
           (case atoi raw of
              Inl e \<Rightarrow> Inl (MsgQuoted ''invalid limit %q'' raw)
            | Inr limit \<Rightarrow> if limit < 0 then Inl (MsgQuoted ''invalid limit %q'' raw)
                else Inr (flt\<lparr>rf_limit := limit\<rparr>))
         else Inr flt)"

definition handle_list_events :: "query \<Rightarrow> api_server \<Rightarrow> response" where
  "handle_list_events q s =
     (case parse_filter q of
        Inl m \<Rightarrow> write_error 400 m
      | Inr flt \<Rightarrow>
          (case as_list s flt of
             Inl e \<Rightarrow> write_error 500 (Msg ''listing reports'')
           | Inr reports \<Rightarrow>
               (case render_json_list reports of
                  Inl e \<Rightarrow> write_error 500 (Msg ''rendering reports'')
                | Inr payload \<Rightarrow> write_json 200 payload)))"

definition handle_get_event :: "string \<Rightarrow> api_server \<Rightarrow> response" where
  "handle_get_event i s =
     (case as_get s i of
        Inl e \<Rightarrow> if e = EReportNotFound then write_error 404 (Msg ''report not found'')
                else write_error 500 (Msg ''getting report'')
      | Inr r \<Rightarrow>
          (case render_json r of
             Inl e \<Rightarrow> write_error 500 (Msg ''rendering report'')
           | Inr payload \<Rightarrow> write_json 200 payload))"

subsection \<open>Routes\<close>

datatype verb = GET | HEAD | CONNECT | OtherVerb

record request =
  rq_verb :: verb
  rq_path :: "string list"
  rq_query :: query

text \<open>\<open>http.Error\<close>, which the multiplexer answers with itself.\<close>

definition http_error :: "nat \<Rightarrow> string \<Rightarrow> response" where
  "http_error code text = (write_text code (text @ [CHR 0x0A]))\<lparr>hp_nosniff := True\<rparr>"

text \<open>The multiplexer sends a client that asks for an unclean path to the clean one: 307 from Go 1.26 on,
  301 before. The body is a link to it, for \<open>GET\<close> and \<open>HEAD\<close>; here, the segments it leads to.\<close>

definition http_redirect :: "verb \<Rightarrow> string list \<Rightarrow> response" where
  "http_redirect v path =
     \<lparr>hp_code = 307, hp_content_type = (if v = GET \<or> v = HEAD then ''text/html; charset=utf-8'' else []),
      hp_nosniff = False, hp_body = RedirectBody path\<rparr>"

text \<open>What \<open>path.Clean\<close> leaves of the segments; a slash at the end, an empty last segment, stays.\<close>

definition clean_step :: "string list \<Rightarrow> string \<Rightarrow> string list" where
  "clean_step out seg =
     (if seg = [] \<or> seg = ''.'' then out else if seg = ''..'' then butlast out else out @ [seg])"

definition clean_segments :: "string list \<Rightarrow> string list" where
  "clean_segments path =
     (let out = foldl clean_step [] path
      in if out = [] \<or> last path = [] then out @ [[]] else out)"

text \<open>A segment is decoded when its escapes are valid and taken as it is otherwise.\<close>

fun unescape :: "string \<Rightarrow> string option" where
  "unescape [] = Some []"
| "unescape (c # s) =
     (if c \<noteq> CHR ''%'' then map_option ((#) c) (unescape s)
      else case s of
             a # b # rest \<Rightarrow>
               (case (hex_val a, hex_val b) of
                  (Some x, Some y) \<Rightarrow> map_option ((#) (char_of (16 * x + y))) (unescape rest)
                | _ \<Rightarrow> None)
           | _ \<Rightarrow> None)"

definition path_unescape :: "string \<Rightarrow> string" where
  "path_unescape s = (case unescape s of None \<Rightarrow> s | Some t \<Rightarrow> t)"

text \<open>A pattern with method \<open>GET\<close> matches \<open>HEAD\<close> too, and a wildcard any segment that is not empty,
  nor an escaped slash, which the multiplexer takes for the slash at the end of a path.\<close>

definition route :: "string list \<Rightarrow> (query \<Rightarrow> api_server \<Rightarrow> response) option" where
  "route path =
     (case map path_unescape path of
        [a] \<Rightarrow> if a = ''healthz'' then Some (\<lambda>q s. handle_healthz)
               else if a = ''readyz'' then Some (\<lambda>q s. handle_readyz s) else None
      | [a, b] \<Rightarrow> if a = ''v1'' \<and> b = ''status'' then Some (\<lambda>q s. handle_status s)
                  else if a = ''v1'' \<and> b = ''events'' then Some handle_list_events else None
      | [a, b, i] \<Rightarrow> if a = ''v1'' \<and> b = ''events'' \<and> i \<noteq> [] \<and> i \<noteq> ''/'' then Some (\<lambda>q s. handle_get_event i s)
                     else None
      | _ \<Rightarrow> None)"

definition serve :: "api_server \<Rightarrow> request \<Rightarrow> response" where
  "serve s rq =
     (if rq_verb rq \<noteq> CONNECT \<and> clean_segments (rq_path rq) \<noteq> rq_path rq
      then http_redirect (rq_verb rq) (clean_segments (rq_path rq))
      else case route (rq_path rq) of
             None \<Rightarrow> http_error 404 ''404 page not found''
           | Some h \<Rightarrow> if rq_verb rq = GET \<or> rq_verb rq = HEAD then h (rq_query rq) s
               else http_error 405 ''Method Not Allowed'')"

text \<open>The server the program builds: on the memory store, which never fails to list.\<close>

definition memory_api :: "memory_store \<Rightarrow> bool \<Rightarrow> api_status \<Rightarrow> err + api_server" where
  "memory_api m r status = new_api \<lparr>ao_list = Some (\<lambda>f. Inr (store_list f m)), ao_get = (\<lambda>i. store_get i m),
     ao_ready = Some r, ao_status = Some status\<rparr>"

subsection \<open>Properties\<close>

lemma memory_api_fields:
  "memory_api m rdy status = Inr s \<Longrightarrow>
     as_list s = (\<lambda>f. Inr (store_list f m)) \<and> as_get s = (\<lambda>i. store_get i m) \<and> as_ready s = rdy \<and> as_status s = status"
  by (auto simp: memory_api_def new_api_def Let_def)

text \<open>A path is clean when nothing in it is left to resolve; cleaning yields such a path, once.\<close>

definition clean_path :: "string list \<Rightarrow> bool" where
  "clean_path p \<longleftrightarrow> p \<noteq> [] \<and> ''.'' \<notin> set p \<and> ''..'' \<notin> set p \<and> [] \<notin> set (butlast p)"

lemma clean_fold: "[] \<notin> set p \<Longrightarrow> ''.'' \<notin> set p \<Longrightarrow> ''..'' \<notin> set p \<Longrightarrow> foldl clean_step out p = out @ p"
  by (induction p arbitrary: out) (auto simp: clean_step_def)

lemma clean_fold_segments:
  "\<forall>x \<in> set out. x \<notin> {[], ''.'', ''..''} \<Longrightarrow> \<forall>x \<in> set (foldl clean_step out p). x \<notin> {[], ''.'', ''..''}"
proof (induction p arbitrary: out)
  case (Cons seg p)
  have "\<forall>x \<in> set (clean_step out seg). x \<notin> {[], ''.'', ''..''}"
    using Cons.prems by (auto simp: clean_step_def dest: in_set_butlastD)
  from Cons.IH [OF this] show ?case by simp
qed simp

lemma clean_segments_clean: "clean_path (clean_segments p)"
proof -
  let ?out = "foldl clean_step [] p"
  have "\<forall>x \<in> set ?out. x \<notin> {[], ''.'', ''..''}" by (rule clean_fold_segments) simp
  then show ?thesis by (auto simp: clean_segments_def clean_path_def Let_def dest: in_set_butlastD)
qed

lemma clean_path_kept: "clean_path p \<Longrightarrow> clean_segments p = p"
proof -
  assume p: "clean_path p"
  then have s: "p = butlast p @ [last p]" "[] \<notin> set (butlast p)" "''.'' \<notin> set (butlast p)" "''..'' \<notin> set (butlast p)"
    by (auto simp: clean_path_def dest: in_set_butlastD)
  have "last p \<in> set p" using p by (simp add: clean_path_def)
  then have l: "last p \<noteq> ''.''" "last p \<noteq> ''..''" using p unfolding clean_path_def by metis+
  have "foldl clean_step [] p = clean_step (butlast p) (last p)"
    using clean_fold [OF s(2,3,4), of "[]"] by (subst s(1)) (simp only: foldl_append foldl_Cons foldl_Nil append_Nil)
  then show ?thesis
    using s(1) l p by (cases "last p = []") (simp_all add: clean_segments_def clean_step_def clean_path_def)
qed

lemma clean_iff: "clean_segments p = p \<longleftrightarrow> clean_path p"
  using clean_segments_clean [of p] clean_path_kept by metis

lemma unescape_plain: "CHR ''%'' \<notin> set s \<Longrightarrow> unescape s = Some s"
  by (induction s) auto

lemma path_unescape_plain [simp]: "CHR ''%'' \<notin> set s \<Longrightarrow> path_unescape s = s"
  by (simp add: path_unescape_def unescape_plain)

text \<open>The addresses of the API.\<close>

definition api_path :: "string list \<Rightarrow> bool" where
  "api_path p \<longleftrightarrow> map path_unescape p \<in> {[''healthz''], [''readyz''], [''v1'', ''status''], [''v1'', ''events'']} \<or>
     (\<exists>i. map path_unescape p = [''v1'', ''events'', i] \<and> i \<noteq> [] \<and> i \<noteq> ''/'')"

lemma route_iff: "route p \<noteq> None \<longleftrightarrow> api_path p"
  by (auto simp: route_def api_path_def split: list.splits)

lemma serve_clean: "clean_path (rq_path rq) \<Longrightarrow> serve s rq = (case route (rq_path rq) of
     None \<Rightarrow> http_error 404 ''404 page not found''
   | Some h \<Rightarrow> if rq_verb rq = GET \<or> rq_verb rq = HEAD then h (rq_query rq) s else http_error 405 ''Method Not Allowed'')"
  by (simp add: serve_def clean_iff)

lemma serve_routes:
  assumes "v = GET \<or> v = HEAD"
  shows "serve s \<lparr>rq_verb = v, rq_path = [''healthz''], rq_query = q\<rparr> = handle_healthz"
    and "serve s \<lparr>rq_verb = v, rq_path = [''readyz''], rq_query = q\<rparr> = handle_readyz s"
    and "serve s \<lparr>rq_verb = v, rq_path = [''v1'', ''status''], rq_query = q\<rparr> = handle_status s"
    and "serve s \<lparr>rq_verb = v, rq_path = [''v1'', ''events''], rq_query = q\<rparr> = handle_list_events q s"
    and "e \<notin> {[], ''.'', ''..''} \<Longrightarrow> path_unescape e \<noteq> [] \<Longrightarrow> path_unescape e \<noteq> ''/'' \<Longrightarrow>
      serve s \<lparr>rq_verb = v, rq_path = [''v1'', ''events'', e], rq_query = q\<rparr> = handle_get_event (path_unescape e) s"
  using assms by (auto simp: serve_clean clean_path_def route_def)

text \<open>What the listing holds for a filter, written out.\<close>

definition listed :: "string \<Rightarrow> string \<Rightarrow> string \<Rightarrow> int \<Rightarrow> memory_store \<Rightarrow> report list" where
  "listed namespace pod container limit m =
     (let found = rev (filter (\<lambda>r. (namespace = [] \<or> id_namespace (rp_identity r) = namespace) \<and>
            (pod = [] \<or> id_pod_name (rp_identity r) = pod) \<and>
            (container = [] \<or> id_container_name (rp_identity r) = container)) (mm_ordered m))
      in if limit = 0 then found else take (nat limit) found)"

lemma store_list_listed:
  "0 \<le> n \<Longrightarrow> store_list \<lparr>rf_namespace = a, rf_pod = b, rf_container = c, rf_limit = n\<rparr> m = listed a b c n m"
proof -
  have f: "filter_matches \<lparr>rf_namespace = a, rf_pod = b, rf_container = c, rf_limit = n\<rparr> =
      (\<lambda>r. (a = [] \<or> id_namespace (rp_identity r) = a) \<and> (b = [] \<or> id_pod_name (rp_identity r) = b) \<and>
         (c = [] \<or> id_container_name (rp_identity r) = c))"
    by (auto simp: filter_matches_def fun_eq_iff)
  show "0 \<le> n \<Longrightarrow> ?thesis" unfolding store_list_def listed_def f by (simp add: Let_def)
qed

lemma list_answer:
  assumes "as_list s = (\<lambda>f. Inr (store_list f m))"
  shows "(hp_code (handle_list_events q s), hp_body (handle_list_events q s)) =
    (case if query_get q ''limit'' = [] then Inr 0 else atoi (query_get q ''limit'') of
       Inl e \<Rightarrow> (400, ErrorBody (MsgQuoted ''invalid limit %q'' (query_get q ''limit'')))
     | Inr n \<Rightarrow>
         if n < 0 then (400, ErrorBody (MsgQuoted ''invalid limit %q'' (query_get q ''limit'')))
         else if list_all json_report_ok
             (listed (query_get q ''namespace'') (query_get q ''pod'') (query_get q ''container'') n m)
         then (200, ListBody (listed (query_get q ''namespace'') (query_get q ''pod'') (query_get q ''container'') n m))
         else (500, ErrorBody (Msg ''rendering reports'')))"
  using assms
  by (auto simp: handle_list_events_def parse_filter_def Let_def write_error_def write_json_def render_json_list_def
      store_list_listed split: sum.split)

lemma event_answer:
  assumes "as_get s = (\<lambda>i. store_get i m)" "store_ok m"
  shows "(hp_code (handle_get_event i s), hp_body (handle_get_event i s)) =
    (case find (\<lambda>r. rp_id r = i) (mm_ordered m) of
       None \<Rightarrow> (404, ErrorBody (Msg ''report not found''))
     | Some r \<Rightarrow> if json_report_ok r then (200, ReportBody r) else (500, ErrorBody (Msg ''rendering report'')))"
proof (cases "find (\<lambda>r. rp_id r = i) (mm_ordered m)")
  case None
  then have "store_get i m = Inl EReportNotFound"
    using store_get_missing [OF assms(2)] by (auto simp: ids_def find_None_iff)
  then show ?thesis using None by (simp add: handle_get_event_def assms(1) write_error_def write_json_def)
next
  case (Some r)
  then have "store_get i m = Inr r" using store_get_iff [OF assms(2)] by (auto simp: find_Some_iff)
  then show ?thesis
    using Some by (simp add: handle_get_event_def assms(1) write_error_def write_json_def render_json_def)
qed

lemma strays:
  "w \<noteq> CONNECT \<Longrightarrow> \<not> clean_path p \<Longrightarrow>
     hp_code (serve s \<lparr>rq_verb = w, rq_path = p, rq_query = q\<rparr>) \<in> {301, 307} \<and>
     hp_body (serve s \<lparr>rq_verb = w, rq_path = p, rq_query = q\<rparr>) = RedirectBody (clean_segments p) \<and> clean_path (clean_segments p)"
  "w = CONNECT \<or> clean_path p \<Longrightarrow> \<not> api_path p \<Longrightarrow>
     hp_code (serve s \<lparr>rq_verb = w, rq_path = p, rq_query = q\<rparr>) = 404 \<and>
     hp_body (serve s \<lparr>rq_verb = w, rq_path = p, rq_query = q\<rparr>) = TextBody (''404 page not found'' @ [CHR 0x0A])"
  "w = CONNECT \<or> clean_path p \<Longrightarrow> api_path p \<Longrightarrow> w \<noteq> GET \<and> w \<noteq> HEAD \<Longrightarrow>
     hp_code (serve s \<lparr>rq_verb = w, rq_path = p, rq_query = q\<rparr>) = 405 \<and>
     hp_body (serve s \<lparr>rq_verb = w, rq_path = p, rq_query = q\<rparr>) = TextBody (''Method Not Allowed'' @ [CHR 0x0A])"
  using route_iff [of p]
  by (auto simp: serve_def clean_iff clean_segments_clean http_redirect_def http_error_def write_text_def)

text \<open>JSON that must not be sniffed, plain text, or a redirect: no answer leaves its type open to a guess.\<close>

definition typed_body :: "response \<Rightarrow> bool" where
  "typed_body r \<longleftrightarrow>
     (case hp_body r of
        TextBody _ \<Rightarrow> hp_content_type r = ''text/plain; charset=utf-8''
      | RedirectBody _ \<Rightarrow> hp_content_type r \<in> {''text/html; charset=utf-8'', []}
      | _ \<Rightarrow> hp_content_type r = ''application/json'' \<and> hp_nosniff r)"

lemma typed_bodies:
  "typed_body handle_healthz" "typed_body (handle_readyz s)" "typed_body (handle_status s)"
  "typed_body (handle_list_events q s)" "typed_body (handle_get_event i s)" "typed_body (http_error c t)"
  "typed_body (http_redirect w p)"
  by (simp_all add: typed_body_def handle_healthz_def handle_readyz_def handle_status_def handle_list_events_def
      handle_get_event_def http_error_def http_redirect_def write_text_def write_json_def write_error_def
      render_json_def render_json_list_def split: sum.split)

lemma serve_typed: "typed_body (serve s rq)"
  by (auto simp: serve_def route_def typed_bodies split: list.split)

text \<open>C31: Every answer of the API on the memory store, its status and its body. A listing is refused as a
  bad request exactly when its limit is no number from 0 up; otherwise it holds the stored
  reports of the namespace, pod and container the query names, newest first and no more than
  the limit, unless one of them cannot be encoded, which fails the whole listing. A single
  report is served under its ID, which may come escaped; an unknown ID is "not found". The
  status is the daemon's snapshot, readiness the daemon's own, and liveness always "ok". A path
  that is not clean is redirected to its clean form, whatever its method; any other path
  outside the five routes is not found, and any method but GET and HEAD is refused on them.
  Whatever is not plain text or a redirect is declared as JSON that must not be sniffed.\<close>

theorem api_answers_from_the_store:
  assumes "memory_api m rdy status = Inr s" "store_ok m" "v = GET \<or> v = HEAD"
    and "e \<notin> {[], ''.'', ''..''}" "path_unescape e = i" "i \<noteq> []" "i \<noteq> ''/''"
  shows "let answer = (\<lambda>w path. (hp_code (serve s \<lparr>rq_verb = w, rq_path = path, rq_query = q\<rparr>),
            hp_body (serve s \<lparr>rq_verb = w, rq_path = path, rq_query = q\<rparr>)));
      limit = query_get q ''limit'';
      found = (\<lambda>n. listed (query_get q ''namespace'') (query_get q ''pod'') (query_get q ''container'') n m)
    in
    answer v [''v1'', ''events''] =
      (case if limit = [] then Inr 0 else atoi limit of
         Inl _ \<Rightarrow> (400, ErrorBody (MsgQuoted ''invalid limit %q'' limit))
       | Inr n \<Rightarrow>
           if n < 0 then (400, ErrorBody (MsgQuoted ''invalid limit %q'' limit))
           else if list_all json_report_ok (found n) then (200, ListBody (found n))
           else (500, ErrorBody (Msg ''rendering reports''))) \<and>
    answer v [''v1'', ''events'', e] =
      (case find (\<lambda>r. rp_id r = i) (mm_ordered m) of
         None \<Rightarrow> (404, ErrorBody (Msg ''report not found''))
       | Some r \<Rightarrow> if json_report_ok r then (200, ReportBody r) else (500, ErrorBody (Msg ''rendering report''))) \<and>
    answer v [''v1'', ''status''] =
      (if json_float_ok (st_uptime_seconds status) then (200, StatusBody status)
       else (500, ErrorBody (Msg ''rendering status''))) \<and>
    answer v [''readyz''] =
      (if rdy then (200, TextBody (''ready'' @ [CHR 0x0A])) else (503, TextBody (''not ready'' @ [CHR 0x0A]))) \<and>
    answer v [''healthz''] = (200, TextBody (''ok'' @ [CHR 0x0A])) \<and>
    (\<forall>w p. w \<noteq> CONNECT \<longrightarrow> \<not> clean_path p \<longrightarrow>
       fst (answer w p) \<in> {301, 307} \<and> snd (answer w p) = RedirectBody (clean_segments p) \<and> clean_path (clean_segments p)) \<and>
    (\<forall>w p. w = CONNECT \<or> clean_path p \<longrightarrow> \<not> api_path p \<longrightarrow>
       answer w p = (404, TextBody (''404 page not found'' @ [CHR 0x0A]))) \<and>
    (\<forall>w p. w = CONNECT \<or> clean_path p \<longrightarrow> api_path p \<longrightarrow> w \<noteq> GET \<and> w \<noteq> HEAD \<longrightarrow>
       answer w p = (405, TextBody (''Method Not Allowed'' @ [CHR 0x0A]))) \<and>
    (\<forall>w p. typed_body (serve s \<lparr>rq_verb = w, rq_path = p, rq_query = q\<rparr>))"
proof -
  note fields = memory_api_fields [OF assms(1)]
  note routes = serve_routes [OF assms(3)]
  have event: "serve s \<lparr>rq_verb = v, rq_path = [''v1'', ''events'', e], rq_query = q\<rparr> = handle_get_event i s"
    using routes(5) assms(4-7) by simp
  have probes: "(hp_code handle_healthz, hp_body handle_healthz) = (200, TextBody (''ok'' @ [CHR 0x0A]))"
    "(hp_code (handle_readyz s), hp_body (handle_readyz s)) =
      (if rdy then (200, TextBody (''ready'' @ [CHR 0x0A])) else (503, TextBody (''not ready'' @ [CHR 0x0A])))"
    "(hp_code (handle_status s), hp_body (handle_status s)) =
      (if json_float_ok (st_uptime_seconds status) then (200, StatusBody status)
       else (500, ErrorBody (Msg ''rendering status'')))"
    using fields by (simp_all add: handle_healthz_def handle_readyz_def handle_status_def write_text_def write_json_def
        write_error_def)
  show ?thesis
    unfolding Let_def routes(1-4) event probes
    by (intro conjI allI impI; (rule list_answer event_answer HOL.refl)?)
      (use fields assms(2) strays serve_typed in \<open>simp_all\<close>)
qed

theorem api_answers_from_the_store_witness:
  "\<exists>s. memory_api (store_put (report_zero\<lparr>rp_id := ''a/b''\<rparr>) (new_memory 2)) True api_status_zero = Inr s \<and>
     hp_body (serve s \<lparr>rq_verb = GET, rq_path = [''v1'', ''events'', ''a%2fb''], rq_query = []\<rparr>) =
       ReportBody (report_zero\<lparr>rp_id := ''a/b''\<rparr>) \<and>
     hp_body (serve s \<lparr>rq_verb = GET, rq_path = [''v1'', [], ''events''], rq_query = []\<rparr>) =
       RedirectBody [''v1'', ''events''] \<and>
     hp_code (serve s \<lparr>rq_verb = GET, rq_path = [''readyz''], rq_query = []\<rparr>) = 200"
proof -
  let ?r = "report_zero\<lparr>rp_id := ''a/b''\<rparr>"
  let ?m = "store_put ?r (new_memory 2)"
  obtain s where s: "memory_api ?m True api_status_zero = Inr s" by (simp add: memory_api_def new_api_def Let_def)
  have ok: "store_ok ?m" using store_put_ok [OF store_ok_new] by blast
  have m: "mm_ordered ?m = [?r]" by (simp add: store_put_def new_memory_def Let_def)
  have "json_time_ok 0" using civil_examples(1) by (simp add: json_time_ok_def)
  then have j: "json_report_ok ?r" by (simp add: json_report_ok_def report_zero_def trend_zero_def)
  have i: "path_unescape ''a%2fb'' = ''a/b''" by code_simp
  have c: "\<not> clean_path [''v1'', [], ''events'']" "clean_segments [''v1'', [], ''events''] = [''v1'', ''events'']"
    by (simp_all add: clean_path_def clean_segments_def clean_step_def)
  note a = api_answers_from_the_store [OF s ok, of GET "''a%2fb''" "''a/b''" "[]", unfolded i m Let_def, simplified]
  have "hp_body (serve s \<lparr>rq_verb = GET, rq_path = [''v1'', ''events'', ''a%2fb''], rq_query = []\<rparr>) = ReportBody ?r"
    using a j by simp
  moreover have "hp_body (serve s \<lparr>rq_verb = GET, rq_path = [''v1'', [], ''events''], rq_query = []\<rparr>) =
      RedirectBody [''v1'', ''events'']" using a c by auto
  moreover have "hp_code (serve s \<lparr>rq_verb = GET, rq_path = [''readyz''], rq_query = []\<rparr>) = 200" using a by simp
  ultimately show ?thesis using s by blast
qed

end
