(* ===== verification/GoUtf8.thy ===== *)
theory GoUtf8
  imports GoStrings
begin

section \<open>Runes\<close>

text \<open>
  What the program uses of Go's conversion between strings and runes. A rune is kept as the
  bytes that encode it; a byte that starts no valid encoding is decoded alone, as U+FFFD.
\<close>

definition continuation :: "char \<Rightarrow> bool" where
  "continuation c \<longleftrightarrow> 128 \<le> (of_char c :: nat) \<and> (of_char c :: nat) < 192"

text \<open>The second byte is restricted after E0, ED, F0 and F4.\<close>

definition second_byte :: "nat \<Rightarrow> char \<Rightarrow> bool" where
  "second_byte b c \<longleftrightarrow>
     (if b = 224 then 160 else if b = 240 then 144 else 128) \<le> (of_char c :: nat) \<and>
     (of_char c :: nat) < (if b = 237 then 160 else if b = 244 then 144 else 192)"

text \<open>How many bytes the first rune takes, 0 if they are no valid encoding.\<close>

fun rune_size :: "string \<Rightarrow> nat" where
  "rune_size [] = 0"
| "rune_size (c # s) =
     (let b = of_char c :: nat in
      if b < 128 then 1
      else if 194 \<le> b \<and> b < 224 then (case s of x # _ \<Rightarrow> if continuation x then 2 else 0 | [] \<Rightarrow> 0)
      else if 224 \<le> b \<and> b < 240 then
        (case s of x # y # _ \<Rightarrow> if second_byte b x \<and> continuation y then 3 else 0 | _ \<Rightarrow> 0)
      else if 240 \<le> b \<and> b < 245 then
        (case s of x # y # z # _ \<Rightarrow> if second_byte b x \<and> continuation y \<and> continuation z then 4 else 0 | _ \<Rightarrow> 0)
      else 0)"

definition replacement_rune :: string where
  "replacement_rune = [CHR 0xEF, CHR 0xBF, CHR 0xBD]"

lemma rune_size_le: "rune_size s \<le> length s"
  by (cases s) (auto simp: Let_def split: list.split)

function runes :: "string \<Rightarrow> string list" where
  "runes s =
     (if s = [] then []
      else if rune_size s = 0 then replacement_rune # runes (tl s)
      else take (rune_size s) s # runes (drop (rune_size s) s))"
  by pat_completeness auto
termination
proof (relation "measure length", goal_cases)
  case (3 s)
  then show ?case using rune_size_le [of s] by (cases s) auto
qed auto

declare runes.simps [simp del]

definition rune_count :: "string \<Rightarrow> nat" where
  "rune_count s = length (runes s)"

text \<open>\<open>string([]rune(s)[:n])\<close> for an \<open>n\<close> within the range.\<close>

definition take_runes :: "nat \<Rightarrow> string \<Rightarrow> string" where
  "take_runes n s = concat (take n (runes s))"

definition ellipsis :: string where
  "ellipsis = [CHR 0xE2, CHR 0x80, CHR 0xA6]"

text \<open>\<open>%-*s\<close> and \<open>%*s\<close>, which count runes.\<close>

definition pad_after :: "nat \<Rightarrow> string \<Rightarrow> string" where
  "pad_after w s = s @ replicate (w - rune_count s) (CHR '' '')"

definition pad_before :: "nat \<Rightarrow> string \<Rightarrow> string" where
  "pad_before w s = replicate (w - rune_count s) (CHR '' '') @ s"

subsection \<open>Counting runes\<close>

definition one_rune :: "string \<Rightarrow> bool" where
  "one_rune r \<longleftrightarrow> r \<noteq> [] \<and> rune_size r = length r"

definition rune_start :: "string \<Rightarrow> bool" where
  "rune_start s \<longleftrightarrow> (case s of [] \<Rightarrow> True | c # _ \<Rightarrow> \<not> continuation c)"

lemma second_byte_continuation: "second_byte b c \<Longrightarrow> continuation c"
  by (simp add: second_byte_def continuation_def split: if_splits)

lemma rune_size_take: "rune_size s \<noteq> 0 \<Longrightarrow> rune_size (take (rune_size s) s @ t) = rune_size s"
  by (cases s) (auto simp: Let_def split: list.splits if_splits)

lemma rune_size_append:
  assumes "a \<noteq> []" "rune_start b"
  shows "rune_size (a @ b) = rune_size a"
proof -
  have nc: "\<not> second_byte k c" if "b = c # b'" for k c b'
    using assms(2) that second_byte_continuation by (auto simp: rune_start_def)
  have nc2: "\<not> continuation c" if "b = c # b'" for c b'
    using assms(2) that by (auto simp: rune_start_def)
  obtain c s where a: "a = c # s" using assms(1) by (cases a) auto
  show ?thesis
    by (cases s; cases "tl s"; cases "tl (tl s)"; cases b)
      (auto simp: a Let_def nc nc2 split: list.split)
qed

lemma one_rune_runes: "r \<in> set (runes s) \<Longrightarrow> one_rune r"
proof (induction s rule: runes.induct)
  case (1 s)
  have rep: "one_rune replacement_rune"
    by (simp add: one_rune_def replacement_rune_def continuation_def second_byte_def)
  have "one_rune (take (rune_size s) s)" if "s \<noteq> []" "rune_size s \<noteq> 0"
    using rune_size_take [OF that(2), of "[]"] that rune_size_le [of s] by (simp add: one_rune_def)
  then show ?case using 1 rep by (subst (asm) (2) runes.simps) (auto split: if_splits)
qed

lemma runes_Nil [simp]: "runes [] = []"
  by (simp add: runes.simps)

lemma runes_one: "one_rune r \<Longrightarrow> runes (r @ s) = r # runes s"
  using rune_size_take [of r s] by (subst runes.simps) (auto simp: one_rune_def)

lemma runes_concat: "\<forall>r \<in> set rs. one_rune r \<Longrightarrow> runes (concat rs) = rs"
  by (induction rs) (auto simp: runes_one)

lemma rune_count_take: "n \<le> rune_count s \<Longrightarrow> runes (take_runes n s) = take n (runes s)"
  unfolding take_runes_def by (rule runes_concat) (use one_rune_runes in_set_takeD in fastforce)

lemma runes_append: "rune_start b \<Longrightarrow> runes (a @ b) = runes a @ runes b"
proof (induction a rule: runes.induct)
  case (1 a)
  show ?case
  proof (cases "a = []")
    case False
    have size: "rune_size (a @ b) = rune_size a" using rune_size_append [OF False 1(3)] .
    show ?thesis
    proof (cases "rune_size a = 0")
      case True
      then show ?thesis
        using 1(1) [OF False True 1(3)] False size by (simp add: runes.simps [of "a @ b"] runes.simps [of a])
    next
      case no: False
      then show ?thesis
        using 1(2) [OF False no 1(3)] False size rune_size_le [of a]
        by (simp add: runes.simps [of "a @ b"] runes.simps [of a])
    qed
  qed simp
qed

lemma rune_count_append: "rune_start b \<Longrightarrow> rune_count (a @ b) = rune_count a + rune_count b"
  by (simp add: rune_count_def runes_append)

definition ascii :: "string \<Rightarrow> bool" where
  "ascii s \<longleftrightarrow> (\<forall>c \<in> set s. (of_char c :: nat) < 128)"

lemma ascii_append [simp]: "ascii (s @ t) \<longleftrightarrow> ascii s \<and> ascii t"
  by (auto simp: ascii_def)

lemma ascii_Nil [simp]: "ascii []"
  by (simp add: ascii_def)

lemma runes_ascii: "ascii s \<Longrightarrow> runes s = map (\<lambda>c. [c]) s"
proof (induction s)
  case (Cons c s)
  then have "one_rune [c]" "ascii s" by (auto simp: one_rune_def ascii_def)
  then show ?case using runes_one [of "[c]" s] Cons.IH by simp
qed simp

lemma rune_count_ascii: "ascii s \<Longrightarrow> rune_count s = length s"
  by (simp add: rune_count_def runes_ascii)

lemma ascii_start: "ascii s \<Longrightarrow> rune_start s"
  by (auto simp: ascii_def rune_start_def continuation_def split: list.split)

lemma ascii_spaces [simp]: "ascii (replicate n (CHR '' ''))"
  by (simp add: ascii_def)

lemma rune_count_pad_after: "rune_count (pad_after w s) = max w (rune_count s)"
  by (simp add: pad_after_def rune_count_append ascii_start rune_count_ascii max_def)

lemma rune_start_ellipsis: "rune_start ellipsis"
  by (simp add: rune_start_def ellipsis_def continuation_def)

lemma rune_count_ellipsis: "rune_count ellipsis = 1"
proof -
  have "one_rune ellipsis" by (simp add: one_rune_def ellipsis_def continuation_def second_byte_def)
  then show ?thesis using runes_one [of ellipsis "[]"] by (simp add: rune_count_def)
qed

lemma rune_count_shortened:
  "n \<le> rune_count s \<Longrightarrow> rune_count (take_runes n s @ ellipsis) = Suc n"
  by (simp add: rune_count_append rune_start_ellipsis rune_count_ellipsis)
    (simp add: rune_count_def rune_count_take)

lemma rune_count_ascii_append: "ascii a \<Longrightarrow> rune_count (a @ b) = length a + rune_count b"
proof (induction a)
  case (Cons c a)
  then have "one_rune [c]" "ascii a" by (auto simp: one_rune_def ascii_def)
  then show ?case using runes_one [of "[c]" "a @ b"] Cons.IH by (simp add: rune_count_def)
qed simp

end
