(* ===== verification/GoFormat.thy ===== *)
theory GoFormat
  imports GoFloat GoTime GoUtf8
begin

section \<open>Formatting\<close>

text \<open>
  What the program uses of \<open>fmt\<close>: floats with a fixed number of decimals, which are those of
  the exact binary value rounded half to even, and the conversion of a float to an unsigned
  integer, whose result outside the range the language leaves open (\<open>None\<close>).
\<close>

definition newline :: string where
  "newline = [CHR 0x0A]"

definition fixed_digits :: "nat \<Rightarrow> nat \<Rightarrow> string" where
  "fixed_digits k n =
     (if k = 0 then show_nat n
      else show_nat (n div 10 ^ k) @ ''.'' @ pad_left k (CHR ''0'') (show_nat (n mod 10 ^ k)))"

definition fmt_fixed :: "nat \<Rightarrow> f64 \<Rightarrow> string" where
  "fmt_fixed k x =
     (case x of
        FNum q \<Rightarrow> (if q < 0 then ''-'' else []) @ fixed_digits k (nat (round_even (\<bar>q\<bar> * 10 ^ k)))
      | FInf neg \<Rightarrow> if neg then ''-Inf'' else ''+Inf''
      | FNaN \<Rightarrow> ''NaN'')"

definition f_to_u64 :: "f64 \<Rightarrow> u64 option" where
  "f_to_u64 x =
     (case x of
        FNum q \<Rightarrow>
          (let k = (if q < 0 then - \<lfloor>- q\<rfloor> else \<lfloor>q\<rfloor>)
           in if 0 \<le> k \<and> k < 2 ^ 64 then Some (word_of_int k) else None)
      | _ \<Rightarrow> None)"

subsection \<open>ASCII\<close>

lemma ascii_digits: "is_digits s \<Longrightarrow> ascii s"
  using is_digits_graphic by (force simp: ascii_def graphic_def)

lemma ascii_show_nat [simp]: "ascii (show_nat n)"
  by (rule ascii_digits [OF show_nat_digits])

lemma ascii_itoa [simp]: "ascii (itoa i)"
proof -
  have "ascii (CHR ''-'' # show_nat k)" for k
    using ascii_show_nat [of k] by (simp add: ascii_def)
  then show ?thesis by (simp add: itoa_def)
qed

lemma ascii_pad_left [simp]: "ascii s \<Longrightarrow> (of_char c :: nat) < 128 \<Longrightarrow> ascii (pad_left w c s)"
  by (auto simp: ascii_def pad_left_def)

lemma ascii_fmt_fixed [simp]: "ascii (fmt_fixed k x)"
proof -
  have *: "ascii ''.''" "ascii ''-''" "ascii ''-Inf''" "ascii ''+Inf''" "ascii ''NaN''"
    by (simp_all add: ascii_def)
  have "ascii (fixed_digits k n)" for n
    using * by (simp add: fixed_digits_def del: append_Cons)
  then show ?thesis
    using * by (simp add: fmt_fixed_def del: append_Cons split: f64.split)
qed

lemma ascii_two_digits [simp]: "ascii (two_digits n)"
  by (simp add: two_digits_def)

lemma ascii_format_clock [simp]: "ascii (format_clock z t)"
proof -
  have "ascii '':''" by (simp add: ascii_def)
  then show ?thesis by (simp add: format_clock_def Let_def del: append_Cons)
qed

end
