(* ===== verification/RenderText.thy ===== *)
theory RenderText
  imports OomReport GoFormat
begin

section \<open>The text of a post-mortem\<close>

text \<open>
  Models \<open>src/internal/render/text.go\<close>: the whole renderer, line by line, on byte strings. A result
  of \<open>None\<close> is a panic of the Go code (an index or a bound out of range, a negative repeat, a
  division by zero), or text that depends on the platform because a float does not fit the integer
  it is converted to. A time layout is modelled by the function that
  formats with it; the program only uses the default ones.
\<close>

definition bar_width :: int where
  "bar_width = 18"

definition max_trajectory_rows :: int where
  "max_trajectory_rows = 8"

definition max_processes :: nat where
  "max_processes = 10"

definition oom_exit_code :: int where
  "oom_exit_code = 137"

record text_options =
  to_clock :: "(zone \<Rightarrow> time \<Rightarrow> string) option"
  to_zone :: "zone option"

definition default_text_options :: text_options where
  "default_text_options = \<lparr>to_clock = None, to_zone = None\<rparr>"

definition text_with_defaults :: "text_options \<Rightarrow> (zone \<Rightarrow> time \<Rightarrow> string) \<times> zone" where
  "text_with_defaults opts =
     ((case to_clock opts of None \<Rightarrow> format_clock | Some f \<Rightarrow> f),
      (case to_zone opts of None \<Rightarrow> utc | Some z \<Rightarrow> z))"

subsection \<open>Sizes\<close>

text \<open>The first argument counts the rounds left, \<open>4 - exp\<close>. There are names for five units.\<close>

fun bytes_scale :: "nat \<Rightarrow> u64 \<Rightarrow> u64 \<Rightarrow> nat \<Rightarrow> u64 \<times> nat" where
  "bytes_scale 0 sz dv ex = (dv, ex)"
| "bytes_scale (Suc n) sz dv ex =
     (if 1024 \<le> sz then bytes_scale n (sz div 1024) (dv * 1024) (ex + 1) else (dv, ex))"

definition bytes_label :: "u64 \<Rightarrow> string option" where
  "bytes_label n =
     (if n < 1024 then Some (show_nat (unat n) @ ''B'')
      else
        let (dv, ex) = bytes_scale 4 (n div 1024) 1024 0
        in map_option (\<lambda>unit. fmt_fixed 1 (f_div (f_of_u64 n) (f_of_u64 dv)) @ [unit] @ ''iB'') (elem_at ''KMGTP'' ex))"

definition limit_label :: "u64 \<Rightarrow> string option" where
  "limit_label limit = (if limit = 0 then Some ''unlimited'' else bytes_label limit)"

subsection \<open>Commands\<close>

definition max_command_length :: nat where
  "max_command_length = 96"

text \<open>\<open>unicode.IsControl\<close>, as encodings: C0, delete and C1.\<close>

definition control_runes :: "string list" where
  "control_runes = map (\<lambda>n. [char_of n]) ([0..<32] @ [127 :: nat]) @
     map (\<lambda>n. [CHR 0xC2, char_of n]) [128 :: nat..<160]"

text \<open>\<open>strings.FieldsFunc\<close>; \<open>cur\<close> is the field being read, reversed.\<close>

function fields_func :: "string list \<Rightarrow> string \<Rightarrow> string \<Rightarrow> string list" where
  "fields_func ws cur s =
     (if s = [] then (if cur = [] then [] else [rev cur])
      else let n = lead ws s in
        if n = 0 then fields_func ws (hd s # cur) (tl s)
        else (if cur = [] then [] else [rev cur]) @ fields_func ws [] (drop n s))"
  by pat_completeness auto
termination
proof (relation "measure (\<lambda>(ws, cur, s). length s)", goal_cases)
  case (3 ws cur s x)
  then show ?case using lead_le [of ws s] by (cases s) auto
qed auto

declare fields_func.simps [simp del]

definition flatten_whitespace :: "string \<Rightarrow> string" where
  "flatten_whitespace s = join '' '' (fields_func (space_runes @ control_runes) [] s)"

definition truncate_command :: "string \<Rightarrow> string option" where
  "truncate_command s =
     (if rune_count s \<le> max_command_length then Some s
      else map_option (\<lambda>rs. concat rs @ ellipsis) (first_n (max_command_length - 1) (runes s)))"

definition command_line :: "string \<Rightarrow> string list \<Rightarrow> string option" where
  "command_line comm cmdline =
     (if cmdline = [] then truncate_command (flatten_whitespace comm)
      else truncate_command (flatten_whitespace (join '' '' cmdline)))"

definition short_id :: "string \<Rightarrow> string option" where
  "short_id i = (if length i \<le> 12 then Some i else first_n 12 i)"

subsection \<open>The chart\<close>

definition full_cell :: string where
  "full_cell = [CHR 0xE2, CHR 0x96, CHR 0x88]"

definition empty_cell :: string where
  "empty_cell = [CHR 0xE2, CHR 0x96, CHR 0x91]"

text \<open>\<open>strings.Repeat\<close> panics on a negative count.\<close>

definition repeat_string :: "string \<Rightarrow> int \<Rightarrow> string option" where
  "repeat_string s n = (if n < 0 then None else Some (concat (replicate (nat n) s)))"

definition bar :: "f64 \<Rightarrow> string option" where
  "bar ratio =
     (let r = (if f_lt ratio (FNum 0) then FNum 0 else ratio);
          r = (if f_lt (FNum 1) r then FNum 1 else r)
      in Option.bind (f_to_int64 (f_mul r (f_of_int bar_width))) (\<lambda>filled.
         Option.bind (repeat_string full_cell filled) (\<lambda>a.
         Option.bind (repeat_string empty_cell (bar_width - filled)) (\<lambda>b.
         Some (''['' @ a @ b @ '']'')))))"

text \<open>Even spacing; a limit of one divides by zero.\<close>

definition spaced_indices :: "nat \<Rightarrow> nat \<Rightarrow> nat list option" where
  "spaced_indices n limit =
     (if limit = 1 then None else Some (map (\<lambda>i. i * (n - 1) div (limit - 1)) [0..<limit]))"

definition peak_index :: "trajectory_point list \<Rightarrow> nat option" where
  "peak_index points =
     fold_option (\<lambda>peak i.
       Option.bind (elem_at points i) (\<lambda>p. map_option (\<lambda>q. if tp_used_bytes q < tp_used_bytes p then i else peak)
         (elem_at points peak))) 0 [0..<length points]"

definition nearest_index :: "nat list \<Rightarrow> nat \<Rightarrow> nat option" where
  "nearest_index indices peak =
     fold_option (\<lambda>nearest i.
       Option.bind (elem_at indices i) (\<lambda>a. map_option (\<lambda>b. if \<bar>int a - int peak\<bar> < \<bar>int b - int peak\<bar> then i else nearest)
         (elem_at indices nearest))) 0 [0..<length indices]"

text \<open>The two corrections that keep the first and the last reading, in the order of the code.\<close>

definition inner_index :: "nat list \<Rightarrow> nat \<Rightarrow> nat" where
  "inner_index indices nearest =
     (let k = (if nearest = 0 then 1 else nearest)
      in if k = length indices - 1 then length indices - 2 else k)"

definition with_peak :: "nat list \<Rightarrow> nat \<Rightarrow> nat list option" where
  "with_peak indices peak =
     (if peak \<in> set indices then Some indices
      else Option.bind (nearest_index indices peak) (\<lambda>nearest.
        map_option sort (set_at indices (inner_index indices nearest) peak)))"

definition trajectory_rows :: "trajectory_point list \<Rightarrow> int \<Rightarrow> trajectory_point list option" where
  "trajectory_rows points limit =
     (if limit \<le> 0 \<or> int (length points) \<le> limit then Some points
      else
        Option.bind (peak_index points) (\<lambda>peak.
        Option.bind (spaced_indices (length points) (nat limit)) (\<lambda>indices.
        Option.bind (with_peak indices peak) (\<lambda>indices. those (map (elem_at points) indices)))))"

definition downsample :: "'a list \<Rightarrow> int \<Rightarrow> 'a list option" where
  "downsample points limit =
     (if limit \<le> 0 \<or> int (length points) \<le> limit then Some points
      else Option.bind (spaced_indices (length points) (nat limit)) (\<lambda>indices. those (map (elem_at points) indices)))"

subsection \<open>The sections\<close>

definition qos_string :: "qos_class \<Rightarrow> string" where
  "qos_string q = (case q of QoSZero \<Rightarrow> [] | QoSGuaranteed \<Rightarrow> ''Guaranteed'' | QoSBurstable \<Rightarrow> ''Burstable''
     | QoSBestEffort \<Rightarrow> ''BestEffort'' | QoSUnknown \<Rightarrow> ''Unknown'')"

fun concat_options :: "string option list \<Rightarrow> string option" where
  "concat_options [] = Some []"
| "concat_options (x # xs) = Option.bind x (\<lambda>s. map_option ((@) s) (concat_options xs))"

definition header_text :: "report \<Rightarrow> string option" where
  "header_text r =
     (let i = rp_identity r; sc = id_scope i in
      concat_options
        [Some (if id_resolved i then ''POD: '' @ id_pod_name i @ '' (namespace: '' @ id_namespace i @ '')'' @ newline
           else ''POD: <unresolved> (uid: '' @ sc_pod_uid sc @ '')'' @ newline),
         (if id_container_name i \<noteq> [] \<and> id_image i \<noteq> []
          then Some (''CONTAINER: '' @ id_container_name i @ '' (image: '' @ id_image i @ '')'' @ newline)
          else if id_container_name i \<noteq> [] then Some (''CONTAINER: '' @ id_container_name i @ newline)
          else map_option (\<lambda>short. ''CONTAINER: <unresolved> (id: '' @ short @ '')'' @ newline) (short_id (sc_container_id sc))),
         Some (if qos_string (sc_qos sc) \<noteq> [] then ''QOS: '' @ qos_string (sc_qos sc) @ newline else [])])"

text \<open>A line that is left out for a size of zero.\<close>

definition size_line :: "string \<Rightarrow> u64 \<Rightarrow> string option" where
  "size_line label n = (if 0 < n then map_option (\<lambda>t. label @ t @ newline) (bytes_label n) else Some [])"

definition growth_text :: "trend \<Rightarrow> string option" where
  "growth_text t =
     (if tr_projected t then
        map_option (\<lambda>rate. ''  Growth rate:  '' @ rate @ ''/s (fit R'' @ [CHR 0xC2, CHR 0xB2] @ ''='' @
          fmt_fixed 2 (tr_r_squared t) @ '' over '' @ duration_string (round_second (tr_window t)) @ '')'' @ newline)
          (Option.bind (f_to_u64 (tr_bytes_per_second t)) bytes_label)
      else Some [])"

definition diagnosis_text :: "report \<Rightarrow> zone \<Rightarrow> string option" where
  "diagnosis_text r z =
     concat_options
       [Some (newline @ ''DIAGNOSIS: OOMKilled ('' @ format_full z (rp_time r) @ '')'' @ newline),
        size_line ''  Limit:        '' (rp_limit_bytes r), size_line ''  Peak usage:   '' (rp_peak_bytes r),
        Some (if 0 < rp_kill_count r then ''  Kill count:   '' @ show_nat (unat (rp_kill_count r)) @ newline else []),
        Some (''  Detected by:  '' @ source_string (rp_source r) @ newline), growth_text (rp_trend r)]"

definition trajectory_line :: "(zone \<Rightarrow> time \<Rightarrow> string) \<Rightarrow> zone \<Rightarrow> trajectory_point \<Rightarrow> string option" where
  "trajectory_line clock z p =
     Option.bind (bytes_label (tp_used_bytes p)) (\<lambda>used.
     Option.bind (limit_label (tp_limit_bytes p)) (\<lambda>limit.
     map_option (\<lambda>meter.
       ''  '' @ clock z (tp_time p) @ '': '' @ pad_before 9 used @ '' / '' @ pad_after 9 limit @ '' '' @ meter @ '' '' @
       pad_before 3 (fmt_fixed 0 (f_mul (tp_ratio p) (FNum 100))) @ ''%'' @
       (if f_lt (FNum 0) (tp_pressure_full p) then ''  (stall '' @ fmt_fixed 0 (tp_pressure_full p) @ ''%)'' else []) @
       newline)
       (bar (tp_ratio p))))"

definition trajectory_text :: "report \<Rightarrow> (zone \<Rightarrow> time \<Rightarrow> string) \<Rightarrow> zone \<Rightarrow> string option" where
  "trajectory_text r clock z =
     (if rp_trajectory r = [] then Some (newline @ ''MEMORY TRAJECTORY: no samples buffered before the kill'' @ newline)
      else
        Option.bind (trajectory_rows (rp_trajectory r) max_trajectory_rows) (\<lambda>rows.
        map_option (\<lambda>body. newline @ ''MEMORY TRAJECTORY (last '' @ duration_string (round_second (report_window r)) @ ''):'' @
            newline @ body)
          (concat_options (map (trajectory_line clock z) rows))))"

definition victim_text :: "report \<Rightarrow> string option" where
  "victim_text r =
     (let v = rp_victim r; title = newline @ ''VICTIM PROCESS:'' @ newline in
      if \<not> v_known v then
        Some (title @ ''  Could not be identified.'' @ newline @
          ''  The kernel reported a kill but no sampled process disappeared.'' @ newline)
      else
        Option.bind (command_line (v_comm v) (v_cmdline v)) (\<lambda>command.
        map_option (\<lambda>memory.
          title @
          ''  PID:             '' @ itoa (v_pid v) @ '' (in container: '' @ itoa (v_nspid v) @ '')'' @ newline @
          ''  Command:         '' @ command @ newline @
          ''  Exit code:       '' @ itoa oom_exit_code @ '' (OOM)'' @ newline @ memory @
          (if v_inferred v then
             ''  Confidence:      inferred, not traced.'' @ newline @
             ''                   This process vanished between samples and held the'' @ newline @
             ''                   most memory. Run with the eBPF detector for an exact'' @ newline @
             ''                   victim.'' @ newline
           else ''  Confidence:      traced in the kernel at the moment of the kill.'' @ newline))
          (size_line ''  Memory at death: '' (v_rss_bytes v))))"

definition listing_meaning :: "report \<Rightarrow> string" where
  "listing_meaning r =
     (case rp_group_kill r of
        None \<Rightarrow>
          ''  memory.oom.group could not be read, so whether these processes'' @ newline @
          ''  outlived the kill was never established. Treat the list as a'' @ newline @
          ''  snapshot, not as survivors.'' @ newline
      | Some True \<Rightarrow>
          ''  memory.oom.group=1: the kernel killed every process in this'' @ newline @
          ''  container, so the list below is a teardown snapshot rather than'' @ newline @
          ''  survivors, and resident sizes are already collapsing.'' @ newline
      | Some False \<Rightarrow>
          ''  memory.oom.group=0: the kernel killed only the process it'' @ newline @
          ''  selected, so these were still running after it died.'' @ newline)"

definition process_line :: "nat \<Rightarrow> process_snapshot \<Rightarrow> string option" where
  "process_line i p =
     Option.bind (command_line (ps_comm p) (ps_cmdline p)) (\<lambda>command.
     map_option (\<lambda>memory. ''  '' @ show_nat (i + 1) @ ''. '' @ command @ '' (PID '' @ itoa (ps_pid p) @ '') - '' @ memory @ newline)
       (bytes_label (ps_rss_bytes p)))"

definition processes_text :: "report \<Rightarrow> string option" where
  "processes_text r =
     (if rp_processes r = [] then Some []
      else
        let procs = rp_processes r;
            truncated = (if max_processes < length procs then length procs - max_processes else 0)
        in Option.bind (if max_processes < length procs then first_n max_processes procs else Some procs) (\<lambda>procs.
          map_option (\<lambda>body.
            newline @ ''PROCESSES IN CONTAINER AFTER THE KILL:'' @ newline @
            (if v_known (rp_victim r) \<and> rp_victim_match r = VictimMatchNone then
               ''  The victim could not be matched against this listing, so it may'' @ newline @
               ''  still appear below. Its host PID and container PID both failed to'' @ newline @
               ''  match any entry.'' @ newline
             else []) @
            listing_meaning r @ body @
            (if 0 < truncated then ''  ... and '' @ show_nat truncated @ '' more'' @ newline else []))
            (concat_options (map (\<lambda>(i, p). process_line i p) (enumerate 0 procs)))))"

definition report_text :: "report \<Rightarrow> text_options \<Rightarrow> string option" where
  "report_text r opts =
     (let (clock, z) = text_with_defaults opts in
      concat_options [header_text r, diagnosis_text r z, trajectory_text r clock z, victim_text r, processes_text r])"

end
