(* ===== verification/RenderRows.thy ===== *)
theory RenderRows
  imports RenderText
begin

section \<open>The rows of the chart\<close>

text \<open>
  What \<open>trajectoryRows\<close> of \<open>src/internal/render/text.go\<close> keeps of a history that is longer than
  the chart.
\<close>

lemma spaced_step:
  assumes "L - 1 \<le> m" "1 < (L :: nat)"
  shows "i * m div (L - 1) < Suc i * m div (L - 1)"
proof -
  define d where "d = L - 1"
  have d: "0 < d" "d \<le> m" using assms by (simp_all add: d_def)
  have "(i * m + d) div d \<le> Suc i * m div d" using d(2) by (intro div_le_mono) simp
  then show ?thesis unfolding d_def [symmetric] using d(1) by simp
qed

lemma spaced_strict:
  assumes "L - 1 \<le> m" "1 < L"
  shows "sorted_wrt (<) (map (\<lambda>i. i * m div (L - 1)) [0..<L])"
proof -
  have "i < j \<Longrightarrow> i * m div (L - 1) < j * m div (L - 1)" for i j
    by (rule lift_Suc_mono_less [of "\<lambda>i. i * m div (L - 1)", OF spaced_step [OF assms]])
  then show ?thesis
    unfolding sorted_wrt_map by (rule sorted_wrt_mono_rel [OF _ sorted_wrt_upt])
qed

lemma peak_fold:
  fixes f :: "'a \<Rightarrow> u64"
  assumes "a < length points" "set is \<subseteq> {..<length points}"
  defines "k \<equiv> foldl (\<lambda>peak i. if f (points ! peak) < f (points ! i) then i else peak) a is"
  shows "k < length points \<and> f (points ! a) \<le> f (points ! k) \<and> (\<forall>i \<in> set is. f (points ! i) \<le> f (points ! k))"
  using assms(1,2) unfolding k_def
proof (induction "is" arbitrary: a)
  case (Cons i "is")
  let ?b = "if f (points ! a) < f (points ! i) then i else a"
  have b: "?b < length points" "f (points ! a) \<le> f (points ! ?b)" "f (points ! i) \<le> f (points ! ?b)"
    using Cons.prems by (auto simp: order_less_imp_le)
  have "set is \<subseteq> {..<length points}" using Cons.prems(2) by simp
  then show ?case using Cons.IH [OF b(1)] b(2,3) by (auto intro: order_trans)
qed simp

lemma peak_index_max:
  assumes "points \<noteq> []"
  shows "\<exists>peak. peak_index points = Some peak \<and> peak < length points \<and>
    (\<forall>p \<in> set points. tp_used_bytes p \<le> tp_used_bytes (points ! peak))"
proof -
  let ?g = "\<lambda>peak i. if tp_used_bytes (points ! peak) < tp_used_bytes (points ! i) then i else peak"
  have 0: "0 < length points" "set [0..<length points] \<subseteq> {..<length points}" using assms by auto
  have "peak_index points = Some (foldl ?g 0 [0..<length points]) \<and> foldl ?g 0 [0..<length points] < length points"
    unfolding peak_index_def
    by (rule fold_option_total [where P = "\<lambda>peak. peak < length points"]) (use 0 in \<open>auto simp: elem_at_def\<close>)
  with peak_fold [OF 0, of tp_used_bytes] show ?thesis by (auto simp: in_set_conv_nth)
qed

lemma nearest_index_less:
  assumes "indices \<noteq> []"
  shows "\<exists>nearest. nearest_index indices peak = Some nearest \<and> nearest < length indices"
proof -
  let ?g = "\<lambda>nearest i. if \<bar>int (indices ! i) - int peak\<bar> < \<bar>int (indices ! nearest) - int peak\<bar> then i else nearest"
  have "nearest_index indices peak = Some (foldl ?g 0 [0..<length indices]) \<and>
      foldl ?g 0 [0..<length indices] < length indices"
    unfolding nearest_index_def
    by (rule fold_option_total [where P = "\<lambda>k. k < length indices"]) (use assms in \<open>auto simp: elem_at_def\<close>)
  then show ?thesis by blast
qed

lemma inner_index_inner:
  "nearest < n \<Longrightarrow> 3 \<le> n \<Longrightarrow> length indices = n \<Longrightarrow> 0 < inner_index indices nearest \<and> inner_index indices nearest < n - 1"
  by (auto simp: inner_index_def Let_def)

text \<open>The ends stay, and so do order and number.\<close>

lemma with_peak_indices:
  assumes "sorted_wrt (<) is" "3 \<le> length is" "\<forall>i \<in> set is. i \<le> last is" "peak \<le> last is" "hd is = 0"
  shows "\<exists>js. with_peak is peak = Some js \<and> sorted_wrt (<) js \<and> length js = length is \<and> peak \<in> set js \<and>
    hd js = 0 \<and> last js = last is \<and> (\<forall>i \<in> set js. i \<le> last is)"
proof (cases "peak \<in> set is")
  case True
  then show ?thesis using assms by (simp add: with_peak_def)
next
  case False
  have ne: "is \<noteq> []" using assms(2) by auto
  obtain nearest where n: "nearest_index is peak = Some nearest" "nearest < length is"
    using nearest_index_less [OF ne] by blast
  define k where "k = inner_index is nearest"
  have k: "0 < k" "k < length is - 1"
    using inner_index_inner [OF n(2) assms(2)] by (simp_all add: k_def)
  define js where "js = is[k := peak]"
  have len: "length js = length is" by (simp add: js_def)
  have d: "distinct js"
    using assms(1) False by (auto simp: js_def strict_sorted_iff intro: distinct_list_update)
  have w: "with_peak is peak = Some (sort js)"
    using False n(1) k by (simp add: with_peak_def k_def [symmetric] js_def set_at_def)
  have sw: "sorted_wrt (<) (sort js)" using d by (simp add: strict_sorted_iff)
  have z: "0 \<in> set js" "last is \<in> set js" "peak \<in> set js"
  proof -
    have "js ! 0 = 0" using k(1) assms(5) ne by (simp add: js_def hd_conv_nth)
    moreover have "js ! (length is - 1) = last is" using k(2) ne by (simp add: js_def last_conv_nth)
    moreover have "js ! k = peak" using k by (simp add: js_def)
    moreover have "0 < length js" "length is - 1 < length js" "k < length js" using len ne k by auto
    ultimately show "0 \<in> set js" "last is \<in> set js" "peak \<in> set js" by (metis nth_mem)+
  qed
  have le: "\<forall>i \<in> set js. i \<le> last is"
    using assms(3,4) set_update_subset_insert [of "is" k peak] by (auto simp: js_def)
  have jne: "sort js \<noteq> []" using ne len by (metis length_0_conv length_sort)
  have "hd (sort js) = 0"
    using z(1) jne by (metis hd_in_set le_0_eq list.exhaust_sel set_ConsD set_sort sorted_simps(2) sorted_sort)
  moreover have "last (sort js) = last is"
  proof (rule antisym)
    show "last (sort js) \<le> last is" using le jne last_in_set by (metis set_sort)
    show "last is \<le> last (sort js)"
      using z(2) jne sorted_sort [of js] by (metis in_set_conv_nth last_conv_nth less_eq_nat.simps(1) diff_Suc_1
          Suc_pred' length_greater_0_conv less_Suc_eq_le set_sort sorted_nth_mono diff_less zero_less_one)
  qed
  ultimately show ?thesis using sw z(3) le len by (simp add: w)
qed

lemma last_spaced:
  assumes "1 < (L :: nat)"
  shows "hd (map (\<lambda>i. i * m div (L - 1)) [0..<L]) = 0" "last (map (\<lambda>i. i * m div (L - 1)) [0..<L]) = m"
  using assms by (simp_all add: hd_map last_map)

lemma rows_of_long_history:
  assumes "3 \<le> limit" "limit < int (length points)"
  shows "\<exists>rows. trajectory_rows points limit = Some rows \<and> length rows = nat limit \<and> subseq rows points \<and>
    hd rows = hd points \<and> last rows = last points \<and>
    (\<exists>p \<in> set rows. \<forall>q \<in> set points. tp_used_bytes q \<le> tp_used_bytes p)"
proof -
  define L where "L = nat limit"
  define m where "m = length points - 1"
  define ix where "ix = map (\<lambda>i. i * m div (L - 1)) [0..<L]"
  have L: "3 \<le> L" "L - 1 \<le> m" "1 < L" "m < length points" using assms by (auto simp: L_def m_def)
  have ne: "points \<noteq> []" using L by auto
  obtain peak where pk: "peak_index points = Some peak" "peak < length points"
    "\<forall>q \<in> set points. tp_used_bytes q \<le> tp_used_bytes (points ! peak)"
    using peak_index_max [OF ne] by blast
  have strict: "sorted_wrt (<) ix" unfolding ix_def by (rule spaced_strict [OF L(2,3)])
  have len: "length ix = L" by (simp add: ix_def)
  have hl: "hd ix = 0" "last ix = m" unfolding ix_def by (rule last_spaced [OF L(3)])+
  have ixne: "ix \<noteq> []" using len L by auto
  have "i \<le> last ix" if "i \<in> set ix" for i
    using that strict ixne by (metis append_butlast_last_id in_set_conv_decomp_first less_imp_le order_refl
        rotate1.simps(2) set_ConsD set_rotate1 sorted_wrt_append list.set_intros(1))
  moreover have "3 \<le> length ix" "peak \<le> last ix" using len L pk(2) hl(2) by (auto simp: m_def)
  ultimately obtain js where w: "with_peak ix peak = Some js" and js: "sorted_wrt (<) js" "length js = L" "peak \<in> set js"
    "hd js = 0" "last js = m" "\<forall>i \<in> set js. i \<le> m"
    using with_peak_indices [OF strict, of peak] hl len by auto
  have jne: "js \<noteq> []" using js(2) L by auto
  have "those (map (elem_at points) js) = Some (map ((!) points) js)" using js(6) L(4) by (intro those_elem_at) auto
  then have "trajectory_rows points limit = Some (map ((!) points) js)"
    using assms L by (simp add: trajectory_rows_def spaced_indices_def L_def [symmetric] m_def [symmetric]
        ix_def [symmetric] pk(1) w flip: One_nat_def)
  moreover have "subseq (map ((!) points) js) points"
  proof -
    have "subseq js [0..<length points]"
      using js(1,6) L(4) by (intro sorted_subset_imp_subseq) auto
    then have "subseq (map ((!) points) js) (map ((!) points) [0..<length points])" by (rule subseq_map)
    then show ?thesis by (simp add: map_nth)
  qed
  moreover have "hd (map ((!) points) js) = hd points" using jne ne js(4) by (simp add: hd_map hd_conv_nth)
  moreover have "last (map ((!) points) js) = last points" using jne ne js(5) by (simp add: last_map last_conv_nth m_def)
  moreover have "points ! peak \<in> set (map ((!) points) js)" using js(3) by simp
  moreover have "length (map ((!) points) js) = nat limit" using js(2) by (simp add: L_def)
  ultimately show ?thesis using pk(3) by blast
qed

text \<open>C34: A history longer than the chart is cut down to exactly as many readings as the chart has
  rows, for any size of three rows or more: in their order in time, none twice, with the first
  and the last one in place, and with a reading of the highest usage among them, however the
  even spacing falls.\<close>

theorem chart_keeps_first_last_and_peak:
  assumes "3 \<le> limit" "limit < int (length points)"
  shows "\<exists>rows. trajectory_rows points limit = Some rows \<and> length rows = nat limit \<and> subseq rows points \<and>
    hd rows = hd points \<and> last rows = last points \<and>
    (\<exists>p \<in> set rows. \<forall>q \<in> set points. tp_used_bytes q \<le> tp_used_bytes p)"
  using assms by (rule rows_of_long_history)

definition demo_point :: "u64 \<Rightarrow> trajectory_point" where
  "demo_point u = \<lparr>tp_time = 0, tp_used_bytes = u, tp_limit_bytes = 10, tp_ratio = FNum 0, tp_pressure_full = FNum 0\<rparr>"

theorem chart_keeps_first_last_and_peak_witness:
  "\<exists>rows. trajectory_rows (map demo_point [5, 1, 9, 2]) 3 = Some rows \<and> length rows = 3 \<and>
     hd rows = demo_point 5 \<and> last rows = demo_point 2 \<and> demo_point 9 \<in> set rows"
proof -
  let ?ps = "map demo_point [5, 1, 9, 2]"
  have lim: "(3 :: int) \<le> 3" "3 < int (length ?ps)" by simp_all
  obtain rows where r: "trajectory_rows ?ps 3 = Some rows" "length rows = nat 3" "subseq rows ?ps"
    "hd rows = hd ?ps" "last rows = last ?ps" "\<exists>p \<in> set rows. \<forall>q \<in> set ?ps. tp_used_bytes q \<le> tp_used_bytes p"
    using chart_keeps_first_last_and_peak [OF lim] by blast
  then obtain p where p: "p \<in> set rows" "\<forall>q \<in> set ?ps. tp_used_bytes q \<le> tp_used_bytes p" by blast
  have "p \<in> set ?ps" using r(3) p(1) by (auto elim: list_emb_set simp del: list.map)
  then have "tp_used_bytes p \<in> {5, 1, 9, 2} \<and> p = demo_point (tp_used_bytes p)" by (auto simp: demo_point_def)
  moreover have "9 \<le> tp_used_bytes p" using p(2) by (simp add: demo_point_def)
  ultimately have "p = demo_point 9" by (auto simp: word_le_nat_alt)
  moreover have "hd rows = demo_point 5" "last rows = demo_point 2" using r(4,5) by simp_all
  ultimately show ?thesis using r(1,2) p(1) by (intro exI [of _ rows] conjI) simp_all
qed

end
