(* ===== verification/RenderLines.thy ===== *)
theory RenderLines
  imports RenderRows Api
begin

section \<open>The lines of a post-mortem\<close>

text \<open>
  Properties of the pieces \<open>src/internal/render/text.go\<close> builds its lines from: commands, the
  usage meter and the size labels; and that the text of a report whose figures are finite is
  always produced.
\<close>

subsection \<open>Commands\<close>

definition control_byte :: "char \<Rightarrow> bool" where
  "control_byte c \<longleftrightarrow> (of_char c :: nat) < 32 \<or> c = CHR 0x7F"

definition plain_text :: "string \<Rightarrow> bool" where
  "plain_text s \<longleftrightarrow> (\<forall>c \<in> set s. \<not> control_byte c)"

lemma plain_text_simps [simp]:
  "plain_text []" "plain_text (c # s) \<longleftrightarrow> \<not> control_byte c \<and> plain_text s"
  "plain_text (s @ t) \<longleftrightarrow> plain_text s \<and> plain_text t" "plain_text (rev s) \<longleftrightarrow> plain_text s"
  by (auto simp: plain_text_def)

definition break_runes :: "string list" where
  "break_runes = space_runes @ control_runes"

lemma lead_mem: "[c] \<in> set ws \<Longrightarrow> [] \<notin> set ws \<Longrightarrow> lead ws (c # s) \<noteq> 0"
  by (induction ws) auto

lemma control_mem: "control_byte c \<Longrightarrow> [c] \<in> set control_runes"
proof -
  assume "control_byte c"
  then have "(of_char c :: nat) \<in> set ([0..<32] @ [127])"
    unfolding control_byte_def set_append set_upt by fastforce
  then have "(\<lambda>n. [char_of n :: char]) (of_char c :: nat) \<in> (\<lambda>n. [char_of n]) ` set ([0..<32] @ [127])"
    by (rule imageI)
  then show ?thesis unfolding control_runes_def set_append [of "map _ _"] set_map by simp
qed

lemma no_empty_rune: "[] \<notin> set break_runes"
proof -
  have "[] \<notin> set control_runes" unfolding control_runes_def set_append set_map by blast
  moreover have "[] \<notin> set space_runes" by (simp add: space_runes_def)
  ultimately show ?thesis by (simp add: break_runes_def)
qed

lemma lead_control: "control_byte c \<Longrightarrow> lead break_runes (c # s) \<noteq> 0"
  using lead_mem [OF _ no_empty_rune] control_mem by (simp add: break_runes_def)

lemma fields_func_plain: "plain_text cur \<Longrightarrow> list_all plain_text (fields_func break_runes cur s)"
proof (induction break_runes cur s rule: fields_func.induct)
  case (1 cur s)
  consider (stop) "s = []" | (plain) "s \<noteq> []" "lead break_runes s = 0" | (gap) "s \<noteq> []" "lead break_runes s \<noteq> 0"
    by blast
  then show ?case
  proof cases
    case stop
    then show ?thesis using 1(3) by (subst fields_func.simps) simp
  next
    case plain
    then have eq: "fields_func break_runes cur s = fields_func break_runes (hd s # cur) (tl s)"
      by (subst fields_func.simps) simp
    obtain c t where s: "s = c # t" using plain(1) by (cases s) auto
    then have "\<not> control_byte c" using lead_control plain(2) by blast
    then have "plain_text (hd s # cur)" using 1(3) s by simp
    then show ?thesis unfolding eq using 1(1) [OF plain(1) refl plain(2)] by blast
  next
    case gap
    then have eq: "fields_func break_runes cur s =
        (if cur = [] then [] else [rev cur]) @ fields_func break_runes [] (drop (lead break_runes s) s)"
      by (subst fields_func.simps) simp
    show ?thesis unfolding eq using 1(2) [OF gap(1) refl gap(2)] 1(3) by simp
  qed
qed

lemma join_space_plain: "list_all plain_text ws \<Longrightarrow> plain_text (join '' '' ws)"
  by (induction ws rule: induct_list012) (simp_all add: control_byte_def)

lemma runes_bytes: "set (concat (runes s)) \<subseteq> set s \<union> set replacement_rune"
proof (induction s rule: runes.induct)
  case (1 s)
  consider "s = []" | (invalid) "s \<noteq> []" "rune_size s = 0" | (valid) "s \<noteq> []" "rune_size s \<noteq> 0" by blast
  then show ?case
  proof cases
    case invalid
    then have eq: "runes s = replacement_rune # runes (tl s)" by (subst runes.simps) simp
    have "set (tl s) \<subseteq> set s" by (cases s) auto
    then show ?thesis using 1(1) [OF invalid] unfolding eq concat.simps set_append by blast
  next
    case valid
    then have eq: "runes s = take (rune_size s) s # runes (drop (rune_size s) s)" by (subst runes.simps) simp
    show ?thesis
      using 1(2) [OF valid] set_take_subset [of "rune_size s" s] set_drop_subset [of "rune_size s" s]
      unfolding eq concat.simps set_append by blast
  qed simp
qed

text \<open>The bound of the slice lies within the runes it is taken from.\<close>

lemma truncate_command_value:
  "truncate_command s =
     Some (if rune_count s \<le> max_command_length then s else take_runes (max_command_length - 1) s @ ellipsis)"
  by (auto simp: truncate_command_def first_n_def take_runes_def rune_count_def)

lemma truncate_plain:
  assumes "plain_text s" "truncate_command s = Some t"
  shows "plain_text t"
proof -
  have "set (take_runes n s) \<subseteq> set (concat (runes s))" for n
    unfolding take_runes_def set_concat using set_take_subset [of n "runes s"] by blast
  moreover have "t = (if rune_count s \<le> max_command_length then s else take_runes (max_command_length - 1) s @ ellipsis)"
    using assms(2) by (simp only: truncate_command_value option.inject)
  ultimately have "set t \<subseteq> set s \<union> set (replacement_rune @ ellipsis)"
    using runes_bytes [of s] by (simp only: set_append split: if_split) blast
  moreover have "plain_text (replacement_rune @ ellipsis)"
    by (simp add: replacement_rune_def ellipsis_def control_byte_def)
  ultimately show ?thesis using assms(1) unfolding plain_text_def by blast
qed

lemma command_line_total: "\<exists>t. command_line comm cmdline = Some t"
  by (simp add: command_line_def truncate_command_value)

text \<open>No process can break the layout of a report: whatever bytes its name and its arguments are
  made of, newlines, escape codes and invalid encodings included, the command that is printed
  holds no control character and is at most 96 characters long.\<close>

theorem command_fits_on_its_line:
  "\<exists>t. command_line comm cmdline = Some t \<and> rune_count t \<le> 96 \<and>
     list_all (\<lambda>c. 32 \<le> (of_char c :: nat) \<and> c \<noteq> CHR 0x7F) t"
proof -
  obtain t where t: "command_line comm cmdline = Some t" using command_line_total by blast
  then obtain s where s: "truncate_command (flatten_whitespace s) = Some t"
    by (auto simp: command_line_def split: if_splits)
  have "rune_count t \<le> 96"
    using s rune_count_shortened [of 95 "flatten_whitespace s"]
    by (auto simp: truncate_command_value max_command_length_def split: if_splits)
  moreover have "plain_text (flatten_whitespace s)"
    unfolding flatten_whitespace_def break_runes_def [symmetric]
    by (intro join_space_plain fields_func_plain) simp
  then have "plain_text t" using s by (rule truncate_plain)
  ultimately show ?thesis using t
    unfolding plain_text_def list_all_iff control_byte_def not_less [symmetric] by blast
qed

subsection \<open>The meter\<close>

definition meter :: "nat \<Rightarrow> string" where
  "meter n = ''['' @ concat (replicate n full_cell) @ concat (replicate (18 - n) empty_cell) @ '']''"

lemma usage_ratio_rounded: "usage_ratio m = FNum q \<Longrightarrow> q = 1 \<or> (\<exists>y. 0 \<le> y \<and> q = round_mag y)"
proof -
  assume r: "usage_ratio m = FNum q"
  show ?thesis
  proof (cases "ms_limit m = 0 \<or> ms_limit m = unlimited")
    case True
    then have "q = round_mag 0" using r by (auto simp: usage_ratio_def)
    then show ?thesis by blast
  next
    case False
    define c where "c = round_mag (unsigned (ms_current m))"
    define l where "l = round_mag (unsigned (ms_limit m))"
    have "0 < ms_limit m" using False by (simp add: word_neq_0_conv)
    then have l: "1 \<le> l" "0 \<le> c" using f_of_u64_pos f_of_u64_nonneg by (simp_all add: l_def c_def)
    then have "0 \<le> c / l" by simp
    moreover have "f_div (f_of_u64 (ms_current m)) (f_of_u64 (ms_limit m)) = f64_round (c / l)"
      using l by (simp add: f_of_u64_num c_def l_def)
    ultimately show ?thesis
      using r False by (auto simp: usage_ratio_def Let_def f64_round_nonneg split: if_splits)
  qed
qed

lemma meter_value:
  assumes "0 \<le> q" "q \<le> 1"
  shows "f_mul (FNum q) (f_of_int bar_width) = FNum (round_mag (q * 18))" "0 \<le> round_mag (q * 18)" "round_mag (q * 18) \<le> 18"
proof -
  have "f_of_int bar_width = FNum 18" using f64_round_int [of 18] by (simp add: f_of_int_def bar_width_def)
  moreover have "f64_round (q * 18) = FNum (round_mag (q * 18)) \<and> 0 \<le> round_mag (q * 18) \<and> round_mag (q * 18) \<le> of_int 18"
    using assms by (intro f64_round_le) auto
  ultimately show "f_mul (FNum q) (f_of_int bar_width) = FNum (round_mag (q * 18))" "0 \<le> round_mag (q * 18)" "round_mag (q * 18) \<le> 18"
    by simp_all
qed

lemma bar_unit:
  assumes "0 \<le> q" "q \<le> 1"
  shows "bar (FNum q) = Some (meter (nat \<lfloor>round_mag (q * 18)\<rfloor>)) \<and> nat \<lfloor>round_mag (q * 18)\<rfloor> \<le> 18"
proof -
  define k where "k = \<lfloor>round_mag (q * 18)\<rfloor>"
  have k: "0 \<le> k" "k \<le> 18" using meter_value(2,3) [OF assms] by (simp_all add: k_def floor_le_iff)
  have "f_to_int64 (FNum (round_mag (q * 18))) = Some k"
    using meter_value(2) [OF assms] k by (simp add: f_to_int64_def k_def [symmetric] Let_def)
  moreover have "nat (18 - k) = 18 - nat k" using k by simp
  ultimately show ?thesis
    unfolding k_def [symmetric] using assms k
    by (simp add: bar_def meter_value(1) [OF assms] Let_def repeat_string_def meter_def bar_width_def [symmetric])
      (simp add: bar_width_def)
qed

lemma almost_full:
  assumes "0 \<le> y" "round_mag y < 1"
  shows "round_mag (round_mag y * 18) < 18"
proof -
  let ?e = "9007199254740991 / 9007199254740992 :: rat"
  have "round_mag y \<le> of_nat (2 ^ 53 - 1) * pow2 (- 53)"
    using assms by (intro round_mag_gap) (simp_all add: pow2_def)
  then have "round_mag y \<le> ?e" by (simp add: pow2_def)
  then have le: "round_mag (round_mag y * 18) \<le> round_mag (?e * 18)"
    using round_mag_nonneg [OF assms(1)] by (intro round_mag_mono) auto
  have "rat_exp (?e * 18) = 4" by (rule rat_exp_unique) (simp_all add: pow2_def)
  then have e: "ulp_exp (?e * 18) = - 48" by (simp add: ulp_exp_def)
  have "\<lfloor>?e * 18 / pow2 (- 48)\<rfloor> = 5066549580791807" by (rule floor_unique) (simp_all add: pow2_def)
  then have "round_even (?e * 18 / pow2 (- 48)) = 5066549580791807"
    by (simp add: round_even_def Let_def pow2_def)
  then have "round_mag (?e * 18) = 5066549580791807 * pow2 (- 48)" unfolding round_mag_def e by simp
  then show ?thesis using le by (simp add: pow2_def)
qed

text \<open>The meter always has eighteen cells, and all of them are filled exactly when the usage is at the
  limit: no ratio below one, however close, is rounded up to a full bar.\<close>

theorem meter_full_only_at_the_limit:
  "\<exists>n \<le> 18. bar (usage_ratio m) = Some (meter n) \<and> (n = 18 \<longleftrightarrow> usage_ratio m = FNum 1)"
proof -
  obtain q where q: "usage_ratio m = FNum q" "0 \<le> q" "q \<le> 1" using usage_ratio_range by blast
  define n where "n = nat \<lfloor>round_mag (q * 18)\<rfloor>"
  have b: "bar (usage_ratio m) = Some (meter n)" "n \<le> 18" using bar_unit [OF q(2,3)] by (simp_all add: q(1) n_def)
  have "n = 18 \<longleftrightarrow> q = 1"
  proof
    assume "q = 1"
    then show "n = 18" using round_mag_int [of 18] by (simp add: n_def)
  next
    assume n: "n = 18"
    show "q = 1"
    proof (rule ccontr)
      assume ne: "q \<noteq> 1"
      then obtain y where "0 \<le> y" "q = round_mag y" using usage_ratio_rounded [OF q(1)] by blast
      then have "round_mag (q * 18) < 18" using almost_full [of y] q(3) ne by auto
      then have "\<lfloor>round_mag (q * 18)\<rfloor> < 18" by (simp add: floor_less_iff)
      then show False using n unfolding n_def by linarith
    qed
  qed
  then show ?thesis using b q(1) by (intro exI [of _ n]) simp
qed

subsection \<open>Sizes\<close>

lemma unit_step: "1024 \<le> n div (m :: nat) \<longleftrightarrow> 1024 * m \<le> n" if "0 < m"
  using that by (simp add: less_eq_div_iff_mult_less_eq)

lemma bytes_scale_spec:
  assumes "1024 \<le> unat n"
  shows "\<exists>k \<le> 4. bytes_scale 4 (n div 1024) 1024 0 = (2 ^ (10 * Suc k), k) \<and>
    1024 ^ Suc k \<le> unat n \<and> (k < 4 \<longrightarrow> unat n < 1024 ^ Suc (Suc k))"
proof -
  define N where "N = unat n"
  have d: "1024 \<le> n div 1024 \<longleftrightarrow> 1048576 \<le> N" "1024 \<le> n div 1024 div 1024 \<longleftrightarrow> 1073741824 \<le> N"
    "1024 \<le> n div 1024 div 1024 div 1024 \<longleftrightarrow> 1099511627776 \<le> N"
    "1024 \<le> n div 1024 div 1024 div 1024 div 1024 \<longleftrightarrow> 1125899906842624 \<le> N"
    by (simp_all add: word_le_nat_alt unat_div N_def unit_step flip: div_mult2_eq)
  have four: "bytes_scale 4 = bytes_scale (Suc (Suc (Suc (Suc 0))))" by (simp add: numeral_eq_Suc)
  have low: "1024 \<le> N" using assms by (simp add: N_def)
  consider (K) "N < 1048576" | (M) "1048576 \<le> N" "N < 1073741824" | (G) "1073741824 \<le> N" "N < 1099511627776"
    | (T) "1099511627776 \<le> N" "N < 1125899906842624" | (P) "1125899906842624 \<le> N" by linarith
  then have "\<exists>k \<le> 4. bytes_scale 4 (n div 1024) 1024 0 = (2 ^ (10 * Suc k), k) \<and>
      1024 ^ Suc k \<le> N \<and> (k < 4 \<longrightarrow> N < 1024 ^ Suc (Suc k))"
  proof cases
    case K
    then have "bytes_scale 4 (n div 1024) 1024 0 = (1024, 0)" unfolding four using d by simp
    then show ?thesis using K low by (intro exI [of _ 0]) simp
  next
    case M
    then have "bytes_scale 4 (n div 1024) 1024 0 = (1048576, 1)" unfolding four using d by simp
    then show ?thesis using M by (intro exI [of _ 1]) simp
  next
    case G
    then have "bytes_scale 4 (n div 1024) 1024 0 = (1073741824, 2)" unfolding four using d by simp
    then show ?thesis using G by (intro exI [of _ 2]) simp
  next
    case T
    then have "bytes_scale 4 (n div 1024) 1024 0 = (1099511627776, 3)" unfolding four using d by simp
    then show ?thesis using T by (intro exI [of _ 3]) simp
  next
    case P
    then have "bytes_scale 4 (n div 1024) 1024 0 = (1125899906842624, 4)" unfolding four using d by simp
    then show ?thesis using P by (intro exI [of _ 4]) simp
  qed
  then show ?thesis by (simp only: N_def)
qed

lemma power_1024: "(1024 :: 'a :: comm_semiring_1) ^ Suc k = 2 ^ (10 * Suc k)"
proof -
  have "(1024 :: 'a) = 2 ^ 10" by simp
  then show ?thesis by (simp only: power_mult)
qed

lemma unit_word: "k \<le> 4 \<Longrightarrow> unat ((2 :: u64) ^ (10 * Suc k)) = 2 ^ (10 * Suc k)"
proof -
  assume "k \<le> 4"
  then have "(2 :: nat) ^ (10 * Suc k) < 2 ^ 64" by (intro power_strict_increasing) simp_all
  then have "unat (of_nat (2 ^ (10 * Suc k)) :: u64) = 2 ^ (10 * Suc k)" by (intro unat_of_nat_u64)
  then show ?thesis by simp
qed

text \<open>A size is printed in the largest binary unit it reaches, to the nearest tenth of that unit:
  for every count of bytes up to 2^53 the unit stays within the five there are names for, and
  the number printed is within a twentieth of the true one.\<close>

theorem size_labels_are_accurate:
  assumes "1024 \<le> unat n" "unat n \<le> 2 ^ 53"
  shows "\<exists>k \<le> 4. \<exists>tenths. bytes_label n = Some (fixed_digits 1 tenths @ [''KMGTP'' ! k] @ ''iB'') \<and>
    1024 ^ Suc k \<le> unat n \<and> (k < 4 \<longrightarrow> unat n < 1024 ^ Suc (Suc k)) \<and>
    \<bar>of_nat tenths / 10 - of_nat (unat n) / 1024 ^ Suc k\<bar> \<le> (1 / 20 :: rat)"
proof -
  obtain k where k: "k \<le> 4" "bytes_scale 4 (n div 1024) 1024 0 = (2 ^ (10 * Suc k), k)"
    "1024 ^ Suc k \<le> unat n" "k < 4 \<longrightarrow> unat n < 1024 ^ Suc (Suc k)"
    using bytes_scale_spec [OF assms(1)] by blast
  define U where "U = (2 :: rat) ^ (10 * Suc k)"
  define q where "q = of_nat (unat n) / U"
  define tenths where "tenths = nat (round_even (q * 10))"
  have U: "0 < U" by (simp add: U_def)
  have q: "0 \<le> q" using U by (simp add: q_def)
  have "(2 :: nat) ^ (10 * Suc k) \<le> 2 ^ 53" using k(1) by (intro power_increasing) simp_all
  then have "f_of_u64 (2 ^ (10 * Suc k)) = FNum (unsigned ((2 :: u64) ^ (10 * Suc k)))"
    using unit_word [OF k(1)] by (intro f_of_u64_exact) simp
  then have fu: "f_of_u64 (2 ^ (10 * Suc k)) = FNum U"
    by (simp only: unsigned_rat_nat unit_word [OF k(1)] U_def of_nat_power of_nat_numeral)
  have fn: "f_of_u64 n = FNum (of_nat (unat n))" using f_of_u64_exact [OF assms(2)] by simp
  have "pow2 (- int (10 * Suc k)) = 1 / U" by (simp add: pow2_def U_def nat_add_distrib nat_mult_distrib)
  moreover have "int (unat n) \<le> int (2 ^ 53)" using assms(2) by (simp only: of_nat_le_iff)
  then have "\<bar>int (unat n)\<bar> \<le> 2 ^ 53" by simp
  then have "f64_round (of_int (int (unat n)) * pow2 (- int (10 * Suc k))) =
      FNum (of_int (int (unat n)) * pow2 (- int (10 * Suc k)))"
    using k(1) by (intro f64_round_dyadic) simp_all
  ultimately have fd: "f_div (FNum (of_nat (unat n))) (FNum U) = FNum q" using U by (simp add: q_def)
  have "\<not> n < 1024" using assms(1) by (simp add: word_less_nat_alt)
  moreover have "elem_at ''KMGTP'' k = Some (''KMGTP'' ! k)" using k(1) by (simp add: elem_at_def)
  ultimately have lab: "bytes_label n = Some (fixed_digits 1 tenths @ [''KMGTP'' ! k] @ ''iB'')"
    using q by (simp only: bytes_label_def k(2) fu fn fd fmt_fixed_def tenths_def if_False Let_def prod.case f64.case
        option.map) simp
  have "0 \<le> round_even (q * 10)" using q by (intro round_even_ge_int) simp
  then have "(of_nat tenths :: rat) = of_int (round_even (q * 10))" by (simp add: tenths_def)
  then have "\<bar>of_nat tenths / 10 - q\<bar> \<le> 1 / 20"
    using round_even_dist [of "q * 10"] by (simp add: abs_le_iff field_simps)
  then have "\<bar>of_nat tenths / 10 - of_nat (unat n) / 1024 ^ Suc k\<bar> \<le> (1 / 20 :: rat)"
    by (simp only: q_def U_def power_1024)
  then show ?thesis using k(1,3,4) lab by blast
qed

theorem size_labels_are_accurate_witness:
  "\<exists>tenths. bytes_label 1536 = Some (fixed_digits 1 tenths @ ''KiB'') \<and>
     \<bar>of_nat tenths / 10 - 3 / 2\<bar> \<le> (1 / 20 :: rat)"
proof -
  have n: "1024 \<le> unat (1536 :: u64)" "unat (1536 :: u64) \<le> 2 ^ 53" by simp_all
  obtain k tenths where k: "k \<le> 4" "bytes_label 1536 = Some (fixed_digits 1 tenths @ [''KMGTP'' ! k] @ ''iB'')"
    "1024 ^ Suc k \<le> unat (1536 :: u64)"
    "\<bar>of_nat tenths / 10 - of_nat (unat (1536 :: u64)) / 1024 ^ Suc k\<bar> \<le> (1 / 20 :: rat)"
    using size_labels_are_accurate [OF n] by blast
  have "k = 0"
  proof (rule ccontr)
    assume "k \<noteq> 0"
    then have "(1024 :: nat) ^ Suc 1 \<le> 1024 ^ Suc k" by (intro power_increasing) simp_all
    then show False using k(3) by simp
  qed
  then show ?thesis using k(2,4) by (intro exI [of _ tenths]) simp
qed

subsection \<open>The whole text\<close>

text \<open>Every size has a unit with a name: 2^64 - 1 bytes are sixteen thousand times the last one, and
  the loop stops there.\<close>

lemma bytes_label_total: "\<exists>t. bytes_label n = Some t"
proof (cases "n < 1024")
  case True
  then show ?thesis by (simp add: bytes_label_def)
next
  case False
  then have "1024 \<le> unat n" by (simp add: word_less_nat_alt)
  then obtain k where "k \<le> 4" "bytes_scale 4 (n div 1024) 1024 0 = (2 ^ (10 * Suc k), k)"
    using bytes_scale_spec by blast
  then show ?thesis using False by (simp add: bytes_label_def elem_at_def)
qed

lemma limit_label_total: "\<exists>t. limit_label n = Some t"
  using bytes_label_total by (simp add: limit_label_def)

lemma size_line_total: "\<exists>t. size_line label n = Some t"
  using bytes_label_total [of n] by (auto simp: size_line_def)

lemma short_id_total: "\<exists>t. short_id i = Some t"
  by (simp add: short_id_def first_n_def)

lemma concat_options_total: "list_all (\<lambda>x. \<exists>t. x = Some t) xs \<Longrightarrow> \<exists>t. concat_options xs = Some t"
  by (induction xs) auto

lemma header_text_total: "\<exists>t. header_text r = Some t"
  unfolding header_text_def Let_def
  by (intro concat_options_total) (use short_id_total [of "sc_container_id (id_scope (rp_identity r))"] in auto)

lemma growth_text_total:
  assumes "tr_projected t \<longrightarrow> f_to_u64 (tr_bytes_per_second t) \<noteq> None"
  shows "\<exists>g. growth_text t = Some g"
proof (cases "tr_projected t")
  case True
  then obtain n where "f_to_u64 (tr_bytes_per_second t) = Some n" using assms by blast
  then show ?thesis using True bytes_label_total [of n] by (auto simp: growth_text_def)
qed (simp add: growth_text_def)

lemma diagnosis_text_total: "growth_text (rp_trend r) = Some g \<Longrightarrow> \<exists>t. diagnosis_text r z = Some t"
  unfolding diagnosis_text_def by (intro concat_options_total) (simp add: size_line_total)

lemma victim_text_total: "\<exists>t. victim_text r = Some t"
  using command_line_total [of "v_comm (rp_victim r)" "v_cmdline (rp_victim r)"]
    size_line_total [of "''  Memory at death: ''" "v_rss_bytes (rp_victim r)"]
  by (auto simp: victim_text_def Let_def)

lemma process_line_total: "\<exists>t. process_line i p = Some t"
  using command_line_total [of "ps_comm p" "ps_cmdline p"] bytes_label_total [of "ps_rss_bytes p"]
  by (auto simp: process_line_def)

lemma processes_text_total: "\<exists>t. processes_text r = Some t"
proof -
  have "\<exists>t. concat_options (map (\<lambda>(i, p). process_line i p) (enumerate 0 ps)) = Some t" for ps
    by (intro concat_options_total) (auto simp: list_all_iff process_line_total)
  moreover have "\<exists>ps. (if max_processes < length (rp_processes r) then first_n max_processes (rp_processes r)
      else Some (rp_processes r)) = Some ps"
    by (simp add: first_n_def)
  ultimately show ?thesis by (auto simp: processes_text_def Let_def)
qed

lemma bar_total: "bar (FNum q) \<noteq> None"
proof -
  consider "q < 0" | "0 \<le> q" "q \<le> 1" | "1 < q" by linarith
  then show ?thesis
  proof cases
    case 1
    then have "bar (FNum q) = bar (FNum 0)" by (simp add: bar_def)
    then show ?thesis using bar_unit [of 0] by simp
  next
    case 2
    then show ?thesis using bar_unit by simp
  next
    case 3
    then have "bar (FNum q) = bar (FNum 1)" by (simp add: bar_def)
    then show ?thesis using bar_unit [of 1] by simp
  qed
qed

lemma rows_total: "\<exists>rows. trajectory_rows points max_trajectory_rows = Some rows \<and> set rows \<subseteq> set points"
proof (cases "int (length points) \<le> max_trajectory_rows")
  case True
  then show ?thesis by (simp add: trajectory_rows_def)
next
  case False
  then have "3 \<le> max_trajectory_rows" "max_trajectory_rows < int (length points)"
    by (simp_all add: max_trajectory_rows_def)
  then obtain rows where rows: "trajectory_rows points max_trajectory_rows = Some rows" "subseq rows points"
    using rows_of_long_history [of max_trajectory_rows points] by blast
  have "set rows \<subseteq> set points"
  proof
    fix p assume "p \<in> set rows"
    then show "p \<in> set points" using rows(2) by (auto elim: list_emb_set)
  qed
  then show ?thesis using rows(1) by blast
qed

lemma trajectory_text_total:
  assumes "list_all json_point_ok (rp_trajectory r)"
  shows "\<exists>t. trajectory_text r clock z = Some t"
proof (cases "rp_trajectory r = []")
  case True
  then show ?thesis by (simp add: trajectory_text_def)
next
  case False
  obtain rows where rows: "trajectory_rows (rp_trajectory r) max_trajectory_rows = Some rows" "set rows \<subseteq> set (rp_trajectory r)"
    using rows_total by blast
  have "\<exists>t. trajectory_line clock z p = Some t" if "p \<in> set rows" for p
  proof -
    have "json_point_ok p" using assms that rows(2) by (auto simp: list_all_iff)
    then obtain q where "tp_ratio p = FNum q" by (cases "tp_ratio p") (auto simp: json_point_ok_def)
    then show ?thesis
      using bar_total [of q] bytes_label_total [of "tp_used_bytes p"] limit_label_total [of "tp_limit_bytes p"]
      by (auto simp: trajectory_line_def)
  qed
  then have "\<exists>t. concat_options (map (trajectory_line clock z) rows) = Some t"
    by (intro concat_options_total) (simp add: list_all_iff)
  then show ?thesis using False rows(1) by (auto simp: trajectory_text_def)
qed

text \<open>C35: The text of a report is always produced: when every figure of it is a number and the growth
  rate it projects fits an unsigned count of bytes, no conversion leaves its range, no
  repetition count is negative, and no index and no slice bound of the renderer leaves its
  range - neither in the rows of the chart, nor in the names of the units, for any size of 64
  bits, nor in the commands, IDs and listings that are shortened - whatever options the caller
  gives.\<close>

theorem finite_report_renders:
  assumes "json_report_ok r" "tr_projected (rp_trend r) \<longrightarrow> f_to_u64 (tr_bytes_per_second (rp_trend r)) \<noteq> None"
  shows "\<exists>txt. report_text r opts = Some txt"
proof -
  obtain clock z where defaults: "text_with_defaults opts = (clock, z)" by (cases "text_with_defaults opts") blast
  obtain g where "growth_text (rp_trend r) = Some g" using growth_text_total [OF assms(2)] by blast
  then have "\<exists>t. diagnosis_text r z = Some t" by (rule diagnosis_text_total)
  moreover have "\<exists>t. trajectory_text r clock z = Some t"
    using assms(1) by (intro trajectory_text_total) (simp add: json_report_ok_def)
  ultimately have "\<exists>t. concat_options [header_text r, diagnosis_text r z, trajectory_text r clock z, victim_text r,
      processes_text r] = Some t"
    by (intro concat_options_total) (simp add: header_text_total victim_text_total processes_text_total)
  then show ?thesis by (simp add: report_text_def defaults)
qed

theorem finite_report_renders_witness:
  "\<exists>txt. report_text (report_zero\<lparr>rp_trajectory := [demo_point 5]\<rparr>) default_text_options = Some txt"
proof (rule finite_report_renders)
  have "json_time_ok 0" using civil_examples(1) by (simp add: json_time_ok_def)
  then show "json_report_ok (report_zero\<lparr>rp_trajectory := [demo_point 5]\<rparr>)"
    by (simp add: json_report_ok_def report_zero_def json_point_ok_def demo_point_def trend_zero_def)
qed (simp add: report_zero_def trend_zero_def)

end
