(* ===== verification/GoJson.thy ===== *)
theory GoJson
  imports GoFormat
begin

section \<open>JSON text\<close>

text \<open>
  What the program uses of \<open>encoding/json\<close> below the level of structures: the quoting of strings
  with its escapes, compact and indented text, and a reader that takes the first value of a
  text. The reader is the library's state machine: a stack of open arrays and objects and what
  may come next, driven by the tokens, with the library's limit on the nesting.
\<close>

subsection \<open>Strings\<close>

definition backslash :: char where
  "backslash = CHR 0x5C"

definition hex_char :: "nat \<Rightarrow> char" where
  "hex_char n = (if n < 10 then char_of (48 + n) else char_of (87 + n))"

text \<open>A byte below 128: the letters after a backslash, the control bytes and what HTML gives a meaning.\<close>

definition quote_ascii :: "char \<Rightarrow> string" where
  "quote_ascii c =
     (if c = CHR ''\"'' \<or> c = backslash then [backslash, c]
      else if c = CHR 0x08 then [backslash, CHR ''b'']
      else if c = CHR 0x0C then [backslash, CHR ''f'']
      else if c = CHR 0x0A then [backslash, CHR ''n'']
      else if c = CHR 0x0D then [backslash, CHR ''r'']
      else if c = CHR 0x09 then [backslash, CHR ''t'']
      else if (of_char c :: nat) < 32 \<or> c \<in> set ''<>&'' then
        [backslash, CHR ''u'', CHR ''0'', CHR ''0'', hex_char (of_char c div 16), hex_char (of_char c mod 16)]
      else [c])"

definition line_separator :: string where
  "line_separator = [CHR 0xE2, CHR 0x80, CHR 0xA8]"

definition paragraph_separator :: string where
  "paragraph_separator = [CHR 0xE2, CHR 0x80, CHR 0xA9]"

definition quote_rune :: "string \<Rightarrow> string" where
  "quote_rune r =
     (case r of
        [c] \<Rightarrow> quote_ascii c
      | _ \<Rightarrow>
          if r = line_separator then [backslash] @ ''u2028''
          else if r = paragraph_separator then [backslash] @ ''u2029''
          else r)"

function quote_body :: "string \<Rightarrow> string" where
  "quote_body s =
     (if s = [] then []
      else if rune_size s = 0 then [backslash] @ ''ufffd'' @ quote_body (tl s)
      else quote_rune (take (rune_size s) s) @ quote_body (drop (rune_size s) s))"
  by pat_completeness auto
termination
proof (relation "measure length", goal_cases)
  case (3 s)
  then show ?case using rune_size_le [of s] by (cases s) auto
qed auto

declare quote_body.simps [simp del]

definition quote_string :: "string \<Rightarrow> string" where
  "quote_string s = CHR ''\"'' # quote_body s @ ''\"''"

text \<open>The other direction. \<open>encode_rune\<close> is \<open>utf8.EncodeRune\<close>.\<close>

definition encode_rune :: "nat \<Rightarrow> string" where
  "encode_rune n =
     (if n < 128 then [char_of n]
      else if n < 2048 then [char_of (192 + n div 64), char_of (128 + n mod 64)]
      else if 55296 \<le> n \<and> n < 57344 \<or> 1114112 \<le> n then replacement_rune
      else if n < 65536 then [char_of (224 + n div 4096), char_of (128 + n div 64 mod 64), char_of (128 + n mod 64)]
      else [char_of (240 + n div 262144), char_of (128 + n div 4096 mod 64), char_of (128 + n div 64 mod 64),
        char_of (128 + n mod 64)])"

fun hex4 :: "string \<Rightarrow> (nat \<times> string) option" where
  "hex4 (a # b # c # d # r) =
     (case (hex_val a, hex_val b, hex_val c, hex_val d) of
        (Some w, Some x, Some y, Some z) \<Rightarrow> Some (4096 * w + 256 * x + 16 * y + z, r)
      | _ \<Rightarrow> None)"
| "hex4 _ = None"

text \<open>A code unit and, when it is the first half of a surrogate pair, the second half behind it.\<close>

definition join_surrogates :: "nat \<Rightarrow> string \<Rightarrow> string \<times> string" where
  "join_surrogates n r =
     (if n < 55296 \<or> 57344 \<le> n then (encode_rune n, r)
      else case r of
             b # u # r1 \<Rightarrow>
               (if b = backslash \<and> u = CHR ''u'' then
                  (case hex4 r1 of
                     Some (m, r2) \<Rightarrow>
                       if n < 56320 \<and> 56320 \<le> m \<and> m < 57344
                       then (encode_rune (65536 + (n - 55296) * 1024 + (m - 56320)), r2)
                       else (replacement_rune, r)
                   | None \<Rightarrow> (replacement_rune, r))
                else (replacement_rune, r))
           | _ \<Rightarrow> (replacement_rune, r))"

definition short_escape :: "char \<Rightarrow> char option" where
  "short_escape e =
     map_of [(CHR ''\"'', CHR ''\"''), (backslash, backslash), (CHR ''/'', CHR ''/''), (CHR ''b'', CHR 0x08),
       (CHR ''f'', CHR 0x0C), (CHR ''n'', CHR 0x0A), (CHR ''r'', CHR 0x0D), (CHR ''t'', CHR 0x09)] e"

text \<open>One item of a string literal, not the closing quote: what it stands for, and the text behind it.\<close>

definition string_item :: "string \<Rightarrow> (string \<times> string) option" where
  "string_item s =
     (case s of
        [] \<Rightarrow> None
      | c # t \<Rightarrow>
          if c = backslash then
            (case t of
               [] \<Rightarrow> None
             | e # r \<Rightarrow>
                 if e = CHR ''u'' then map_option (\<lambda>(n, r1). join_surrogates n r1) (hex4 r)
                 else map_option (\<lambda>x. ([x], r)) (short_escape e))
          else if (of_char c :: nat) < 32 then None
          else if rune_size s = 0 then Some (replacement_rune, t)
          else Some (take (rune_size s) s, drop (rune_size s) s))"

declare hex4.simps [simp del]

lemma hex4_shorter: "hex4 s = Some (n, r) \<Longrightarrow> length r < length s"
  by (cases s rule: hex4.cases) (auto simp: hex4.simps split: option.splits)

lemma string_item_shorter: "string_item s = Some (v, r) \<Longrightarrow> length r < length s"
proof -
  have j: "join_surrogates n r1 = (v, r) \<Longrightarrow> length r \<le> length r1" for n r1
    by (auto simp: join_surrogates_def split: if_splits list.splits option.splits dest!: hex4_shorter)
  have "0 < rune_size s \<Longrightarrow> s \<noteq> [] \<Longrightarrow> length (drop (rune_size s) s) < length s" by simp
  moreover assume "string_item s = Some (v, r)"
  ultimately show ?thesis
    by (auto simp: string_item_def split: list.splits if_splits dest!: hex4_shorter j)
qed

function unquote :: "string \<Rightarrow> (string \<times> string) option" where
  "unquote s =
     (case s of
        [] \<Rightarrow> None
      | c # t \<Rightarrow>
          if c = CHR ''\"'' then Some ([], t)
          else case string_item s of
                 None \<Rightarrow> None
               | Some (v, r) \<Rightarrow> map_option (\<lambda>(w, r1). (v @ w, r1)) (unquote r))"
  by pat_completeness auto
termination
  by (relation "measure length") (auto dest: string_item_shorter)

declare unquote.simps [simp del]

lemma unquote_cases:
  assumes "unquote s = Some (v, r)"
  obtains t where "s = CHR ''\"'' # t" "v = []" "r = t"
  | x w t where "string_item s = Some (x, t)" "unquote t = Some (w, r)" "v = x @ w"
  using assms by (subst (asm) unquote.simps) (auto split: list.splits if_splits option.splits)

lemma unquote_shorter: "unquote s = Some (v, r) \<Longrightarrow> length r < length s"
proof (induction "length s" arbitrary: s v r rule: less_induct)
  case less
  from less.prems show ?case
  proof (cases rule: unquote_cases)
    case (2 x w t)
    from less.hyps [OF string_item_shorter [OF 2(1)] 2(2)] string_item_shorter [OF 2(1)]
    show ?thesis by simp
  qed simp
qed

lemma unquote_end: "unquote (CHR ''\"'' # t) = Some ([], t)"
  by (simp add: unquote.simps)

lemma unquote_item:
  "string_item s = Some (v, r) \<Longrightarrow> hd s \<noteq> CHR ''\"'' \<Longrightarrow> unquote s = map_option (\<lambda>(w, r1). (v @ w, r1)) (unquote r)"
  by (subst unquote.simps) (cases s, auto simp: string_item_def)

subsection \<open>Quoting and reading back\<close>

lemma hex_val_char: "n < 16 \<Longrightarrow> hex_val (hex_char n) = Some n"
  by (auto simp: hex_val_def hex_char_def Let_def)

lemma backslash_code: "of_char backslash = (92 :: nat)"
  by (simp add: backslash_def)

lemma item_ascii:
  assumes "(of_char c :: nat) < 128"
  shows "string_item (quote_ascii c @ s) = Some ([c], s)" "hd (quote_ascii c @ s) \<noteq> CHR ''\"''"
proof -
  let ?n = "of_char c :: nat"
  have c: "c = char_of ?n" by simp
  have esc: "short_escape (CHR ''\"'') = Some (CHR ''\"'')" "short_escape backslash = Some backslash"
    "short_escape (CHR ''b'') = Some (CHR 0x08)" "short_escape (CHR ''f'') = Some (CHR 0x0C)"
    "short_escape (CHR ''n'') = Some (CHR 0x0A)" "short_escape (CHR ''r'') = Some (CHR 0x0D)"
    "short_escape (CHR ''t'') = Some (CHR 0x09)"
    by (simp_all add: short_escape_def backslash_def)
  have hex: "hex4 (CHR ''0'' # CHR ''0'' # hex_char (?n div 16) # hex_char (?n mod 16) # s) = Some (?n, s)"
  proof -
    have "?n div 16 < 16" "?n mod 16 < 16" using assms by auto
    then have "hex_val (hex_char (?n div 16)) = Some (?n div 16)" "hex_val (hex_char (?n mod 16)) = Some (?n mod 16)"
      by (simp_all only: hex_val_char)
    moreover have "hex_val (CHR ''0'') = Some 0" by (simp add: hex_val_def)
    ultimately show ?thesis by (simp add: hex4.simps)
  qed
  have join: "join_surrogates ?n s = ([c], s)"
    using assms by (simp add: join_surrogates_def encode_rune_def)
  have unicode: "string_item ([backslash, CHR ''u'', CHR ''0'', CHR ''0'', hex_char (?n div 16), hex_char (?n mod 16)] @ s) =
      Some ([c], s)"
    by (simp add: string_item_def hex join)
  define h where "h \<longleftrightarrow> ?n < 32 \<or> c \<in> set ''<>&''"
  have plain: "rune_size (c # s) = 1" "\<not> h \<Longrightarrow> \<not> ?n < 32" using assms by (simp_all add: h_def)
  define e where "e \<longleftrightarrow> c \<in> set [CHR ''\"'', backslash, CHR 0x08, CHR 0x0C, CHR 0x0A, CHR 0x0D, CHR 0x09]"
  have s_esc: "string_item (quote_ascii c @ s) = Some ([c], s)" if e
    using that unfolding e_def list.set insert_iff empty_iff
    by (elim disjE) (simp_all add: quote_ascii_def string_item_def esc, simp_all add: backslash_def)
  have q: "quote_ascii c = (if h then [backslash, CHR ''u'', CHR ''0'', CHR ''0'', hex_char (?n div 16), hex_char (?n mod 16)] else [c])"
    if "\<not> e"
    using that unfolding e_def quote_ascii_def h_def by (simp only: list.set insert_iff empty_iff simp_thms if_False de_Morgan_disj)
  show "string_item (quote_ascii c @ s) = Some ([c], s)"
  proof (cases e)
    case False
    then have "c \<noteq> backslash" by (simp add: e_def)
    then have "string_item ([c] @ s) = Some ([c], s)" if "\<not> h"
      using plain that by (simp add: string_item_def del: rune_size.simps)
    then show ?thesis unfolding q [OF False] using unicode by simp
  qed (rule s_esc)
  show "hd (quote_ascii c @ s) \<noteq> CHR ''\"''"
    by (simp add: quote_ascii_def backslash_def)
qed

lemma item_invalid:
  "string_item ([backslash] @ ''ufffd'' @ s) = Some (replacement_rune, s)" "hd ([backslash] @ ''ufffd'' @ s) \<noteq> CHR ''\"''"
proof -
  have "hex_val (CHR ''f'') = Some 15" "hex_val (CHR ''d'') = Some 13" by (simp_all add: hex_val_def)
  then have "hex4 (''fffd'' @ s) = Some (65533, s)" by (simp add: hex4.simps)
  moreover have "encode_rune 65533 = replacement_rune"
    by (simp add: encode_rune_def replacement_rune_def char_of_def bit_iff_odd)
  ultimately show "string_item ([backslash] @ ''ufffd'' @ s) = Some (replacement_rune, s)"
    by (simp add: string_item_def join_surrogates_def)
qed (simp add: backslash_def)

lemma item_separator:
  assumes "d = CHR ''8'' \<and> v = line_separator \<or> d = CHR ''9'' \<and> v = paragraph_separator"
  shows "string_item ([backslash] @ ''u202'' @ d # s) = Some (v, s)"
proof -
  have "hex_val (CHR ''2'') = Some 2" "hex_val (CHR ''0'') = Some 0" "hex_val (CHR ''8'') = Some 8" "hex_val (CHR ''9'') = Some 9"
    by (simp_all add: hex_val_def)
  then have "hex4 (''202'' @ d # s) = Some (if d = CHR ''8'' then 8232 else 8233, s)" using assms by (auto simp: hex4.simps)
  moreover have "encode_rune 8232 = line_separator" "encode_rune 8233 = paragraph_separator"
    by (simp_all add: encode_rune_def line_separator_def paragraph_separator_def char_of_def bit_iff_odd)
  ultimately show ?thesis
    using assms by (auto simp: string_item_def join_surrogates_def)
qed

lemma rune_size_one: "rune_size s = 1 \<longleftrightarrow> s \<noteq> [] \<and> (of_char (hd s) :: nat) < 128"
  by (cases s) (auto simp: Let_def split: list.split)

lemma rune_size_lead: "1 < rune_size s \<Longrightarrow> 128 \<le> (of_char (hd s) :: nat)"
  by (cases s) (auto simp: Let_def split: if_splits)

lemma item_rune:
  assumes "one_rune r"
  shows "string_item (quote_rune r @ s) = Some (r, s)" "hd (quote_rune r @ s) \<noteq> CHR ''\"''"
proof -
  have "string_item (quote_rune r @ s) = Some (r, s) \<and> hd (quote_rune r @ s) \<noteq> CHR ''\"''"
  proof (cases "length r = 1")
    case True
    then obtain c where c: "r = [c]" by (cases r) auto
    then have "(of_char c :: nat) < 128"
      using assms rune_size_one [of r] by (simp add: one_rune_def)
    from item_ascii [OF this, of s] show ?thesis by (simp add: quote_rune_def c)
  next
    case False
    then have size: "1 < rune_size r" and ne: "r \<noteq> []"
      using assms by (auto simp: one_rune_def) (metis One_nat_def Suc_lessI length_greater_0_conv)
    have lead: "128 \<le> (of_char (hd r) :: nat)" using rune_size_lead [OF size] .
    have big: "(case r of [c] \<Rightarrow> quote_ascii c | _ \<Rightarrow> x) = x" for x
      using False by (auto split: list.split)
    consider "r = line_separator" | "r = paragraph_separator" | "r \<noteq> line_separator" "r \<noteq> paragraph_separator" by blast
    then show ?thesis
    proof cases
      case 1
      have q: "quote_rune r @ s = [backslash] @ ''u202'' @ CHR ''8'' # s"
        by (simp add: quote_rune_def 1 line_separator_def)
      show ?thesis unfolding q using item_separator [of "CHR ''8''" r s] 1 by (simp add: backslash_def)
    next
      case 2
      have q: "quote_rune r @ s = [backslash] @ ''u202'' @ CHR ''9'' # s"
        by (simp add: quote_rune_def 2 line_separator_def paragraph_separator_def)
      show ?thesis unfolding q using item_separator [of "CHR ''9''" r s] 2 by (simp add: backslash_def)
    next
      case 3
      then have q: "quote_rune r = r" unfolding quote_rune_def big by simp
      have n: "hd r \<noteq> backslash" "hd r \<noteq> CHR ''\"''" "\<not> (of_char (hd r) :: nat) < 32"
        using lead by (auto simp: backslash_def)
      have "rune_size (r @ s) = length r"
        using rune_size_take [of r s] size assms by (simp add: one_rune_def)
      then show ?thesis unfolding q using n ne size
        by (cases r) (simp_all add: string_item_def del: rune_size.simps)
    qed
  qed
  then show "string_item (quote_rune r @ s) = Some (r, s)" "hd (quote_rune r @ s) \<noteq> CHR ''\"''" by blast+
qed

lemma unquote_quote_body: "unquote (quote_body s @ CHR ''\"'' # t) = Some (concat (runes s), t)"
proof (induction s rule: runes.induct)
  case (1 s)
  show ?case
  proof (cases "s = []")
    case True
    then show ?thesis by (simp add: quote_body.simps unquote_end)
  next
    case ne: False
    show ?thesis
    proof (cases "rune_size s = 0")
      case True
      have q: "quote_body s @ CHR ''\"'' # t = [backslash] @ ''ufffd'' @ quote_body (tl s) @ CHR ''\"'' # t"
        using ne True by (subst quote_body.simps) simp
      show ?thesis
        unfolding q unquote_item [OF item_invalid] using 1(1) [OF ne True] ne True by (simp add: runes.simps [of s])
    next
      case False
      let ?r = "take (rune_size s) s"
      have one: "one_rune ?r"
        using rune_size_take [OF False, of "[]"] rune_size_le [of s] False ne by (simp add: one_rune_def)
      have q: "quote_body s @ CHR ''\"'' # t = quote_rune ?r @ quote_body (drop (rune_size s) s) @ CHR ''\"'' # t"
        using ne False by (subst quote_body.simps) simp
      show ?thesis
        unfolding q unquote_item [OF item_rune [OF one]] using 1(2) [OF ne False] ne False by (simp add: runes.simps [of s])
    qed
  qed
qed

subsection \<open>Numbers\<close>

definition is_digit :: "char \<Rightarrow> bool" where
  "is_digit c \<longleftrightarrow> digit_val c \<noteq> None"

text \<open>The grammar of a number: each part with the text behind it.\<close>

definition take_sign :: "string \<Rightarrow> string \<times> string" where
  "take_sign s = (case s of c # t \<Rightarrow> if c = CHR ''-'' then ([c], t) else ([], s) | [] \<Rightarrow> ([], []))"

definition take_integer :: "string \<Rightarrow> (string \<times> string) option" where
  "take_integer s =
     (case s of
        [] \<Rightarrow> None
      | c # t \<Rightarrow>
          if c = CHR ''0'' then Some ([c], t)
          else if is_digit c then Some (takeWhile is_digit s, dropWhile is_digit s)
          else None)"

definition take_digits :: "string \<Rightarrow> string \<Rightarrow> (string \<times> string) option" where
  "take_digits pre s =
     (if takeWhile is_digit s = [] then None else Some (pre @ takeWhile is_digit s, dropWhile is_digit s))"

definition take_fraction :: "string \<Rightarrow> (string \<times> string) option" where
  "take_fraction s = (case s of c # t \<Rightarrow> if c = CHR ''.'' then take_digits [c] t else Some ([], s) | [] \<Rightarrow> Some ([], []))"

definition take_exponent :: "string \<Rightarrow> (string \<times> string) option" where
  "take_exponent s =
     (case s of
        [] \<Rightarrow> Some ([], [])
      | c # t \<Rightarrow>
          if c = CHR ''e'' \<or> c = CHR ''E'' then
            (case t of
               [] \<Rightarrow> None
             | d # u \<Rightarrow> if d = CHR ''+'' \<or> d = CHR ''-'' then take_digits [c, d] u else take_digits [c] t)
          else Some ([], s))"

definition take_number :: "string \<Rightarrow> (string \<times> string) option" where
  "take_number s =
     (let (sg, t) = take_sign s in
      Option.bind (take_integer t) (\<lambda>(i, t1).
      Option.bind (take_fraction t1) (\<lambda>(f, t2).
      Option.bind (take_exponent t2) (\<lambda>(e, t3). Some (sg @ i @ f @ e, t3)))))"

subsection \<open>Tokens\<close>

datatype json =
    JNull
  | JBool bool
  | JNum string
  | JStr string
  | JArr "json list"
  | JObj "(string \<times> json) list"

datatype token = TPunct char | TStr string | TAtom json

definition json_space :: "char \<Rightarrow> bool" where
  "json_space c \<longleftrightarrow> c \<in> {CHR '' '', CHR 0x09, CHR 0x0A, CHR 0x0D}"

definition take_word :: "string \<Rightarrow> json \<Rightarrow> string \<Rightarrow> (token \<times> string) option" where
  "take_word w j s = (if take (length w) s = w then Some (TAtom j, drop (length w) s) else None)"

definition next_token :: "string \<Rightarrow> (token \<times> string) option" where
  "next_token s =
     (case dropWhile json_space s of
        [] \<Rightarrow> None
      | c # t \<Rightarrow>
          if c \<in> set ''{}[]:,'' then Some (TPunct c, t)
          else if c = CHR ''\"'' then map_option (\<lambda>(v, r). (TStr v, r)) (unquote t)
          else if c = CHR ''n'' then take_word ''null'' JNull (c # t)
          else if c = CHR ''t'' then take_word ''true'' (JBool True) (c # t)
          else if c = CHR ''f'' then take_word ''false'' (JBool False) (c # t)
          else map_option (\<lambda>(n, r). (TAtom (JNum n), r)) (take_number (c # t)))"

lemma take_digits_length: "take_digits pre s = Some (v, r) \<Longrightarrow> length r \<le> length s"
  by (auto simp: take_digits_def length_dropWhile_le split: if_splits)

lemma take_number_shorter: "take_number s = Some (n, r) \<Longrightarrow> length r < length s"
proof -
  have sg: "length (snd (take_sign s)) \<le> length s" by (auto simp: take_sign_def split: list.split)
  have i: "take_integer t = Some (i, u) \<Longrightarrow> length u < length t" for t i u
    using length_dropWhile_le [of is_digit "tl t"] by (auto simp: take_integer_def split: list.splits if_splits)
  have f: "take_fraction t = Some (f, u) \<Longrightarrow> length u \<le> length t" for t f u
    by (auto simp: take_fraction_def split: list.splits if_splits dest!: take_digits_length)
  have e: "take_exponent t = Some (f, u) \<Longrightarrow> length u \<le> length t" for t f u
    by (auto simp: take_exponent_def split: list.splits if_splits dest!: take_digits_length)
  assume "take_number s = Some (n, r)"
  then show ?thesis
    using sg by (auto simp: take_number_def split: bind_splits prod.splits dest!: i f e)
qed

lemma next_token_shorter: "next_token s = Some (t, r) \<Longrightarrow> length r < length s"
proof -
  assume a: "next_token s = Some (t, r)"
  then obtain c u where d: "dropWhile json_space s = c # u" by (auto simp: next_token_def split: list.splits)
  have "length (c # u) \<le> length s" unfolding d [symmetric] by (rule length_dropWhile_le)
  moreover have "length r < length (c # u)"
    using a d by (auto simp: next_token_def take_word_def split: if_splits dest!: unquote_shorter take_number_shorter)
  ultimately show ?thesis by simp
qed

subsection \<open>The machine\<close>

text \<open>
  An open array holds the values read so far; an open object the pairs read so far and the key
  of the one being read. What may come next: a value, a value or the end of the array, a key,
  a key or the end of the object, the colon behind a key, the comma or the end behind a value.
\<close>

datatype frame = OpenArr "json list" | OpenObj "(string \<times> json) list" string

datatype expect = WantValue | WantValueOrEnd | WantKey | WantKeyOrEnd | WantColon | WantComma

fun complete :: "frame list \<Rightarrow> json \<Rightarrow> json + (frame list \<times> expect)" where
  "complete [] j = Inl j"
| "complete (OpenArr xs # st) j = Inr (OpenArr (xs @ [j]) # st, WantComma)"
| "complete (OpenObj kvs k # st) j = Inr (OpenObj (kvs @ [(k, j)]) k # st, WantComma)"

definition max_nesting :: nat where
  "max_nesting = 10000"

definition open_frame :: "frame list \<Rightarrow> frame \<Rightarrow> expect \<Rightarrow> (json + (frame list \<times> expect)) option" where
  "open_frame st f ex = (if length st < max_nesting then Some (Inr (f # st, ex)) else None)"

definition value_step :: "frame list \<Rightarrow> token \<Rightarrow> (json + (frame list \<times> expect)) option" where
  "value_step st t =
     (case t of
        TAtom j \<Rightarrow> Some (complete st j)
      | TStr s \<Rightarrow> Some (complete st (JStr s))
      | TPunct c \<Rightarrow>
          if c = CHR ''['' then open_frame st (OpenArr []) WantValueOrEnd
          else if c = CHR ''{'' then open_frame st (OpenObj [] []) WantKeyOrEnd
          else None)"

definition key_step :: "frame list \<Rightarrow> token \<Rightarrow> (json + (frame list \<times> expect)) option" where
  "key_step st t =
     (case (st, t) of
        (OpenObj kvs k # st', TStr s) \<Rightarrow> Some (Inr (OpenObj kvs s # st', WantColon))
      | _ \<Rightarrow> None)"

definition close_step :: "frame list \<Rightarrow> token \<Rightarrow> (json + (frame list \<times> expect)) option" where
  "close_step st t =
     (case (st, t) of
        (OpenArr xs # st', TPunct c) \<Rightarrow> if c = CHR '']'' then Some (complete st' (JArr xs)) else None
      | (OpenObj kvs k # st', TPunct c) \<Rightarrow> if c = CHR ''}'' then Some (complete st' (JObj kvs)) else None
      | _ \<Rightarrow> None)"

definition json_step :: "frame list \<Rightarrow> expect \<Rightarrow> token \<Rightarrow> (json + (frame list \<times> expect)) option" where
  "json_step st ex t =
     (case ex of
        WantValue \<Rightarrow> value_step st t
      | WantValueOrEnd \<Rightarrow> if t = TPunct (CHR '']'') then close_step st t else value_step st t
      | WantKey \<Rightarrow> key_step st t
      | WantKeyOrEnd \<Rightarrow> if t = TPunct (CHR ''}'') then close_step st t else key_step st t
      | WantColon \<Rightarrow> if t = TPunct (CHR '':'') then Some (Inr (st, WantValue)) else None
      | WantComma \<Rightarrow>
          if t = TPunct (CHR '','') then
            (case st of
               OpenArr xs # _ \<Rightarrow> Some (Inr (st, WantValue))
             | OpenObj kvs k # _ \<Rightarrow> Some (Inr (st, WantKey))
             | [] \<Rightarrow> None)
          else close_step st t)"

function json_run :: "frame list \<Rightarrow> expect \<Rightarrow> string \<Rightarrow> (json \<times> string) option" where
  "json_run st ex s =
     (case next_token s of
        None \<Rightarrow> None
      | Some (t, r) \<Rightarrow>
          (case json_step st ex t of
             None \<Rightarrow> None
           | Some (Inl j) \<Rightarrow> Some (j, r)
           | Some (Inr (st', ex')) \<Rightarrow> json_run st' ex' r))"
  by pat_completeness auto
termination
  by (relation "measure (\<lambda>(st, ex, s). length s)") (auto dest: next_token_shorter)

declare json_run.simps [simp del]

text \<open>\<open>Decoder.Decode\<close> takes the first value of the stream and leaves what is behind it.\<close>

definition read_json :: "string \<Rightarrow> json option" where
  "read_json s = map_option fst (json_run [] WantValue s)"

subsection \<open>The writer\<close>

text \<open>\<open>ind\<close> asks for the text of \<open>MarshalIndent\<close> with two spaces, which leaves empty ones closed.\<close>

definition fresh_line :: "bool \<Rightarrow> nat \<Rightarrow> string" where
  "fresh_line ind level = (if ind then newline @ replicate (2 * level) (CHR '' '') else [])"

definition key_text :: "bool \<Rightarrow> string \<Rightarrow> string" where
  "key_text ind k = quote_string k @ (if ind then '': '' else '':'')"

definition json_block :: "bool \<Rightarrow> nat \<Rightarrow> char \<Rightarrow> char \<Rightarrow> string list \<Rightarrow> string" where
  "json_block ind level a z items =
     (if items = [] then [a, z]
      else [a] @ fresh_line ind (Suc level) @ join ('','' @ fresh_line ind (Suc level)) items @ fresh_line ind level @ [z])"

fun json_text :: "bool \<Rightarrow> nat \<Rightarrow> json \<Rightarrow> string" where
  "json_text ind level JNull = ''null''"
| "json_text ind level (JBool b) = (if b then ''true'' else ''false'')"
| "json_text ind level (JNum n) = n"
| "json_text ind level (JStr s) = quote_string s"
| "json_text ind level (JArr xs) =
     json_block ind level (CHR ''['') (CHR '']'') (map (\<lambda>x. json_text ind (Suc level) x) xs)"
| "json_text ind level (JObj kvs) =
     json_block ind level (CHR ''{'') (CHR ''}'') (map (\<lambda>kv. key_text ind (fst kv) @ json_text ind (Suc level) (snd kv)) kvs)"

definition marshal :: "json \<Rightarrow> string" where
  "marshal j = json_text False 0 j"

definition marshal_indent :: "json \<Rightarrow> string" where
  "marshal_indent j = json_text True 0 j"

subsection \<open>Reading what was written\<close>

definition number_text :: "string \<Rightarrow> bool" where
  "number_text n \<longleftrightarrow>
     (\<exists>sg i f e. n = sg @ i @ f @ e \<and> sg \<in> {[], ''-''} \<and> i \<noteq> [] \<and> is_digits i \<and> (hd i = CHR ''0'' \<longrightarrow> tl i = []) \<and>
        (f = [] \<or> (\<exists>d. f = CHR ''.'' # d \<and> d \<noteq> [] \<and> is_digits d)) \<and>
        (e = [] \<or> (\<exists>s d. e = CHR ''e'' # s @ d \<and> s \<in> {[], ''+'', ''-''} \<and> d \<noteq> [] \<and> is_digits d)))"

definition delimited :: "string \<Rightarrow> bool" where
  "delimited s \<longleftrightarrow> s = [] \<or> \<not> is_digit (hd s) \<and> hd s \<notin> {CHR ''.'', CHR ''e'', CHR ''E''}"

lemma takeWhile_digits:
  assumes "is_digits d" "r = [] \<or> \<not> is_digit (hd r)"
  shows "takeWhile is_digit (d @ r) = d" "dropWhile is_digit (d @ r) = r"
proof -
  have "\<forall>c \<in> set d. is_digit c" using assms(1) by (auto simp: is_digits_def is_digit_def)
  moreover have "takeWhile is_digit r = []" "dropWhile is_digit r = r"
    using assms(2) by (cases r; simp)+
  ultimately show "takeWhile is_digit (d @ r) = d" "dropWhile is_digit (d @ r) = r" by simp_all
qed

lemma sign_no_digit: "\<not> is_digit (CHR ''-'')" "\<not> is_digit (CHR ''+'')" "\<not> is_digit (CHR ''.'')"
  "\<not> is_digit (CHR ''e'')" "\<not> is_digit (CHR ''E'')"
  by (simp_all add: is_digit_def digit_val_def)

lemma take_number_text:
  assumes "number_text n" "delimited r"
  shows "take_number (n @ r) = Some (n, r)"
proof -
  obtain sg i f e where n: "n = sg @ i @ f @ e" and sg: "sg \<in> {[], ''-''}"
    and i: "i \<noteq> []" "is_digits i" "hd i = CHR ''0'' \<longrightarrow> tl i = []"
    and f: "f = [] \<or> (\<exists>d. f = CHR ''.'' # d \<and> d \<noteq> [] \<and> is_digits d)"
    and e: "e = [] \<or> (\<exists>s d. e = CHR ''e'' # s @ d \<and> s \<in> {[], ''+'', ''-''} \<and> d \<noteq> [] \<and> is_digits d)"
    using assms(1) unfolding number_text_def by blast
  have r: "r = [] \<or> \<not> is_digit (hd r)" using assms(2) by (auto simp: delimited_def)
  have exp: "take_exponent (e @ r) = Some (e, r)"
  proof (cases "e = []")
    case True
    then show ?thesis using assms(2) by (cases r) (auto simp: take_exponent_def delimited_def)
  next
    case False
    then obtain s d where d: "e = CHR ''e'' # s @ d" "s \<in> {[], ''+'', ''-''}" "d \<noteq> []" "is_digits d" using e by blast
    obtain c d' where c: "d = c # d'" "is_digit c" using d(3,4) by (cases d) (auto simp: is_digit_def)
    then have "c \<noteq> CHR ''+''" "c \<noteq> CHR ''-''" using sign_no_digit by auto
    moreover have "take_digits p (d @ r) = Some (p @ d, r)" for p
      using takeWhile_digits [OF d(4) r] d(3) by (simp add: take_digits_def)
    ultimately show ?thesis using d(2) by (auto simp: take_exponent_def d(1) c(1))
  qed
  have er: "e @ r = [] \<or> \<not> is_digit (hd (e @ r)) \<and> hd (e @ r) \<noteq> CHR ''.''"
    using e r assms(2) by (cases "e = []") (auto simp: sign_no_digit delimited_def)
  have frac: "take_fraction (f @ e @ r) = Some (f, e @ r)"
  proof (cases "f = []")
    case True
    then show ?thesis using er by (cases "e @ r") (auto simp: take_fraction_def)
  next
    case False
    then obtain d where d: "f = CHR ''.'' # d" "d \<noteq> []" "is_digits d" using f by blast
    have "e @ r = [] \<or> \<not> is_digit (hd (e @ r))" using er by blast
    note tw = takeWhile_digits [OF d(3) this]
    show ?thesis
      unfolding d(1) take_fraction_def take_digits_def append_Cons list.case tw using d(2) by simp
  qed
  have fr: "f @ e @ r = [] \<or> \<not> is_digit (hd (f @ e @ r))"
    using f er by (cases "f = []") (auto simp: sign_no_digit)
  have int: "take_integer (i @ f @ e @ r) = Some (i, f @ e @ r)"
    using i takeWhile_digits [OF i(2) fr]
    by (cases i) (auto simp: take_integer_def is_digit_def)
  have "hd i \<noteq> CHR ''-''" using i(1,2) sign_no_digit(1) by (cases i) (auto simp: is_digit_def)
  then have "take_sign (sg @ i @ f @ e @ r) = (sg, i @ f @ e @ r)"
    using sg i(1) by (cases i) (auto simp: take_sign_def)
  then show ?thesis by (simp add: take_number_def n int frac exp)
qed

lemma number_text_head: "number_text n \<Longrightarrow> n \<noteq> [] \<and> (is_digit (hd n) \<or> hd n = CHR ''-'')"
  by (auto simp: number_text_def hd_append is_digits_def is_digit_def)

fun json_clean :: "json \<Rightarrow> json" where
  "json_clean (JStr s) = JStr (concat (runes s))"
| "json_clean (JArr xs) = JArr (map (\<lambda>x. json_clean x) xs)"
| "json_clean (JObj kvs) = JObj (map (\<lambda>kv. (concat (runes (fst kv)), json_clean (snd kv))) kvs)"
| "json_clean j = j"

fun json_depth :: "json \<Rightarrow> nat" where
  "json_depth (JArr xs) = Suc (fold max (map (\<lambda>x. json_depth x) xs) 0)"
| "json_depth (JObj kvs) = Suc (fold max (map (\<lambda>kv. json_depth (snd kv)) kvs) 0)"
| "json_depth j = 0"

fun json_grammatical :: "json \<Rightarrow> bool" where
  "json_grammatical (JNum n) \<longleftrightarrow> number_text n"
| "json_grammatical (JArr xs) \<longleftrightarrow> list_all (\<lambda>x. json_grammatical x) xs"
| "json_grammatical (JObj kvs) \<longleftrightarrow> list_all (\<lambda>kv. json_grammatical (snd kv)) kvs"
| "json_grammatical j \<longleftrightarrow> True"

lemma fold_max_ge: "n \<in> set ns \<Longrightarrow> n \<le> fold max ns (m :: nat)"
  unfolding Max.set_eq_fold [symmetric] by simp

subsection \<open>Running the machine on written text\<close>

lemma next_token_space: "json_space c \<Longrightarrow> next_token (c # s) = next_token s"
  by (simp add: next_token_def)

lemma run_space: "\<forall>c \<in> set ws. json_space c \<Longrightarrow> json_run st ex (ws @ s) = json_run st ex s"
proof (induction ws)
  case (Cons c ws)
  then show ?case
    by (simp add: json_run.simps [of st ex "c # ws @ s"] next_token_space) (simp add: json_run.simps [of st ex s] json_run.simps [of st ex "ws @ s"])
qed simp

lemma fresh_line_space: "\<forall>c \<in> set (fresh_line ind l). json_space c"
  by (auto simp: fresh_line_def newline_def json_space_def)

lemma run_fresh_line [simp]: "json_run st ex (fresh_line ind l @ s) = json_run st ex s"
  by (rule run_space [OF fresh_line_space])

text \<open>One token in front.\<close>

lemma run_token:
  assumes "next_token s = Some (t, r)"
  shows "json_run st ex s =
    (case json_step st ex t of None \<Rightarrow> None | Some (Inl j) \<Rightarrow> Some (j, r) | Some (Inr (st', ex')) \<Rightarrow> json_run st' ex' r)"
  by (subst json_run.simps) (simp add: assms)

lemma token_punct: "c \<in> set ''{}[]:,'' \<Longrightarrow> next_token (c # s) = Some (TPunct c, s)"
  by (auto simp: next_token_def json_space_def)

lemma token_string: "next_token (quote_string k @ s) = Some (TStr (concat (runes k)), s)"
  by (simp add: next_token_def quote_string_def json_space_def unquote_quote_body)

lemma token_word:
  "next_token (''null'' @ s) = Some (TAtom JNull, s)" "next_token (''true'' @ s) = Some (TAtom (JBool True), s)"
  "next_token (''false'' @ s) = Some (TAtom (JBool False), s)"
  by (simp_all add: next_token_def json_space_def take_word_def)

lemma token_number:
  assumes "number_text n" "delimited r"
  shows "next_token (n @ r) = Some (TAtom (JNum n), r)"
proof -
  obtain c t where n: "n = c # t" "is_digit c \<or> c = CHR ''-''" using number_text_head [OF assms(1)] by (cases n) auto
  then have c: "48 \<le> (of_char c :: nat) \<and> (of_char c :: nat) \<le> 57 \<or> c = CHR ''-''"
    using digit_val_bytes by (auto simp: is_digit_def)
  then have "\<not> json_space c" "c \<notin> set ''{}[]:,\"ntf''" by (auto simp: json_space_def)
  then show ?thesis using take_number_text [OF assms] by (simp add: next_token_def n(1))
qed

lemma delimited_punct: "c \<in> set ''{}[]:,'' \<Longrightarrow> delimited (c # s)"
  by (auto simp: delimited_def is_digit_def digit_val_def)

lemma delimited_line: "delimited s \<Longrightarrow> delimited (fresh_line ind l @ s)"
  by (simp add: fresh_line_def newline_def delimited_def is_digit_def digit_val_def)

definition run_with :: "frame list \<Rightarrow> json \<Rightarrow> string \<Rightarrow> (json \<times> string) option" where
  "run_with st j r = (case complete st j of Inl v \<Rightarrow> Some (v, r) | Inr (st', ex) \<Rightarrow> json_run st' ex r)"

definition written :: "bool \<Rightarrow> nat \<Rightarrow> json \<Rightarrow> bool" where
  "written ind l j \<longleftrightarrow>
     (\<forall>st ex r. json_grammatical j \<longrightarrow> length st + json_depth j \<le> max_nesting \<longrightarrow> delimited r \<longrightarrow>
        ex \<in> {WantValue, WantValueOrEnd} \<longrightarrow> json_run st ex (json_text ind l j @ r) = run_with st (json_clean j) r)"

lemma writtenI:
  assumes "\<And>st ex r. json_grammatical j \<Longrightarrow> length st + json_depth j \<le> max_nesting \<Longrightarrow> delimited r \<Longrightarrow>
    ex = WantValue \<or> ex = WantValueOrEnd \<Longrightarrow> json_run st ex (json_text ind l j @ r) = run_with st (json_clean j) r"
  shows "written ind l j"
  using assms by (auto simp: written_def)

lemma writtenD:
  "written ind l j \<Longrightarrow> json_grammatical j \<Longrightarrow> length st + json_depth j \<le> max_nesting \<Longrightarrow> delimited r \<Longrightarrow>
    ex = WantValue \<or> ex = WantValueOrEnd \<Longrightarrow> json_run st ex (json_text ind l j @ r) = run_with st (json_clean j) r"
  by (auto simp: written_def)

lemma run_atom:
  assumes "next_token (s @ r) = Some (t, r)" "value_step st t = Some (complete st j)" "t \<noteq> TPunct (CHR '']'')"
    and "ex = WantValue \<or> ex = WantValueOrEnd"
  shows "json_run st ex (s @ r) = run_with st j r"
  unfolding run_token [OF assms(1)]
  using assms(2-4) by (auto simp: json_step_def run_with_def split: sum.split)

lemma run_comma:
  "json_run (OpenArr xs # st) WantComma (CHR '','' # s) = json_run (OpenArr xs # st) WantValue s"
  "json_run (OpenObj kvs k # st) WantComma (CHR '','' # s) = json_run (OpenObj kvs k # st) WantKey s"
  by (simp_all add: run_token [OF token_punct] json_step_def)

lemma run_items:
  assumes "\<And>x. x \<in> set xs \<Longrightarrow> written ind l x" "list_all (\<lambda>x. json_grammatical x) xs"
    and "\<And>x. x \<in> set xs \<Longrightarrow> length st + Suc (json_depth x) \<le> max_nesting"
    and "xs \<noteq> []" "delimited r" "ex = WantValue \<or> ex = WantValueOrEnd"
  shows "json_run (OpenArr ys # st) ex (join ('','' @ fresh_line ind l) (map (\<lambda>x. json_text ind l x) xs) @ r) =
    json_run (OpenArr (ys @ map (\<lambda>x. json_clean x) xs) # st) WantComma r"
  using assms
proof (induction xs arbitrary: ys ex)
  case (Cons x xs)
  have one: "json_run (OpenArr ys # st) ex (json_text ind l x @ r') = json_run (OpenArr (ys @ [json_clean x]) # st) WantComma r'"
    if "delimited r'" for r'
    using writtenD [OF Cons.prems(1) [of x] _ _ that, of "OpenArr ys # st" ex] Cons.prems(2,3,6)
    by (simp add: run_with_def)
  show ?case
  proof (cases "xs = []")
    case True
    then show ?thesis using one [OF Cons.prems(5)] by simp
  next
    case False
    let ?rest = "join ('','' @ fresh_line ind l) (map (\<lambda>x. json_text ind l x) xs) @ r"
    have "json_run (OpenArr ys # st) ex (join ('','' @ fresh_line ind l) (map (\<lambda>x. json_text ind l x) (x # xs)) @ r) =
        json_run (OpenArr (ys @ [json_clean x]) # st) WantComma (CHR '','' # fresh_line ind l @ ?rest)"
      using False one [OF delimited_punct, of "CHR '',''"] by (simp add: join_Cons)
    also have "\<dots> = json_run (OpenArr (ys @ [json_clean x]) # st) WantValue ?rest"
      by (simp add: run_comma)
    also have "\<dots> = json_run (OpenArr ((ys @ [json_clean x]) @ map (\<lambda>x. json_clean x) xs) # st) WantComma r"
      using Cons.prems False by (intro Cons.IH) auto
    finally show ?thesis by simp
  qed
qed simp

lemma run_key:
  assumes "ex = WantKey \<or> ex = WantKeyOrEnd"
  shows "json_run (OpenObj kvs k # st) ex (key_text ind k' @ s) = json_run (OpenObj kvs (concat (runes k')) # st) WantValue s"
proof -
  have "json_run (OpenObj kvs k # st) ex (key_text ind k' @ s) =
      json_run (OpenObj kvs (concat (runes k')) # st) WantColon ((if ind then '': '' else '':'') @ s)"
    using assms by (auto simp: key_text_def run_token [OF token_string] json_step_def key_step_def)
  also have "\<dots> = json_run (OpenObj kvs (concat (runes k')) # st) WantValue (if ind then CHR '' '' # s else s)"
    by (simp add: run_token [OF token_punct] json_step_def)
  also have "\<dots> = json_run (OpenObj kvs (concat (runes k')) # st) WantValue s"
    using run_space [of "'' ''" _ WantValue s] by (simp add: json_space_def)
  finally show ?thesis .
qed

lemma run_pairs:
  assumes "\<And>kv. kv \<in> set kvs \<Longrightarrow> written ind l (snd kv)" "list_all (\<lambda>kv. json_grammatical (snd kv)) kvs"
    and "\<And>kv. kv \<in> set kvs \<Longrightarrow> length st + Suc (json_depth (snd kv)) \<le> max_nesting"
    and "kvs \<noteq> []" "delimited r" "ex = WantKey \<or> ex = WantKeyOrEnd"
  shows "\<exists>k'. json_run (OpenObj ys k # st) ex
      (join ('','' @ fresh_line ind l) (map (\<lambda>kv. key_text ind (fst kv) @ json_text ind l (snd kv)) kvs) @ r) =
    json_run (OpenObj (ys @ map (\<lambda>kv. (concat (runes (fst kv)), json_clean (snd kv))) kvs) k' # st) WantComma r"
  using assms
proof (induction kvs arbitrary: ys k ex)
  case (Cons kv kvs)
  let ?k = "concat (runes (fst kv))" and ?t = "\<lambda>kv. key_text ind (fst kv) @ json_text ind l (snd kv)"
  have one: "json_run (OpenObj ys k # st) ex (?t kv @ r') =
      json_run (OpenObj (ys @ [(?k, json_clean (snd kv))]) ?k # st) WantComma r'"
    if "delimited r'" for r'
    using writtenD [OF Cons.prems(1) [of kv] _ _ that, of "OpenObj ys ?k # st" WantValue] Cons.prems(2,3,6)
    by (simp add: run_with_def run_key)
  show ?case
  proof (cases "kvs = []")
    case True
    then show ?thesis using one [OF Cons.prems(5)] by auto
  next
    case False
    let ?rest = "join ('','' @ fresh_line ind l) (map ?t kvs) @ r"
    have "json_run (OpenObj ys k # st) ex (join ('','' @ fresh_line ind l) (map ?t (kv # kvs)) @ r) =
        json_run (OpenObj (ys @ [(?k, json_clean (snd kv))]) ?k # st) WantComma (CHR '','' # fresh_line ind l @ ?rest)"
      using False one [OF delimited_punct, of "CHR '',''"] by (simp add: join_Cons)
    also have "\<dots> = json_run (OpenObj (ys @ [(?k, json_clean (snd kv))]) ?k # st) WantKey ?rest"
      by (simp add: run_comma)
    finally have *: "json_run (OpenObj ys k # st) ex (join ('','' @ fresh_line ind l) (map ?t (kv # kvs)) @ r) =
        json_run (OpenObj (ys @ [(?k, json_clean (snd kv))]) ?k # st) WantKey ?rest" .
    have "\<exists>k'. json_run (OpenObj (ys @ [(?k, json_clean (snd kv))]) ?k # st) WantKey ?rest =
        json_run (OpenObj ((ys @ [(?k, json_clean (snd kv))]) @ map (\<lambda>kv. (concat (runes (fst kv)), json_clean (snd kv))) kvs) k' # st)
          WantComma r"
      using Cons.prems False by (intro Cons.IH) auto
    then show ?thesis unfolding * by simp
  qed
qed simp

lemma open_step:
  assumes "length st < max_nesting" "ex = WantValue \<or> ex = WantValueOrEnd"
  shows "json_run st ex (CHR ''['' # s) = json_run (OpenArr [] # st) WantValueOrEnd s"
    and "json_run st ex (CHR ''{'' # s) = json_run (OpenObj [] [] # st) WantKeyOrEnd s"
  using assms by (auto simp: run_token [OF token_punct] json_step_def value_step_def open_frame_def)

lemma close_run:
  "ex = WantComma \<or> ex = WantValueOrEnd \<Longrightarrow> json_run (OpenArr xs # st) ex (CHR '']'' # r) = run_with st (JArr xs) r"
  "ex = WantComma \<or> ex = WantKeyOrEnd \<Longrightarrow> json_run (OpenObj kvs k # st) ex (CHR ''}'' # r) = run_with st (JObj kvs) r"
  by (auto simp: run_token [OF token_punct] json_step_def close_step_def run_with_def split: sum.split)

lemma json_text_written: "written ind l j"
proof (induction ind l j rule: json_text.induct)
  case (1 ind l)
  show ?case
    by (rule writtenI) (use run_atom [OF token_word(1)] in \<open>auto simp: value_step_def\<close>)
next
  case (2 ind l b)
  show ?case
    by (rule writtenI) (use run_atom [OF token_word(2)] run_atom [OF token_word(3)] in \<open>auto simp: value_step_def\<close>)
next
  case (3 ind l n)
  show ?case
    by (rule writtenI) (use run_atom [OF token_number] in \<open>auto simp: value_step_def\<close>)
next
  case (4 ind l s)
  show ?case
    by (rule writtenI) (use run_atom [OF token_string] in \<open>auto simp: value_step_def\<close>)
next
  case (5 ind l xs)
  show ?case
  proof (rule writtenI)
    fix st :: "frame list" and ex r
    assume g: "json_grammatical (JArr xs)" and d: "length st + json_depth (JArr xs) \<le> max_nesting" and r: "delimited r"
      and ex: "ex = WantValue \<or> ex = WantValueOrEnd"
    have st: "length st < max_nesting" using d by simp
    show "json_run st ex (json_text ind l (JArr xs) @ r) = run_with st (json_clean (JArr xs)) r"
    proof (cases "xs = []")
      case True
      then show ?thesis by (simp add: json_block_def open_step [OF st ex] close_run)
    next
      case False
      have depth: "length st + Suc (json_depth x) \<le> max_nesting" if "x \<in> set xs" for x
        using d fold_max_ge [of "json_depth x" "map json_depth xs" 0] that by simp
      let ?r = "fresh_line ind l @ CHR '']'' # r"
      have "delimited ?r" by (rule delimited_line [OF delimited_punct]) simp
      from run_items [OF 5 _ depth False this, of WantValueOrEnd "[]"] g
      show ?thesis using False
        by (simp add: json_block_def open_step [OF st ex] close_run)
    qed
  qed
next
  case (6 ind l kvs)
  show ?case
  proof (rule writtenI)
    fix st :: "frame list" and ex r
    assume g: "json_grammatical (JObj kvs)" and d: "length st + json_depth (JObj kvs) \<le> max_nesting" and r: "delimited r"
      and ex: "ex = WantValue \<or> ex = WantValueOrEnd"
    have st: "length st < max_nesting" using d by simp
    show "json_run st ex (json_text ind l (JObj kvs) @ r) = run_with st (json_clean (JObj kvs)) r"
    proof (cases "kvs = []")
      case True
      then show ?thesis by (simp add: json_block_def open_step [OF st ex] close_run)
    next
      case False
      have depth: "length st + Suc (json_depth (snd kv)) \<le> max_nesting" if "kv \<in> set kvs" for kv
        using d fold_max_ge [of "json_depth (snd kv)" "map (\<lambda>kv. json_depth (snd kv)) kvs" 0] that by simp
      let ?r = "fresh_line ind l @ CHR ''}'' # r"
      have "delimited ?r" by (rule delimited_line [OF delimited_punct]) simp
      from run_pairs [OF 6 _ depth False this, of WantKeyOrEnd "[]" "[]"] g
      show ?thesis using False
        by (auto simp: json_block_def open_step [OF st ex] close_run)
    qed
  qed
qed

text \<open>Either text of a value reads back as that value, with its strings as UTF-8; what follows is left.\<close>

lemma read_json_text:
  assumes "json_grammatical j" "json_depth j \<le> max_nesting" "delimited r"
  shows "read_json (json_text ind l j @ r) = Some (json_clean j)"
  using writtenD [OF json_text_written assms(1) _ assms(3), of "[]" WantValue] assms(2)
  by (simp add: read_json_def run_with_def)

end
