(* ===== verification/VersionInfo.thy ===== *)
theory VersionInfo
  imports GoJson
begin

section \<open>Build metadata\<close>

text \<open>
  Models \<open>src/internal/version/version.go\<close> and the output selection of
  \<open>src/internal/cmd/version.go\<close>. The variables set by the linker and what the Go runtime
  reports about the build are arguments.
\<close>

record version_info =
  vi_version :: string
  vi_commit :: string
  vi_date :: string
  vi_go_version :: string
  vi_platform :: string

record vcs_stamps =
  vs_revision :: string
  vs_time :: string
  vs_modified :: bool

definition unknown_version :: string where
  "unknown_version = ''dev''"

definition unknown_value :: string where
  "unknown_value = ''unknown''"

definition short_sha_len :: nat where
  "short_sha_len = 7"

definition stamps_zero :: vcs_stamps where
  "stamps_zero = \<lparr>vs_revision = [], vs_time = [], vs_modified = False\<rparr>"

definition stamp_step :: "string \<times> string \<Rightarrow> vcs_stamps \<Rightarrow> vcs_stamps" where
  "stamp_step setting s =
     (if fst setting = ''vcs.revision'' then s\<lparr>vs_revision := snd setting\<rparr>
      else if fst setting = ''vcs.time'' then s\<lparr>vs_time := snd setting\<rparr>
      else if fst setting = ''vcs.modified'' then s\<lparr>vs_modified := (snd setting = ''true'')\<rparr>
      else s)"

definition read_vcs_stamps :: "(string \<times> string) list \<Rightarrow> vcs_stamps" where
  "read_vcs_stamps settings = fold stamp_step settings stamps_zero"

definition short_commit :: "string \<Rightarrow> string" where
  "short_commit sha = (if length sha \<le> short_sha_len then sha else take short_sha_len sha)"

definition apply_build_info :: "version_info \<Rightarrow> string \<Rightarrow> vcs_stamps \<Rightarrow> version_info" where
  "apply_build_info info main_version stamps =
     (let info = (if vi_version info = [] \<and> main_version \<noteq> [] \<and> main_version \<noteq> ''(devel)''
                  then info\<lparr>vi_version := main_version\<rparr> else info);
          info = (if vi_commit info = [] \<and> vs_revision stamps \<noteq> []
                  then info\<lparr>vi_commit := short_commit (vs_revision stamps) @ (if vs_modified stamps then ''-dirty'' else [])\<rparr>
                  else info)
      in if vi_date info = [] \<and> vs_time stamps \<noteq> [] then info\<lparr>vi_date := vs_time stamps\<rparr> else info)"

definition with_version_defaults :: "version_info \<Rightarrow> version_info" where
  "with_version_defaults info =
     info\<lparr>vi_version := (if vi_version info = [] then unknown_version else vi_version info),
       vi_commit := (if vi_commit info = [] then unknown_value else vi_commit info),
       vi_date := (if vi_date info = [] then unknown_value else vi_date info)\<rparr>"

text \<open>\<open>linked\<close> holds the linker's values, \<open>build\<close> the main module's version and the settings, if any.\<close>

definition get_version :: "version_info \<Rightarrow> (string \<times> (string \<times> string) list) option \<Rightarrow> version_info" where
  "get_version linked build =
     (let (main_version, stamps) = (case build of
            None \<Rightarrow> ([], stamps_zero)
          | Some (main, settings) \<Rightarrow> (main, read_vcs_stamps settings))
      in with_version_defaults (apply_build_info linked main_version stamps))"

definition version_text :: "version_info \<Rightarrow> string" where
  "version_text i =
     ''version:  '' @ vi_version i @ newline @ ''commit:   '' @ vi_commit i @ newline @
     ''built:    '' @ vi_date i @ newline @ ''go:       '' @ vi_go_version i @ newline @
     ''platform: '' @ vi_platform i @ newline"

text \<open>The keys are those of the tags on the fields; strings cannot fail to encode.\<close>

definition version_json :: "version_info \<Rightarrow> string" where
  "version_json i = marshal_indent (JObj
     [(''version'', JStr (vi_version i)), (''commit'', JStr (vi_commit i)), (''date'', JStr (vi_date i)),
      (''goVersion'', JStr (vi_go_version i)), (''platform'', JStr (vi_platform i))]) @ newline"

definition write_version :: "version_info \<Rightarrow> string \<Rightarrow> err + string" where
  "write_version info format =
     (if format = ''text'' then Inr (version_text info)
      else if format = ''json'' then Inr (version_json info)
      else Inl (EMsg ''unknown output format''))"

subsection \<open>Laws\<close>

lemma version_defaults_nonempty:
  "vi_version (with_version_defaults i) \<noteq> []" "vi_commit (with_version_defaults i) \<noteq> []" "vi_date (with_version_defaults i) \<noteq> []"
  by (simp_all add: with_version_defaults_def unknown_version_def unknown_value_def)

lemma apply_build_info_fields:
  "vi_version i \<noteq> [] \<Longrightarrow> vi_version (apply_build_info i m s) = vi_version i"
  "vi_commit (apply_build_info i m s) = (if vi_commit i = [] \<and> vs_revision s \<noteq> []
     then short_commit (vs_revision s) @ (if vs_modified s then ''-dirty'' else []) else vi_commit i)"
  "vi_date i \<noteq> [] \<Longrightarrow> vi_date (apply_build_info i m s) = vi_date i"
  by (simp_all add: apply_build_info_def Let_def short_commit_def)

lemma version_defaults_keep:
  "vi_version i \<noteq> [] \<Longrightarrow> vi_version (with_version_defaults i) = vi_version i"
  "vi_commit i \<noteq> [] \<Longrightarrow> vi_commit (with_version_defaults i) = vi_commit i"
  "vi_date i \<noteq> [] \<Longrightarrow> vi_date (with_version_defaults i) = vi_date i"
  by (simp_all add: with_version_defaults_def)

lemma stamps_of_known_keys:
  assumes "distinct (map fst settings)"
  shows "vs_revision (read_vcs_stamps settings) = (case map_of settings ''vcs.revision'' of Some v \<Rightarrow> v | None \<Rightarrow> [])
    \<and> vs_modified (read_vcs_stamps settings) = (map_of settings ''vcs.modified'' = Some ''true'')"
proof -
  have "vs_revision (fold stamp_step settings s) = (case map_of settings ''vcs.revision'' of Some v \<Rightarrow> v | None \<Rightarrow> vs_revision s)
    \<and> vs_modified (fold stamp_step settings s) =
      (case map_of settings ''vcs.modified'' of Some v \<Rightarrow> v = ''true'' | None \<Rightarrow> vs_modified s)" for s
    using assms
  proof (induction settings arbitrary: s)
    case (Cons x settings)
    obtain k v where x: "x = (k, v)" by force
    have n: "map_of settings k = None" using Cons.prems x by (auto simp: map_of_eq_None_iff)
    show ?case
      using Cons.IH [of "stamp_step x s"] Cons.prems n by (auto simp: x stamp_step_def split: option.split)
  qed simp
  then show ?thesis by (auto simp: read_vcs_stamps_def stamps_zero_def split: option.split)
qed

text \<open>The linker's values win and nothing is left blank. Whatever the toolchain stamped, a value the
  linker set is reported as it is and every field has a value; the commit stamped by the
  toolchain, when it is used, is the first seven characters of the revision, marked as dirty
  exactly when the tree was modified, in whatever order the settings come.\<close>

theorem linked_version_wins:
  assumes "distinct (map fst settings)"
  shows "let i = get_version linked (Some (main, settings)) in
    vi_version i \<noteq> [] \<and> vi_commit i \<noteq> [] \<and> vi_date i \<noteq> [] \<and>
    (vi_version linked \<noteq> [] \<longrightarrow> vi_version i = vi_version linked) \<and>
    (vi_commit linked \<noteq> [] \<longrightarrow> vi_commit i = vi_commit linked) \<and>
    (vi_date linked \<noteq> [] \<longrightarrow> vi_date i = vi_date linked) \<and>
    (\<forall>sha. vi_commit linked = [] \<and> map_of settings ''vcs.revision'' = Some sha \<and> sha \<noteq> [] \<longrightarrow>
       vi_commit i = take 7 sha @ (if map_of settings ''vcs.modified'' = Some ''true'' then ''-dirty'' else []))"
proof -
  let ?st = "read_vcs_stamps settings"
  have i: "get_version linked (Some (main, settings)) = with_version_defaults (apply_build_info linked main ?st)"
    by (simp add: get_version_def)
  note st = stamps_of_known_keys [OF assms]
  have commit: "vi_commit (with_version_defaults (apply_build_info linked main ?st)) =
      take 7 sha @ (if map_of settings ''vcs.modified'' = Some ''true'' then ''-dirty'' else [])"
    if "vi_commit linked = []" "map_of settings ''vcs.revision'' = Some sha" "sha \<noteq> []" for sha
  proof -
    have "short_commit sha = take 7 sha" by (simp add: short_commit_def short_sha_len_def)
    then have "vi_commit (apply_build_info linked main ?st) =
        take 7 sha @ (if map_of settings ''vcs.modified'' = Some ''true'' then ''-dirty'' else [])"
      using that st by (simp add: apply_build_info_fields)
    then show ?thesis using that(3) by (simp add: version_defaults_keep)
  qed
  have "vi_commit (with_version_defaults (apply_build_info linked main ?st)) = vi_commit linked" if "vi_commit linked \<noteq> []"
    using that by (simp add: apply_build_info_fields version_defaults_keep)
  then show ?thesis
    unfolding i Let_def using commit
    by (simp add: version_defaults_nonempty apply_build_info_fields version_defaults_keep)
qed

theorem linked_version_wins_witness:
  "vi_commit (get_version \<lparr>vi_version = ''v1'', vi_commit = [], vi_date = [], vi_go_version = [], vi_platform = []\<rparr>
     (Some (''(devel)'', [(''vcs.modified'', ''true''), (''vcs.revision'', ''0123456789'')]))) = ''0123456-dirty''"
proof -
  have "distinct (map fst [(''vcs.modified'', ''true''), (''vcs.revision'', ''0123456789'')])" by simp
  from linked_version_wins [OF this] show ?thesis by (simp add: Let_def)
qed

end
