(* ===== verification/Tui.thy ===== *)
theory Tui
  imports RenderText Api
begin

section \<open>The dashboard\<close>

text \<open>
  Models \<open>src/internal/tui/tui.go\<close>: the state of the dashboard, its update function with every
  message and key, and the view. The terminal libraries are not part of the repository: the
  scrolling viewport is an abstract type \<open>'v\<close> with the operations used, styles and frames are
  functions on strings, all collected in a record that every definition takes. A failure of
  the client is its error text, a key the name the terminal library gives it.
\<close>

datatype style = StyleTitle | StyleMuted | StyleWarn | StyleAlert | StyleOK | StyleSelected

datatype frame = StylePane | StylePaneFocused

text \<open>
  What \<open>src/internal/tui/styles.go\<close> asks of the terminal library for each of them: a colour for light
  terminals and one for dark ones, weight, and the border and padding of a pane.
\<close>

record adaptive_color =
  ac_light :: string
  ac_dark :: string

definition colour_accent :: adaptive_color where "colour_accent = \<lparr>ac_light = ''#5A3FD6'', ac_dark = ''#9D8CFF''\<rparr>"
definition colour_muted :: adaptive_color where "colour_muted = \<lparr>ac_light = ''#6B6B78'', ac_dark = ''#8A8A99''\<rparr>"
definition colour_warn :: adaptive_color where "colour_warn = \<lparr>ac_light = ''#B25000'', ac_dark = ''#FFA657''\<rparr>"
definition colour_alert :: adaptive_color where "colour_alert = \<lparr>ac_light = ''#B3261E'', ac_dark = ''#FF7B72''\<rparr>"
definition colour_ok :: adaptive_color where "colour_ok = \<lparr>ac_light = ''#136F3B'', ac_dark = ''#7EE787''\<rparr>"

record appearance =
  sy_bold :: bool
  sy_foreground :: "adaptive_color option"

fun style_appearance :: "style \<Rightarrow> appearance" where
  "style_appearance StyleTitle = \<lparr>sy_bold = True, sy_foreground = Some colour_accent\<rparr>"
| "style_appearance StyleMuted = \<lparr>sy_bold = False, sy_foreground = Some colour_muted\<rparr>"
| "style_appearance StyleWarn = \<lparr>sy_bold = False, sy_foreground = Some colour_warn\<rparr>"
| "style_appearance StyleAlert = \<lparr>sy_bold = True, sy_foreground = Some colour_alert\<rparr>"
| "style_appearance StyleOK = \<lparr>sy_bold = False, sy_foreground = Some colour_ok\<rparr>"
| "style_appearance StyleSelected = \<lparr>sy_bold = True, sy_foreground = Some colour_accent\<rparr>"

record pane_frame =
  pf_rounded :: bool
  pf_border_foreground :: adaptive_color
  pf_padding :: "int \<times> int"

definition style_pane :: pane_frame where
  "style_pane = \<lparr>pf_rounded = True, pf_border_foreground = colour_muted, pf_padding = (0, 1)\<rparr>"

fun frame_appearance :: "frame \<Rightarrow> pane_frame" where
  "frame_appearance StylePane = style_pane"
| "frame_appearance StylePaneFocused = style_pane\<lparr>pf_border_foreground := colour_accent\<rparr>"

record 'v widgets =
  wg_zero :: 'v
  wg_new :: "int \<Rightarrow> int \<Rightarrow> 'v"
  wg_resize :: "int \<Rightarrow> int \<Rightarrow> 'v \<Rightarrow> 'v"
  wg_set :: "string \<Rightarrow> 'v \<Rightarrow> 'v"
  wg_top :: "'v \<Rightarrow> 'v"
  wg_down :: "'v \<Rightarrow> 'v"
  wg_up :: "'v \<Rightarrow> 'v"
  wg_half_down :: "'v \<Rightarrow> 'v"
  wg_half_up :: "'v \<Rightarrow> 'v"
  wg_view :: "'v \<Rightarrow> string"
  wg_render :: "style \<Rightarrow> string \<Rightarrow> string"
  wg_frame :: "frame \<Rightarrow> int \<Rightarrow> int \<Rightarrow> string \<Rightarrow> string"
  wg_beside :: "string \<Rightarrow> string \<Rightarrow> string"
  wg_zone :: zone

definition report_width :: int where "report_width = 108"
definition list_width :: int where "list_width = 48"
definition pane_chrome :: int where "pane_chrome = 4"
definition split_width :: int where "split_width = list_width + pane_chrome + report_width + pane_chrome"
definition chrome_height :: int where "chrome_height = 8"

datatype focus = FocusList | FocusDetail

record snapshot =
  sn_status :: api_status
  sn_reports :: "report list"

record tui_options =
  tu_interval :: duration
  tu_addr :: string

record 'v model =
  md_interval :: duration
  md_addr :: string
  md_snapshot :: snapshot
  md_err :: "string option"
  md_last_fetch :: "time option"
  md_selected :: int
  md_focus :: focus
  md_detail :: 'v
  md_width :: int
  md_height :: int
  md_ready :: bool
  md_quitting :: bool

definition new_model :: "'v widgets \<Rightarrow> tui_options \<Rightarrow> 'v model" where
  "new_model w opts =
     \<lparr>md_interval = (if tu_interval opts \<le> 0 then 2 * second else tu_interval opts), md_addr = tu_addr opts,
      md_snapshot = \<lparr>sn_status = api_status_zero, sn_reports = []\<rparr>, md_err = None, md_last_fetch = None,
      md_selected = 0, md_focus = FocusList, md_detail = wg_zero w, md_width = 0, md_height = 0,
      md_ready = False, md_quitting = False\<rparr>"

datatype msg =
    WindowSize int int
  | Tick
  | SnapshotMsg "string + snapshot" time
  | Key string
  | OtherMsg

text \<open>What the update asks the runtime to do next.\<close>

datatype command = NoCommand | FetchCommand | FetchAndTick | QuitCommand

definition init_command :: command where
  "init_command = FetchAndTick"

subsection \<open>The selection and the detail pane\<close>

definition current :: "'v model \<Rightarrow> report option" where
  "current m =
     (if md_selected m < 0 \<or> int (length (sn_reports (md_snapshot m))) \<le> md_selected m then None
      else Some (sn_reports (md_snapshot m) ! nat (md_selected m)))"

text \<open>The text shown is always there for reports decoded from JSON whose growth rate is in range.\<close>

definition detail_text :: "report \<Rightarrow> string" where
  "detail_text r = (case report_text r default_text_options of Some t \<Rightarrow> t | None \<Rightarrow> [])"

definition empty_detail :: "'v widgets \<Rightarrow> 'v model \<Rightarrow> string" where
  "empty_detail w m =
     (case md_err m of
        Some e \<Rightarrow> wg_render w StyleAlert ''Cannot reach the daemon.'' @ newline @ newline @
          wg_render w StyleMuted e @ newline @ newline @
          wg_render w StyleMuted (''Retrying every '' @ duration_string (md_interval m) @ ''. Press r to retry now.'')
      | None \<Rightarrow> wg_render w StyleMuted (''No OOM kills recorded.'' @ newline @ newline @
          ''The daemon is watching this node. This pane fills in when the kernel'' @ newline @
          ''kills a process in a container, which on a healthy node is never.''))"

definition refresh_detail :: "'v widgets \<Rightarrow> 'v model \<Rightarrow> 'v model" where
  "refresh_detail w m =
     (case current m of
        None \<Rightarrow> m\<lparr>md_detail := wg_set w (empty_detail w m) (md_detail m)\<rparr>
      | Some r \<Rightarrow> m\<lparr>md_detail := wg_top w (wg_set w (detail_text r) (md_detail m))\<rparr>)"

definition is_split :: "'v model \<Rightarrow> bool" where
  "is_split m \<longleftrightarrow> split_width \<le> md_width m"

definition detail_size :: "'v model \<Rightarrow> int \<times> int" where
  "detail_size m =
     ((if is_split m then max (md_width m - list_width - 2 * pane_chrome) 20 else max (md_width m - pane_chrome) 20),
      max (md_height m - chrome_height) 3)"

definition resize :: "'v widgets \<Rightarrow> 'v model \<Rightarrow> 'v model" where
  "resize w m =
     (let (width, height) = detail_size m in
      refresh_detail w (if \<not> md_ready m then m\<lparr>md_detail := wg_new w width height\<rparr>
        else m\<lparr>md_detail := wg_resize w width height (md_detail m)\<rparr>))"

definition move_to :: "'v widgets \<Rightarrow> int \<Rightarrow> 'v model \<Rightarrow> 'v model" where
  "move_to w index m =
     (if sn_reports (md_snapshot m) = [] then m
      else refresh_detail w (m\<lparr>md_selected := min (max index 0) (int (length (sn_reports (md_snapshot m))) - 1)\<rparr>))"

definition move :: "'v widgets \<Rightarrow> int \<Rightarrow> 'v model \<Rightarrow> 'v model" where
  "move w delta m = move_to w (md_selected m + delta) m"

subsection \<open>Messages\<close>

fun index_of_id :: "string \<Rightarrow> report list \<Rightarrow> int \<Rightarrow> int option" where
  "index_of_id i [] n = None"
| "index_of_id i (r # rs) n = (if rp_id r = i then Some n else index_of_id i rs (n + 1))"

definition apply_snapshot :: "'v widgets \<Rightarrow> string + snapshot \<Rightarrow> time \<Rightarrow> 'v model \<Rightarrow> 'v model" where
  "apply_snapshot w result now m =
     (let m = m\<lparr>md_last_fetch := Some now\<rparr> in
      case result of
        Inl e \<Rightarrow> m\<lparr>md_err := Some e\<rparr>
      | Inr s \<Rightarrow>
          (let m = m\<lparr>md_err := None\<rparr>;
               selected_id = (case current m of Some r \<Rightarrow> rp_id r | None \<Rightarrow> []);
               m = m\<lparr>md_snapshot := s, md_selected := 0\<rparr>;
               m = (if selected_id \<noteq> [] then
                      (case index_of_id selected_id (sn_reports s) 0 of
                         Some i \<Rightarrow> m\<lparr>md_selected := i\<rparr>
                       | None \<Rightarrow> m)
                    else m)
           in refresh_detail w m))"

definition handle_key :: "'v widgets \<Rightarrow> string \<Rightarrow> 'v model \<Rightarrow> 'v model \<times> command" where
  "handle_key w k m =
     (if k = ''q'' \<or> k = ''esc'' \<or> k = ''ctrl+c'' then (m\<lparr>md_quitting := True\<rparr>, QuitCommand)
      else if k = ''r'' then (m, FetchCommand)
      else if k = ''tab'' then
        (m\<lparr>md_focus := (if md_focus m = FocusList then FocusDetail else FocusList)\<rparr>, NoCommand)
      else if k = ''j'' \<or> k = ''down'' then
        (if md_focus m = FocusDetail then (m\<lparr>md_detail := wg_down w (md_detail m)\<rparr>, NoCommand)
         else (move w 1 m, NoCommand))
      else if k = ''k'' \<or> k = ''up'' then
        (if md_focus m = FocusDetail then (m\<lparr>md_detail := wg_up w (md_detail m)\<rparr>, NoCommand)
         else (move w (- 1) m, NoCommand))
      else if k = ''g'' \<or> k = ''home'' then (move_to w 0 m, NoCommand)
      else if k = ''G'' \<or> k = ''end'' then (move_to w (int (length (sn_reports (md_snapshot m))) - 1) m, NoCommand)
      else if k = ''pgdown'' \<or> k = '' '' then (m\<lparr>md_detail := wg_half_down w (md_detail m)\<rparr>, NoCommand)
      else if k = ''pgup'' then (m\<lparr>md_detail := wg_half_up w (md_detail m)\<rparr>, NoCommand)
      else (m, NoCommand))"

definition update_model :: "'v widgets \<Rightarrow> msg \<Rightarrow> 'v model \<Rightarrow> 'v model \<times> command" where
  "update_model w message m =
     (case message of
        WindowSize width height \<Rightarrow>
          ((resize w (m\<lparr>md_width := width, md_height := height\<rparr>))\<lparr>md_ready := True\<rparr>, NoCommand)
      | Tick \<Rightarrow> (m, FetchAndTick)
      | SnapshotMsg result now \<Rightarrow> (apply_snapshot w result now m, NoCommand)
      | Key k \<Rightarrow> handle_key w k m
      | OtherMsg \<Rightarrow> (m, NoCommand))"

subsection \<open>The view\<close>

definition unattributed_text :: "'v widgets \<Rightarrow> 'v model \<Rightarrow> string" where
  "unattributed_text w m =
     (let count = st_unattributed (sn_status (md_snapshot m)) in
      if count = 0 then wg_render w StyleOK ''0'' else wg_render w StyleAlert (show_nat (unat count)))"

definition detector_badge :: "'v widgets \<Rightarrow> 'v model \<Rightarrow> string" where
  "detector_badge w m =
     (let d = st_detector (sn_status (md_snapshot m)) in
      if d = ''ebpf'' then wg_render w StyleOK ''ebpf''
      else if d = ''poller'' then wg_render w StyleWarn ''poller'' @ wg_render w StyleMuted '' (victims are inferred, not traced)''
      else if d = [] then wg_render w StyleMuted ''unknown''
      else d)"

definition view_header :: "'v widgets \<Rightarrow> 'v model \<Rightarrow> string" where
  "view_header w m =
     (let status = sn_status (md_snapshot m);
          title = wg_render w StyleTitle ''oom-oracle'' @ wg_render w StyleMuted (''  '' @ md_addr m);
          detector = wg_render w StyleMuted ''detector '' @ detector_badge w m;
          node = (if st_node status \<noteq> [] then wg_render w StyleMuted ''  node '' @ st_node status else []);
          rdy = (if \<not> st_ready status then wg_render w StyleWarn ''not ready'' else wg_render w StyleOK ''ready'');
          counts = wg_render w StyleMuted ''reports'' @ '' '' @ show_nat (unat (st_reports status)) @ ''  '' @
            wg_render w StyleMuted ''tracking'' @ '' '' @ show_nat (st_tracked_cgroups status) @ ''  '' @
            wg_render w StyleMuted ''unattributed'' @ '' '' @ unattributed_text w m
      in title @ newline @ detector @ node @ ''  '' @ rdy @ newline @ counts)"

text \<open>Truncation by runes, with a width as computed for a column.\<close>

definition shorten :: "string \<Rightarrow> int \<Rightarrow> string" where
  "shorten text width =
     (if width \<le> 1 \<or> int (rune_count text) \<le> width then text
      else take_runes (nat (width - 1)) text @ ellipsis)"

definition list_inner_width :: "'v model \<Rightarrow> int" where
  "list_inner_width m =
     (let width = (if \<not> is_split m then md_width m - 2 else list_width) in max (width - pane_chrome) 20)"

definition list_row :: "zone \<Rightarrow> report \<Rightarrow> int \<Rightarrow> string" where
  "list_row z r width =
     (let i = rp_identity r;
          name = (if id_pod_name i = [] then sc_pod_uid (id_scope i) else id_pod_name i);
          name = (if id_container_name i \<noteq> [] then name @ ''/'' @ id_container_name i else name);
          victim = (if \<not> v_known (rp_victim r) then ''unknown'' else v_comm (rp_victim r));
          remaining = max (width - 8 - 2) 6;
          victim_width = min 15 (remaining div 3);
          name_width = remaining - victim_width
      in format_clock z (rp_time r) @ '' '' @ pad_after (nat name_width) (shorten name name_width) @ '' '' @
         pad_after (nat victim_width) (shorten victim victim_width))"

definition list_marker :: string where
  "list_marker = [CHR 0xE2, CHR 0x96, CHR 0x8C, CHR '' '']"

fun list_lines :: "'v widgets \<Rightarrow> 'v model \<Rightarrow> report list \<Rightarrow> int \<Rightarrow> string" where
  "list_lines w m [] i = []"
| "list_lines w m (r # rs) i =
     (let line = list_row (wg_zone w) r (list_inner_width m) in
      (if i = md_selected m then wg_render w StyleSelected list_marker @ wg_render w StyleSelected line
       else ''  '' @ line) @ newline @ list_lines w m rs (i + 1))"

text \<open>\<open>strings.TrimRight\<close> with a newline as its only character.\<close>

definition trim_newlines :: "string \<Rightarrow> string" where
  "trim_newlines s = rev (dropWhile (\<lambda>c. c = CHR 0x0A) (rev s))"

definition view_list :: "'v widgets \<Rightarrow> 'v model \<Rightarrow> string" where
  "view_list w m =
     (if sn_reports (md_snapshot m) = [] then
        (if md_err m \<noteq> None then wg_render w StyleAlert ''daemon unreachable'' else wg_render w StyleMuted ''no kills recorded'')
      else trim_newlines (list_lines w m (sn_reports (md_snapshot m)) 0))"

definition view_footer :: "'v widgets \<Rightarrow> time \<Rightarrow> 'v model \<Rightarrow> string" where
  "view_footer w now m =
     (let keys = wg_render w StyleMuted ([CHR 0xE2, CHR 0x86, CHR 0x91, CHR 0xE2, CHR 0x86, CHR 0x93] @
            '' move  tab pane  r refresh  q quit'');
          freshness = (case md_last_fetch m of
              None \<Rightarrow> wg_render w StyleMuted ''never refreshed''
            | Some t \<Rightarrow> wg_render w StyleMuted (''updated '' @ duration_string (truncate_second (time_sub now t)) @ '' ago''));
          freshness = (case md_err m of
              None \<Rightarrow> freshness
            | Some e \<Rightarrow> wg_render w StyleAlert (''daemon unreachable: '' @ shorten e 60))
      in keys @ ''  '' @ freshness)"

definition view_pane :: "'v widgets \<Rightarrow> 'v model \<Rightarrow> focus \<Rightarrow> string \<Rightarrow> int \<Rightarrow> string" where
  "view_pane w m which content width =
     wg_frame w (if md_focus m = which then StylePaneFocused else StylePane)
       (if 0 < width then width
        else if is_split m then max (md_width m - list_width - pane_chrome - 2) 20
        else max (md_width m - 2) 20)
       (snd (detail_size m)) content"

definition view :: "'v widgets \<Rightarrow> time \<Rightarrow> 'v model \<Rightarrow> string" where
  "view w now m =
     (if md_quitting m then []
      else if \<not> md_ready m then ''starting'' @ ellipsis @ newline
      else join newline
        [view_header w m,
         (if is_split m then
            wg_beside w (view_pane w m FocusList (view_list w m) list_width)
              (view_pane w m FocusDetail (wg_view w (md_detail m)) 0)
          else if md_focus m = FocusList then view_pane w m FocusList (view_list w m) 0
          else view_pane w m FocusDetail (wg_view w (md_detail m)) 0),
         view_footer w now m])"

subsection \<open>The selection stays valid\<close>

definition selection_ok :: "'v model \<Rightarrow> bool" where
  "selection_ok m \<longleftrightarrow> 0 \<le> md_selected m \<and>
     (md_selected m < int (length (sn_reports (md_snapshot m))) \<or> sn_reports (md_snapshot m) = [] \<and> md_selected m = 0)"

lemma refresh_detail_frame:
  "refresh_detail w m = m\<lparr>md_detail := md_detail (refresh_detail w m)\<rparr>"
  by (simp add: refresh_detail_def split: option.split)

lemma refresh_detail_fields [simp]:
  "md_selected (refresh_detail w m) = md_selected m" "md_snapshot (refresh_detail w m) = md_snapshot m"
  "md_err (refresh_detail w m) = md_err m" "md_focus (refresh_detail w m) = md_focus m"
  "md_ready (refresh_detail w m) = md_ready m" "md_last_fetch (refresh_detail w m) = md_last_fetch m"
  "md_quitting (refresh_detail w m) = md_quitting m"
  by (simp_all add: refresh_detail_def split: option.split)

lemma index_of_id_spec:
  "index_of_id i rs n = (case List.find (\<lambda>k. rp_id (rs ! k) = i) [0..<length rs] of
     None \<Rightarrow> None | Some k \<Rightarrow> Some (n + int k))"
proof (induction rs arbitrary: n)
  case (Cons r rs)
  have "[0..<length (r # rs)] = 0 # map Suc [0..<length rs]" by (simp add: upt_conv_Cons map_Suc_upt del: upt_Suc)
  moreover have "List.find P (map Suc ks) = map_option Suc (List.find (\<lambda>k. P (Suc k)) ks)" for P ks
    by (induction ks) auto
  ultimately show ?case using Cons.IH [of "n + 1"] by (auto split: option.split)
qed simp

lemma selection_move_to: "selection_ok m \<Longrightarrow> selection_ok (move_to w i m)"
  by (cases "sn_reports (md_snapshot m)") (auto simp: selection_ok_def move_to_def)

subsection \<open>Properties\<close>

lemma shorten_fits: "1 < width \<Longrightarrow> int (rune_count (shorten s width)) \<le> width"
  using rune_count_shortened [of "nat (width - 1)" s] by (auto simp: shorten_def)

lemma padded_column: "1 < width \<Longrightarrow> rune_count (pad_after (nat width) (shorten s width)) = nat width"
  using shorten_fits [of width s] by (simp add: rune_count_pad_after max_def) linarith

text \<open>Every row of the list fits its column exactly: in any time zone, for every report, whatever
  its names and the victim's command are made of, a row of a list at least sixteen columns wide
  is precisely as many characters long as the list is wide, and the list always leaves twenty.
  The time is never cut, and names and commands that fit are shown in full.\<close>

theorem list_rows_fit_exactly:
  "(16 \<le> width \<longrightarrow> rune_count (list_row z r width) = nat width) \<and> 20 \<le> list_inner_width m \<and>
   rune_count (list_row z r (list_inner_width m)) = nat (list_inner_width m) \<and>
   take 8 (list_row z r width) = format_clock z (rp_time r)"
proof -
  have space: "rune_count ('' '' @ x) = Suc (rune_count x)" for x
    using rune_count_ascii_append [of "'' ''" x] by (simp add: ascii_def)
  have start: "rune_start ('' '' @ x)" for x by (simp add: rune_start_def continuation_def)
  have fit: "rune_count (list_row z r width) = nat width" if wide: "16 \<le> width" for width
  proof -
    define rest where "rest = max (width - 8 - 2) 6"
    define vw where "vw = min 15 (rest div 3)"
    have w: "rest = width - 10" "2 \<le> vw" "vw \<le> 15" "3 * vw \<le> rest" "6 \<le> rest" using wide by (auto simp: rest_def vw_def)
    then have nw: "1 < rest - vw" by linarith
    obtain name victim where row: "list_row z r width = format_clock z (rp_time r) @ '' '' @
        pad_after (nat (rest - vw)) (shorten name (rest - vw)) @ '' '' @ pad_after (nat vw) (shorten victim vw)"
      unfolding list_row_def Let_def rest_def vw_def by blast
    have "rune_count (list_row z r width) = 8 + Suc (nat (rest - vw) + Suc (nat vw))"
      unfolding row rune_count_append [OF start] space rune_count_ascii [OF ascii_format_clock] length_format_clock
      using padded_column [OF nw] padded_column [of vw] w(2) by simp
    also have "\<dots> = nat width" using w nw by (simp add: nat_eq_iff)
    finally show ?thesis .
  qed
  have wide: "20 \<le> list_inner_width m" by (simp add: list_inner_width_def Let_def)
  have "take 8 (list_row z r width) = format_clock z (rp_time r)"
    by (simp add: list_row_def Let_def length_format_clock)
  then show ?thesis using fit wide by simp
qed

text \<open>The snapshot on screen after some messages: the last one that was fetched, or none.\<close>

fun last_good :: "snapshot \<Rightarrow> msg list \<Rightarrow> snapshot" where
  "last_good s [] = s"
| "last_good s (SnapshotMsg (Inr t) now # ms) = last_good t ms"
| "last_good s (_ # ms) = last_good s ms"

definition run_messages :: "'v widgets \<Rightarrow> msg list \<Rightarrow> 'v model \<Rightarrow> 'v model" where
  "run_messages w ms m = foldl (\<lambda>m message. fst (update_model w message m)) m ms"

lemma index_of_id_range:
  "index_of_id i rs n = Some k \<Longrightarrow> n \<le> k \<and> k < n + int (length rs) \<and> rp_id (rs ! nat (k - n)) = i"
proof (induction rs arbitrary: n)
  case (Cons r rs)
  show ?case
  proof (cases "rp_id r = i")
    case True
    then show ?thesis using Cons.prems by simp
  next
    case False
    then have h: "n + 1 \<le> k" "k < n + 1 + int (length rs)" "rp_id (rs ! nat (k - (n + 1))) = i"
      using Cons.IH [of "n + 1"] Cons.prems by auto
    then have "nat (k - n) = Suc (nat (k - (n + 1)))" by linarith
    then show ?thesis using h by simp
  qed
qed simp

lemma index_of_id_None: "index_of_id i rs n = None \<longleftrightarrow> i \<notin> rp_id ` set rs"
  by (induction rs arbitrary: n) auto

lemma resize_fields [simp]:
  "md_selected (resize w m) = md_selected m" "md_snapshot (resize w m) = md_snapshot m"
  by (simp_all add: resize_def split: prod.split)

lemma move_to_fields [simp]:
  "md_snapshot (move_to w i m) = md_snapshot m" "md_snapshot (move w j m) = md_snapshot m"
  by (simp_all add: move_to_def move_def)

lemma selection_ok_frames [simp]:
  "selection_ok (m\<lparr>md_quitting := b\<rparr>) = selection_ok m" "selection_ok (m\<lparr>md_focus := f\<rparr>) = selection_ok m"
  "selection_ok (m\<lparr>md_detail := d\<rparr>) = selection_ok m" "selection_ok (m\<lparr>md_ready := b\<rparr>) = selection_ok m"
  "selection_ok (m\<lparr>md_err := e, md_last_fetch := t\<rparr>) = selection_ok m"
  "selection_ok (m\<lparr>md_width := x, md_height := y\<rparr>) = selection_ok m"
  "selection_ok (resize w m) = selection_ok m" "selection_ok (refresh_detail w m) = selection_ok m"
  by (simp_all add: selection_ok_def)

lemma handle_key_ok:
  "selection_ok m \<Longrightarrow> selection_ok (fst (handle_key w k m)) \<and> md_snapshot (fst (handle_key w k m)) = md_snapshot m"
  using selection_move_to [of m w] by (simp add: handle_key_def move_def)

lemma apply_snapshot_fails: "apply_snapshot w (Inl e) now m = m\<lparr>md_last_fetch := Some now, md_err := Some e\<rparr>"
  by (simp add: apply_snapshot_def)

lemma apply_snapshot_succeeds:
  "md_snapshot (apply_snapshot w (Inr s) now m) = s" "md_err (apply_snapshot w (Inr s) now m) = None"
  "md_focus (apply_snapshot w (Inr s) now m) = md_focus m"
  "md_selected (apply_snapshot w (Inr s) now m) =
     (case current m of
        None \<Rightarrow> 0
      | Some r \<Rightarrow> if rp_id r = [] then 0 else (case index_of_id (rp_id r) (sn_reports s) 0 of Some i \<Rightarrow> i | None \<Rightarrow> 0))"
proof -
  have c: "current (m\<lparr>md_last_fetch := Some now, md_err := None\<rparr>) = current m" by (simp add: current_def)
  then show "md_snapshot (apply_snapshot w (Inr s) now m) = s" "md_err (apply_snapshot w (Inr s) now m) = None"
    "md_focus (apply_snapshot w (Inr s) now m) = md_focus m"
    by (simp_all add: apply_snapshot_def Let_def split: option.split)
  show "md_selected (apply_snapshot w (Inr s) now m) =
     (case current m of
        None \<Rightarrow> 0
      | Some r \<Rightarrow> if rp_id r = [] then 0 else (case index_of_id (rp_id r) (sn_reports s) 0 of Some i \<Rightarrow> i | None \<Rightarrow> 0))"
    using c by (simp add: apply_snapshot_def Let_def split: option.split)
qed

lemma apply_snapshot_ok: "selection_ok m \<Longrightarrow> selection_ok (apply_snapshot w r now m)"
proof (cases r)
  case (Inl e)
  then show "selection_ok m \<Longrightarrow> ?thesis" by (simp add: apply_snapshot_fails selection_ok_def)
next
  case (Inr s)
  have "0 \<le> k \<and> k < int (length (sn_reports s))" if "index_of_id i (sn_reports s) 0 = Some k" for i k
    using index_of_id_range [OF that] by simp
  then show "selection_ok m \<Longrightarrow> ?thesis"
    by (auto simp: Inr selection_ok_def apply_snapshot_succeeds split: option.split)
qed

lemma update_ok:
  assumes "selection_ok m"
  shows "selection_ok (fst (update_model w message m)) \<and>
    md_snapshot (fst (update_model w message m)) = last_good (md_snapshot m) [message]"
proof (cases message)
  case (SnapshotMsg r now)
  then show ?thesis
    using apply_snapshot_ok [OF assms, of w r now]
    by (cases r) (simp_all add: update_model_def apply_snapshot_fails apply_snapshot_succeeds)
next
  case (Key k)
  then show ?thesis using handle_key_ok [OF assms] by (simp add: update_model_def)
qed (use assms in \<open>simp_all add: update_model_def\<close>)

lemma last_good_Cons: "last_good s (m # ms) = last_good (last_good s [m]) ms"
proof (cases m)
  case (SnapshotMsg r now)
  then show ?thesis by (cases r) simp_all
qed simp_all

lemma run_messages_ok:
  "selection_ok m \<Longrightarrow> selection_ok (run_messages w ms m) \<and> md_snapshot (run_messages w ms m) = last_good (md_snapshot m) ms"
proof (induction ms arbitrary: m)
  case (Cons message ms)
  have "run_messages w (message # ms) m = run_messages w ms (fst (update_model w message m))"
    by (simp add: run_messages_def)
  then show ?case
    using Cons.IH [of "fst (update_model w message m)"] update_ok [OF Cons.prems] by (metis last_good_Cons)
qed (simp add: run_messages_def)

text \<open>C37: Through any messages, keys, resizes and refreshes in any order, the dashboard shows the
  reports of the last refresh that succeeded, whatever failed since, and its selection is always
  one of them: there is a current report exactly when there are reports.\<close>

theorem last_good_reports_stay_on_screen:
  "md_snapshot (run_messages w ms (new_model w opts)) = last_good \<lparr>sn_status = api_status_zero, sn_reports = []\<rparr> ms \<and>
   (current (run_messages w ms (new_model w opts)) \<noteq> None \<longleftrightarrow>
      sn_reports (last_good \<lparr>sn_status = api_status_zero, sn_reports = []\<rparr> ms) \<noteq> [])"
proof -
  have "selection_ok (new_model w opts)" "md_snapshot (new_model w opts) = \<lparr>sn_status = api_status_zero, sn_reports = []\<rparr>"
    by (simp_all add: selection_ok_def new_model_def)
  then show ?thesis
    using run_messages_ok [of "new_model w opts" w ms] by (auto simp: selection_ok_def current_def)
qed

text \<open>C36: A refresh keeps the reader on the report that is being read: when the selected report is in the
  new list, it is the selected one afterwards, at whatever place it is now; when it is gone, the
  newest one is selected. The focus stays. A refresh that fails changes nothing that is shown
  but the notice itself.\<close>

theorem selection_follows_the_report:
  assumes "current m = Some r" "rp_id r \<noteq> []"
  shows "(rp_id r \<in> rp_id ` set (sn_reports s) \<longrightarrow>
      (\<exists>r'. current (apply_snapshot w (Inr s) now m) = Some r' \<and> rp_id r' = rp_id r)) \<and>
    (rp_id r \<notin> rp_id ` set (sn_reports s) \<longrightarrow> md_selected (apply_snapshot w (Inr s) now m) = 0) \<and>
    md_focus (apply_snapshot w (Inr s) now m) = md_focus m \<and>
    current (apply_snapshot w (Inl e) now m) = Some r \<and> md_detail (apply_snapshot w (Inl e) now m) = md_detail m"
proof (intro conjI impI)
  assume "rp_id r \<in> rp_id ` set (sn_reports s)"
  then obtain k where k: "index_of_id (rp_id r) (sn_reports s) 0 = Some k"
    using index_of_id_None [of "rp_id r" "sn_reports s" 0] by auto
  then have "md_selected (apply_snapshot w (Inr s) now m) = k" using assms by (simp add: apply_snapshot_succeeds)
  then show "\<exists>r'. current (apply_snapshot w (Inr s) now m) = Some r' \<and> rp_id r' = rp_id r"
    using index_of_id_range [OF k] by (simp add: current_def apply_snapshot_succeeds)
next
  assume "rp_id r \<notin> rp_id ` set (sn_reports s)"
  then have "index_of_id (rp_id r) (sn_reports s) 0 = None" by (simp add: index_of_id_None)
  then show "md_selected (apply_snapshot w (Inr s) now m) = 0" using assms by (simp add: apply_snapshot_succeeds)
next
  have "current (apply_snapshot w (Inl e) now m) = current m" by (simp add: apply_snapshot_fails current_def)
  then show "current (apply_snapshot w (Inl e) now m) = Some r" using assms(1) by simp
qed (simp_all add: apply_snapshot_succeeds apply_snapshot_fails)

text \<open>A one-line terminal for the witnesses: the viewport is its content and its scroll offset.\<close>

definition demo_widgets :: "(string \<times> nat) widgets" where
  "demo_widgets = \<lparr>wg_zero = ([], 0), wg_new = (\<lambda>_ _. ([], 0)), wg_resize = (\<lambda>_ _ v. v), wg_set = (\<lambda>s (_, n). (s, n)),
     wg_top = (\<lambda>(s, _). (s, 0)), wg_down = (\<lambda>(s, n). (s, Suc n)), wg_up = (\<lambda>(s, n). (s, n - 1)),
     wg_half_down = (\<lambda>(s, n). (s, n + 10)), wg_half_up = (\<lambda>(s, n). (s, n - 10)), wg_view = fst,
     wg_render = (\<lambda>_ s. s), wg_frame = (\<lambda>_ _ _ s. s), wg_beside = (@), wg_zone = utc\<rparr>"

definition demo_snapshot :: "string list \<Rightarrow> snapshot" where
  "demo_snapshot is = \<lparr>sn_status = api_status_zero, sn_reports = map (\<lambda>i. report_zero\<lparr>rp_id := i\<rparr>) is\<rparr>"

theorem list_rows_fit_exactly_witness: "rune_count (list_row utc report_zero 30) = 30"
  using conjunct1 [OF list_rows_fit_exactly [of 30 utc report_zero "new_model demo_widgets \<lparr>tu_interval = 0, tu_addr = []\<rparr>"]]
  by simp

theorem selection_follows_the_report_witness:
  "\<exists>r'. current (apply_snapshot demo_widgets (Inr (demo_snapshot [''c'', ''b'', ''a''])) 0
     ((new_model demo_widgets \<lparr>tu_interval = 0, tu_addr = []\<rparr>)\<lparr>md_snapshot := demo_snapshot [''b'', ''a'']\<rparr>)) = Some r' \<and>
     rp_id r' = ''b''"
proof -
  let ?m = "(new_model demo_widgets \<lparr>tu_interval = 0, tu_addr = []\<rparr>)\<lparr>md_snapshot := demo_snapshot [''b'', ''a'']\<rparr>"
  have c: "current ?m = Some (report_zero\<lparr>rp_id := ''b''\<rparr>)"
    by (simp add: current_def new_model_def demo_snapshot_def)
  have i: "rp_id (report_zero\<lparr>rp_id := ''b''\<rparr>) \<noteq> []" by simp
  show ?thesis
    using selection_follows_the_report [OF c i, of "demo_snapshot [''c'', ''b'', ''a'']" demo_widgets 0]
    by (simp add: demo_snapshot_def)
qed

text \<open>
  Two flaws of the detail pane. A refresh scrolls it back to the top even when the same report
  stays selected, and a first refresh that fails leaves it saying that the daemon is watching
  the node.
\<close>

lemma refresh_scrolls_to_top:
  assumes "current m = Some r" "rp_id r \<noteq> []" "rp_id r \<in> rp_id ` set (sn_reports s)"
  shows "\<exists>r'. rp_id r' = rp_id r \<and> current (apply_snapshot w (Inr s) now m) = Some r' \<and>
    md_detail (apply_snapshot w (Inr s) now m) = wg_top w (wg_set w (detail_text r') (md_detail m))"
proof -
  obtain r' where r': "current (apply_snapshot w (Inr s) now m) = Some r'" "rp_id r' = rp_id r"
  proof -
    obtain k where k: "index_of_id (rp_id r) (sn_reports s) 0 = Some k"
      using assms(3) index_of_id_None [of "rp_id r" "sn_reports s" 0] by auto
    then have "md_selected (apply_snapshot w (Inr s) now m) = k" using assms by (simp add: apply_snapshot_succeeds)
    then show thesis
      using that index_of_id_range [OF k] by (simp add: current_def apply_snapshot_succeeds)
  qed
  obtain m1 where m1: "apply_snapshot w (Inr s) now m = refresh_detail w m1" "md_detail m1 = md_detail m"
    unfolding apply_snapshot_def Let_def by (auto split: option.split)
  have "current (refresh_detail w m1) = current m1" by (simp add: current_def)
  then have "current m1 = Some r'" using r'(1) unfolding m1(1) by simp
  then show ?thesis using r' m1 by (intro exI [of _ r']) (simp add: refresh_detail_def)
qed

lemma first_failure_leaves_the_pane:
  "md_detail (run_messages w [WindowSize x y, SnapshotMsg (Inl e) now] (new_model w opts)) =
     wg_set w (empty_detail w (new_model w opts)) (wg_new w (fst (detail_size ((new_model w opts)\<lparr>md_width := x\<rparr>)))
       (max (y - chrome_height) 3))"
  by (simp add: run_messages_def update_model_def apply_snapshot_fails resize_def refresh_detail_def current_def new_model_def
      detail_size_def is_split_def empty_detail_def)

end
