(* ===== verification/Commands.thy ===== *)
theory Commands
  imports Daemon PodCache Tui VersionInfo
begin

section \<open>The commands\<close>

text \<open>
  Models \<open>src/internal/cmd\<close>: how the daemon is put together from its flags
  (\<open>daemon.go\<close>, \<open>logging.go\<close>), what \<open>/v1/status\<close> says, and the two clients of the API
  (\<open>inspect.go\<close>, \<open>watch.go\<close>, with the HTTP client of \<open>src/internal/tui/client.go\<close>). What a
  host or a library answers is an argument: the trees at the two roots, the outcome of loading the
  eBPF program, the environment, client-go, URL parsing and the transport. The flag library is
  left out; what runs once everything is built is in the theory \<open>Service\<close>.
\<close>

subsection \<open>Flags\<close>

record daemon_config =
  dc_cgroup_root :: string
  dc_proc_root :: string
  dc_cgroup_prefix :: string
  dc_detector_name :: string
  dc_listen_addr :: string
  dc_sample_every :: duration
  dc_poll_every :: duration
  dc_history_size :: int
  dc_retain :: int
  dc_include_all :: bool
  dc_kubernetes :: string
  dc_node_name :: string
  dc_kubeconfig :: string
  dc_log_level :: string
  dc_log_format :: string

definition default_daemon_config :: daemon_config where
  "default_daemon_config = \<lparr>dc_cgroup_root = ''/sys/fs/cgroup'', dc_proc_root = ''/proc'', dc_cgroup_prefix = ''/'',
     dc_detector_name = ''auto'', dc_listen_addr = '':9090'', dc_sample_every = default_interval,
     dc_poll_every = default_poll_interval, dc_history_size = default_history_size, dc_retain = default_capacity,
     dc_include_all = False, dc_kubernetes = ''auto'', dc_node_name = [], dc_kubeconfig = [], dc_log_level = ''info'',
     dc_log_format = ''text''\<rparr>"

datatype log_level = LevelDebug | LevelInfo | LevelWarn | LevelError

definition parse_level :: "string \<Rightarrow> err + log_level" where
  "parse_level level =
     (let l = to_lower level in
      if l = ''debug'' then Inr LevelDebug
      else if l = ''info'' then Inr LevelInfo
      else if l = ''warn'' \<or> l = ''warning'' then Inr LevelWarn
      else if l = ''error'' then Inr LevelError
      else Inl (EMsg ''unknown log level''))"

datatype log_format = LogText | LogJSON

definition new_logger :: "string \<Rightarrow> string \<Rightarrow> err + log_level \<times> log_format" where
  "new_logger level format =
     res_bind (parse_level level) (\<lambda>l.
       if format = ''text'' then Inr (l, LogText)
       else if format = ''json'' then Inr (l, LogJSON)
       else Inl (EMsg ''unknown log format''))"

subsection \<open>Building the daemon\<close>

text \<open>What lies outside: \<open>ho_traced\<close> tells which build of the eBPF detector is compiled in; the last two
  are client-go's answers when the pod cache registers with its informer.\<close>

record host =
  ho_cgroup :: fsnode
  ho_traced :: bool
  ho_loaded :: "err + unit"
  ho_clock :: "err + int"
  ho_now :: time
  ho_page_size :: int
  ho_node_env :: string
  ho_kube :: kube_source
  ho_new_client :: "rest_cfg \<Rightarrow> err + unit"
  ho_transform_err :: "err option"
  ho_handler_err :: "err option"

datatype any_detector = EbpfDetector ebpf | PollingDetector poller

definition detector_source :: "any_detector \<Rightarrow> source" where
  "detector_source d = (case d of EbpfDetector _ \<Rightarrow> SourceEBPF | PollingDetector _ \<Rightarrow> SourcePoller)"

definition new_ebpf_detector :: "daemon_config \<Rightarrow> host \<Rightarrow> err + any_detector" where
  "new_ebpf_detector cfg h =
     (let opts = \<lparr>eo_cgroup_root = dc_cgroup_root cfg, eo_has_cgroup = True, eo_has_proc = True\<rparr> in
      res_bind (if ho_traced h then new_ebpf opts (ho_loaded h) (ho_clock h) (ho_now h) (ho_page_size h)
                else new_ebpf_unsupported opts)
        (\<lambda>d. Inr (EbpfDetector d)))"

definition new_polling_detector :: "daemon_config \<Rightarrow> cgfs \<Rightarrow> err + any_detector" where
  "new_polling_detector cfg fs =
     res_bind (new_poller \<lparr>po_cgroup = Some fs, po_has_proc = True, po_prefix = dc_cgroup_prefix cfg,
       po_interval = dc_poll_every cfg\<rparr>) (\<lambda>d. Inr (PollingDetector d))"

definition build_detector :: "daemon_config \<Rightarrow> cgfs \<Rightarrow> host \<Rightarrow> err + any_detector" where
  "build_detector cfg fs h =
     (if dc_detector_name cfg = ''ebpf'' then new_ebpf_detector cfg h
      else if dc_detector_name cfg = ''auto'' then
        (case new_ebpf_detector cfg h of
           Inr traced \<Rightarrow> Inr traced
         | Inl e \<Rightarrow> new_polling_detector cfg fs)
      else if dc_detector_name cfg = ''poller'' then new_polling_detector cfg fs
      else Inl (EMsg ''unknown detector''))"

definition cluster_cache :: "daemon_config \<Rightarrow> host \<Rightarrow> err + pod_cache" where
  "cluster_cache cfg h =
     res_bind (node_name (dc_node_name cfg) (ho_node_env h)) (\<lambda>node.
     res_bind (rest_config (ho_kube h) (dc_kubeconfig cfg)) (\<lambda>rest.
     res_bind (ho_new_client h rest) (\<lambda>_.
       new_pod_cache \<lparr>ko_has_client = True, ko_node = node, ko_resync = 0, ko_grace = 0,
         ko_transform_err = ho_transform_err h, ko_handler_err = ho_handler_err h\<rparr>)))"

definition build_pod_cache :: "daemon_config \<Rightarrow> host \<Rightarrow> err + pod_cache option" where
  "build_pod_cache cfg h =
     (if dc_kubernetes cfg = ''off'' then Inr None
      else if dc_kubernetes cfg = ''on'' \<or> dc_kubernetes cfg = ''auto'' then
        (case cluster_cache cfg h of
           Inr c \<Rightarrow> Inr (Some c)
         | Inl e \<Rightarrow> if dc_kubernetes cfg = ''on'' then Inl e else Inr None)
      else Inl (EMsg ''unknown --kubernetes value''))"

text \<open>The parts that run concurrently once everything is built.\<close>

record app =
  ap_cgroup :: cgfs
  ap_sampler :: sampler
  ap_detector :: any_detector
  ap_daemon :: daemon
  ap_pods :: "pod_cache option"

definition run_daemon :: "daemon_config \<Rightarrow> host \<Rightarrow> err + app" where
  "run_daemon cfg h =
     res_bind (new_logger (dc_log_level cfg) (dc_log_format cfg)) (\<lambda>_.
     res_bind (cgroup_new (ho_cgroup h)) (\<lambda>fs.
     res_bind (sampler_new \<lparr>so_fs = Some fs, so_prefix = dc_cgroup_prefix cfg, so_interval = dc_sample_every cfg,
         so_history_size = dc_history_size cfg, so_retention = 0\<rparr>) (\<lambda>smp.
     res_bind (build_detector cfg fs h) (\<lambda>det.
     res_bind (build_pod_cache cfg h) (\<lambda>pods.
     res_bind (new_daemon \<lparr>dp_detector = Some (detector_source det), dp_has_sampler = True,
         dp_store = Some (new_memory (dc_retain cfg)), dp_has_cgroup = True, dp_has_resolver = True, dp_has_proc = True,
         dp_has_on_report = False, dp_include_nk = dc_include_all cfg\<rparr>) (\<lambda>d.
       Inr \<lparr>ap_cgroup = fs, ap_sampler = smp, ap_detector = det, ap_daemon = d, ap_pods = pods\<rparr>))))))"

definition await_pod_cache :: "bool \<Rightarrow> pod_cache \<Rightarrow> pod_cache" where
  "await_pod_cache has_synced c = snd (wait_for_sync has_synced c)"

definition daemon_status :: "app \<Rightarrow> version_info \<Rightarrow> time \<Rightarrow> time \<Rightarrow> api_status" where
  "daemon_status a info started now =
     (let status = \<lparr>st_detector = detector_name (ap_daemon a), st_cgroup_version = version_string (cg_version (ap_cgroup a)),
            st_ready = ready (ap_daemon a) (ap_sampler a), st_reports = dm_processed (ap_daemon a),
            st_skipped = dm_skipped (ap_daemon a), st_unattributed = dm_unattributed (ap_daemon a),
            st_tracked_cgroups = daemon_tracked (ap_sampler a), st_uptime_seconds = duration_seconds (time_sub now started),
            st_version = vi_version info, st_node = [], st_pod_cache_synced = False, st_pods_tracked = 0\<rparr>
      in case ap_pods a of
           None \<Rightarrow> status
         | Some c \<Rightarrow> status\<lparr>st_node := pc_node c, st_pod_cache_synced := pc_synced c, st_pods_tracked := cache_len c\<rparr>)"

text \<open>The server as it answers at one moment: its callbacks read the daemon when a request comes.\<close>

definition api_now :: "app \<Rightarrow> version_info \<Rightarrow> time \<Rightarrow> time \<Rightarrow> err + api_server" where
  "api_now a info started now =
     memory_api (dm_store (ap_daemon a)) (ready (ap_daemon a) (ap_sampler a)) (daemon_status a info started now)"

subsection \<open>What a client reads\<close>

text \<open>
  A report that went through JSON: the encoder writes each byte of a string that is no valid
  UTF-8 as U+FFFD, and the rest comes back as it was. That the decoders make just this of the
  bytes an encoder wrote is shown in \<open>Wire\<close>.
\<close>

definition json_string :: "string \<Rightarrow> string" where
  "json_string s = concat (runes s)"

definition json_scope :: "scope \<Rightarrow> scope" where
  "json_scope sc = sc\<lparr>sc_pod_uid := json_string (sc_pod_uid sc), sc_container_id := json_string (sc_container_id sc),
     sc_cgroup_path := json_string (sc_cgroup_path sc)\<rparr>"

definition json_identity :: "identity \<Rightarrow> identity" where
  "json_identity i = i\<lparr>id_scope := json_scope (id_scope i), id_namespace := json_string (id_namespace i),
     id_pod_name := json_string (id_pod_name i), id_container_name := json_string (id_container_name i),
     id_image := json_string (id_image i)\<rparr>"

definition json_victim :: "victim \<Rightarrow> victim" where
  "json_victim v = v\<lparr>v_comm := json_string (v_comm v), v_cmdline := map json_string (v_cmdline v)\<rparr>"

definition json_process :: "process_snapshot \<Rightarrow> process_snapshot" where
  "json_process p = p\<lparr>ps_comm := json_string (ps_comm p), ps_cmdline := map json_string (ps_cmdline p)\<rparr>"

definition json_report :: "report \<Rightarrow> report" where
  "json_report r = r\<lparr>rp_id := json_string (rp_id r), rp_identity := json_identity (rp_identity r),
     rp_victim := json_victim (rp_victim r), rp_processes := map json_process (rp_processes r)\<rparr>"

definition json_status :: "api_status \<Rightarrow> api_status" where
  "json_status s = s\<lparr>st_detector := json_string (st_detector s), st_cgroup_version := json_string (st_cgroup_version s),
     st_version := json_string (st_version s), st_node := json_string (st_node s)\<rparr>"

text \<open>Decoding a body into a list of reports, or into a status; anything else does not decode.\<close>

definition decode_reports :: "body \<Rightarrow> err + report list" where
  "decode_reports b = (case b of ListBody rs \<Rightarrow> Inr (map json_report rs) | _ \<Rightarrow> Inl (EMsg ''decoding daemon response''))"

definition decode_status :: "body \<Rightarrow> err + api_status" where
  "decode_status b = (case b of StatusBody s \<Rightarrow> Inr (json_status s) | _ \<Rightarrow> Inl (EMsg ''decoding daemon response''))"

text \<open>
  The network: the query an address already carries, if the address parses, and the answer to a
  request for a path below it.
\<close>

record network =
  nw_base_query :: "string \<Rightarrow> err + query"
  nw_get :: "string \<Rightarrow> query \<Rightarrow> err + response"

subsection \<open>The inspect command\<close>

record inspect_config =
  ic_daemon_addr :: string
  ic_namespace :: string
  ic_container :: string
  ic_limit :: int
  ic_format :: string

definition inspect_pod :: "string list \<Rightarrow> string" where
  "inspect_pod args = (case args of [a] \<Rightarrow> trim_prefix ''pod/'' a | _ \<Rightarrow> [])"

definition set_if_not_empty :: "string \<Rightarrow> string \<Rightarrow> query \<Rightarrow> query" where
  "set_if_not_empty key value q = (if value \<noteq> [] then map_put key [value] q else q)"

definition inspect_query :: "inspect_config \<Rightarrow> string \<Rightarrow> query \<Rightarrow> query" where
  "inspect_query cfg pod q =
     (let q = set_if_not_empty ''container'' (ic_container cfg)
                (set_if_not_empty ''namespace'' (ic_namespace cfg) (set_if_not_empty ''pod'' pod q))
      in if 0 < ic_limit cfg then map_put ''limit'' [itoa (ic_limit cfg)] q else q)"

definition fetch_reports :: "network \<Rightarrow> inspect_config \<Rightarrow> string \<Rightarrow> err + report list" where
  "fetch_reports n cfg pod =
     (let endpoint = trim_suffix ''/'' (ic_daemon_addr cfg) @ ''/v1/events'' in
      res_bind (nw_base_query n endpoint) (\<lambda>q.
      res_bind (nw_get n endpoint (inspect_query cfg pod q)) (\<lambda>resp.
        if hp_code resp \<noteq> 200 then Inl (EMsg ''daemon returned'') else decode_reports (hp_body resp))))"

subsection \<open>The watch command\<close>

definition client_get :: "network \<Rightarrow> string \<Rightarrow> string \<Rightarrow> err + body" where
  "client_get n addr path =
     (let endpoint = trim_suffix ''/'' addr @ path in
      res_bind (nw_base_query n endpoint) (\<lambda>q.
      res_bind (nw_get n endpoint q) (\<lambda>resp.
        if hp_code resp \<noteq> 200 then Inl (EMsg ''daemon returned'') else Inr (hp_body resp))))"

definition client_fetch :: "network \<Rightarrow> string \<Rightarrow> err + snapshot" where
  "client_fetch n addr =
     res_bind (client_get n addr ''/v1/status'') (\<lambda>b.
     res_bind (decode_status b) (\<lambda>status.
     res_bind (client_get n addr ''/v1/events'') (\<lambda>b.
     res_bind (decode_reports b) (\<lambda>reports.
       Inr \<lparr>sn_status = status, sn_reports = reports\<rparr>))))"

definition min_watch_interval :: duration where
  "min_watch_interval = 500000000"

definition run_watch :: "'v widgets \<Rightarrow> string \<Rightarrow> duration \<Rightarrow> err + 'v model" where
  "run_watch w addr interval =
     (if interval < min_watch_interval then Inl (EMsg ''--interval is below the minimum'')
      else Inr (new_model w \<lparr>tu_interval = interval, tu_addr = addr\<rparr>))"

subsection \<open>Properties\<close>

lemma new_ebpf_detector_source: "new_ebpf_detector cfg h = Inr d \<Longrightarrow> detector_source d = SourceEBPF"
  by (auto simp: new_ebpf_detector_def detector_source_def Let_def split: if_splits)

lemma new_polling_detector_ok: "\<exists>p. new_polling_detector cfg fs = Inr (PollingDetector p)"
  by (simp add: new_polling_detector_def new_poller_def)

lemma sampler_always_built:
  "\<exists>smp. sampler_new \<lparr>so_fs = Some fs, so_prefix = p, so_interval = i, so_history_size = n, so_retention = r\<rparr> = Inr smp"
  by (simp add: sampler_new_def)

lemma daemon_always_built:
  "\<exists>d. new_daemon \<lparr>dp_detector = Some src, dp_has_sampler = True, dp_store = Some st, dp_has_cgroup = True,
       dp_has_resolver = True, dp_has_proc = True, dp_has_on_report = False, dp_include_nk = nk\<rparr> = Inr d \<and>
     dm_source d = src \<and> dm_store d = st \<and> dm_include_nk d = nk \<and> dm_has_cgroup d \<and> dm_has_proc d"
  by (simp add: new_daemon_def)

text \<open>When the host can be read at all, building stops only at the detector or the pod cache.\<close>

lemma run_daemon_builds:
  assumes "new_logger (dc_log_level cfg) (dc_log_format cfg) = Inr l" "cgroup_new (ho_cgroup h) = Inr fs"
    "build_detector cfg fs h = Inr det" "build_pod_cache cfg h = Inr pods"
  shows "\<exists>a. run_daemon cfg h = Inr a \<and> ap_detector a = det \<and> ap_pods a = pods \<and> ap_cgroup a = fs \<and>
    dm_source (ap_daemon a) = detector_source det \<and> dm_store (ap_daemon a) = new_memory (dc_retain cfg)"
proof -
  obtain smp where s: "sampler_new \<lparr>so_fs = Some fs, so_prefix = dc_cgroup_prefix cfg, so_interval = dc_sample_every cfg,
      so_history_size = dc_history_size cfg, so_retention = 0\<rparr> = Inr smp"
    using sampler_always_built by blast
  obtain d where d: "new_daemon \<lparr>dp_detector = Some (detector_source det), dp_has_sampler = True,
      dp_store = Some (new_memory (dc_retain cfg)), dp_has_cgroup = True, dp_has_resolver = True, dp_has_proc = True,
      dp_has_on_report = False, dp_include_nk = dc_include_all cfg\<rparr> = Inr d"
    "dm_source d = detector_source det" "dm_store d = new_memory (dc_retain cfg)"
    using daemon_always_built by blast
  show ?thesis
    unfolding run_daemon_def assms s res_bind.simps d(1) using d(2,3) by simp
qed

lemma run_daemon_parts:
  assumes "run_daemon cfg h = Inr a"
  shows "\<exists>fs det. cgroup_new (ho_cgroup h) = Inr fs \<and> build_detector cfg fs h = Inr det \<and> build_pod_cache cfg h = Inr (ap_pods a) \<and>
    dm_source (ap_daemon a) = detector_source det"
proof -
  obtain l fs det pods where *: "new_logger (dc_log_level cfg) (dc_log_format cfg) = Inr l" "cgroup_new (ho_cgroup h) = Inr fs"
    "build_detector cfg fs h = Inr det" "build_pod_cache cfg h = Inr pods"
    using assms unfolding run_daemon_def res_bind_Inr_iff by blast
  then show ?thesis using run_daemon_builds [OF *] assms by auto
qed

definition wired_options :: "daemon_config \<Rightarrow> any_detector \<Rightarrow> daemon_options" where
  "wired_options cfg det = \<lparr>dp_detector = Some (detector_source det), dp_has_sampler = True,
      dp_store = Some (new_memory (dc_retain cfg)), dp_has_cgroup = True, dp_has_resolver = True, dp_has_proc = True,
      dp_has_on_report = False, dp_include_nk = dc_include_all cfg\<rparr>"

lemma run_daemon_daemon:
  assumes "run_daemon cfg h = Inr a"
  shows "\<exists>opts. new_daemon opts = Inr (ap_daemon a) \<and> dp_store opts = Some (new_memory (dc_retain cfg))"
proof -
  have "\<exists>det. new_daemon (wired_options cfg det) = Inr (ap_daemon a)"
    using assms unfolding run_daemon_def res_bind_Inr_iff wired_options_def by force
  moreover have "dp_store (wired_options cfg det) = Some (new_memory (dc_retain cfg))" for det
    by (simp add: wired_options_def)
  ultimately show ?thesis by blast
qed

lemma daemon_left_to_itself:
  assumes "is_ok (new_logger (dc_log_level cfg) (dc_log_format cfg))" "is_ok (cgroup_new (ho_cgroup h))"
    and auto: "dc_detector_name cfg = ''auto''" "dc_kubernetes cfg = ''auto''"
  shows "\<exists>a. run_daemon cfg h = Inr a \<and>
      (dm_source (ap_daemon a) = SourceEBPF \<longleftrightarrow> is_ok (new_ebpf_detector cfg h)) \<and>
      (ap_pods a \<noteq> None \<longleftrightarrow> is_ok (cluster_cache cfg h))"
proof -
  obtain l fs where lf: "new_logger (dc_log_level cfg) (dc_log_format cfg) = Inr l" "cgroup_new (ho_cgroup h) = Inr fs"
    using assms(1,2) by (metis is_ok.elims(2))
  obtain det where det: "build_detector cfg fs h = Inr det" "detector_source det = SourceEBPF \<longleftrightarrow> is_ok (new_ebpf_detector cfg h)"
  proof (cases "new_ebpf_detector cfg h")
    case (Inl e)
    obtain p where "new_polling_detector cfg fs = Inr (PollingDetector p)" using new_polling_detector_ok by blast
    then show thesis using that Inl auto by (simp add: build_detector_def detector_source_def)
  next
    case (Inr d)
    then show thesis using that new_ebpf_detector_source [OF Inr] auto by (simp add: build_detector_def)
  qed
  obtain pods where pods: "build_pod_cache cfg h = Inr pods" "pods \<noteq> None \<longleftrightarrow> is_ok (cluster_cache cfg h)"
    using that auto by (cases "cluster_cache cfg h") (auto simp: build_pod_cache_def)
  show ?thesis using run_daemon_builds [OF lf det(1) pods(1)] det(2) pods(2) by auto
qed

text \<open>C30: Degradation is only ever what was asked for. A daemon told to trace runs on the eBPF detector or
  does not start, and one told to use the cluster has a pod cache or does not start. Left to
  itself it always starts on a readable host: on the traced detector exactly when that can be
  had, with a pod cache exactly when one can be built.\<close>

theorem explicit_choices_never_degrade:
  "(\<forall>a. run_daemon cfg h = Inr a \<longrightarrow>
      (dc_detector_name cfg = ''ebpf'' \<longrightarrow> dm_source (ap_daemon a) = SourceEBPF) \<and>
      (dc_detector_name cfg = ''poller'' \<longrightarrow> dm_source (ap_daemon a) = SourcePoller) \<and>
      (dc_kubernetes cfg = ''on'' \<longrightarrow> ap_pods a \<noteq> None) \<and>
      (dc_kubernetes cfg = ''off'' \<longrightarrow> ap_pods a = None)) \<and>
   (is_ok (new_logger (dc_log_level cfg) (dc_log_format cfg)) \<and> is_ok (cgroup_new (ho_cgroup h)) \<and>
      dc_detector_name cfg = ''auto'' \<and> dc_kubernetes cfg = ''auto'' \<longrightarrow>
    (\<exists>a. run_daemon cfg h = Inr a \<and>
      (dm_source (ap_daemon a) = SourceEBPF \<longleftrightarrow> is_ok (new_ebpf_detector cfg h)) \<and>
      (ap_pods a \<noteq> None \<longleftrightarrow> is_ok (cluster_cache cfg h))))"
proof (intro conjI allI impI)
  fix a assume a: "run_daemon cfg h = Inr a"
  then obtain fs det where p: "build_detector cfg fs h = Inr det" "build_pod_cache cfg h = Inr (ap_pods a)"
    "dm_source (ap_daemon a) = detector_source det"
    using run_daemon_parts by blast
  show "dm_source (ap_daemon a) = SourceEBPF" if "dc_detector_name cfg = ''ebpf''"
    using p(1,3) that new_ebpf_detector_source by (simp add: build_detector_def)
  show "dm_source (ap_daemon a) = SourcePoller" if "dc_detector_name cfg = ''poller''"
    using p(1,3) that new_polling_detector_ok [of cfg fs] by (auto simp: build_detector_def detector_source_def)
  show "ap_pods a \<noteq> None" if "dc_kubernetes cfg = ''on''"
    using p(2) that by (cases "cluster_cache cfg h") (auto simp: build_pod_cache_def dest: sym)
  show "ap_pods a = None" if "dc_kubernetes cfg = ''off''"
    using p(2) that by (simp add: build_pod_cache_def)
qed (use daemon_left_to_itself [of cfg h] in blast)

definition demo_host :: host where
  "demo_host = \<lparr>ho_cgroup = cg_root demo_v2, ho_traced = False, ho_loaded = Inl (EMsg []), ho_clock = Inr 0, ho_now = 0,
     ho_page_size = 4096, ho_node_env = [],
     ho_kube = \<lparr>kr_in_cluster = Inl (EMsg []), kr_is_not_in_cluster = (\<lambda>_. True), kr_load = (\<lambda>_. Inl (EMsg []))\<rparr>,
     ho_new_client = (\<lambda>_. Inr ()), ho_transform_err = None, ho_handler_err = None\<rparr>"

lemma demo_host_readable: "cgroup_new (cg_root demo_v2) = Inr demo_v2"
proof -
  have "is_ok (fs_stat (cg_root demo_v2) ''cgroup.controllers'')"
    by (simp add: demo_v2_def fs_stat_def fs_node_def fs_segs_def)
  then show ?thesis by (simp add: cgroup_new_def detect_version_def Let_def demo_v2_def)
qed

lemma default_logger: "new_logger (dc_log_level default_daemon_config) (dc_log_format default_daemon_config) = Inr (LevelInfo, LogText)"
  by (simp add: new_logger_def parse_level_def default_daemon_config_def go_eval)

lemma demo_host_started:
  "is_ok (new_logger (dc_log_level default_daemon_config) (dc_log_format default_daemon_config))"
  "is_ok (cgroup_new (ho_cgroup demo_host))"
  "dc_detector_name default_daemon_config = ''auto''" "dc_kubernetes default_daemon_config = ''auto''"
  by (simp_all add: default_logger demo_host_def demo_host_readable) (simp_all add: default_daemon_config_def)

theorem explicit_choices_never_degrade_witness:
  "\<exists>a. run_daemon default_daemon_config demo_host = Inr a \<and> dm_source (ap_daemon a) \<noteq> SourceEBPF \<and> ap_pods a = None"
proof -
  note demo_host_started
  moreover have "\<not> is_ok (new_ebpf_detector default_daemon_config demo_host)" "\<not> is_ok (cluster_cache default_daemon_config demo_host)"
    by (simp_all add: new_ebpf_detector_def new_ebpf_unsupported_def cluster_cache_def node_name_def demo_host_def
        default_daemon_config_def)
  ultimately have "\<exists>a. run_daemon default_daemon_config demo_host = Inr a \<and>
      (dm_source (ap_daemon a) = SourceEBPF \<longleftrightarrow> False) \<and> (ap_pods a \<noteq> None \<longleftrightarrow> False)"
    using conjunct2 [OF explicit_choices_never_degrade [of default_daemon_config demo_host]] by simp
  then show ?thesis by simp
qed

text \<open>A network on which the server answers at every address.\<close>

definition local_network :: "api_server \<Rightarrow> string list \<Rightarrow> network" where
  "local_network s path = \<lparr>nw_base_query = (\<lambda>_. Inr []),
     nw_get = (\<lambda>_ q. Inr (serve s \<lparr>rq_verb = GET, rq_path = path, rq_query = q\<rparr>))\<rparr>"

lemma inspect_query_get:
  "query_get (inspect_query cfg pod []) ''pod'' = pod"
  "query_get (inspect_query cfg pod []) ''namespace'' = ic_namespace cfg"
  "query_get (inspect_query cfg pod []) ''container'' = ic_container cfg"
  "query_get (inspect_query cfg pod []) ''limit'' = (if 0 < ic_limit cfg then itoa (ic_limit cfg) else [])"
  by (simp_all add: inspect_query_def set_if_not_empty_def query_get_def Let_def)

lemma inspect_filter:
  assumes "ic_limit cfg < 2 ^ 63"
  shows "parse_filter (inspect_query cfg pod []) = Inr \<lparr>rf_namespace = ic_namespace cfg, rf_pod = pod,
    rf_container = ic_container cfg, rf_limit = (if 0 < ic_limit cfg then ic_limit cfg else 0)\<rparr>"
proof (cases "0 < ic_limit cfg")
  case True
  then have "atoi (itoa (ic_limit cfg)) = Inr (ic_limit cfg)" using assms by (intro atoi_itoa_nonneg) simp_all
  then show ?thesis using True by (simp add: parse_filter_def inspect_query_get Let_def)
next
  case False
  then show ?thesis by (simp add: parse_filter_def inspect_query_get Let_def)
qed

lemma fetch_from_store:
  assumes "memory_api m rdy status = Inr s" "store_ok m" "ic_limit cfg < 2 ^ 63"
    "list_all json_report_ok (store_list \<lparr>rf_namespace = ic_namespace cfg, rf_pod = pod, rf_container = ic_container cfg,
       rf_limit = ic_limit cfg\<rparr> m)"
  shows "fetch_reports (local_network s [''v1'', ''events'']) cfg pod =
    Inr (map json_report (store_list \<lparr>rf_namespace = ic_namespace cfg, rf_pod = pod, rf_container = ic_container cfg,
      rf_limit = ic_limit cfg\<rparr> m))"
proof -
  define f where "f = \<lparr>rf_namespace = ic_namespace cfg, rf_pod = pod, rf_container = ic_container cfg,
      rf_limit = (if 0 < ic_limit cfg then ic_limit cfg else 0)\<rparr>"
  let ?g = "\<lparr>rf_namespace = ic_namespace cfg, rf_pod = pod, rf_container = ic_container cfg, rf_limit = ic_limit cfg\<rparr>"
  have fm: "filter_matches f = filter_matches ?g" by (rule ext) (simp add: filter_matches_def f_def)
  have same: "store_list f m = store_list ?g m"
    unfolding store_list_def fm by (simp add: f_def Let_def)
  note fields = memory_api_fields [OF assms(1)]
  have "serve s \<lparr>rq_verb = GET, rq_path = [''v1'', ''events''], rq_query = inspect_query cfg pod []\<rparr> =
      write_json 200 (ListBody (store_list f m))"
    using inspect_filter [OF assms(3), of pod] assms(4) fields
    by (simp add: serve_routes handle_list_events_def f_def [symmetric] same render_json_list_def)
  then show ?thesis
    by (simp add: fetch_reports_def local_network_def Let_def write_json_def decode_reports_def same)
qed

text \<open>What \<open>inspect\<close> asks for is what the store is asked for: through the query, the route, the
  parsing of the limit and the two codings, the reports that reach the client are the ones the store
  holds for that namespace, pod, container and limit, newest first, unchanged but for bytes of
  their texts that are no valid UTF-8.\<close>

theorem inspect_shows_what_the_store_holds:
  assumes "memory_api m rdy status = Inr s" "store_ok m" "ic_limit cfg < 2 ^ 63"
    "list_all json_report_ok (store_list \<lparr>rf_namespace = ic_namespace cfg, rf_pod = pod, rf_container = ic_container cfg,
       rf_limit = ic_limit cfg\<rparr> m)"
  shows "fetch_reports (local_network s [''v1'', ''events'']) cfg pod =
    Inr (map json_report (store_list \<lparr>rf_namespace = ic_namespace cfg, rf_pod = pod, rf_container = ic_container cfg,
      rf_limit = ic_limit cfg\<rparr> m))"
  using assms by (rule fetch_from_store)

theorem inspect_shows_what_the_store_holds_witness:
  "\<exists>s. memory_api (store_put (report_zero\<lparr>rp_id := ''a''\<rparr>) (new_memory 2)) True api_status_zero = Inr s \<and>
     (\<exists>r. fetch_reports (local_network s [''v1'', ''events'']) \<lparr>ic_daemon_addr = ''http://n:9090/'', ic_namespace = [],
        ic_container = [], ic_limit = 5, ic_format = ''text''\<rparr> [] = Inr [r])"
proof -
  let ?m = "store_put (report_zero\<lparr>rp_id := ''a''\<rparr>) (new_memory 2)"
  let ?c = "\<lparr>ic_daemon_addr = ''http://n:9090/'', ic_namespace = [], ic_container = [], ic_limit = 5, ic_format = ''text''\<rparr>"
  obtain s where s: "memory_api ?m True api_status_zero = Inr s" by (simp add: memory_api_def new_api_def Let_def)
  have ok: "store_ok ?m" using store_put_ok [OF store_ok_new] by blast
  have l: "store_list \<lparr>rf_namespace = ic_namespace ?c, rf_pod = [], rf_container = ic_container ?c, rf_limit = ic_limit ?c\<rparr> ?m =
      [report_zero\<lparr>rp_id := ''a''\<rparr>]"
    by (simp add: store_list_def store_put_def new_memory_def filter_matches_def Let_def)
  have "json_time_ok 0" using civil_examples(1) by (simp add: json_time_ok_def)
  then have "json_report_ok (report_zero\<lparr>rp_id := ''a''\<rparr>)"
    by (simp add: json_report_ok_def report_zero_def trend_zero_def)
  then have j: "list_all json_report_ok (store_list \<lparr>rf_namespace = ic_namespace ?c, rf_pod = [],
      rf_container = ic_container ?c, rf_limit = ic_limit ?c\<rparr> ?m)"
    unfolding l by simp
  have "ic_limit ?c < 2 ^ 63" by simp
  from inspect_shows_what_the_store_holds [OF s ok this j] show ?thesis
    unfolding l using s by auto
qed

end
