(* ===== verification/Detectors.thy ===== *)
theory Detectors
  imports Poller Ebpf "HOL-Library.Sublist"
begin

section \<open>The life of a detector\<close>

text \<open>
  Models how the detectors run: \<open>Start\<close>, the loop and \<open>Close\<close> of \<open>src/internal/detector/poller.go\<close> and
  \<open>ebpf_supported.go\<close> with their event channel, and the kernel objects that
  \<open>src/internal/detector/bpf/tracer_linux.go\<close> acquires and releases. Each goroutine is a step
  relation over the state it shares with its surroundings; a panic is a state of its own.
  What a pass or a record turns into is \<open>poll\<close> and \<open>enrich\<close> of the theories imported.
\<close>

subsection \<open>The event channel\<close>

text \<open>A buffered channel; \<open>ch_received\<close> is what its reader has taken out of it so far.\<close>

record 'e chan =
  ch_buffer :: "'e list"
  ch_closed :: bool
  ch_received :: "'e list"

definition event_buffer :: nat where
  "event_buffer = 64"

definition new_chan :: "'e chan" where
  "new_chan = \<lparr>ch_buffer = [], ch_closed = False, ch_received = []\<rparr>"

definition has_room :: "'e chan \<Rightarrow> bool" where
  "has_room c \<longleftrightarrow> \<not> ch_closed c \<and> length (ch_buffer c) < event_buffer"

definition send :: "'e \<Rightarrow> 'e chan \<Rightarrow> 'e chan" where
  "send e c = c\<lparr>ch_buffer := ch_buffer c @ [e]\<rparr>"

text \<open>Closing a closed channel panics (\<open>None\<close>).\<close>

definition close_chan :: "'e chan \<Rightarrow> 'e chan option" where
  "close_chan c = (if ch_closed c then None else Some (c\<lparr>ch_closed := True\<rparr>))"

inductive receive_step :: "'e chan \<Rightarrow> 'e chan \<Rightarrow> bool" where
  "ch_buffer c = e # rest \<Longrightarrow> receive_step c (c\<lparr>ch_buffer := rest, ch_received := ch_received c @ [e]\<rparr>)"

inductive_cases receive_cases: "receive_step c d"

definition published :: "'e chan \<Rightarrow> 'e list" where
  "published c = ch_received c @ ch_buffer c"

lemma published_laws [simp]:
  "published new_chan = []" "published (send e c) = published c @ [e]" "ch_closed (send e c) = ch_closed c"
  "published (c\<lparr>ch_closed := b\<rparr>) = published c" "\<not> ch_closed new_chan"
  by (simp_all add: published_def new_chan_def send_def)

lemma receive_keeps: "receive_step c d \<Longrightarrow> published d = published c \<and> ch_closed d = ch_closed c"
  by (erule receive_cases) (simp add: published_def)

subsection \<open>What a detector promises\<close>

text \<open>
  The \<open>Detector\<close> interface as its reader relies on it: however a started detector goes on, what it
  has put into its channel is in order from what it has found, and until the context is cancelled
  nothing of that is left out except what it is still about to send.
\<close>

locale event_source =
  fixes life :: "'s \<Rightarrow> 's \<Rightarrow> bool"
    and ok :: "'s \<Rightarrow> bool"
    and chan :: "'s \<Rightarrow> kill_event chan"
    and pending :: "'s \<Rightarrow> kill_event list"
    and found :: "'s \<Rightarrow> kill_event list"
    and cancelled :: "'s \<Rightarrow> bool"
  assumes life_keeps: "life s t \<Longrightarrow> ok s \<Longrightarrow> ok t"
    and ok_in_order: "ok s \<Longrightarrow> subseq (published (chan s)) (found s)"
    and ok_complete: "ok s \<Longrightarrow> \<not> cancelled s \<Longrightarrow> published (chan s) @ pending s = found s"
begin

lemma lives_keep: "life\<^sup>*\<^sup>* s t \<Longrightarrow> ok s \<Longrightarrow> ok t"
  by (induction rule: rtranclp_induct) (auto intro: life_keeps)

lemma received_in_order: "ok s \<Longrightarrow> life\<^sup>*\<^sup>* s t \<Longrightarrow> subseq (ch_received (chan t)) (found t)"
  using ok_in_order [OF lives_keep [of s t]] unfolding published_def
  by (blast intro: subseq_order.trans [OF subseq_rev_drop_many [OF subseq_order.refl]])

lemma drained_complete:
  "ok s \<Longrightarrow> life\<^sup>*\<^sup>* s t \<Longrightarrow> \<not> cancelled t \<Longrightarrow> ch_buffer (chan t) = [] \<Longrightarrow> pending t = [] \<Longrightarrow> ch_received (chan t) = found t"
  using ok_complete [OF lives_keep [of s t]] by (simp add: published_def)

end

subsection \<open>The polling detector\<close>

datatype poll_at = PollIdle | PollSelect | PollPublish "kill_event list" | PollReturned | PollPanicked

record poller_run =
  pn_at :: poll_at
  pn_poller :: poller
  pn_events :: "kill_event chan"
  pn_once :: bool
  pn_cancelled :: bool
  pn_ticks :: "(poll_view \<times> time) list"

definition poller_idle :: "poller \<Rightarrow> poller_run" where
  "poller_idle p = \<lparr>pn_at = PollIdle, pn_poller = p, pn_events = new_chan, pn_once = False, pn_cancelled = False,
     pn_ticks = []\<rparr>"

definition poller_start :: "poll_view \<Rightarrow> poller_run \<Rightarrow> err + poller_run" where
  "poller_start v s = res_bind (prime v (pn_poller s)) (\<lambda>p. Inr (s\<lparr>pn_poller := p, pn_at := PollSelect\<rparr>))"

definition poller_close :: "poller_run \<Rightarrow> poller_run" where
  "poller_close s =
     (if pn_once s then s
      else case close_chan (pn_events s) of
             None \<Rightarrow> s\<lparr>pn_once := True, pn_at := PollPanicked\<rparr>
           | Some c \<Rightarrow> s\<lparr>pn_once := True, pn_events := c\<rparr>)"

text \<open>
  The loop with the publishing of a pass: \<open>select\<close> takes any case that is ready, and a send on a
  closed channel is ready and panics.
\<close>

inductive poller_step :: "poller_run \<Rightarrow> poller_run \<Rightarrow> bool" where
  poll_cancelled: "pn_at s = PollSelect \<Longrightarrow> pn_cancelled s \<Longrightarrow> poller_step s (poller_close (s\<lparr>pn_at := PollReturned\<rparr>))"
| poll_tick: "pn_at s = PollSelect \<Longrightarrow> poll v now (pn_poller s) = Inr (events, p) \<Longrightarrow>
     poller_step s (s\<lparr>pn_at := PollPublish events, pn_poller := p, pn_ticks := pn_ticks s @ [(v, now)]\<rparr>)"
| poll_fails: "pn_at s = PollSelect \<Longrightarrow> poll v now (pn_poller s) = Inl e \<Longrightarrow>
     poller_step s (poller_close (s\<lparr>pn_at := PollReturned\<rparr>))"
| poll_published: "pn_at s = PollPublish [] \<Longrightarrow> poller_step s (s\<lparr>pn_at := PollSelect\<rparr>)"
| poll_sent: "pn_at s = PollPublish (e # events) \<Longrightarrow> has_room (pn_events s) \<Longrightarrow>
     poller_step s (s\<lparr>pn_at := PollPublish events, pn_events := send e (pn_events s)\<rparr>)"
| poll_gives_up: "pn_at s = PollPublish (e # events) \<Longrightarrow> pn_cancelled s \<Longrightarrow> poller_step s (s\<lparr>pn_at := PollSelect\<rparr>)"
| poll_panics: "pn_at s = PollPublish (e # events) \<Longrightarrow> ch_closed (pn_events s) \<Longrightarrow>
     poller_step s (s\<lparr>pn_at := PollPanicked\<rparr>)"

text \<open>What happens around it, short of a call of \<open>Close\<close>.\<close>

inductive poller_env :: "poller_run \<Rightarrow> poller_run \<Rightarrow> bool" where
  poller_env_cancel: "poller_env s (s\<lparr>pn_cancelled := True\<rparr>)"
| poller_env_receive: "receive_step (pn_events s) c \<Longrightarrow> poller_env s (s\<lparr>pn_events := c\<rparr>)"

definition poller_life :: "poller_run \<Rightarrow> poller_run \<Rightarrow> bool" where
  "poller_life s t \<longleftrightarrow> poller_step s t \<or> poller_env s t"

fun poll_pending :: "poll_at \<Rightarrow> kill_event list" where
  "poll_pending (PollPublish events) = events"
| "poll_pending _ = []"

text \<open>What the passes so far have found, in terms of the loop without its channel.\<close>

definition poll_ran :: "poller \<Rightarrow> (poll_view \<times> time) list \<Rightarrow> kill_event list \<Rightarrow> poller \<Rightarrow> bool" where
  "poll_ran p0 ticks events p \<longleftrightarrow>
     (\<forall>more. poll_loop (ticks @ more) p0 = (events @ fst (poll_loop more p), snd (poll_loop more p)))"

lemma poll_ran_start: "poll_ran p [] [] p"
  by (simp add: poll_ran_def)

lemma poll_ran_tick:
  "poll_ran p0 ticks events p \<Longrightarrow> poll v now p = Inr (new, p') \<Longrightarrow> poll_ran p0 (ticks @ [(v, now)]) (events @ new) p'"
  by (simp add: poll_ran_def)

lemma poll_ran_loop: "poll_ran p0 ticks events p \<Longrightarrow> poll_loop ticks p0 = (events, p)"
  by (metis (no_types, lifting) append_Nil2 fst_conv poll_loop.simps(1) poll_ran_def snd_conv)

definition poller_life_ok :: "poller \<Rightarrow> poller_run \<Rightarrow> bool" where
  "poller_life_ok p0 s \<longleftrightarrow>
     pn_at s \<noteq> PollPanicked \<and> pn_at s \<noteq> PollIdle \<and> (pn_once s \<longleftrightarrow> pn_at s = PollReturned) \<and>
     (ch_closed (pn_events s) \<longleftrightarrow> pn_at s = PollReturned) \<and>
     (\<exists>events. poll_ran p0 (pn_ticks s) events (pn_poller s) \<and>
        subseq (published (pn_events s) @ poll_pending (pn_at s)) events \<and>
        (\<not> pn_cancelled s \<longrightarrow> published (pn_events s) @ poll_pending (pn_at s) = events))"

lemma poller_close_open:
  "\<not> pn_once s \<Longrightarrow> \<not> ch_closed (pn_events s) \<Longrightarrow>
     poller_close s = s\<lparr>pn_once := True, pn_events := (pn_events s)\<lparr>ch_closed := True\<rparr>\<rparr>"
  by (simp add: poller_close_def close_chan_def)

lemma poller_step_ok: "poller_step s t \<Longrightarrow> poller_life_ok p0 s \<Longrightarrow> poller_life_ok p0 t"
proof (induction rule: poller_step.induct)
  case (poll_tick s v now events p)
  then obtain found where f: "poll_ran p0 (pn_ticks s) found (pn_poller s)"
    "subseq (published (pn_events s)) found" "\<not> pn_cancelled s \<longrightarrow> published (pn_events s) = found"
    by (auto simp: poller_life_ok_def)
  then show ?case
    using poll_tick poll_ran_tick [OF f(1) poll_tick(2)]
    by (auto simp: poller_life_ok_def intro!: exI [of _ "found @ events"] list_emb_append_mono)
next
  case (poll_gives_up s e events)
  then show ?case
    by (auto simp: poller_life_ok_def intro: subseq_order.trans [OF subseq_rev_drop_many] dest: list_emb_append2)
qed (auto simp: poller_life_ok_def poller_close_open has_room_def)

lemma poller_env_ok: "poller_env s t \<Longrightarrow> poller_life_ok p0 s \<Longrightarrow> poller_life_ok p0 t"
proof (induction rule: poller_env.induct)
  case (poller_env_receive s c)
  then show ?case using receive_keeps [OF poller_env_receive(1)] by (simp add: poller_life_ok_def)
qed (auto simp: poller_life_ok_def)

interpretation polling: event_source poller_life "poller_life_ok p0" pn_events "\<lambda>s. poll_pending (pn_at s)"
  "\<lambda>s. fst (poll_loop (pn_ticks s) p0)" pn_cancelled for p0
proof
  show "poller_life s t \<Longrightarrow> poller_life_ok p0 s \<Longrightarrow> poller_life_ok p0 t" for s t
    by (auto simp: poller_life_def intro: poller_step_ok poller_env_ok)
  fix s
  assume "poller_life_ok p0 s"
  then obtain events where e: "poll_loop (pn_ticks s) p0 = (events, pn_poller s)"
    "subseq (published (pn_events s) @ poll_pending (pn_at s)) events"
    "\<not> pn_cancelled s \<longrightarrow> published (pn_events s) @ poll_pending (pn_at s) = events"
    by (auto simp: poller_life_ok_def dest: poll_ran_loop)
  show "subseq (published (pn_events s)) (fst (poll_loop (pn_ticks s) p0))"
    using subseq_order.trans [OF subseq_rev_drop_many [OF subseq_order.refl] e(2)] by (simp add: e(1))
  show "published (pn_events s) @ poll_pending (pn_at s) = fst (poll_loop (pn_ticks s) p0)" if "\<not> pn_cancelled s"
    using e(3) that by (simp add: e(1))
qed

lemma poller_start_ok: "poller_start v (poller_idle p) = Inr s \<Longrightarrow> poller_life_ok (pn_poller s) s"
  by (auto simp: poller_start_def poller_idle_def poller_life_ok_def intro!: exI [of _ "[]"] poll_ran_start)


text \<open>C18: What the poller finds is what its reader gets. However ticks, sends, receives and a
  cancellation interleave, as long as the detector ends by itself it never panics, and its
  channel is closed exactly when its loop has returned. What went into the channel is, in order,
  from what the passes found, and until a cancellation it is all of it, save what the current
  pass has still to send.\<close>

theorem poller_publishes_what_it_finds:
  assumes "poller_start v (poller_idle p) = Inr s" "poller_life\<^sup>*\<^sup>* s t"
  shows "pn_at t \<noteq> PollPanicked \<and> (ch_closed (pn_events t) \<longleftrightarrow> pn_at t = PollReturned) \<and>
    subseq (published (pn_events t)) (fst (poll_loop (pn_ticks t) (pn_poller s))) \<and>
    (\<not> pn_cancelled t \<longrightarrow>
       published (pn_events t) @ poll_pending (pn_at t) = fst (poll_loop (pn_ticks t) (pn_poller s)))"
proof -
  have ok: "poller_life_ok (pn_poller s) t" using polling.lives_keep [OF assms(2) poller_start_ok [OF assms(1)]] .
  then show ?thesis using polling.ok_in_order [OF ok] polling.ok_complete [OF ok] by (simp add: poller_life_ok_def)
qed

text \<open>
  A \<open>Close\<close> from outside is not so harmless: \<open>runDaemon\<close> calls it when it returns, without waiting
  for the poller's loop. When that is still publishing, its next send panics.
\<close>

lemma close_while_publishing_panics:
  assumes "poller_start v (poller_idle p) = Inr s" "poller_life\<^sup>*\<^sup>* s t" "pn_at t = PollPublish (e # events)"
  shows "\<exists>u. poller_step (poller_close (t\<lparr>pn_cancelled := True\<rparr>)) u \<and> pn_at u = PollPanicked"
proof -
  have "poller_life_ok (pn_poller s) t" using polling.lives_keep [OF assms(2) poller_start_ok [OF assms(1)]] .
  then have "poller_close (t\<lparr>pn_cancelled := True\<rparr>) =
      t\<lparr>pn_cancelled := True, pn_once := True, pn_events := (pn_events t)\<lparr>ch_closed := True\<rparr>\<rparr>"
    using assms(3) by (simp add: poller_close_open poller_life_ok_def)
  then show ?thesis using poll_panics [of "poller_close (t\<lparr>pn_cancelled := True\<rparr>)" e events] assms(3) by fastforce
qed

subsection \<open>The tracer and what it holds of the kernel\<close>

datatype kernel_object = TracerObjects | TracerKprobe | TracerRingBuffer

record tracer =
  tc_has_reader :: bool
  tc_has_kprobe :: bool

text \<open>
  \<open>tl_\<close> fields are the outcomes of raising the limit, loading, attaching and opening; a closing
  call may report an error and releases its object all the same.
\<close>

record tracer_loading =
  tl_memlock :: "err option"
  tl_objects :: "err + unit"
  tl_kprobe :: "err + unit"
  tl_reader :: "err + unit"

definition tracer_load :: "tracer_loading \<Rightarrow> kernel_object list \<Rightarrow> (err + tracer) \<times> kernel_object list" where
  "tracer_load l held =
     (case tl_objects l of
        Inl e \<Rightarrow>
          (Inl (EMsg (if tl_memlock l \<noteq> None then ''loading oom tracer: memlock limit was not raised''
                      else ''loading oom tracer'')), held)
      | Inr _ \<Rightarrow>
          let held = TracerObjects # held in
          case tl_kprobe l of
            Inl e \<Rightarrow> (Inl (EMsg ''attaching kprobe''), remove1 TracerObjects held)
          | Inr _ \<Rightarrow>
              let held = TracerKprobe # held in
              case tl_reader l of
                Inl e \<Rightarrow> (Inl (EMsg ''opening ring buffer''), remove1 TracerObjects (remove1 TracerKprobe held))
              | Inr _ \<Rightarrow> (Inr \<lparr>tc_has_reader = True, tc_has_kprobe = True\<rparr>, TracerRingBuffer # held))"

definition tracer_close :: "tracer \<Rightarrow> kernel_object list \<Rightarrow> kernel_object list" where
  "tracer_close tr held =
     (let held = (if tc_has_reader tr then remove1 TracerRingBuffer held else held);
          held = (if tc_has_kprobe tr then remove1 TracerKprobe held else held)
      in remove1 TracerObjects held)"

text \<open>\<open>NewEBPF\<close> once more, with the tracer it loads and has to close when it fails later.\<close>

definition new_ebpf_tracer :: "ebpf_options \<Rightarrow> tracer_loading \<Rightarrow> err + int \<Rightarrow> time \<Rightarrow> int \<Rightarrow> kernel_object list \<Rightarrow>
    (err + ebpf \<times> tracer) \<times> kernel_object list" where
  "new_ebpf_tracer opts l clock now page_size held =
     (if eo_cgroup_root opts = [] then (Inl (EMsg ''ebpf detector requires a cgroup root''), held)
      else case tracer_load l held of
             (Inl e, held) \<Rightarrow> (Inl EEBPFUnsupported, held)
           | (Inr tr, held) \<Rightarrow>
               if bpf_event_size \<noteq> event_size then (Inl EEBPFUnsupported, tracer_close tr held)
               else case monotonic_origin clock now of
                      Inl e \<Rightarrow> (Inl e, tracer_close tr held)
                    | Inr boot \<Rightarrow>
                        (Inr (\<lparr>eb_has_cgroup = eo_has_cgroup opts, eb_has_proc = eo_has_proc opts, eb_index = [],
                           eb_page_size = page_size, eb_boot_time = boot\<rparr>, tr), held))"

definition whole_tracer :: tracer where
  "whole_tracer = \<lparr>tc_has_reader = True, tc_has_kprobe = True\<rparr>"

definition traced_objects :: "kernel_object list" where
  "traced_objects = [TracerRingBuffer, TracerKprobe, TracerObjects]"

lemma tracer_close_whole: "tracer_close whole_tracer (traced_objects @ held) = held"
  by (simp add: tracer_close_def whole_tracer_def traced_objects_def Let_def)

lemma tracer_load_cases:
  "(\<exists>e. tracer_load l held = (Inl e, held)) \<or> tracer_load l held = (Inr whole_tracer, traced_objects @ held)"
  by (simp add: tracer_load_def whole_tracer_def traced_objects_def Let_def split: sum.split)

text \<open>C21: A detector that cannot start leaves nothing behind. Whichever step of loading, attaching,
  opening, checking or reading the clock fails, every kernel object acquired before it has been
  released; a detector that starts holds exactly the program, the probe and the ring buffer, and
  closing it releases these three. Apart from that it is the constructor without its objects.\<close>

theorem failed_start_leaks_nothing:
  "case new_ebpf_tracer opts l clock now page_size held of
     (Inl e, held') \<Rightarrow> held' = held \<and> new_ebpf opts (map_sum id (\<lambda>_. ()) (fst (tracer_load l held))) clock now page_size = Inl e
   | (Inr (d, tr), held') \<Rightarrow> held' = traced_objects @ held \<and> tracer_close tr held' = held \<and>
       new_ebpf opts (map_sum id (\<lambda>_. ()) (fst (tracer_load l held))) clock now page_size = Inr d"
  using tracer_load_cases [of l held] tracer_close_whole [of held]
  by (cases clock) (auto simp: new_ebpf_tracer_def new_ebpf_def monotonic_origin_def split: sum.split)

subsection \<open>The tracing detector\<close>

datatype trace_at = TraceIdle | TraceRead | TraceSend kill_event | TraceReturned | TracePanicked

text \<open>
  \<open>er_watching\<close> is the goroutine that closes the detector when the context is done, \<open>er_done\<close> the
  channel that releases it, and \<open>er_held\<close> what the tracer holds of the kernel.
\<close>

record ebpf_run =
  er_at :: trace_at
  er_watching :: bool
  er_detector :: ebpf
  er_tracer :: tracer
  er_events :: "kill_event chan"
  er_done :: "unit chan"
  er_once :: bool
  er_cancelled :: bool
  er_held :: "kernel_object list"
  er_samples :: "(trace_view \<times> string) list"

definition ebpf_idle :: "ebpf \<Rightarrow> tracer \<Rightarrow> kernel_object list \<Rightarrow> ebpf_run" where
  "ebpf_idle d tr held = \<lparr>er_at = TraceIdle, er_watching = False, er_detector = d, er_tracer = tr, er_events = new_chan,
     er_done = new_chan, er_once = False, er_cancelled = False, er_held = held, er_samples = []\<rparr>"

definition ebpf_start :: "ebpf_run \<Rightarrow> ebpf_run" where
  "ebpf_start s = s\<lparr>er_watching := True, er_at := TraceRead\<rparr>"

definition ebpf_close :: "ebpf_run \<Rightarrow> ebpf_run" where
  "ebpf_close s =
     (if er_once s then s
      else case close_chan (er_done s) of
             None \<Rightarrow> s\<lparr>er_once := True, er_at := TracePanicked\<rparr>
           | Some c \<Rightarrow> s\<lparr>er_once := True, er_done := c, er_held := tracer_close (er_tracer s) (er_held s)\<rparr>)"

text \<open>The deferred \<open>close(d.events)\<close> as the loop returns.\<close>

definition trace_return :: "ebpf_run \<Rightarrow> ebpf_run" where
  "trace_return s =
     (case close_chan (er_events s) of
        None \<Rightarrow> s\<lparr>er_at := TracePanicked\<rparr>
      | Some c \<Rightarrow> s\<lparr>er_at := TraceReturned, er_events := c\<rparr>)"

text \<open>
  The loop and the watching goroutine. A read can fail at any time, and once the ring buffer is
  closed it can only fail.
\<close>

inductive trace_step :: "ebpf_run \<Rightarrow> ebpf_run \<Rightarrow> bool" where
  trace_read_fails: "er_at s = TraceRead \<Longrightarrow> trace_step s (trace_return s)"
| trace_malformed: "er_at s = TraceRead \<Longrightarrow> TracerRingBuffer \<in> set (er_held s) \<Longrightarrow> decode_event sample = Inl e \<Longrightarrow>
     trace_step s (s\<lparr>er_samples := er_samples s @ [(v, sample)]\<rparr>)"
| trace_sample: "er_at s = TraceRead \<Longrightarrow> TracerRingBuffer \<in> set (er_held s) \<Longrightarrow> decode_event sample = Inr raw \<Longrightarrow>
     enrich v raw (er_detector s) = (event, d) \<Longrightarrow>
     trace_step s (s\<lparr>er_at := TraceSend event, er_detector := d, er_samples := er_samples s @ [(v, sample)]\<rparr>)"
| trace_sent: "er_at s = TraceSend event \<Longrightarrow> has_room (er_events s) \<Longrightarrow>
     trace_step s (s\<lparr>er_at := TraceRead, er_events := send event (er_events s)\<rparr>)"
| trace_gives_up: "er_at s = TraceSend event \<Longrightarrow> er_cancelled s \<Longrightarrow> trace_step s (trace_return s)"
| trace_panics: "er_at s = TraceSend event \<Longrightarrow> ch_closed (er_events s) \<Longrightarrow> trace_step s (s\<lparr>er_at := TracePanicked\<rparr>)"
| watch_cancelled: "er_watching s \<Longrightarrow> er_cancelled s \<Longrightarrow> trace_step s (ebpf_close (s\<lparr>er_watching := False\<rparr>))"
| watch_done: "er_watching s \<Longrightarrow> ch_closed (er_done s) \<Longrightarrow> trace_step s (s\<lparr>er_watching := False\<rparr>)"

text \<open>Around it \<open>Close\<close> may be called at any time, and any number of times.\<close>

inductive trace_env :: "ebpf_run \<Rightarrow> ebpf_run \<Rightarrow> bool" where
  trace_env_cancel: "trace_env s (s\<lparr>er_cancelled := True\<rparr>)"
| trace_env_receive: "receive_step (er_events s) c \<Longrightarrow> trace_env s (s\<lparr>er_events := c\<rparr>)"
| trace_env_close: "trace_env s (ebpf_close s)"

definition trace_life :: "ebpf_run \<Rightarrow> ebpf_run \<Rightarrow> bool" where
  "trace_life s t \<longleftrightarrow> trace_step s t \<or> trace_env s t"

fun trace_pending :: "trace_at \<Rightarrow> kill_event list" where
  "trace_pending (TraceSend event) = [event]"
| "trace_pending _ = []"

definition trace_ran :: "ebpf \<Rightarrow> (trace_view \<times> string) list \<Rightarrow> kill_event list \<Rightarrow> ebpf \<Rightarrow> bool" where
  "trace_ran d0 samples events d \<longleftrightarrow>
     (\<forall>more. trace_loop (samples @ more) d0 = (events @ fst (trace_loop more d), snd (trace_loop more d)))"

lemma trace_ran_start: "trace_ran d [] [] d"
  by (simp add: trace_ran_def)

lemma trace_ran_malformed:
  "trace_ran d0 samples events d \<Longrightarrow> decode_event sample = Inl e \<Longrightarrow> trace_ran d0 (samples @ [(v, sample)]) events d"
  by (simp add: trace_ran_def)

lemma trace_ran_sample:
  "trace_ran d0 samples events d \<Longrightarrow> decode_event sample = Inr raw \<Longrightarrow> enrich v raw d = (event, d') \<Longrightarrow>
     trace_ran d0 (samples @ [(v, sample)]) (events @ [event]) d'"
  by (simp add: trace_ran_def split_def Let_def)

lemma trace_ran_loop: "trace_ran d0 samples events d \<Longrightarrow> trace_loop samples d0 = (events, d)"
  by (metis (no_types, lifting) append_Nil2 fst_conv trace_loop.simps(1) trace_ran_def snd_conv)

definition trace_life_ok :: "ebpf \<Rightarrow> ebpf_run \<Rightarrow> bool" where
  "trace_life_ok d0 s \<longleftrightarrow>
     er_at s \<noteq> TracePanicked \<and> er_at s \<noteq> TraceIdle \<and> (ch_closed (er_events s) \<longleftrightarrow> er_at s = TraceReturned) \<and>
     (er_once s \<longleftrightarrow> ch_closed (er_done s)) \<and> (er_watching s \<or> er_once s) \<and> er_tracer s = whole_tracer \<and>
     er_held s = (if er_once s then [] else traced_objects) \<and>
     (\<exists>events. trace_ran d0 (er_samples s) events (er_detector s) \<and>
        (published (er_events s) @ trace_pending (er_at s) = events \<or>
         er_at s = TraceReturned \<and> er_cancelled s \<and> (\<exists>e. published (er_events s) @ [e] = events)))"

lemma trace_return_open:
  "\<not> ch_closed (er_events s) \<Longrightarrow>
     trace_return s = s\<lparr>er_at := TraceReturned, er_events := (er_events s)\<lparr>ch_closed := True\<rparr>\<rparr>"
  by (simp add: trace_return_def close_chan_def)

lemma ebpf_close_open:
  "er_once s = ch_closed (er_done s) \<Longrightarrow>
     ebpf_close s = (if er_once s then s
       else s\<lparr>er_once := True, er_done := (er_done s)\<lparr>ch_closed := True\<rparr>,
         er_held := tracer_close (er_tracer s) (er_held s)\<rparr>)"
  by (simp add: ebpf_close_def close_chan_def)

lemma close_traced: "tracer_close whole_tracer traced_objects = []"
  using tracer_close_whole [of "[]"] by simp

lemma ebpf_close_ok:
  assumes "trace_life_ok d0 s"
  shows "trace_life_ok d0 (ebpf_close s) \<and> trace_life_ok d0 (ebpf_close (s\<lparr>er_watching := False\<rparr>))"
  using assms by (simp add: trace_life_ok_def ebpf_close_open close_traced)

lemma trace_step_ok: "trace_step s t \<Longrightarrow> trace_life_ok d0 s \<Longrightarrow> trace_life_ok d0 t"
proof (induction rule: trace_step.induct)
  case (trace_malformed s sample e v)
  then show ?case using trace_ran_malformed [OF _ trace_malformed(3)] by (fastforce simp: trace_life_ok_def)
next
  case (trace_sample s sample raw v event d)
  then show ?case using trace_ran_sample [OF _ trace_sample(3,4)] by (fastforce simp: trace_life_ok_def)
next
  case (watch_cancelled s)
  then show ?case using ebpf_close_ok by blast
qed (auto simp: trace_life_ok_def trace_return_open has_room_def)

lemma trace_env_ok: "trace_env s t \<Longrightarrow> trace_life_ok d0 s \<Longrightarrow> trace_life_ok d0 t"
proof (induction rule: trace_env.induct)
  case (trace_env_receive s c)
  then show ?case using receive_keeps [OF trace_env_receive(1)] unfolding trace_life_ok_def by fastforce
next
  case (trace_env_close s)
  then show ?case using ebpf_close_ok by blast
qed (auto simp: trace_life_ok_def)

interpretation tracing: event_source trace_life "trace_life_ok d0" er_events "\<lambda>s. trace_pending (er_at s)"
  "\<lambda>s. fst (trace_loop (er_samples s) d0)" er_cancelled for d0
proof
  show "trace_life s t \<Longrightarrow> trace_life_ok d0 s \<Longrightarrow> trace_life_ok d0 t" for s t
    by (auto simp: trace_life_def intro: trace_step_ok trace_env_ok)
  fix s
  assume "trace_life_ok d0 s"
  then have *: "published (er_events s) @ trace_pending (er_at s) = fst (trace_loop (er_samples s) d0) \<or>
      er_cancelled s \<and> (\<exists>e. published (er_events s) @ [e] = fst (trace_loop (er_samples s) d0))"
    by (auto simp: trace_life_ok_def dest!: trace_ran_loop)
  then show "subseq (published (er_events s)) (fst (trace_loop (er_samples s) d0))"
    by (metis subseq_order.refl subseq_rev_drop_many)
  show "published (er_events s) @ trace_pending (er_at s) = fst (trace_loop (er_samples s) d0)" if "\<not> er_cancelled s"
    using * that by blast
qed

lemma new_ebpf_tracer_whole:
  "new_ebpf_tracer opts l clock now page_size [] = (Inr (d, tr), held) \<Longrightarrow> tr = whole_tracer \<and> held = traced_objects"
  using tracer_load_cases [of l "[]"]
  by (cases clock) (auto simp: new_ebpf_tracer_def monotonic_origin_def split: if_splits)

lemma ebpf_start_ok:
  "new_ebpf_tracer opts l clock now page_size [] = (Inr (d, tr), held) \<Longrightarrow> trace_life_ok d (ebpf_start (ebpf_idle d tr held))"
  using trace_ran_start [of d]
  by (auto simp: trace_life_ok_def ebpf_start_def ebpf_idle_def dest!: new_ebpf_tracer_whole)

text \<open>C19: Tracing survives every interleaving. Whenever the context is cancelled, whenever \<open>Close\<close> is
  called and however often, the tracing detector never panics. Its channel is closed exactly
  when its loop has returned, the kernel objects are held exactly until the first close, and
  every sample read has its event sent, in order, or about to be sent: at most the one a
  cancellation interrupted is lost.\<close>

theorem tracing_survives_every_interleaving:
  assumes "new_ebpf_tracer opts l clock now page_size [] = (Inr (d, tr), held)"
    and "trace_life\<^sup>*\<^sup>* (ebpf_start (ebpf_idle d tr held)) t"
  shows "er_at t \<noteq> TracePanicked \<and> (ch_closed (er_events t) \<longleftrightarrow> er_at t = TraceReturned) \<and>
    er_held t = (if er_once t then [] else traced_objects) \<and>
    (published (er_events t) @ trace_pending (er_at t) = fst (trace_loop (er_samples t) d) \<or>
     er_cancelled t \<and> (\<exists>e. published (er_events t) @ [e] = fst (trace_loop (er_samples t) d)))"
proof -
  have ok: "trace_life_ok d t" using tracing.lives_keep [OF assms(2) ebpf_start_ok [OF assms(1)]] .
  then show ?thesis by (auto simp: trace_life_ok_def dest!: trace_ran_loop)
qed

text \<open>How many steps a closed and cancelled detector still has.\<close>

definition trace_left :: "ebpf_run \<Rightarrow> nat" where
  "trace_left s = (case er_at s of TraceRead \<Rightarrow> 1 | TraceSend _ \<Rightarrow> 2 | _ \<Rightarrow> 0) + (if er_watching s then 1 else 0)"

definition trace_stopping :: "ebpf \<Rightarrow> ebpf_run \<Rightarrow> bool" where
  "trace_stopping d0 s \<longleftrightarrow> trace_life_ok d0 s \<and> er_once s \<and> er_cancelled s"

lemma trace_stopping_step: "trace_step s t \<Longrightarrow> trace_stopping d0 s \<Longrightarrow> trace_stopping d0 t \<and> trace_left t < trace_left s"
proof -
  assume st: "trace_step s t" and s: "trace_stopping d0 s"
  have ok: "trace_life_ok d0 t" using trace_step_ok [OF st] s by (simp add: trace_stopping_def)
  have "er_once t \<and> er_cancelled t \<and> trace_left t < trace_left s" using st s
    by (induction rule: trace_step.induct)
      (auto simp: trace_stopping_def trace_life_ok_def trace_return_open ebpf_close_open trace_left_def)
  then show ?thesis using ok by (simp add: trace_stopping_def)
qed

lemma trace_stopping_steps:
  "(trace_step ^^ n) s t \<Longrightarrow> trace_stopping d0 s \<Longrightarrow> trace_stopping d0 t \<and> n + trace_left t \<le> trace_left s"
proof (induction n arbitrary: t)
  case (Suc n)
  then obtain u where "(trace_step ^^ n) s u" "trace_step u t" by auto
  then show ?case using Suc.IH [of u] Suc.prems(2) trace_stopping_step [of u t d0] by auto
qed simp

lemma trace_stopping_progress:
  assumes "trace_stopping d0 s"
  shows "(\<exists>t. trace_step s t) \<longleftrightarrow> er_at s \<noteq> TraceReturned \<or> er_watching s"
proof
  assume "er_at s \<noteq> TraceReturned \<or> er_watching s"
  then show "\<exists>t. trace_step s t"
    using assms trace_read_fails [of s] trace_gives_up [of s] watch_done [of s]
    by (cases "er_at s") (auto simp: trace_stopping_def trace_life_ok_def)
qed (use assms in \<open>auto simp: trace_stopping_def trace_life_ok_def elim!: trace_step.cases\<close>)

text \<open>C20: A cancelled tracer goes away. While the probe is still attached a cancellation lets the
  watching goroutine close it; from then on the goroutines have at most three steps left, in
  whatever order they are taken and though nobody reads the channel any more, and none of them
  is stuck before the loop has returned and the watcher is gone.\<close>

theorem cancelled_tracer_goes_away:
  assumes "new_ebpf_tracer opts l clock now page_size [] = (Inr (d, tr), held)"
    and "trace_life\<^sup>*\<^sup>* (ebpf_start (ebpf_idle d tr held)) s" "er_cancelled s"
  shows "(\<not> er_once s \<longrightarrow> (\<exists>t. trace_step s t \<and> er_once t)) \<and>
    (er_once s \<and> (trace_step ^^ n) s t \<longrightarrow>
       n \<le> 3 \<and> ((\<exists>u. trace_step t u) \<longleftrightarrow> er_at t \<noteq> TraceReturned \<or> er_watching t))"
proof (intro conjI impI)
  have ok: "trace_life_ok d s" using tracing.lives_keep [OF assms(2) ebpf_start_ok [OF assms(1)]] .
  show "\<exists>t. trace_step s t \<and> er_once t" if "\<not> er_once s"
    using watch_cancelled [of s] assms(3) ok that
    by (intro exI [of _ "ebpf_close (s\<lparr>er_watching := False\<rparr>)"]) (simp add: trace_life_ok_def ebpf_close_open)
  fix x
  assume "er_once s \<and> (trace_step ^^ n) s t"
  then have *: "trace_stopping d t" "n + trace_left t \<le> trace_left s"
    using trace_stopping_steps [of n s t d] ok assms(3) by (auto simp: trace_stopping_def)
  show "(\<exists>u. trace_step t u) \<longleftrightarrow> er_at t \<noteq> TraceReturned \<or> er_watching t" by (rule trace_stopping_progress [OF *(1)])
  have "trace_left s \<le> 3" by (simp add: trace_left_def split: trace_at.split)
  then show "n \<le> 3" using *(2) by simp
qed

subsection \<open>Runs of both detectors\<close>

definition demo_loading :: tracer_loading where
  "demo_loading = \<lparr>tl_memlock = None, tl_objects = Inr (), tl_kprobe = Inr (), tl_reader = Inr ()\<rparr>"

lemma demo_loaded:
  "new_ebpf_tracer \<lparr>eo_cgroup_root = ''/'', eo_has_cgroup = False, eo_has_proc = False\<rparr> demo_loading (Inr 5) 9 4096 [] =
     (Inr (\<lparr>eb_has_cgroup = False, eb_has_proc = False, eb_index = [], eb_page_size = 4096, eb_boot_time = 4\<rparr>, whole_tracer),
      traced_objects)"
  by (simp add: new_ebpf_tracer_def demo_loading_def tracer_load_def monotonic_origin_def whole_tracer_def traced_objects_def
      bpf_event_size_def event_size_def)

definition demo_traced :: ebpf_run where
  "demo_traced = ebpf_start (ebpf_idle \<lparr>eb_has_cgroup = False, eb_has_proc = False, eb_index = [], eb_page_size = 4096,
     eb_boot_time = 4\<rparr> whole_tracer traced_objects)"

lemma demo_cancelled: "trace_life\<^sup>*\<^sup>* demo_traced (demo_traced\<lparr>er_cancelled := True\<rparr>)"
  using trace_env_cancel [of demo_traced] by (auto simp: trace_life_def)

lemma demo_closed: "trace_life\<^sup>*\<^sup>* demo_traced (ebpf_close (demo_traced\<lparr>er_cancelled := True\<rparr>))"
  using demo_cancelled trace_env_close [of "demo_traced\<lparr>er_cancelled := True\<rparr>"]
  by (auto simp: trace_life_def intro: rtranclp.rtrancl_into_rtrancl)

theorem tracing_survives_every_interleaving_witness:
  "er_held (ebpf_close (demo_traced\<lparr>er_cancelled := True\<rparr>)) = [] \<and>
   \<not> ch_closed (er_events (ebpf_close (demo_traced\<lparr>er_cancelled := True\<rparr>)))"
proof -
  have "er_once (ebpf_close (demo_traced\<lparr>er_cancelled := True\<rparr>))"
    "er_at (ebpf_close (demo_traced\<lparr>er_cancelled := True\<rparr>)) = TraceRead"
    by (simp_all add: ebpf_close_open demo_traced_def ebpf_start_def ebpf_idle_def)
  then show ?thesis
    using tracing_survives_every_interleaving [OF demo_loaded demo_closed [unfolded demo_traced_def]]
    by (simp add: demo_traced_def)
qed

theorem cancelled_tracer_goes_away_witness:
  "\<exists>t. trace_step (demo_traced\<lparr>er_cancelled := True\<rparr>) t \<and> er_once t"
proof -
  have "\<not> er_once (demo_traced\<lparr>er_cancelled := True\<rparr>)"
    by (simp add: demo_traced_def ebpf_start_def ebpf_idle_def)
  then show ?thesis
    using conjunct1 [OF cancelled_tracer_goes_away [OF demo_loaded demo_cancelled [unfolded demo_traced_def]]]
    by (simp add: demo_traced_def)
qed

text \<open>A pass that has begun to publish can get everything to a reader that keeps up.\<close>

lemma poller_drains:
  "pn_at s = PollPublish events \<Longrightarrow> \<not> ch_closed (pn_events s) \<Longrightarrow> ch_buffer (pn_events s) = [] \<Longrightarrow>
     \<exists>t. poller_life\<^sup>*\<^sup>* s t \<and> pn_at t = PollPublish [] \<and> ch_buffer (pn_events t) = [] \<and>
       ch_received (pn_events t) = ch_received (pn_events s) @ events \<and> pn_cancelled t = pn_cancelled s \<and> pn_ticks t = pn_ticks s"
proof (induction events arbitrary: s)
  case Nil
  then show ?case by (intro exI [of _ s]) simp
next
  case (Cons e events)
  let ?c = "send e (pn_events s)"
  let ?t = "s\<lparr>pn_at := PollPublish events, pn_events := ?c\<rparr>"
  let ?d = "?c\<lparr>ch_buffer := [], ch_received := ch_received ?c @ [e]\<rparr>"
  have "poller_step s ?t" using Cons.prems by (intro poll_sent) (simp_all add: has_room_def event_buffer_def)
  moreover have "receive_step (pn_events ?t) ?d"
    using receive_step.intros [of ?c e "[]"] Cons.prems by (simp add: send_def)
  then have "poller_env ?t (?t\<lparr>pn_events := ?d\<rparr>)" by (rule poller_env_receive)
  ultimately have two: "poller_life\<^sup>*\<^sup>* s (?t\<lparr>pn_events := ?d\<rparr>)"
    unfolding poller_life_def by (intro rtranclp.rtrancl_into_rtrancl [OF r_into_rtranclp]) blast+
  have u: "pn_at (?t\<lparr>pn_events := ?d\<rparr>) = PollPublish events" "\<not> ch_closed (pn_events (?t\<lparr>pn_events := ?d\<rparr>))"
    "ch_buffer (pn_events (?t\<lparr>pn_events := ?d\<rparr>)) = []"
    using Cons.prems by simp_all
  obtain t where t: "poller_life\<^sup>*\<^sup>* (?t\<lparr>pn_events := ?d\<rparr>) t" "pn_at t = PollPublish []" "ch_buffer (pn_events t) = []"
    "ch_received (pn_events t) = ch_received ?d @ events" "pn_cancelled t = pn_cancelled s" "pn_ticks t = pn_ticks s"
    using Cons.IH [OF u] by (elim exE conjE) (rule that, assumption, assumption, assumption, simp_all)
  then show ?case using rtranclp_trans [OF two t(1)] by (intro exI [of _ t]) (simp add: send_def)
qed

text \<open>A poller whose counter has risen from 3 to 5 since the start, about to publish that.\<close>

definition demo_passes :: "poller \<Rightarrow> kill_event list \<Rightarrow> poller_run \<Rightarrow> poller_run \<Rightarrow> bool" where
  "demo_passes p0 events s t \<longleftrightarrow> poller_start (demo_view ''3'') (poller_idle p0) = Inr s \<and> poller_life\<^sup>*\<^sup>* s t \<and>
     \<not> pn_cancelled t \<and> pn_at t = PollPublish events \<and> pn_ticks t = [(demo_view ''5'', 10)] \<and>
     pn_events t = new_chan \<and>
     map ke_kill_count (events_of ''/pod'' (fst (poll_loop [(demo_view ''5'', 10)] (pn_poller s)))) = [5] \<and>
     map ke_kill_count (events_of ''/pod'' events) = [5] \<and>
     (\<exists>found p. discover demo_v2 [] = Inr found \<and> events = fst (detect_paths (demo_view ''5'') 10 found p))"

lemma demo_publishing:
  assumes "pl_prefix p0 = []" "map_wf (pl_counters p0)"
  shows "\<exists>s t events. demo_passes p0 events s t"
proof -
  have k: "kills_of (demo_view ''3'') ''/pod'' = Some 3" "kills_of (demo_view ''5'') ''/pod'' = Some 5"
    by (rule demo_kills; simp add: show_nat.simps digit_char_eval)+
  obtain found where found: "discover demo_v2 [] = Inr found" "''/pod'' \<in> set found" using demo_found by blast
  have walk: "pv_walk (demo_view x) = demo_v2" for x by (simp add: demo_view_def)
  define c where "c = prime_counters (demo_view ''3'') found p0"
  define p1 where "p1 = refresh_snapshots (demo_view ''3'') found c"
  have c: "pl_prefix c = []" "map_wf (pl_counters c)" "map_get (pl_counters c) ''/pod'' = Some 3"
    using prime_counters_keeps [of "demo_view ''3''" found p0] prime_counters_get [of "demo_view ''3''" found p0]
      found(2) k(1) assms by (simp_all add: c_def)
  have p1: "pl_prefix p1 = []" "map_wf (pl_counters p1)" "map_get (pl_counters p1) ''/pod'' = Some 3"
    using refresh_counters [of "demo_view ''3''" found c] c by (simp_all add: p1_def)
  define s where "s = (poller_idle p0)\<lparr>pn_poller := p1, pn_at := PollSelect\<rparr>"
  have start: "poller_start (demo_view ''3'') (poller_idle p0) = Inr s"
    by (simp add: poller_start_def prime_def s_def p1_def c_def walk assms(1) found(1) poller_idle_def)
  define events where "events = fst (detect_paths (demo_view ''5'') 10 found p1)"
  obtain p2 where poll: "poll (demo_view ''5'') 10 p1 = Inr (events, p2)"
    using found(1) p1(1) by (simp add: poll_def walk split_def Let_def events_def)
  define t where "t = s\<lparr>pn_at := PollPublish events, pn_poller := p2, pn_ticks := pn_ticks s @ [(demo_view ''5'', 10)]\<rparr>"
  have "poller_step s t" unfolding t_def using poll by (intro poll_tick) (simp_all add: s_def)
  then have life: "poller_life\<^sup>*\<^sup>* s t" by (auto simp: poller_life_def)
  have w: "list_all2 (watched (pl_prefix p1) ''/pod'') [(demo_view ''5'', 10)] [5]"
    using found k(2) by (simp add: watched_def walk p1(1))
  have "sorted [3 :: u64, 5]" by simp
  then have "map ke_kill_count (events_of ''/pod'' (fst (poll_loop [(demo_view ''5'', 10)] p1))) = [5]"
    using poll_loop_counts [OF p1(2,3) w] by simp
  moreover from this have "map ke_kill_count (events_of ''/pod'' events) = [5]" using poll by simp
  ultimately have "demo_passes p0 events s t"
    unfolding demo_passes_def using start life found(1) events_def by (auto simp: t_def s_def poller_idle_def)
  then show ?thesis by blast
qed

lemma demo_poller_plain: "pl_prefix demo_poller = []" "map_wf (pl_counters demo_poller)"
  by (simp_all add: demo_poller_def map_wf_def map_keys_def)

theorem poller_publishes_what_it_finds_witness:
  "\<exists>s t. poller_start (demo_view ''3'') (poller_idle demo_poller) = Inr s \<and> poller_life\<^sup>*\<^sup>* s t \<and>
     map ke_kill_count (events_of ''/pod'' (published (pn_events t) @ poll_pending (pn_at t))) = [5]"
proof -
  obtain s t events where "demo_passes demo_poller events s t" using demo_publishing [OF demo_poller_plain] by blast
  then have d: "poller_start (demo_view ''3'') (poller_idle demo_poller) = Inr s" "poller_life\<^sup>*\<^sup>* s t"
    "\<not> pn_cancelled t" "pn_at t = PollPublish events" "pn_ticks t = [(demo_view ''5'', 10)]"
    "map ke_kill_count (events_of ''/pod'' (fst (poll_loop [(demo_view ''5'', 10)] (pn_poller s)))) = [5]"
    "map ke_kill_count (events_of ''/pod'' events) = [5]"
    by (simp_all add: demo_passes_def)
  have "published (pn_events t) @ poll_pending (pn_at t) = fst (poll_loop [(demo_view ''5'', 10)] (pn_poller s))"
    using poller_publishes_what_it_finds [OF d(1,2)] d(3,5) by simp
  then show ?thesis using d(1,2,6) by (intro exI [of _ s] exI [of _ t]) simp
qed

text \<open>Such a poller panics when the daemon is stopped just then.\<close>

lemma shutdown_can_panic:
  "\<exists>s t u. poller_start (demo_view ''3'') (poller_idle demo_poller) = Inr s \<and> poller_life\<^sup>*\<^sup>* s t \<and>
     poller_step (poller_close (t\<lparr>pn_cancelled := True\<rparr>)) u \<and> pn_at u = PollPanicked"
proof -
  obtain s t events where "demo_passes demo_poller events s t" using demo_publishing [OF demo_poller_plain] by blast
  then have d: "poller_start (demo_view ''3'') (poller_idle demo_poller) = Inr s" "poller_life\<^sup>*\<^sup>* s t"
    "\<not> pn_cancelled t" "pn_at t = PollPublish events" "pn_ticks t = [(demo_view ''5'', 10)]"
    "map ke_kill_count (events_of ''/pod'' (fst (poll_loop [(demo_view ''5'', 10)] (pn_poller s)))) = [5]"
    "map ke_kill_count (events_of ''/pod'' events) = [5]"
    by (simp_all add: demo_passes_def)
  obtain e rest where "events = e # rest" using d(7) by (cases events) (auto simp: events_of_def)
  then obtain u where "poller_step (poller_close (t\<lparr>pn_cancelled := True\<rparr>)) u" "pn_at u = PollPanicked"
    using close_while_publishing_panics [OF d(1,2)] d(4) by metis
  then show ?thesis using d(1,2) by (intro exI conjI)
qed

end
