(* ===== verification/TrendFinite.thy ===== *)
theory TrendFinite
  imports Trend
begin

section \<open>The figures of a trend are numbers\<close>

text \<open>
  Nothing in \<open>src/internal/sampler/trend.go\<close> guards the fit against an infinite or undefined
  result beyond the test for a variance of zero. This theory shows that the test is enough: the
  times of the readings lie on a grid of powers of two, so a variance that is not zero is too
  large for the quotient to overflow.
\<close>

subsection \<open>Numbers on a grid\<close>

definition on_grid :: "int \<Rightarrow> f64 \<Rightarrow> bool" where
  "on_grid e x \<longleftrightarrow> (\<exists>k. x = FNum (of_int k * pow2 e))"

lemma abs_pow2 [simp]: "\<bar>pow2 e\<bar> = pow2 e"
  by (rule abs_of_pos [OF pow2_pos])

lemma on_grid_zero [simp]: "on_grid e (FNum 0)"
  unfolding on_grid_def by (rule exI [of _ 0]) simp

lemma on_grid_neg: "on_grid e x \<Longrightarrow> on_grid e (f_neg x)"
  unfolding on_grid_def by (elim exE) (rule_tac x = "- k" in exI, simp)

lemma grid_multiple: "d \<le> e \<Longrightarrow> \<exists>j. of_int k * pow2 e = of_int j * pow2 d"
  using pow2_multiple [of d e] by (intro exI [of _ "k * 2 ^ nat (e - d)"]) simp

lemma on_grid_coarser: "on_grid e x \<Longrightarrow> d \<le> e \<Longrightarrow> on_grid d x"
  unfolding on_grid_def using grid_multiple by metis

lemma on_grid_int: "on_grid 0 (FNum (of_int k))"
  unfolding on_grid_def by (rule exI [of _ k]) simp

lemma grid_apart: "on_grid e (FNum q) \<Longrightarrow> q \<noteq> 0 \<Longrightarrow> pow2 e \<le> \<bar>q\<bar>"
proof -
  assume g: "on_grid e (FNum q)" and q: "q \<noteq> 0"
  then obtain k where k: "q = of_int k * pow2 e" by (auto simp: on_grid_def)
  then have "(1 :: rat) \<le> of_int \<bar>k\<bar>" using q by (simp flip: of_int_abs)
  then show "pow2 e \<le> \<bar>q\<bar>" using pow2_pos [of e] mult_right_mono [of 1 "\<bar>of_int k\<bar>" "pow2 e"] by (simp add: k abs_mult)
qed

lemma round_mag_grid:
  assumes "\<exists>k. x = of_int k * pow2 e" "0 \<le> x"
  shows "\<exists>k. round_mag x = of_int k * pow2 e"
proof (cases "x = 0")
  case True
  then show ?thesis by (intro exI [of _ 0]) simp
next
  case False
  show ?thesis
  proof (cases "e \<le> ulp_exp x")
    case True
    then show ?thesis using False grid_multiple [OF True] by (simp add: round_mag_def)
  next
    case fine: False
    obtain k where "x = of_int k * pow2 e" using assms(1) ..
    then obtain j where "x = of_int j * pow2 (ulp_exp x)" using grid_multiple [of "ulp_exp x" e k] fine by auto
    then show ?thesis using round_mag_exact assms(1) by metis
  qed
qed

lemma f64_round_grid:
  assumes "\<exists>k. x = of_int k * pow2 e" "f64_round x = FNum y"
  shows "on_grid e (f64_round x)"
proof -
  obtain k where k: "x = of_int k * pow2 e" using assms(1) ..
  then have "\<exists>k. \<bar>x\<bar> = of_int k * pow2 e"
    by (intro exI [of _ "\<bar>k\<bar>"]) (simp add: abs_mult)
  then obtain j where j: "round_mag \<bar>x\<bar> = of_int j * pow2 e" using round_mag_grid by fastforce
  have "y = of_int (if x < 0 then - j else j) * pow2 e"
    using assms(2) j by (auto simp: f64_round_def Let_def split: if_splits)
  then show ?thesis using assms(2) by (auto simp: on_grid_def)
qed

lemma bounded_number: "bounded_by b x \<Longrightarrow> \<exists>y. x = FNum y"
  by (auto simp: bounded_by_def)

lemma grid_add:
  assumes "on_grid e x" "on_grid e y" "bounded_by b (f_add x y)"
  shows "on_grid e (f_add x y)"
proof -
  obtain k j where "x = FNum (of_int k * pow2 e)" "y = FNum (of_int j * pow2 e)"
    using assms(1,2) by (auto simp: on_grid_def)
  then have f: "f_add x y = f64_round (of_int (k + j) * pow2 e)" by (simp add: algebra_simps)
  then show ?thesis using f64_round_grid [OF exI [of _ "k + j"], OF refl] bounded_number [OF assms(3)] by metis
qed

lemma grid_sub:
  "on_grid e x \<Longrightarrow> on_grid e y \<Longrightarrow> bounded_by b (f_sub x y) \<Longrightarrow> on_grid e (f_sub x y)"
  unfolding f_sub_def by (intro grid_add on_grid_neg)

lemma grid_mul:
  assumes "on_grid e x" "on_grid d y" "bounded_by b (f_mul x y)"
  shows "on_grid (e + d) (f_mul x y)"
proof -
  obtain k j where "x = FNum (of_int k * pow2 e)" "y = FNum (of_int j * pow2 d)"
    using assms(1,2) by (auto simp: on_grid_def)
  then have f: "f_mul x y = f64_round (of_int (k * j) * pow2 (e + d))" by (simp add: pow2_add algebra_simps)
  then show ?thesis using f64_round_grid [OF exI [of _ "k * j"], OF refl] bounded_number [OF assms(3)] by metis
qed

text \<open>What is at least a power of two in size is rounded to a grid 52 places below it.\<close>

lemma round_above_grid:
  assumes "x = 0 \<or> pow2 e \<le> \<bar>x\<bar>" "- 1022 \<le> e" "f64_round x = FNum y"
  shows "on_grid (e - 52) (f64_round x)"
proof (cases "x = 0")
  case True
  then show ?thesis by (simp add: f64_round_def)
next
  case False
  then have big: "pow2 e \<le> \<bar>x\<bar>" "0 < \<bar>x\<bar>" using assms(1) by auto
  have "\<not> rat_exp \<bar>x\<bar> < e"
    using rat_exp_bounds(2) [OF big(2)] big(1) pow2_mono [of "rat_exp \<bar>x\<bar> + 1" e] by force
  then have le: "e - 52 \<le> ulp_exp \<bar>x\<bar>" using assms(2) by (simp add: ulp_exp_def)
  obtain j where j: "round_mag \<bar>x\<bar> = of_int j * pow2 (e - 52)"
    using grid_multiple [OF le, of "round_even (\<bar>x\<bar> / pow2 (ulp_exp \<bar>x\<bar>))"] False by (auto simp: round_mag_def)
  have "y = of_int (if x < 0 then - j else j) * pow2 (e - 52)"
    using assms(3) j by (auto simp: f64_round_def Let_def split: if_splits)
  then show ?thesis using assms(3) by (auto simp: on_grid_def)
qed

lemma grid_mean:
  assumes "on_grid e x" "0 < n" "n \<le> 2 ^ m" "- 1022 \<le> e - int m" "bounded_by b (f_div x (FNum (of_nat n)))"
  shows "on_grid (e - int m - 52) (f_div x (FNum (of_nat n)))"
proof -
  obtain k where x: "x = FNum (of_int k * pow2 e)" using assms(1) by (auto simp: on_grid_def)
  let ?q = "of_int k * pow2 e / of_nat n :: rat"
  have f: "f_div x (FNum (of_nat n)) = f64_round ?q" using assms(2) by (simp add: x)
  have "?q = 0 \<or> pow2 (e - int m) \<le> \<bar>?q\<bar>"
  proof (cases "k = 0")
    case False
    then have "pow2 e \<le> \<bar>of_int k * pow2 e\<bar>"
      using grid_apart [of e "of_int k * pow2 e"] pow2_pos [of e] by (auto simp: on_grid_def)
    moreover have "pow2 (e - int m) * of_nat n \<le> pow2 e"
    proof -
      have "(of_nat n :: rat) \<le> of_nat (2 ^ m)" using assms(3) by (intro of_nat_mono)
      then have "pow2 (e - int m) * of_nat n \<le> pow2 (e - int m) * pow2 (int m)"
        using pow2_pos [of "e - int m"] by (intro mult_left_mono) (simp_all add: pow2_of_nat less_imp_le)
      also have "\<dots> = pow2 e" by (simp flip: pow2_add)
      finally show ?thesis .
    qed
    ultimately have "pow2 (e - int m) * of_nat n \<le> \<bar>of_int k * pow2 e\<bar>" by (rule order_trans [rotated])
    then show ?thesis using assms(2) by (simp add: abs_mult abs_divide pos_le_divide_eq)
  qed simp
  then show ?thesis using round_above_grid [of ?q "e - int m"] assms(4) bounded_number [OF assms(5)] by (auto simp: f)
qed

subsection \<open>The times of a history\<close>

lemma grid_seconds: "on_grid (- 82) (sample_seconds origin s)"
proof -
  define d where "d = time_sub (sm_time s) origin"
  have d: "\<bar>d\<bar> \<le> 2 ^ 63"
    using time_sub_bounds [of "sm_time s" origin] by (auto simp: d_def min_duration_def max_duration_def)
  have whole: "on_grid (- 82) (f_of_int (d sdiv second))"
    using seconds_parts(1) [OF d] on_grid_coarser [OF on_grid_int, of "- 82" "d sdiv second"]
    by (simp add: f_of_int_def f64_round_int)
  have rest: "f_of_int (d smod second) = FNum (of_int (d smod second))"
    using seconds_parts(2) [OF d] by (simp add: f_of_int_def f64_round_int)
  let ?q = "of_int (d smod second) / 1000000000 :: rat"
  have "?q = 0 \<or> pow2 (- 30) \<le> \<bar>?q\<bar>"
  proof (cases "d smod second = 0")
    case False
    then have "(1 :: rat) \<le> \<bar>of_int (d smod second)\<bar>" by (simp flip: of_int_abs)
    then have "1 / 1000000000 \<le> \<bar>?q\<bar>" by (simp add: abs_divide)
    moreover have "pow2 (- 30) \<le> 1 / 1000000000" by (simp add: pow2_def)
    ultimately show ?thesis by simp
  qed simp
  moreover have "\<bar>?q\<bar> \<le> of_nat 1 * pow2 0"
  proof -
    have "(of_int \<bar>d smod second\<bar> :: rat) \<le> of_int 1000000000"
      using seconds_parts(2) [OF d] by (simp only: of_int_le_iff)
    then show ?thesis by (simp add: abs_divide)
  qed
  then obtain r where "f64_round ?q = FNum r" using bounded_round [of ?q 1 0] by (auto simp: bounded_by_def)
  ultimately have "on_grid (- 30 - 52) (f64_round ?q)" using round_above_grid [of ?q "- 30"] by auto
  then have "on_grid (- 82) (f_div (f_of_int (d smod second)) (FNum 1000000000))" by (simp add: rest)
  then show ?thesis
    using grid_add [OF whole] bounded_seconds [OF d] by (simp add: sample_seconds_def duration_seconds_def flip: d_def)
qed

lemma sum_loop_grid:
  "length ss \<le> 2 ^ 51 \<Longrightarrow> on_grid (- 82) (fst (foldl (sum_step origin) (FNum 0, FNum 0) ss))"
proof (induction ss rule: rev_induct)
  case (snoc s ss)
  obtain tx ty where t: "foldl (sum_step origin) (FNum 0, FNum 0) ss = (tx, ty)" by force
  then have g: "on_grid (- 82) tx" using snoc by simp
  have step: "foldl (sum_step origin) (FNum 0, FNum 0) (ss @ [s]) =
      (f_add tx (sample_seconds origin s), f_add ty (sample_bytes s))"
    using t by (simp add: sum_step_def [of _ "(tx, ty)"])
  have "bounded_by (of_nat (length (ss @ [s])) * pow2 34) (f_add tx (sample_seconds origin s))"
    using sum_loop_bounded [OF snoc.prems step] by simp
  then show ?case using grid_add [OF g grid_seconds] unfolding step by simp
qed simp

lemma mean_grid:
  assumes "length ss \<le> 2 ^ 51" "ss \<noteq> []"
  shows "on_grid (- 185) (f_div (fst (foldl (sum_step origin) (FNum 0, FNum 0) ss)) (f_of_int (int (length ss))))"
proof -
  obtain sx sy where s: "foldl (sum_step origin) (FNum 0, FNum 0) ss = (sx, sy)" by force
  have n: "f_of_int (int (length ss)) = FNum (of_nat (length ss))"
    using f64_round_int [of "int (length ss)"] assms(1) by (simp add: f_of_int_def)
  have "on_grid (- 82 - int 51 - 52) (f_div sx (FNum (of_nat (length ss))))"
    using sum_loop_grid [OF assms(1), of origin] bounded_means(1) [OF assms s] assms
    by (intro grid_mean) (auto simp: s n)
  then show ?thesis by (simp add: s n)
qed

lemma variance_loop_grid:
  assumes mx: "bounded_by (of_nat 1 * pow2 34) mx" "on_grid (- 185) mx" and my: "bounded_by (of_nat 1 * pow2 64) my"
  shows "length ss \<le> 2 ^ 51 \<Longrightarrow> on_grid (- 370) (snd (foldl (variance_step origin mx my) (FNum 0, FNum 0) ss))"
proof (induction ss rule: rev_induct)
  case (snoc s ss)
  define dx where "dx = f_sub (sample_seconds origin s) mx"
  have dx: "bounded_by (of_nat (1 + 1) * pow2 34) dx"
    unfolding dx_def by (rule bounded_sub [OF bounded_sample_seconds mx(1)]) simp_all
  then have "on_grid (- 185) dx"
    unfolding dx_def using on_grid_coarser [OF grid_seconds] mx(2) by (intro grid_sub) auto
  then have sq: "on_grid (- 370) (f_mul dx dx)"
    using grid_mul [of "- 185" dx "- 185" dx] bounded_mul [OF dx dx] by simp
  obtain c v where t: "foldl (variance_step origin mx my) (FNum 0, FNum 0) ss = (c, v)" by force
  then have g: "on_grid (- 370) v" using snoc by simp
  have step: "foldl (variance_step origin mx my) (FNum 0, FNum 0) (ss @ [s]) =
      (f_add c (f_mul dx (f_sub (sample_bytes s) my)), f_add v (f_mul dx dx))"
    using t by (simp add: variance_step_def [of _ _ _ "(c, v)"] Let_def dx_def)
  have "bounded_by (of_nat (4 * length (ss @ [s])) * pow2 68) (f_add v (f_mul dx dx))"
    using variance_loop_bounded [OF mx(1) my snoc.prems step] by simp
  then show ?case using grid_add [OF g sq] unfolding step by simp
qed simp

subsection \<open>The slope and the fit\<close>

text \<open>A square of a number is a number from 0 up, or an overflow to positive infinity.\<close>

fun not_negative :: "f64 \<Rightarrow> bool" where
  "not_negative (FNum q) \<longleftrightarrow> 0 \<le> q"
| "not_negative (FInf s) \<longleftrightarrow> \<not> s"
| "not_negative FNaN \<longleftrightarrow> False"

lemma not_negative_round: "0 \<le> x \<Longrightarrow> not_negative (f64_round x)"
  using round_mag_nonneg [of x] by (simp add: f64_round_def Let_def)

lemma not_negative_square: "not_negative (f_mul (FNum q) (FNum q))"
  by (simp add: not_negative_round)

lemma not_negative_add: "not_negative x \<Longrightarrow> not_negative y \<Longrightarrow> not_negative (f_add x y)"
  by (cases x; cases y) (simp_all add: not_negative_round)

lemma slope_bounded:
  assumes "length ss \<le> 2 ^ 51" "ss \<noteq> []" "fit_slope ss origin = (slope, r, ok)"
  shows "bounded_by (of_nat 1 * pow2 523) slope"
proof -
  define n where "n = f_of_int (int (length ss))"
  obtain sx sy where s: "foldl (sum_step origin) (FNum 0, FNum 0) ss = (sx, sy)" by force
  obtain c v where cv: "foldl (variance_step origin (f_div sx n) (f_div sy n)) (FNum 0, FNum 0) ss = (c, v)"
    by force
  note means = bounded_means [OF assms(1,2) s, folded n_def]
  have b: "bounded_by (of_nat (4 * length ss) * pow2 98) c" "bounded_by (of_nat (4 * length ss) * pow2 68) v"
    using variance_loop_bounded [OF means assms(1) cv] by auto
  then obtain p q where pq: "c = FNum p" "v = FNum q" "\<bar>p\<bar> \<le> of_nat (4 * length ss) * pow2 98"
    by (auto simp: bounded_by_def)
  have g: "on_grid (- 370) (FNum q)"
    using variance_loop_grid [OF means(1) _ means(2) assms(1), of origin] mean_grid [OF assms(1,2), of origin] cv pq
    by (simp add: s n_def)
  have "slope = FNum 0 \<or> (q \<noteq> 0 \<and> slope = f64_round (p / q))"
    using assms(3) s cv pq
    by (auto simp: fit_slope_def n_def [symmetric] Let_def split: if_splits prod.splits)
  moreover have "bounded_by (of_nat 1 * pow2 523) (f64_round (p / q))" if "q \<noteq> 0"
  proof (rule bounded_round)
    have "(of_nat (4 * length ss) :: rat) \<le> of_nat (2 ^ 53)" using assms(1) by (intro of_nat_mono) simp
    then have "of_nat (4 * length ss) * pow2 98 \<le> 2 ^ 53 * pow2 98"
      by (intro mult_right_mono) (simp_all add: less_imp_le)
    then have "\<bar>p\<bar> \<le> pow2 153 * pow2 (- 2)" using pq(3) by (simp add: pow2_def)
    also have "\<dots> \<le> pow2 153 * (pow2 370 * pow2 (- 370))" by (simp add: pow2_def)
    also have "\<dots> \<le> pow2 153 * (pow2 370 * \<bar>q\<bar>)"
      using grid_apart [OF g that] by (intro mult_left_mono) (simp_all add: less_imp_le)
    also have "\<dots> = pow2 523 * \<bar>q\<bar>" by (simp add: pow2_def)
    finally show "\<bar>p / q\<bar> \<le> of_nat 1 * pow2 523" using that by (simp add: abs_divide pos_divide_le_eq)
  qed simp_all
  ultimately show ?thesis by (auto simp: bounded_by_def pow2_def)
qed

lemma residual_loop:
  assumes slope: "bounded_by (of_nat 1 * pow2 523) slope" and icpt: "bounded_by (of_nat 2 * pow2 560) icpt"
    and my: "bounded_by (of_nat 1 * pow2 64) my"
  shows "length ss \<le> 2 ^ 51 \<Longrightarrow> foldl (residual_step origin my slope icpt) (FNum 0, FNum 0) ss = (res, tot) \<Longrightarrow>
     not_negative res \<and> bounded_by (of_nat (4 * length ss) * pow2 128) tot \<and> not_negative tot"
proof (induction ss arbitrary: res tot rule: rev_induct)
  case Nil
  then show ?case by (auto simp: bounded_by_def)
next
  case (snoc s ss)
  obtain r0 t0 where t: "foldl (residual_step origin my slope icpt) (FNum 0, FNum 0) ss = (r0, t0)" by force
  then have ih: "not_negative r0" "bounded_by (of_nat (4 * length ss) * pow2 128) t0" "not_negative t0"
    using snoc by auto
  define predicted where "predicted = f_add icpt (f_mul slope (sample_seconds origin s))"
  define off where "off = f_sub (sample_bytes s) predicted"
  define dy where "dy = f_sub (sample_bytes s) my"
  have "bounded_by (of_nat (1 * 1) * pow2 (523 + 34)) (f_mul slope (sample_seconds origin s))"
    by (rule bounded_mul [OF slope bounded_sample_seconds]) simp_all
  then have "bounded_by (of_nat 1 * pow2 560) (f_mul slope (sample_seconds origin s))"
    by (rule bounded_mono) (simp add: pow2_mono)
  then have "bounded_by (of_nat (2 + 1) * pow2 560) predicted"
    unfolding predicted_def by (intro bounded_add [OF icpt]) simp_all
  moreover have "bounded_by (of_nat 1 * pow2 560) (sample_bytes s)"
    by (rule bounded_mono [OF bounded_sample_bytes]) (simp add: pow2_mono)
  ultimately have "bounded_by (of_nat (1 + (2 + 1)) * pow2 560) off"
    unfolding off_def by (intro bounded_sub) simp_all
  then obtain d where d: "off = FNum d" by (auto simp: bounded_by_def)
  have dyb: "bounded_by (of_nat (1 + 1) * pow2 64) dy"
    unfolding dy_def by (rule bounded_sub [OF bounded_sample_bytes my]) simp_all
  then obtain e where e: "dy = FNum e" by (auto simp: bounded_by_def)
  have sq: "bounded_by (of_nat ((1 + 1) * (1 + 1)) * pow2 (64 + 64)) (f_mul dy dy)"
    by (rule bounded_mul [OF dyb dyb]) simp_all
  have step: "res = f_add r0 (f_mul off off)" "tot = f_add t0 (f_mul dy dy)"
    using snoc.prems(2) t
    by (auto simp: residual_step_def [of _ _ _ _ "(_, _)"] Let_def off_def predicted_def dy_def)
  have "bounded_by (of_nat (4 * length ss + (1 + 1) * (1 + 1)) * pow2 128) tot"
    unfolding step(2) using sq snoc.prems(1) by (intro bounded_add [OF ih(2)]) simp_all
  then have "bounded_by (of_nat (4 * length (ss @ [s])) * pow2 128) tot" by (simp add: algebra_simps)
  moreover have "not_negative res" "not_negative tot"
    unfolding step using not_negative_add not_negative_square ih(1,3) d e by auto
  ultimately show ?case by blast
qed

text \<open>\<open>math.Max(0, math.Min(1, x))\<close> is a number between 0 and 1 unless \<open>x\<close> is undefined.\<close>

lemma clamped: "x \<noteq> FNaN \<Longrightarrow> \<exists>q. f_max (FNum 0) (f_min (FNum 1) x) = FNum q \<and> 0 \<le> q \<and> q \<le> 1"
  by (cases x) (auto simp: f_max_def f_min_def)

lemma one_minus_quotient:
  assumes "not_negative res" "0 < t"
  shows "f_sub (FNum 1) (f_div res (FNum t)) \<noteq> FNaN"
proof -
  have "f_div res (FNum t) \<noteq> FNaN" using assms by (cases res) (simp_all add: f64_round_not_nan)
  then show ?thesis by (cases "f_div res (FNum t)") (simp_all add: f_sub_def f64_round_not_nan)
qed

lemma fit_quality:
  assumes "length ss \<le> 2 ^ 51" "ss \<noteq> []" "fit_slope ss origin = (slope, r, ok)"
  shows "\<exists>q. r = FNum q \<and> 0 \<le> q \<and> q \<le> 1"
proof -
  define n where "n = f_of_int (int (length ss))"
  obtain sx sy where s: "foldl (sum_step origin) (FNum 0, FNum 0) ss = (sx, sy)" by force
  define mx where "mx = f_div sx n"
  define my where "my = f_div sy n"
  obtain c v where cv: "foldl (variance_step origin mx my) (FNum 0, FNum 0) ss = (c, v)" by force
  note means = bounded_means [OF assms(1,2) s, folded n_def mx_def my_def]
  define icpt where "icpt = f_sub my (f_mul slope mx)"
  obtain res tot where rt: "foldl (residual_step origin my slope icpt) (FNum 0, FNum 0) ss = (res, tot)" by force
  note slope = slope_bounded [OF assms]
  have "bounded_by (of_nat (1 * 1) * pow2 (523 + 34)) (f_mul slope mx)" by (rule bounded_mul [OF slope means(1)]) simp_all
  then have "bounded_by (of_nat 1 * pow2 560) (f_mul slope mx)" by (rule bounded_mono) (simp add: pow2_mono)
  moreover have "bounded_by (of_nat 1 * pow2 560) my" by (rule bounded_mono [OF means(2)]) (simp add: pow2_mono)
  ultimately have "bounded_by (of_nat (1 + 1) * pow2 560) icpt" unfolding icpt_def by (intro bounded_sub) simp_all
  then have icpt: "bounded_by (of_nat 2 * pow2 560) icpt" by simp
  have loop: "not_negative res" "not_negative tot" "\<exists>t. tot = FNum t"
    using residual_loop [OF slope icpt means(2) assms(1) rt] bounded_number by auto
  then obtain t where t: "tot = FNum t" "0 \<le> t" by auto
  have "r = FNum 0 \<or> r = FNum 1 \<or> (t \<noteq> 0 \<and> r = f_max (FNum 0) (f_min (FNum 1) (f_sub (FNum 1) (f_div res tot))))"
    using assms(3) s cv rt t(1)
    by (auto simp: fit_slope_def mx_def my_def icpt_def n_def [symmetric] Let_def split: if_splits prod.splits)
  then show ?thesis using clamped [OF one_minus_quotient [OF loop(1), of t]] t by auto
qed

lemma analyse_numbers:
  assumes "length ss \<le> 2 ^ 51"
  shows "\<exists>slope q. tr_bytes_per_second (analyse ss) = FNum slope \<and> tr_r_squared (analyse ss) = FNum q \<and> 0 \<le> q \<and> q \<le> 1"
proof (cases "length ss < 2")
  case True
  then show ?thesis by (simp add: analyse_def min_trend_samples_def Let_def)
next
  case False
  then have ne: "ss \<noteq> []" by auto
  obtain slope r ok where f: "fit_slope ss (sm_time (ss ! 0)) = (slope, r, ok)" by (cases "fit_slope ss (sm_time (ss ! 0))")
  have "\<exists>p. slope = FNum p" using slope_bounded [OF assms ne f] by (rule bounded_number)
  moreover have "\<exists>q. r = FNum q \<and> 0 \<le> q \<and> q \<le> 1" by (rule fit_quality [OF assms ne f])
  ultimately show ?thesis using f by (auto simp: analyse_def Let_def split: prod.split)
qed

lemma slope_number: "length ss \<le> 2 ^ 51 \<Longrightarrow> \<exists>slope. tr_bytes_per_second (analyse ss) = FNum slope"
  and quality_number: "length ss \<le> 2 ^ 51 \<Longrightarrow> \<exists>q. tr_r_squared (analyse ss) = FNum q"
  using analyse_numbers by blast+

text \<open>C13: The figures of a trend are numbers. Whatever was read and whenever, clocks that jump and values
  that do not move included, neither the growth rate nor the quality of the fit is ever infinite
  or undefined, for any history of up to 2^51 readings, and the quality lies between 0 and 1.\<close>

theorem trend_figures_are_numbers:
  assumes "length ss \<le> 2 ^ 51"
  shows "\<exists>slope q. tr_bytes_per_second (analyse ss) = FNum slope \<and> tr_r_squared (analyse ss) = FNum q \<and> 0 \<le> q \<and> q \<le> 1"
  using assms by (rule analyse_numbers)

theorem trend_figures_are_numbers_witness:
  "\<exists>slope. tr_bytes_per_second (analyse [sample_zero, sample_zero\<lparr>sm_time := - 7\<rparr>, sample_zero]) = FNum slope"
  using trend_figures_are_numbers [of "[sample_zero, sample_zero\<lparr>sm_time := - 7\<rparr>, sample_zero]"] by auto

end
