(* ===== verification/Reports.thy ===== *)
theory Reports
  imports TrendFinite Daemon RenderLines
begin

section \<open>The reports of the daemon can be shown\<close>

text \<open>
  Joins the daemon of \<open>src/internal/daemon/daemon.go\<close> to the renderers of \<open>src/internal/render\<close>: a
  report built from an event encodes as JSON as soon as the times are within the years that
  RFC 3339 can write and the pressure figures read from the kernel are numbers, because every
  figure the program computes itself is a number. An event is taken together with what the
  reads for it see, as in \<open>handle_all\<close>.
\<close>

definition readable_sample :: "sample \<Rightarrow> bool" where
  "readable_sample s \<longleftrightarrow> json_time_ok (sm_time s) \<and> json_float_ok (psi_avg10 (psi_full (sm_psi s)))"

definition event_readable :: "report_view \<times> kill_event \<Rightarrow> bool" where
  "event_readable x \<longleftrightarrow> json_time_ok (ke_time (snd x)) \<and>
     (case history (rv_sampler (fst x)) (ke_cgroup_path (snd x)) of
        None \<Rightarrow> True | Some ss \<Rightarrow> length ss \<le> 2 ^ 51 \<and> list_all readable_sample ss)"

lemma readable_point: "readable_sample s \<Longrightarrow> json_point_ok (trajectory_point_from s)"
  using usage_ratio_range [of "sm_stats s"]
  by (auto simp: readable_sample_def json_point_ok_def trajectory_point_from_def Let_def)

lemma readable_trend: "length ss \<le> 2 ^ 51 \<Longrightarrow>
    json_float_ok (tr_bytes_per_second (analyse ss)) \<and> json_float_ok (tr_r_squared (analyse ss))"
  using slope_number [of ss] quality_number [of ss] by auto

text \<open>The steps after the history leave the time and the history's figures alone.\<close>

lemma figures_frames [simp]:
  "rp_time (apply_processes v e d r) = rp_time r" "rp_trajectory (apply_processes v e d r) = rp_trajectory r"
  "rp_trend (apply_processes v e d r) = rp_trend r"
  "rp_time (apply_group_kill v e d r) = rp_time r" "rp_trajectory (apply_group_kill v e d r) = rp_trajectory r"
  "rp_trend (apply_group_kill v e d r) = rp_trend r"
  "rp_time (apply_live_stats v e d r) = rp_time r" "rp_trajectory (apply_live_stats v e d r) = rp_trajectory r"
  "rp_trend (apply_live_stats v e d r) = rp_trend r"
  by (simp_all add: apply_processes_def apply_group_kill_def apply_live_stats_def Let_def
      split: sum.split option.split prod.split)

lemma history_readable:
  assumes "event_readable (v, e)" "json_report_ok r"
  shows "json_report_ok (apply_history v e r)"
proof (cases "history (rv_sampler v) (ke_cgroup_path e)")
  case (Some ss)
  then have "length ss \<le> 2 ^ 51" "list_all json_point_ok (trajectory_from ss)"
    using assms(1) by (auto simp: event_readable_def trajectory_from_map list_all_iff readable_point)
  then show ?thesis using assms(2) readable_trend Some
    by (simp add: apply_history_def json_report_ok_def Let_def)
qed (use assms(2) in \<open>simp add: apply_history_def\<close>)

lemma built_report_encodes:
  assumes "build_report v e d = (Some r, d')" "event_readable (v, e)"
  shows "json_report_ok r"
proof -
  obtain i identity d1 where r: "r = apply_processes v e d1 (apply_group_kill v e d1 (apply_live_stats v e d1
      (apply_history v e (report_zero\<lparr>rp_id := i, rp_time := ke_time e, rp_identity := identity, rp_victim := ke_victim e,
        rp_source := ke_source e, rp_kill_count := ke_kill_count e\<rparr>))))"
    using assms(1) by (auto simp: build_report_def Let_def split: if_splits prod.splits)
  have "json_report_ok (report_zero\<lparr>rp_id := i, rp_time := ke_time e, rp_identity := identity, rp_victim := ke_victim e,
        rp_source := ke_source e, rp_kill_count := ke_kill_count e\<rparr>)"
    using assms(2) by (simp add: json_report_ok_def report_zero_def trend_zero_def event_readable_def)
  from history_readable [OF assms(2) this] show ?thesis by (simp add: r json_report_ok_def)
qed

lemma store_put_all:
  assumes "P r" "list_all P (mm_ordered m)"
  shows "list_all P (mm_ordered (store_put r m))"
proof -
  have "list_all P (tl (mm_ordered m))" using assms(2) by (cases "mm_ordered m") auto
  then show ?thesis using assms
    by (auto simp: store_put_def reindex_def Let_def list_all_iff split: option.split dest: set_update_subset_insert [THEN subsetD])
qed

text \<open>What holds of every report that is built holds of all that are stored.\<close>

lemma handle_stores:
  assumes "\<And>d r d'. build_report v e d = (Some r, d') \<Longrightarrow> P r" "list_all P (mm_ordered (dm_store d))"
  shows "list_all P (mm_ordered (dm_store (handle memory_put v e d)))"
proof -
  obtain r d1 where b: "build_report v e d = (r, d1)" by force
  have store: "dm_store d1 = dm_store d"
    using build_report_frame [OF b] by (metis daemon.select_convs(2) daemon.surjective daemon.update_convs(7))
  show ?thesis
  proof (cases r)
    case None
    then show ?thesis using b assms(2) store by (simp add: handle_def Let_def)
  next
    case (Some r')
    then have "P r'" using assms(1) b by blast
    then show ?thesis using b assms(2) store Some by (simp add: handle_def memory_put_def Let_def store_put_all)
  qed
qed

lemma stored_reports_all:
  assumes "list_all (\<lambda>x. \<forall>d r d'. build_report (fst x) (snd x) d = (Some r, d') \<longrightarrow> P r) evs" "list_all P (mm_ordered (dm_store d))"
  shows "list_all P (mm_ordered (dm_store (handle_all evs d)))"
  using assms unfolding handle_all_def
proof (induction evs arbitrary: d)
  case (Cons x evs)
  have "list_all P (mm_ordered (dm_store (handle memory_put (fst x) (snd x) d)))"
    using Cons.prems by (intro handle_stores) auto
  then show ?case using Cons by (simp add: split_beta)
qed simp

lemma stored_reports_encode:
  assumes "list_all event_readable evs" "list_all json_report_ok (mm_ordered (dm_store d))"
  shows "list_all json_report_ok (mm_ordered (dm_store (handle_all evs d)))"
  using assms by (intro stored_reports_all) (auto simp: list_all_iff dest: built_report_encodes)

end
