(* ===== verification/FloatText.thy ===== *)
theory FloatText
  imports GoJson
begin

section \<open>Floats as JSON numbers\<close>

text \<open>
  How \<open>encoding/json\<close> writes a \<open>float64\<close>: the shortest decimal that reads back as the same
  number, in scientific notation below 1e-6 and from 1e21 on. That there is one of at most 17
  digits, and that \<open>strconv.ParseFloat\<close> gives the number back, is proved. A zero is written
  without a sign, since the model of floats does not tell the two zeros apart.
\<close>

subsection \<open>Decimal digits of a number\<close>

lemma show_nat_length: "0 < n \<Longrightarrow> 10 ^ (length (show_nat n) - 1) \<le> n \<and> n < 10 ^ length (show_nat n)"
proof (induction n rule: show_nat.induct)
  case (1 n)
  show ?case
  proof (cases "n < 10")
    case True
    then show ?thesis using 1(2) by (simp add: show_nat.simps [of n])
  next
    case False
    let ?l = "length (show_nat (n div 10))"
    have ih: "10 ^ (?l - 1) \<le> n div 10" "n div 10 < 10 ^ ?l" using 1(1) [OF False] False by auto
    have l: "length (show_nat n) = Suc ?l" using False by (simp add: show_nat.simps [of n])
    have "?l \<noteq> 0" by simp
    then have "10 ^ ?l = (10 :: nat) * 10 ^ (?l - 1)" by (cases ?l) simp_all
    then have "10 ^ ?l \<le> n" using ih(1) by simp
    moreover have "n < 10 * 10 ^ ?l" using ih(2) by (simp add: div_less_iff_less_mult mult.commute)
    ultimately show ?thesis by (simp add: l)
  qed
qed

lemma pow10_pos [simp]: "0 < pow10 e"
  by (simp add: pow10_def)

lemma pow10_nonzero [simp]: "pow10 e \<noteq> 0"
  using pow10_pos [of e] by linarith

lemma pow10_powi: "pow10 e = 10 powi e"
  by (simp add: pow10_def power_int_def field_simps power_inverse)

lemma pow10_add: "pow10 (a + b) = pow10 a * pow10 b"
  by (simp add: pow10_powi power_int_add)

lemma pow10_of_nat: "pow10 (int n) = 10 ^ n"
  by (simp add: pow10_def)

text \<open>The \<open>e\<close> with \<open>10^e \<le> x < 10^(e+1)\<close>, for a positive \<open>x\<close>.\<close>

definition dec_exp :: "rat \<Rightarrow> int" where
  "dec_exp x =
     (if 1 \<le> x then int (length (show_nat (nat \<lfloor>x\<rfloor>))) - 1
      else - int (length (show_nat (nat \<lceil>1 / x\<rceil> - 1))))"

lemma dec_exp_le:
  assumes "0 < x"
  shows "pow10 (dec_exp x) \<le> x"
proof (cases "1 \<le> x")
  case True
  define n where "n = nat \<lfloor>x\<rfloor>"
  have n: "0 < n" "of_nat n \<le> x" using True unfolding n_def by (auto simp: le_floor_iff)
  have "1 \<le> length (show_nat n)" by (simp add: Suc_le_eq)
  then have "dec_exp x = int (length (show_nat n) - 1)"
    using True by (simp only: dec_exp_def n_def of_nat_diff of_nat_1 if_True)
  then have "pow10 (dec_exp x) = of_nat (10 ^ (length (show_nat n) - 1))" by (simp only: pow10_of_nat) simp
  also have "\<dots> \<le> of_nat n" using show_nat_length [OF n(1)] by (simp only: of_nat_le_iff)
  finally show ?thesis using n(2) by simp
next
  case False
  define m where "m = nat \<lceil>1 / x\<rceil>"
  have inv: "1 < 1 / x" using assms False by simp
  then have m: "1 / x \<le> of_nat m" "1 < m" unfolding m_def by linarith+
  let ?l = "length (show_nat (m - 1))"
  have "m - 1 < 10 ^ ?l" using show_nat_length [of "m - 1"] m(2) by simp
  then have "(of_nat m :: rat) \<le> of_nat (10 ^ ?l)" by (simp only: of_nat_le_iff)
  then have "(of_nat m :: rat) \<le> 10 ^ ?l" by (simp only: of_nat_power of_nat_numeral)
  with m(1) have "1 / x \<le> 10 ^ ?l" by (rule order_trans)
  then have "1 / 10 ^ ?l \<le> x" using assms by (simp add: field_simps)
  moreover have "pow10 (dec_exp x) = 1 / 10 ^ ?l"
    using False by (simp add: dec_exp_def m_def [symmetric] pow10_def)
  ultimately show ?thesis by simp
qed

subsection \<open>The shortest decimal\<close>

text \<open>
  The nearest decimal of \<open>n\<close> digits and its two possible neighbours, as a number and an exponent
  of ten; the first one, over growing \<open>n\<close>, that rounds to the float.
\<close>

definition decimal_candidates :: "rat \<Rightarrow> nat \<Rightarrow> (nat \<times> int) list" where
  "decimal_candidates x n =
     (let e = dec_exp x - (int n - 1); y = x / pow10 e
      in [(nat (round_even y), e), (nat \<lfloor>y\<rfloor>, e), (nat \<lfloor>y\<rfloor> + 1, e)])"

definition decimal_value :: "nat \<times> int \<Rightarrow> rat" where
  "decimal_value p = of_nat (fst p) * pow10 (snd p)"

definition shortest_decimal :: "rat \<Rightarrow> (nat \<times> int) option" where
  "shortest_decimal x =
     find (\<lambda>p. round_mag (decimal_value p) = x) (concat (map (decimal_candidates x) [1..<18]))"

lemma round_even_close: "\<bar>x - of_int k\<bar> < 1 / 2 \<Longrightarrow> round_even x = k"
proof -
  assume "\<bar>x - of_int k\<bar> < 1 / 2"
  then have "\<bar>(of_int (round_even x) :: rat) - of_int k\<bar> < 1"
    using round_even_dist [of x] by linarith
  then show ?thesis by linarith
qed

lemma round_mag_close:
  assumes "0 < v" "a = of_int k * pow2 (ulp_exp v)" "\<bar>v - a\<bar> < pow2 (ulp_exp v) / 2"
  shows "round_mag v = a"
proof -
  let ?u = "pow2 (ulp_exp v)"
  have u: "0 < ?u" by simp
  then have "v / ?u - of_int k = (v - a) / ?u" by (simp add: assms(2) field_simps)
  then have "\<bar>v / ?u - of_int k\<bar> = \<bar>v - a\<bar> / ?u" using u by (simp only: abs_divide abs_of_pos)
  also have "\<dots> < 1 / 2" using assms(3) u by (simp only: pos_divide_less_eq)
  finally have "round_even (v / ?u) = k" by (rule round_even_close)
  then show ?thesis using assms(1,2) by (simp add: round_mag_def)
qed

lemma multiples_apart:
  "of_int j * pow2 w < of_int k * pow2 w \<Longrightarrow> of_int j * pow2 w + pow2 w \<le> of_int k * pow2 w"
proof -
  assume "of_int j * pow2 w < of_int k * pow2 w"
  then have "j < k" by (simp only: mult_less_cancel_right_pos [OF pow2_pos] of_int_less_iff)
  then have "(of_int (j + 1) :: rat) \<le> of_int k" by (simp only: of_int_le_iff)
  then have "of_int (j + 1) * pow2 w \<le> of_int k * pow2 w"
    using less_imp_le [OF pow2_pos [of w]] by (rule mult_right_mono)
  then show ?thesis by (simp add: algebra_simps)
qed

text \<open>Half an ulp at least: a number this close to a float rounds to it.\<close>

lemma round_mag_near:
  assumes "0 < a" "round_mag a = a" "\<bar>v - a\<bar> < a * pow2 (- 54)"
  shows "round_mag v = a"
proof -
  define e where "e = rat_exp a"
  define w where "w = ulp_exp a"
  have w: "w = max (- 1074) (e - 52)" by (simp add: w_def e_def ulp_exp_def)
  have lo: "pow2 e \<le> a" and hi: "a < pow2 (e + 1)" using rat_exp_bounds [OF assms(1)] by (simp_all add: e_def)
  define k where "k = round_even (a / pow2 w)"
  have a: "a = of_int k * pow2 w" using assms(1,2) by (simp add: round_mag_def k_def w_def)
  have p54: "pow2 (- 54) < 1" by (simp add: pow2_def)
  have v: "0 < v"
  proof -
    have "a * pow2 (- 54) < a * 1" using assms(1) p54 by (intro mult_strict_left_mono)
    then show ?thesis using assms(3) by linarith
  qed
  have half: "a * pow2 (- 54) < pow2 w / 2"
  proof -
    have "a * pow2 (- 54) < pow2 (e + 1) * pow2 (- 54)" using hi by (intro mult_strict_right_mono) simp_all
    also have "\<dots> = pow2 (e - 52) * pow2 (- 1)" by (simp only: pow2_add [symmetric]) simp
    also have "\<dots> \<le> pow2 w * pow2 (- 1)" using pow2_mono [of "e - 52" w] w less_imp_le [OF pow2_pos [of "- 1"]]
      by (intro mult_right_mono) (simp_all only: max.cobounded2)
    finally show ?thesis by (simp add: pow2_def [of "- 1"])
  qed
  have k1: "1 \<le> k"
  proof -
    have "0 < (of_int k :: rat) * pow2 w" using assms(1) a by simp
    then have "0 < (of_int k :: rat)" by (rule zero_less_mult_pos2) simp
    then show ?thesis by simp
  qed
  have "pow2 w \<le> a"
    unfolding a using k1 less_imp_le [OF pow2_pos [of w]] mult_right_mono [of 1 "of_int k" "pow2 w"] by simp
  then have "pow2 w < pow2 (e + 1)" using hi by linarith
  then have we: "w \<le> e" using pow2_mono [of "e + 1" w] by (cases "w \<le> e") auto
  have top: "a + pow2 w \<le> pow2 (e + 1)"
  proof -
    have "w \<le> e + 1" using we by simp
    then have m: "pow2 (e + 1) = of_int (2 ^ nat (e + 1 - w)) * pow2 w" by (rule pow2_multiple)
    show ?thesis using multiples_apart [of k w "2 ^ nat (e + 1 - w)"] hi a m by metis
  qed
  show ?thesis
  proof (cases "pow2 e \<le> v")
    case True
    have "v < pow2 (e + 1)" using assms(3) half top pow2_pos [of w] by linarith
    then have "rat_exp v = e" using True by (intro rat_exp_unique)
    then have "ulp_exp v = w" by (simp add: ulp_exp_def w)
    moreover have "\<bar>v - a\<bar> < pow2 w / 2" using assms(3) half by (rule less_trans)
    ultimately show ?thesis using a by (intro round_mag_close [OF v, of _ k]) (simp_all only:)
  next
    case False
    have "a = pow2 e"
    proof (rule ccontr)
      assume "a \<noteq> pow2 e"
      then have gt: "pow2 e < a" using lo by simp
      have m: "pow2 e = of_int (2 ^ nat (e - w)) * pow2 w" using we by (rule pow2_multiple)
      have "pow2 e + pow2 w \<le> a" using multiples_apart [of "2 ^ nat (e - w)" w k] gt a m by metis
      then show False using False assms(3) half pow2_pos [of w] by linarith
    qed
    define w' where "w' = ulp_exp v"
    have "pow2 e * pow2 (- 54) < pow2 e * pow2 (- 1)"
      by (intro mult_strict_left_mono) (simp_all add: pow2_def [of "- 1"] pow2_def [of "- 54"])
    then have "pow2 e - pow2 e * pow2 (- 1) < v" using assms(3) unfolding \<open>a = pow2 e\<close> by linarith
    then have "pow2 (e - 1) \<le> v" using pow2_add [of e "- 1"] by (simp add: pow2_def [of "- 1"])
    then have "rat_exp v = e - 1" using False by (intro rat_exp_unique) simp_all
    then have w': "w' = max (- 1074) (e - 53)" by (simp add: w'_def ulp_exp_def)
    then have "w' \<le> e" using we w by simp
    then have m: "a = of_int (2 ^ nat (e - w')) * pow2 w'" unfolding \<open>a = pow2 e\<close> by (rule pow2_multiple)
    have "a * pow2 (- 54) = pow2 (e - 53) * pow2 (- 1)"
      unfolding \<open>a = pow2 e\<close> by (simp only: pow2_add [symmetric]) simp
    also have "\<dots> \<le> pow2 w' * pow2 (- 1)"
      using pow2_mono [of "e - 53" w'] w' less_imp_le [OF pow2_pos [of "- 1"]] by (intro mult_right_mono) (simp_all only: max.cobounded2)
    finally have "a * pow2 (- 54) \<le> pow2 w' / 2" by (simp add: pow2_def [of "- 1"])
    with assms(3) have "\<bar>v - a\<bar> < pow2 w' / 2" by (rule less_le_trans)
    with m show ?thesis unfolding w'_def by (rule round_mag_close [OF v])
  qed
qed

lemma seventeen_digits:
  assumes "0 < a" "round_mag a = a"
  shows "\<exists>p \<in> set (decimal_candidates a 17). round_mag (decimal_value p) = a"
proof -
  define e where "e = dec_exp a - 16"
  define d where "d = round_even (a / pow10 e)"
  have y: "0 < a / pow10 e" using assms(1) by simp
  then have "0 \<le> d" using round_even_ge_int [of 0 "a / pow10 e"] by (simp add: d_def)
  then have v: "decimal_value (nat d, e) = of_int d * pow10 e" by (simp add: decimal_value_def)
  have "of_int d * pow10 e - a = (of_int d - a / pow10 e) * pow10 e" by (simp add: field_simps)
  then have "\<bar>of_int d * pow10 e - a\<bar> = \<bar>of_int d - a / pow10 e\<bar> * pow10 e"
    using less_imp_le [OF pow10_pos [of e]] by (simp only: abs_mult abs_of_nonneg)
  also have "\<dots> \<le> 1 / 2 * pow10 e"
    using round_even_dist [of "a / pow10 e"] less_imp_le [OF pow10_pos [of e]] unfolding d_def by (intro mult_right_mono)
  also have "\<dots> = pow10 (dec_exp a) * (1 / (2 * 10 ^ 16))"
    by (simp add: e_def pow10_add [of "dec_exp a" "- 16", simplified]) (simp add: pow10_def)
  also have "\<dots> \<le> a * (1 / (2 * 10 ^ 16))"
    using dec_exp_le [OF assms(1)] by (intro mult_right_mono) simp_all
  also have "\<dots> < a * pow2 (- 54)"
    using assms(1) by (intro mult_strict_left_mono) (simp_all add: pow2_def)
  finally have "round_mag (of_int d * pow10 e) = a" by (rule round_mag_near [OF assms])
  then show ?thesis using v by (simp add: decimal_candidates_def Let_def e_def [symmetric] d_def)
qed

lemma shortest_decimal_exists:
  assumes "0 < a" "round_mag a = a"
  obtains d e where "shortest_decimal a = Some (d, e)" "round_mag (of_nat d * pow10 e) = a" "0 < d"
proof -
  let ?ps = "concat (map (decimal_candidates a) [1..<18])"
  have "set (decimal_candidates a 17) \<subseteq> set ?ps" by (auto intro!: bexI [of _ 17])
  then obtain q where q: "q \<in> set ?ps" "round_mag (decimal_value q) = a" using seventeen_digits [OF assms] by blast
  have "find (\<lambda>p. round_mag (decimal_value p) = a) ?ps \<noteq> None"
    using q by (simp only: find_None_iff) blast
  then obtain p where "shortest_decimal a = Some p" by (auto simp: shortest_decimal_def)
  moreover from this have "round_mag (decimal_value p) = a" by (auto simp: shortest_decimal_def find_Some_iff)
  moreover from this have "0 < fst p" using assms(1) by (cases "fst p = 0") (auto simp: decimal_value_def)
  ultimately show thesis using that by (cases p) (simp add: decimal_value_def)
qed

subsection \<open>The text\<close>

text \<open>\<open>%f\<close> and \<open>%e\<close> of the number that is 0.\<open>ds\<close> times ten to the \<open>dp\<close>.\<close>

definition plain_digits :: "string \<Rightarrow> int \<Rightarrow> string \<times> string" where
  "plain_digits ds dp =
     (if dp \<le> 0 then (''0'', replicate (nat (- dp)) (CHR ''0'') @ ds)
      else (take (nat dp) ds @ replicate (nat dp - length ds) (CHR ''0''), drop (nat dp) ds))"

definition point_text :: "string \<Rightarrow> string" where
  "point_text ds = (if ds = [] then [] else CHR ''.'' # ds)"

definition plain_float :: "string \<Rightarrow> int \<Rightarrow> string" where
  "plain_float ds dp = fst (plain_digits ds dp) @ point_text (snd (plain_digits ds dp))"

definition exponent_text :: "int \<Rightarrow> string" where
  "exponent_text e = CHR ''e'' # (if e < 0 then ''-'' else ''+'') @ show_nat (nat \<bar>e\<bar>)"

definition scientific_float :: "string \<Rightarrow> int \<Rightarrow> string" where
  "scientific_float ds dp = take 1 ds @ point_text (drop 1 ds) @ exponent_text (dp - 1)"

definition magnitude_text :: "rat \<Rightarrow> string" where
  "magnitude_text a =
     (case shortest_decimal a of
        None \<Rightarrow> []
      | Some (d, e) \<Rightarrow>
          (let ds = strip_zeros (show_nat d); dp = int (length (show_nat d)) + e
           in if a < round_mag (pow10 (- 6)) \<or> pow10 21 \<le> a then scientific_float ds dp else plain_float ds dp))"

definition float_text :: "rat \<Rightarrow> string" where
  "float_text q = (if q = 0 then ''0'' else (if q < 0 then ''-'' else []) @ magnitude_text \<bar>q\<bar>)"

lemma digits_from_zeros: "dec_from m (replicate n (CHR ''0'')) = m * 10 ^ n"
proof (induction n arbitrary: m)
  case (Suc n)
  have "digit_val (CHR ''0'') = Some 0" by (simp add: digit_val_def)
  then show ?case using Suc [of "10 * m"] by (simp add: mult.assoc mult.commute [of 10])
qed simp

lemma zeros_digits: "is_digits (replicate n (CHR ''0''))"
  by (auto simp: is_digits_def digit_val_def)

lemma strip_zeros_split:
  obtains n where "s = strip_zeros s @ replicate n (CHR ''0'')"
proof -
  have "rev s = takeWhile (\<lambda>c. c = CHR ''0'') (rev s) @ dropWhile (\<lambda>c. c = CHR ''0'') (rev s)" by simp
  then have "s = strip_zeros s @ rev (takeWhile (\<lambda>c. c = CHR ''0'') (rev s))"
    unfolding strip_zeros_def by (metis rev_append rev_rev_ident)
  moreover have "takeWhile (\<lambda>c. c = CHR ''0'') xs = replicate (length (takeWhile (\<lambda>c. c = CHR ''0'') xs)) (CHR ''0'')" for xs
    by (induction xs) auto
  then have "rev (takeWhile (\<lambda>c. c = CHR ''0'') (rev s)) = replicate (length (takeWhile (\<lambda>c. c = CHR ''0'') (rev s))) (CHR ''0'')"
    by (metis rev_replicate)
  ultimately show thesis using that by metis
qed

text \<open>The digits of a positive number: no zero at the end, none in front, and the value.\<close>

lemma shown_digits:
  assumes "0 < d"
  defines "ds \<equiv> strip_zeros (show_nat d)"
  shows "ds \<noteq> []" "is_digits ds" "hd ds \<noteq> CHR ''0''"
    and "of_nat (dec_value ds) * pow10 (int (length (show_nat d)) + e - int (length ds)) = of_nat d * pow10 e"
proof -
  obtain n where n: "show_nat d = ds @ replicate n (CHR ''0'')"
    using strip_zeros_split [of "show_nat d"] by (metis ds_def)
  show dig: "is_digits ds" using show_nat_digits [of d] n by simp
  have dv: "d = dec_value ds * 10 ^ n"
    using dec_value_show_nat [of d] unfolding n by (simp add: dec_value_def digits_from_zeros)
  then have "0 < dec_value ds" using assms(1) by (cases "dec_value ds") auto
  then show ne: "ds \<noteq> []" by (auto simp: dec_value_def)
  show "of_nat (dec_value ds) * pow10 (int (length (show_nat d)) + e - int (length ds)) = of_nat d * pow10 e"
  proof -
    have "int (length (show_nat d)) + e - int (length ds) = int n + e" by (simp add: n)
    then show ?thesis by (simp only: pow10_add pow10_of_nat) (simp add: dv)
  qed
  have "hd (show_nat k) \<noteq> CHR ''0''" if "0 < k" for k
    using that
  proof (induction k rule: show_nat.induct)
    case (1 k)
    show ?case
    proof (cases "k < 10")
      case True
      have "digit_char k \<noteq> CHR ''0''" if "digit_char k = CHR ''0''"
        using arg_cong [OF that, of digit_val] True 1(2) by (simp add: digit_val_def [of "CHR ''0''"])
      then show ?thesis using True by (subst show_nat.simps) auto
    next
      case False
      then show ?thesis using 1(1) [OF False] by (subst show_nat.simps) auto
    qed
  qed
  then show "hd ds \<noteq> CHR ''0''" using n ne assms(1) by (metis hd_append2)
qed

subsection \<open>Reading the text back\<close>

lemma mantissa_fraction:
  assumes "is_digits f" "x = [] \<or> digit_val (hd x) = None \<and> hd x \<noteq> CHR ''.''"
  shows "float_mantissa False True m k (point_text f @ x) = (True, dec_from m f, k + length f, x)"
proof -
  have stop: "float_mantissa dot True m' k' x = (True, m', k', x)" for dot m' k'
    using assms(2) by (cases x) auto
  have dots: "float_mantissa True True m' k' (ds @ x) = (True, dec_from m' ds, k' + length ds, x)" if "is_digits ds" for ds m' k'
    using that stop by (induction ds arbitrary: m' k') auto
  have "digit_val (CHR ''.'') = None" by (simp add: digit_val_def)
  then show ?thesis using dots [OF assms(1)] stop by (simp add: point_text_def)
qed

lemma exponent_digits:
  assumes "n < 10000"
  shows "float_exponent 0 (show_nat n) = (n, [])"
proof -
  have "float_exponent e ds = (dec_from e ds, [])" if "is_digits ds" "dec_from e ds < 10000" for e ds
    using that
  proof (induction ds arbitrary: e)
    case (Cons c ds)
    then have "dec_from (10 * e + the (digit_val c)) ds < 10000" "is_digits ds" "digit_val c \<noteq> None" by auto
    moreover have "10 * e + the (digit_val c) \<le> dec_from (10 * e + the (digit_val c)) ds" by (rule dec_from_ge)
    then have "e < 10000" using calculation(1) by linarith
    ultimately show ?case using Cons.IH by auto
  qed simp
  from this [of "show_nat n" 0] show ?thesis
    using assms dec_value_show_nat [of n] by (simp add: show_nat_digits dec_value_def)
qed

lemma float_scale_exponent:
  assumes "\<bar>e\<bar> < 10000"
  shows "float_scale (exponent_text e) = Some e"
proof -
  obtain c cs where s: "show_nat (nat \<bar>e\<bar>) = c # cs" by (cases "show_nat (nat \<bar>e\<bar>)") auto
  then have c: "digit_val c \<noteq> None" using show_nat_digits [of "nat \<bar>e\<bar>"] by simp
  have "float_exponent 0 (c # cs) = (nat \<bar>e\<bar>, [])"
    using exponent_digits [of "nat \<bar>e\<bar>"] assms s by (simp add: nat_less_iff)
  moreover have "lower_byte (CHR ''e'') = CHR ''e''" by (simp add: lower_byte_def)
  ultimately show ?thesis
    using c by (auto simp add: float_scale_def exponent_text_def s Let_def del: float_exponent.simps)
qed

lemma parse_decimal:
  assumes "sg = [] \<or> sg = ''-''" "i \<noteq> []" "is_digits i" "is_digits f"
    and "x = [] \<and> e = 0 \<or> x = exponent_text e \<and> \<bar>e\<bar> < 10000"
    and "f64_round ((if sg = [] then 1 else - 1) * (of_nat (dec_value (i @ f)) * pow10 (e - int (length f)))) = FNum q"
  shows "parse_float (sg @ i @ point_text f @ x) = Inr (FNum q)"
proof -
  obtain c cs where i: "i = c # cs" using assms(2) by (cases i) auto
  have dc: "digit_val c \<noteq> None" using assms(3) by (simp add: i)
  note ne = digit_not_sign [OF dc] lower_digit_ne [OF dc]
  have sp: "split_sign (sg @ i @ t) = (sg \<noteq> [], i @ t)" for t
    using assms(1) ne by (auto simp: split_sign_def i)
  have minus: "lower_byte (CHR ''-'') \<noteq> CHR ''n''" by (simp add: lower_byte_def)
  have low: "map lower_byte (i @ t) \<noteq> ''inf''" "map lower_byte (i @ t) \<noteq> ''infinity''"
    "map lower_byte (sg @ i @ t) \<noteq> ''nan''" for t
    using ne assms(1) minus by (auto simp: i)
  have hx: "x = [] \<or> digit_val (hd x) = None \<and> hd x \<noteq> CHR ''.''"
    using assms(5) by (auto simp: exponent_text_def digit_val_def)
  have man: "float_mantissa False False 0 0 (i @ point_text f @ x) = (True, dec_value (i @ f), length f, x)"
    unfolding float_mantissa_digits [OF assms(3,2)] mantissa_fraction [OF assms(4) hx] by (simp add: dec_value_def)
  have sc: "float_scale x = Some e" using assms(5) float_scale_exponent by (auto simp: float_scale_def)
  show ?thesis
    using assms(1,6) by (auto simp: parse_float_def sp low low [of _] man sc Let_def simp del: map_append)
qed

lemma plain_digits_value:
  fixes dp :: int
  assumes "ds \<noteq> []" "is_digits ds"
  defines "i \<equiv> fst (plain_digits ds dp)" and "f \<equiv> snd (plain_digits ds dp)"
  shows "i \<noteq> []" "is_digits i" "is_digits f" "hd ds \<noteq> CHR ''0'' \<Longrightarrow> hd i = CHR ''0'' \<Longrightarrow> tl i = []"
    and "of_nat (dec_value (i @ f)) * pow10 (- int (length f)) = of_nat (dec_value ds) * pow10 (dp - int (length ds))"
proof -
  have tk: "is_digits (take n ds)" "is_digits (drop n ds)" for n
    using assms(2) by (metis append_take_drop_id is_digits_simps(3))+
  have z: "is_digits ''0''" by (simp add: digit_val_def)
  show "i \<noteq> []" "is_digits i" "is_digits f"
    using assms(1,2) tk zeros_digits z by (auto simp: i_def f_def plain_digits_def)
  show "tl i = []" if "hd ds \<noteq> CHR ''0''" "hd i = CHR ''0''"
    using that assms(1) by (cases ds; cases "nat dp") (auto simp: i_def plain_digits_def split: if_splits)
  show "of_nat (dec_value (i @ f)) * pow10 (- int (length f)) = of_nat (dec_value ds) * pow10 (dp - int (length ds))"
  proof (cases "dp \<le> 0")
    case True
    have "digit_val (CHR ''0'') = Some 0" by (simp add: digit_val_def)
    then have "dec_value (i @ f) = dec_value ds" using True by (simp add: i_def f_def plain_digits_def dec_value_def digits_from_zeros)
    then show ?thesis using True by (simp add: f_def plain_digits_def)
  next
    case False
    define z where "z = nat dp - length ds"
    have v: "dec_value (i @ f) = dec_value ds * 10 ^ z"
    proof (cases "nat dp \<le> length ds")
      case True
      have "take (nat dp) ds @ replicate z (CHR ''0'') @ drop (nat dp) ds = ds" using True by (simp add: z_def)
      then show ?thesis using False True by (simp add: i_def f_def plain_digits_def z_def del: dec_from_simps)
    next
      case long: False
      then show ?thesis using False by (simp add: i_def f_def plain_digits_def z_def dec_value_def digits_from_zeros)
    qed
    have "int z + - int (length f) = dp - int (length ds)" using False by (simp add: f_def plain_digits_def z_def)
    then have "pow10 (dp - int (length ds)) = 10 ^ z * pow10 (- int (length f))"
      by (metis pow10_add pow10_of_nat)
    then show ?thesis by (simp add: v)
  qed
qed

lemma pow10_mono: "a \<le> b \<Longrightarrow> pow10 a \<le> pow10 b"
  by (simp add: pow10_powi power_int_increasing)

text \<open>No float needs an exponent of more than three digits.\<close>

lemma float_exponent_bound:
  assumes "0 < a" "a < 2 ^ 1024" "round_mag v = a" "pow10 (dp - 1) \<le> v" "v < pow10 dp"
  shows "\<bar>dp - 1\<bar> < 10000"
proof -
  have v: "0 \<le> v" using assms(4) pow10_pos [of "dp - 1"] by linarith
  have "v < 2 ^ 1024"
  proof (rule ccontr)
    assume "\<not> v < 2 ^ 1024"
    then have "round_mag (2 ^ 1024) \<le> round_mag v" by (intro round_mag_mono) simp_all
    moreover have "round_mag (of_nat 1 * pow2 1024) = of_nat 1 * pow2 1024" by (rule round_mag_dyadic) simp_all
    then have "round_mag (2 ^ 1024) = 2 ^ 1024" by (simp add: pow2_def)
    ultimately show False using assms(2,3) by linarith
  qed
  then have "pow10 (dp - 1) < pow10 309" using assms(4) by (simp add: pow10_def [of 309])
  then have up: "dp - 1 < 309" using pow10_mono [of 309 "dp - 1"] by linarith
  have "pow2 (- 1080) \<le> v"
  proof (rule ccontr)
    assume "\<not> pow2 (- 1080) \<le> v"
    then have "round_mag v \<le> round_mag (pow2 (- 1080))" using v by (intro round_mag_mono) simp_all
    moreover have "rat_exp (pow2 (- 1080)) = - 1080"
      by (rule rat_exp_unique) (simp_all add: pow2_def)
    then have "round_mag (pow2 (- 1080)) = of_int (round_even (pow2 (- 1080) / pow2 (- 1074))) * pow2 (- 1074)"
      by (simp add: round_mag_def ulp_exp_def)
    moreover have "pow2 (- 1080) / pow2 (- 1074) = 1 / 64" by (simp add: pow2_def)
    moreover have "round_even (1 / 64) = 0" by (rule round_even_close) simp
    ultimately show False using assms(1,3) by simp
  qed
  then have "pow10 (- 326) < pow10 dp" using assms(5) by (simp add: pow10_def [of "- 326"] pow2_def)
  then have "- 326 < dp" using pow10_mono [of dp "- 326"] by linarith
  then show ?thesis using up by linarith
qed

lemma magnitude_parts:
  assumes "0 < a" "round_mag a = a" "a < 2 ^ 1024"
  obtains i f x e where "magnitude_text a = i @ point_text f @ x" "i \<noteq> []" "is_digits i" "is_digits f"
    "hd i = CHR ''0'' \<Longrightarrow> tl i = []" "x = [] \<and> e = 0 \<or> x = exponent_text e \<and> \<bar>e\<bar> < 10000"
    "round_mag (of_nat (dec_value (i @ f)) * pow10 (e - int (length f))) = a"
proof -
  obtain d e0 where d: "shortest_decimal a = Some (d, e0)" "round_mag (of_nat d * pow10 e0) = a" "0 < d"
    using shortest_decimal_exists [OF assms(1,2)] by blast
  define ds where "ds = strip_zeros (show_nat d)"
  define dp where "dp = int (length (show_nat d)) + e0"
  note ds = shown_digits [OF d(3), folded ds_def]
  have v: "of_nat (dec_value ds) * pow10 (dp - int (length ds)) = of_nat d * pow10 e0"
    using ds(4) [of e0] by (simp add: dp_def)
  have m: "magnitude_text a = (if a < round_mag (pow10 (- 6)) \<or> pow10 21 \<le> a then scientific_float ds dp else plain_float ds dp)"
    by (simp add: magnitude_text_def d(1) ds_def dp_def Let_def)
  show thesis
  proof (cases "a < round_mag (pow10 (- 6)) \<or> pow10 21 \<le> a")
    case True
    have len: "1 \<le> length (show_nat d)" by (simp add: Suc_le_eq)
    have "pow10 (dp - 1) = pow10 (int (length (show_nat d) - 1)) * pow10 e0"
      using len by (simp only: pow10_add [symmetric] dp_def of_nat_diff) (simp add: algebra_simps)
    also have "pow10 (int (length (show_nat d) - 1)) = of_nat (10 ^ (length (show_nat d) - 1))"
      by (simp only: pow10_of_nat) simp
    finally have "pow10 (dp - 1) = of_nat (10 ^ (length (show_nat d) - 1)) * pow10 e0" .
    moreover have "pow10 dp = of_nat (10 ^ length (show_nat d)) * pow10 e0"
      by (simp add: dp_def pow10_add pow10_of_nat)
    moreover have "of_nat (10 ^ (length (show_nat d) - 1)) \<le> (of_nat d :: rat)" "(of_nat d :: rat) < of_nat (10 ^ length (show_nat d))"
      using show_nat_length [OF d(3)] by (simp_all only: of_nat_le_iff of_nat_less_iff)
    ultimately have "pow10 (dp - 1) \<le> of_nat d * pow10 e0" "of_nat d * pow10 e0 < pow10 dp"
      by (simp_all only: mult_right_mono less_imp_le [OF pow10_pos] mult_less_cancel_right_pos [OF pow10_pos])
    then have e: "\<bar>dp - 1\<bar> < 10000" using float_exponent_bound [OF assms(1,3) d(2)] by blast
    obtain c cs where c: "ds = c # cs" using ds(1) by (cases ds) auto
    have "dp - 1 - int (length cs) = dp - int (length ds)" by (simp add: c)
    then have "round_mag (of_nat (dec_value ([c] @ cs)) * pow10 (dp - 1 - int (length cs))) = a"
      unfolding \<open>dp - 1 - int (length cs) = dp - int (length ds)\<close> using v d(2) c by simp
    then show thesis
      using that [of "[c]" cs "exponent_text (dp - 1)" "dp - 1"] m True ds(2) e by (simp add: scientific_float_def c)
  next
    case False
    define i f where "i = fst (plain_digits ds dp)" and "f = snd (plain_digits ds dp)"
    note p = plain_digits_value [OF ds(1,2), of dp, folded i_def f_def]
    have "round_mag (of_nat (dec_value (i @ f)) * pow10 (0 - int (length f))) = a"
      using p(5) v d(2) by simp
    then show thesis
      using that [of i f "[]" 0] m False p(1-4) ds(3) by (simp add: plain_float_def i_def f_def)
  qed
qed

lemma exponent_number:
  "\<exists>s d. exponent_text e = CHR ''e'' # s @ d \<and> s \<in> {[], ''+'', ''-''} \<and> d \<noteq> [] \<and> is_digits d"
  by (intro exI [of _ "if e < 0 then ''-'' else ''+''"] exI [of _ "show_nat (nat \<bar>e\<bar>)"])
    (simp add: exponent_text_def show_nat_digits)

lemma float_text_ok:
  assumes "f64_round q = FNum q"
  shows "parse_float (float_text q) = Inr (FNum q)" "number_text (float_text q)"
proof -
  have "parse_float (float_text q) = Inr (FNum q) \<and> number_text (float_text q)"
  proof (cases "q = 0")
    case True
    have z: "digit_val (CHR ''0'') = Some 0" "dec_value ''0'' = 0" by (simp_all add: digit_val_def dec_value_def)
    have "parse_float ([] @ ''0'' @ point_text [] @ []) = Inr (FNum 0)"
      by (rule parse_decimal [where e = 0]) (simp_all add: z)
    moreover have "number_text ''0''"
      unfolding number_text_def
      by (rule exI [of _ "[]"], rule exI [of _ "''0''"], rule exI [of _ "[]"], rule exI [of _ "[]"]) (simp add: z)
    ultimately show ?thesis using True by (simp add: float_text_def point_text_def)
  next
    case False
    define a where "a = \<bar>q\<bar>"
    have a: "0 < a" "round_mag a = a" "a < 2 ^ 1024"
      using assms False by (auto simp: a_def f64_round_def Let_def split: if_splits)
    obtain i f x e where p: "magnitude_text a = i @ point_text f @ x" "i \<noteq> []" "is_digits i" "is_digits f"
        "hd i = CHR ''0'' \<Longrightarrow> tl i = []" "x = [] \<and> e = 0 \<or> x = exponent_text e \<and> \<bar>e\<bar> < 10000"
        "round_mag (of_nat (dec_value (i @ f)) * pow10 (e - int (length f))) = a"
      using magnitude_parts [OF a] by blast
    define v where "v = of_nat (dec_value (i @ f)) * pow10 (e - int (length f))"
    define sg where "sg = (if q < 0 then ''-'' else [])"
    have t: "float_text q = sg @ i @ point_text f @ x" using False p(1) by (simp add: float_text_def sg_def a_def)
    have "0 \<le> v" using less_imp_le [OF pow10_pos] by (simp add: v_def)
    moreover have "v \<noteq> 0"
    proof
      assume "v = 0"
      then have "round_mag v = 0" by simp
      then show False using p(7) a(1) unfolding v_def by linarith
    qed
    ultimately have v: "0 < v" by simp
    then have "f64_round ((if sg = [] then 1 else - 1) * v) = FNum q"
      using p(7) a(3) False by (auto simp: f64_round_def Let_def v_def [symmetric] sg_def a_def)
    then have "parse_float (sg @ i @ point_text f @ x) = Inr (FNum q)"
      unfolding v_def using p(2-4,6) by (intro parse_decimal) (auto simp: sg_def)
    moreover have "number_text (sg @ i @ point_text f @ x)"
      unfolding number_text_def
    proof (intro exI conjI)
      show "sg \<in> {[], ''-''}" by (simp add: sg_def)
      show "point_text f = [] \<or> (\<exists>d. point_text f = CHR ''.'' # d \<and> d \<noteq> [] \<and> is_digits d)"
        using p(4) by (simp add: point_text_def)
      show "x = [] \<or> (\<exists>s d. x = CHR ''e'' # s @ d \<and> s \<in> {[], ''+'', ''-''} \<and> d \<noteq> [] \<and> is_digits d)"
        using p(6) exponent_number by blast
    qed (use p(2,3,5) in auto)
    ultimately show ?thesis using t by simp
  qed
  then show "parse_float (float_text q) = Inr (FNum q)" "number_text (float_text q)" by blast+
qed

end
