(* ===== verification/TimeText.thy ===== *)
theory TimeText
  imports FloatText
begin

section \<open>Times in RFC 3339\<close>

text \<open>
  How \<open>time.Time\<close> is written to JSON and read back: the layout \<open>RFC3339Nano\<close> with its checks, and
  the strict parser behind \<open>UnmarshalJSON\<close>, which is the library's fast path; what that path
  refuses is taken as refused. The calendar of \<open>GoTime\<close> is shown to be inverted by the count of
  days.
\<close>

subsection \<open>The calendar\<close>

definition leap_year :: "int \<Rightarrow> bool" where
  "leap_year y \<longleftrightarrow> 4 dvd y \<and> (\<not> 100 dvd y \<or> 400 dvd y)"

definition days_in :: "int \<Rightarrow> int \<Rightarrow> int" where
  "days_in m y = (if m = 2 then if leap_year y then 29 else 28 else if m \<in> {4, 6, 9, 11} then 30 else 31)"

definition days_from_civil :: "int \<Rightarrow> int \<Rightarrow> int \<Rightarrow> int" where
  "days_from_civil y m d =
     (let y' = (if m \<le> 2 then y - 1 else y); yoe = y' mod 400; mp = (m + 9) mod 12;
          doy = (153 * mp + 2) div 5 + d - 1;
          doe = 365 * yoe + yoe div 4 - yoe div 100 + doy
      in y' div 400 * 146097 + doe - 719468)"

lemma div_eqI: "b * k \<le> a \<Longrightarrow> a < b * k + b \<Longrightarrow> a div b = (k :: int)"
  by (rule int_div_pos_eq [of _ _ _ "a - b * k"]) simp_all

text \<open>A day of an era of 400 years, split into centuries, cycles of four years, years and days.\<close>

lemma era_day_split:
  assumes "0 \<le> doe" "doe \<le> 146096"
  obtains c q y r :: int where "doe = 36524 * c + 1461 * q + 365 * y + r"
    "0 \<le> c" "c \<le> 3" "0 \<le> q" "q \<le> 24" "0 \<le> y" "y \<le> 3" "0 \<le> r" "r \<le> 365"
    "r = 365 \<longrightarrow> y = 3 \<and> (q = 24 \<longrightarrow> c = 3)"
proof -
  define c where "c = (if doe = 146096 then 3 else doe div 36524)"
  define r1 where "r1 = doe - 36524 * c"
  have c: "0 \<le> c" "c \<le> 3" "0 \<le> r1" "r1 \<le> 36524" "c \<noteq> 3 \<Longrightarrow> r1 < 36524"
    using assms by (auto simp: c_def r1_def)
  define q r2 where "q = r1 div 1461" and "r2 = r1 mod 1461"
  have r1: "r1 = 1461 * q + r2" by (simp add: q_def r2_def)
  have q: "0 \<le> q" "q \<le> 24" "0 \<le> r2" "r2 < 1461" using c(3,4) by (auto simp: q_def r2_def)
  define y where "y = (if r2 = 1460 then 3 else r2 div 365)"
  define r where "r = r2 - 365 * y"
  have "r = r2 mod 365" if "r2 \<noteq> 1460" using that by (simp add: r_def y_def minus_mult_div_eq_mod)
  then have r: "r2 \<noteq> 1460 \<Longrightarrow> 0 \<le> r \<and> r < 365" "r2 = 1460 \<Longrightarrow> r = 365" by (simp_all add: r_def y_def)
  have y: "0 \<le> y" "y \<le> 3" using q(3,4) by (auto simp: y_def)
  have y: "0 \<le> y" "y \<le> 3" "0 \<le> r" "r \<le> 365" "r = 365 \<Longrightarrow> r2 = 1460"
    using y r by (cases "r2 = 1460"; simp)+
  have leap: "y = 3 \<and> (q = 24 \<longrightarrow> c = 3)" if "r = 365"
  proof -
    have r2: "r2 = 1460" by (rule y(5) [OF that])
    have "c = 3" if "q = 24" using c(5) r1 r2 that by (cases "c = 3") simp_all
    then show ?thesis using r2 by (simp add: y_def)
  qed
  have "doe = 36524 * c + 1461 * q + 365 * y + r" using r1 by (simp add: r1_def r_def)
  then show thesis using c(1,2) q(1,2) y(1-4) by (rule that) (use leap in blast)
qed

lemma era_year:
  fixes doe :: int
  assumes "doe = 36524 * c + 1461 * q + 365 * y + r" "0 \<le> c" "c \<le> 3" "0 \<le> q" "q \<le> 24" "0 \<le> y" "y \<le> 3"
    and "0 \<le> r" "r \<le> 365" "r = 365 \<longrightarrow> y = 3 \<and> (q = 24 \<longrightarrow> c = 3)"
  shows "(doe - doe div 1460 + doe div 36524 - doe div 146096) div 365 = 100 * c + 4 * q + y"
proof -
  define k where "k = 24 * c + q + 365 * y + r"
  define j :: int where "j = (if 1460 \<le> k then 1 else 0)"
  define l :: int where "l = (if doe = 146096 then 1 else 0)"
  have k: "0 \<le> k" "k < 2920" using assms by (simp_all add: k_def)
  have d1: "doe div 1460 = 25 * c + q + j"
    using k assms(1) by (intro div_eqI) (auto simp: j_def k_def)
  have top: "doe \<le> 146096" "c \<noteq> 3 \<Longrightarrow> 1461 * q + 365 * y + r < 36524"
    using assms by (cases "r = 365"; simp; linarith)+
  have low: "1461 * q + 365 * y + r < 36524" if "doe \<noteq> 146096"
    using top that assms(1) by (cases "c = 3") simp_all
  have rest: "0 \<le> 1461 * q + 365 * y + r" using assms(4,6,8) by simp
  have d2: "doe div 36524 = c + l"
  proof (cases "doe = 146096")
    case True
    then have "c = 3" using assms by linarith
    then show ?thesis using True by (simp add: l_def)
  next
    case False
    then show ?thesis using low rest assms(1) by (intro div_eqI) (simp_all add: l_def)
  qed
  have d3: "doe div 146096 = l"
    using top(1) rest assms(1,2) by (intro div_eqI) (auto simp: l_def)
  have "0 \<le> r - j" "r - j < 365"
    using assms(2-9) assms(10) by (cases "r = 365"; simp add: j_def k_def)+
  then show ?thesis
    unfolding d1 d2 d3 using assms(1) by (intro div_eqI) simp_all
qed

text \<open>A day of a year that begins in March: the month's number from March, and the day in it.\<close>

lemma march_month:
  fixes r :: int
  assumes "0 \<le> r" "r \<le> 365"
  defines "mp \<equiv> (5 * r + 2) div 153"
  defines "d \<equiv> r - (153 * mp + 2) div 5 + 1"
  shows "0 \<le> mp" "mp \<le> 11" "1 \<le> d"
    and "d \<le> (if mp = 11 then if r = 365 then 29 else 28 else if mp \<in> {1, 3, 6, 8} then 30 else 31)"
proof -
  show mp: "0 \<le> mp" "mp \<le> 11" using assms(1,2) by (auto simp: mp_def)
  have b: "153 * mp \<le> 5 * r + 2" "5 * r + 2 < 153 * mp + 153" by (simp_all add: mp_def)
  show "1 \<le> d" using b by (simp add: d_def)
  have m: "mp \<in> {0, 1, 2, 3, 4, 5, 6, 7, 8, 9, 10, 11}" using mp by (simp only: insert_iff empty_iff) presburger
  show "d \<le> (if mp = 11 then if r = 365 then 29 else 28 else if mp \<in> {1, 3, 6, 8} then 30 else 31)"
    unfolding d_def using m [unfolded insert_iff empty_iff] b(2) assms(2) by (elim disjE) simp_all
qed

lemma leap_day_year:
  fixes q :: int
  assumes "0 \<le> q" "q \<le> 24" "q = 24 \<longrightarrow> c = 3"
  shows "leap_year (100 * c + 4 * q + 3 + era * 400 + 1)"
proof -
  have e: "100 * c + 4 * q + 3 + era * 400 + 1 = 4 * (25 * c + (q + 1) + 100 * era)" by simp
  show ?thesis
  proof (cases "q = 24")
    case True
    then have "100 * c + 4 * q + 3 + era * 400 + 1 = 400 * (1 + era)" using assms(3) by simp
    moreover have "4 dvd 400 * (1 + era)" using dvd_triv_left [of 4 "100 * (1 + era)"] by (simp add: mult.assoc [symmetric])
    ultimately show ?thesis by (simp only: leap_year_def dvd_triv_left simp_thms)
  next
    case False
    then have "\<not> 25 dvd q + 1" using assms(1,2) zdvd_not_zless [of "q + 1" 25] by simp
    then have "\<not> 4 * 25 dvd 4 * (25 * c + (q + 1) + 100 * era)"
      using dvd_add_right_iff [of 25 "25 * c + 100 * era" "q + 1"] by (simp only: dvd_times_left_cancel_iff) (simp add: ac_simps)
    then have "\<not> 100 dvd 100 * c + 4 * q + 3 + era * 400 + 1" unfolding e by simp
    then show ?thesis using e by (simp only: leap_year_def dvd_triv_left simp_thms)
  qed
qed

lemma civil_of_valid:
  fixes t :: time
  defines "c \<equiv> civil_of t"
  shows "days_from_civil (cv_year c) (cv_month c) (cv_day c) = t div 1000000000 div 86400"
    and "1 \<le> cv_month c" "cv_month c \<le> 12" "1 \<le> cv_day c" "cv_day c \<le> days_in (cv_month c) (cv_year c)"
proof -
  define z where "z = t div 1000000000 div 86400 + 719468"
  define era doe where "era = z div 146097" and "doe = z mod 146097"
  have "0 \<le> doe" "doe \<le> 146096" by (simp_all add: doe_def) 
  then obtain cc q y r :: int where s: "doe = 36524 * cc + 1461 * q + 365 * y + r"
    "0 \<le> cc" "cc \<le> 3" "0 \<le> q" "q \<le> 24" "0 \<le> y" "y \<le> 3" "0 \<le> r" "r \<le> 365"
    "r = 365 \<longrightarrow> y = 3 \<and> (q = 24 \<longrightarrow> cc = 3)"
    by (rule era_day_split)
  define yoe where "yoe = 100 * cc + 4 * q + y"
  have year: "(doe - doe div 1460 + doe div 36524 - doe div 146096) div 365 = yoe"
    unfolding yoe_def using s by (rule era_year)
  have y4: "yoe div 4 = 25 * cc + q" "yoe div 100 = cc" "0 \<le> yoe" "yoe < 400"
    using s(2-7) by (auto simp: yoe_def intro!: div_eqI)
  have doy: "doe - (365 * yoe + yoe div 4 - yoe div 100) = r" unfolding y4 by (simp add: s(1) yoe_def)
  define mp where "mp = (5 * r + 2) div 153"
  define d where "d = r - (153 * mp + 2) div 5 + 1"
  define m where "m = (if mp < 10 then mp + 3 else mp - 9)"
  define y' where "y' = yoe + era * 400"
  have c: "cv_year c = (if m \<le> 2 then y' + 1 else y')" "cv_month c = m" "cv_day c = d"
    unfolding c_def civil_of_def Let_def z_def [symmetric] era_def [symmetric] doe_def [symmetric] year doy
      mp_def [symmetric] m_def [symmetric] d_def [symmetric] y'_def [symmetric] by simp_all
  note mm = march_month [OF s(8,9), folded mp_def, folded d_def]
  show "1 \<le> cv_month c" "cv_month c \<le> 12" "1 \<le> cv_day c" using mm(1-3) by (simp_all add: c m_def)
  have leap: "leap_year (y' + 1)" if "r = 365"
    using leap_day_year [of q cc era] s(4,5) s(10) that by (simp add: y'_def yoe_def algebra_simps)
  have "mp \<in> {0, 1, 2, 3, 4, 5, 6, 7, 8, 9, 10, 11}" using mm(1,2) by (simp only: insert_iff empty_iff) presburger
  then show "cv_day c \<le> days_in (cv_month c) (cv_year c)"
    using mm(4) leap unfolding c insert_iff empty_iff
    by (elim disjE) (auto simp: m_def days_in_def split: if_splits)
  have e: "(if m \<le> 2 then cv_year c - 1 else cv_year c) = y'" "(m + 9) mod 12 = mp"
    using mm(1,2) by (auto simp: c m_def)
  have f: "y' mod 400 = yoe" "y' div 400 = era" using y4(3,4) by (simp_all add: y'_def)
  have g: "(153 * mp + 2) div 5 + d - 1 = r" by (simp add: d_def)
  have h: "365 * yoe + yoe div 4 - yoe div 100 + r = doe" using doy by simp
  have z: "era * 146097 + doe = z" by (simp add: era_def doe_def)
  show "days_from_civil (cv_year c) (cv_month c) (cv_day c) = t div 1000000000 div 86400"
    unfolding days_from_civil_def Let_def c(2,3) e f g h z by (simp only: z_def add_diff_cancel_right')
qed

subsection \<open>Writing and parsing\<close>

text \<open>The offset of a zone is cut to minutes, as the layout does.\<close>

definition zone_minutes :: "int \<Rightarrow> int" where
  "zone_minutes off = (if off < 0 then - ((- off) div 60) else off div 60)"

definition zone_text :: "int \<Rightarrow> string" where
  "zone_text off =
     (let m = zone_minutes off in
      if off = 0 then ''Z''
      else (if m < 0 then ''-'' else ''+'') @ two_digits (\<bar>m\<bar> div 60) @ '':'' @ two_digits (\<bar>m\<bar> mod 60))"

definition format_rfc3339 :: "zone \<Rightarrow> time \<Rightarrow> string" where
  "format_rfc3339 z t =
     (let c = in_zone z t in
        year_digits (cv_year c) @ ''-'' @ two_digits (cv_month c) @ ''-'' @ two_digits (cv_day c) @ ''T'' @
        two_digits (cv_hour c) @ '':'' @ two_digits (cv_minute c) @ '':'' @ two_digits (cv_second c) @
        decimal_part (nat (t mod 1000000000)) 9 @ zone_text (fst z))"

definition marshal_time :: "zone \<Rightarrow> time \<Rightarrow> err + string" where
  "marshal_time z t =
     (let y = cv_year (in_zone z t) in
      if y < 0 \<or> 9999 < y then Inl (EMsg ''year outside of range [0,9999]'')
      else if 1440 \<le> \<bar>zone_minutes (fst z)\<bar> then Inl (EMsg ''timezone hour outside of range [0,23]'')
      else Inr (format_rfc3339 z t))"

text \<open>\<open>n\<close> digits within bounds, and a byte that has to be there.\<close>

definition digits_field :: "nat \<Rightarrow> int \<Rightarrow> int \<Rightarrow> string \<Rightarrow> (int \<times> string) option" where
  "digits_field n lo hi s =
     (let d = take n s; v = int (dec_value d) in
      if length d = n \<and> is_digits d \<and> lo \<le> v \<and> v \<le> hi then Some (v, drop n s) else None)"

definition expect_byte :: "char \<Rightarrow> string \<Rightarrow> string option" where
  "expect_byte c s = (case s of x # r \<Rightarrow> if x = c then Some r else None | [] \<Rightarrow> None)"

text \<open>Nanoseconds: the digits behind a point, of which the first nine count.\<close>

definition fraction_field :: "string \<Rightarrow> int \<times> string" where
  "fraction_field s =
     (case s of
        p # t \<Rightarrow>
          (let ds = takeWhile is_digit t; d9 = take 9 ds in
           if p = CHR ''.'' \<and> ds \<noteq> [] then (int (dec_value d9 * 10 ^ (9 - length d9)), dropWhile is_digit t)
           else (0, s))
      | [] \<Rightarrow> (0, s))"

definition zone_field :: "string \<Rightarrow> int option" where
  "zone_field s =
     (if s = ''Z'' then Some 0
      else case s of
             [] \<Rightarrow> None
           | sg # t \<Rightarrow>
               if sg \<noteq> CHR ''+'' \<and> sg \<noteq> CHR ''-'' then None
               else Option.bind (digits_field 2 0 23 t) (\<lambda>(h, t).
                 Option.bind (expect_byte (CHR '':'') t) (\<lambda>t.
                 Option.bind (digits_field 2 0 59 t) (\<lambda>(m, t).
                 if t = [] then Some ((if sg = CHR ''-'' then - 1 else 1) * (h * 3600 + m * 60)) else None))))"

definition parse_rfc3339 :: "string \<Rightarrow> time option" where
  "parse_rfc3339 s =
     Option.bind (digits_field 4 0 9999 s) (\<lambda>(y, s).
     Option.bind (expect_byte (CHR ''-'') s) (\<lambda>s.
     Option.bind (digits_field 2 1 12 s) (\<lambda>(m, s).
     Option.bind (expect_byte (CHR ''-'') s) (\<lambda>s.
     Option.bind (digits_field 2 1 (days_in m y) s) (\<lambda>(d, s).
     Option.bind (expect_byte (CHR ''T'') s) (\<lambda>s.
     Option.bind (digits_field 2 0 23 s) (\<lambda>(h, s).
     Option.bind (expect_byte (CHR '':'') s) (\<lambda>s.
     Option.bind (digits_field 2 0 59 s) (\<lambda>(mi, s).
     Option.bind (expect_byte (CHR '':'') s) (\<lambda>s.
     Option.bind (digits_field 2 0 59 s) (\<lambda>(sec, s).
     (let (ns, s) = fraction_field s in
      Option.bind (zone_field s) (\<lambda>off.
        Some ((days_from_civil y m d * 86400 + h * 3600 + mi * 60 + sec - off) * 1000000000 + ns))))))))))))))"

subsection \<open>The round trip\<close>

lemma padded_digits:
  assumes "k < 10 ^ n" "0 < n"
  defines "s \<equiv> pad_left n (CHR ''0'') (show_nat k)"
  shows "length s = n" "is_digits s" "dec_value s = k"
proof -
  have "length (show_nat k) \<le> n"
  proof (cases "k = 0")
    case True
    then show ?thesis using assms(2) by (simp add: show_nat.simps [of 0])
  next
    case False
    then have "10 ^ (length (show_nat k) - 1) \<le> k" using show_nat_length [of k] by blast
    then have "10 ^ (length (show_nat k) - 1) < (10 :: nat) ^ n" using assms(1) by (rule le_less_trans)
    then have "length (show_nat k) - 1 < n" by (rule power_less_imp_less_exp [rotated]) simp
    then show ?thesis by simp
  qed
  then show "length s = n" by (simp add: s_def pad_left_def)
  show "is_digits s" using zeros_digits show_nat_digits by (simp add: s_def pad_left_def)
  show "dec_value s = k"
    using digits_from_zeros [of 0] dec_value_show_nat [of k] by (simp add: s_def pad_left_def dec_value_def)
qed

lemma field_padded:
  assumes "k < 10 ^ n" "0 < n" "lo \<le> int k" "int k \<le> hi"
  shows "digits_field n lo hi (pad_left n (CHR ''0'') (show_nat k) @ r) = Some (int k, r)"
  using padded_digits [OF assms(1,2)] assms(3,4) by (simp add: digits_field_def Let_def)

lemma field_two:
  assumes "0 \<le> k" "k < 100" "lo \<le> k" "k \<le> hi"
  shows "digits_field 2 lo hi (two_digits k @ r) = Some (k, r)"
  using field_padded [of "nat k" 2 lo hi r] assms by (simp add: two_digits_def nat_less_iff)

lemma field_year: "0 \<le> y \<Longrightarrow> y \<le> 9999 \<Longrightarrow> digits_field 4 0 9999 (year_digits y @ r) = Some (y, r)"
  using field_padded [of "nat y" 4 0 9999 r] by (simp add: year_digits_def nat_less_iff)

lemma expect_here: "expect_byte c ([c] @ r) = Some r"
  by (simp add: expect_byte_def)

lemma zone_text_head: "\<exists>c r. zone_text off = c # r \<and> \<not> is_digit c \<and> c \<noteq> CHR ''.''"
  by (auto simp: zone_text_def Let_def is_digit_def digit_val_def)

lemma fraction_text:
  fixes t :: time
  assumes "s = c # r" "\<not> is_digit c" "c \<noteq> CHR ''.''"
  shows "fraction_field (decimal_part (nat (t mod 1000000000)) 9 @ s) = (t mod 1000000000, s)"
proof -
  define v where "v = nat (t mod 1000000000)"
  have v: "v < 10 ^ 9" "int v = t mod 1000000000" by (simp_all add: v_def nat_less_iff)
  define ds where "ds = strip_zeros (pad_left 9 (CHR ''0'') (show_nat v))"
  have pad: "length (pad_left 9 (CHR ''0'') (show_nat v)) = 9" "is_digits (pad_left 9 (CHR ''0'') (show_nat v))"
    "dec_value (pad_left 9 (CHR ''0'') (show_nat v)) = v"
    using padded_digits [OF v(1)] by simp_all
  obtain n where n: "pad_left 9 (CHR ''0'') (show_nat v) = ds @ replicate n (CHR ''0'')"
    using strip_zeros_split [of "pad_left 9 (CHR ''0'') (show_nat v)"] by (metis ds_def)
  have len: "length ds \<le> 9" "n = 9 - length ds" using pad(1) unfolding n by simp_all
  have dig: "is_digits ds" using pad(2) unfolding n by simp
  have val: "v = dec_value ds * 10 ^ (9 - length ds)"
    using pad(3) unfolding n by (simp add: dec_value_def digits_from_zeros len(2))
  have part: "decimal_part v 9 = (if ds = [] then [] else ''.'' @ ds)"
    using v(1) by (simp add: decimal_part_def ds_def Let_def)
  show ?thesis
  proof (cases "ds = []")
    case True
    then have "v = 0" using val by (simp add: dec_value_def)
    then show ?thesis using True part assms v(2) by (simp add: v_def [symmetric] fraction_field_def)
  next
    case False
    have "s = [] \<or> \<not> is_digit (hd s)" using assms by simp
    note tw = takeWhile_digits [OF dig this]
    have "decimal_part v 9 @ s = CHR ''.'' # ds @ s" using False part by simp
    then show ?thesis
      unfolding v_def [symmetric] fraction_field_def list.case Let_def tw
      using False len(1) val v(2) by (simp add: fraction_field_def tw Let_def)
  qed
qed

lemma zone_text_field:
  assumes "60 dvd off" "\<bar>off\<bar> < 86400"
  shows "zone_field (zone_text off) = Some off"
proof (cases "off = 0")
  case True
  then show ?thesis by (simp add: zone_text_def zone_field_def)
next
  case False
  obtain m where m: "off = 60 * m" using assms(1) by blast
  have "- off = 60 * (- m)" by (simp add: m)
  then have zm: "zone_minutes off = m" unfolding zone_minutes_def by (simp only: nonzero_mult_div_cancel_left) (simp add: m)
  define h k where "h = \<bar>m\<bar> div 60" and "k = \<bar>m\<bar> mod 60"
  have r: "0 \<le> h" "h \<le> 23" "0 \<le> k" "k \<le> 59" "h * 60 + k = \<bar>m\<bar>" using assms(2) by (auto simp: h_def k_def m)
  define sg where "sg = (if m < 0 then CHR ''-'' else CHR ''+'')"
  have t: "zone_text off = sg # two_digits h @ [CHR '':''] @ two_digits k @ []"
    using False by (simp add: zone_text_def zm Let_def sg_def h_def k_def)
  have f: "digits_field 2 0 23 (two_digits h @ r') = Some (h, r')" "digits_field 2 0 59 (two_digits k @ r') = Some (k, r')" for r'
    using r by (intro field_two; simp)+
  have "sg # x \<noteq> ''Z''" "sg = CHR ''+'' \<or> sg = CHR ''-''" for x by (simp_all add: sg_def)
  then have "zone_field (zone_text off) = Some ((if sg = CHR ''-'' then - 1 else 1) * (h * 3600 + k * 60))"
    unfolding t zone_field_def list.case by (simp add: f expect_here [simplified] del: append_Nil2)
  also have "(if sg = CHR ''-'' then - 1 else 1) * (h * 3600 + k * 60) = off"
    using r(5) by (auto simp: sg_def m)
  finally show ?thesis .
qed

lemma clock_parts:
  fixes t :: time
  defines "c \<equiv> civil_of t"
  shows "0 \<le> cv_hour c" "cv_hour c \<le> 23" "0 \<le> cv_minute c" "cv_minute c \<le> 59" "0 \<le> cv_second c" "cv_second c \<le> 59"
    and "cv_hour c * 3600 + cv_minute c * 60 + cv_second c = t div 1000000000 mod 86400"
proof -
  define r where "r = t div 1000000000 mod 86400"
  have r: "0 \<le> r" "r < 86400" by (simp_all add: r_def)
  have c: "cv_hour c = r div 3600" "cv_minute c = r div 60 mod 60" "cv_second c = r mod 60"
    by (simp_all only: c_def civil_of_def Let_def r_def civil.select_convs)
  show "0 \<le> cv_hour c" "cv_hour c \<le> 23" "0 \<le> cv_minute c" "cv_minute c \<le> 59" "0 \<le> cv_second c" "cv_second c \<le> 59"
    using r by (auto simp: c)
  have "r div 3600 = r div 60 div 60" by (simp add: zdiv_zmult2_eq [symmetric])
  then show "cv_hour c * 3600 + cv_minute c * 60 + cv_second c = t div 1000000000 mod 86400"
    unfolding c r_def [symmetric]
    using mult_div_mod_eq [of 60 r] mult_div_mod_eq [of 60 "r div 60"] by linarith
qed

text \<open>A zone that the layout can write: whole minutes, less than a day away from UTC.\<close>

lemma parse_format_rfc3339:
  assumes "0 \<le> cv_year (in_zone z t)" "cv_year (in_zone z t) \<le> 9999" "60 dvd fst z" "\<bar>fst z\<bar> < 86400"
  shows "parse_rfc3339 (format_rfc3339 z t) = Some t"
proof -
  define u where "u = t + fst z * 1000000000"
  define c where "c = civil_of u"
  have iz: "in_zone z t = c" by (simp add: in_zone_def c_def u_def)
  note v = civil_of_valid [of u, folded c_def] and p = clock_parts [of u, folded c_def]
  have d31: "cv_day c \<le> 31" using v(5) by (auto simp: days_in_def split: if_splits)
  have f: "digits_field 4 0 9999 (year_digits (cv_year c) @ r) = Some (cv_year c, r)"
    "digits_field 2 1 12 (two_digits (cv_month c) @ r) = Some (cv_month c, r)"
    "digits_field 2 1 (days_in (cv_month c) (cv_year c)) (two_digits (cv_day c) @ r) = Some (cv_day c, r)"
    "digits_field 2 0 23 (two_digits (cv_hour c) @ r) = Some (cv_hour c, r)"
    "digits_field 2 0 59 (two_digits (cv_minute c) @ r) = Some (cv_minute c, r)"
    "digits_field 2 0 59 (two_digits (cv_second c) @ r) = Some (cv_second c, r)" for r
    using v(2-5) p(1-6) d31 assms(1,2) iz by (intro field_year field_two; simp)+
  have fr: "fraction_field (decimal_part (nat (t mod 1000000000)) 9 @ zone_text (fst z)) = (t mod 1000000000, zone_text (fst z))"
    using zone_text_head [of "fst z"] fraction_text by blast
  have e: "expect_byte x (x # r) = Some r" for x r by (simp add: expect_byte_def)
  have secs: "days_from_civil (cv_year c) (cv_month c) (cv_day c) * 86400 + cv_hour c * 3600 + cv_minute c * 60 + cv_second c =
      u div 1000000000"
    using v(1) p(7) by (simp add: add.assoc)
  have u: "u div 1000000000 = t div 1000000000 + fst z" by (simp add: u_def)
  have "(u div 1000000000 - fst z) * 1000000000 + t mod 1000000000 = t" unfolding u by simp
  moreover have "parse_rfc3339 (format_rfc3339 z t) = Some ((days_from_civil (cv_year c) (cv_month c) (cv_day c) * 86400 +
      cv_hour c * 3600 + cv_minute c * 60 + cv_second c - fst z) * 1000000000 + t mod 1000000000)"
    unfolding parse_rfc3339_def format_rfc3339_def iz Let_def
    by (simp add: f e fr zone_text_field [OF assms(3,4)])
  ultimately show ?thesis unfolding secs by simp
qed

lemma format_rfc3339_ascii: "ascii (format_rfc3339 z t)"
proof -
  have one: "(of_char c :: nat) < 128 \<Longrightarrow> ascii s \<Longrightarrow> ascii (c # s)" for c s by (simp add: ascii_def)
  have *: "ascii (year_digits y)" for y by (simp add: year_digits_def one)
  have "ascii (decimal_part k n)" for k n
  proof -
    have "set (strip_zeros s) \<subseteq> set s" for s
      unfolding strip_zeros_def using set_dropWhileD by fastforce
    then have "ascii (strip_zeros (pad_left n (CHR ''0'') (show_nat j)))" for j
      using ascii_pad_left [OF ascii_show_nat [of j], of "CHR ''0''" n] unfolding ascii_def by (auto dest: subsetD)
    then show ?thesis by (simp add: decimal_part_def Let_def one)
  qed
  moreover have "ascii (zone_text off)" for off
    by (simp add: zone_text_def Let_def one)
  ultimately show ?thesis using * by (simp add: format_rfc3339_def Let_def one)
qed

end
