(* ===== verification/JsonInert.thy ===== *)
theory JsonInert
  imports GoJson
begin

section \<open>The bytes of JSON are harmless\<close>

text \<open>
  No code of its own. \<open>writeJSON\<close> of \<open>src/internal/api/api.go\<close> rests on its payload being JSON that the
  library wrote: whatever names and command lines it carries, it opens no markup, and it holds no
  control byte below the space other than the line breaks of its layout. That is a property of the
  writer in \<open>GoJson\<close>.
\<close>

definition harmless :: "char \<Rightarrow> bool" where
  "harmless c \<longleftrightarrow> c \<notin> set ''<>&'' \<and> (32 \<le> (of_char c :: nat) \<or> c = CHR 0x0A)"

definition inert :: "string \<Rightarrow> bool" where
  "inert s \<longleftrightarrow> list_all harmless s"

lemma inert_simps [simp]: "inert []" "inert (c # s) \<longleftrightarrow> harmless c \<and> inert s" "inert (s @ t) \<longleftrightarrow> inert s \<and> inert t"
  by (simp_all add: inert_def)

lemma harmless_codes:
  fixes n :: nat
  assumes n: "n < 256"
  shows "harmless (char_of n) \<longleftrightarrow> 32 \<le> n \<and> n \<notin> {60, 62, 38} \<or> n = 10"
proof -
  have code: "(of_char (char_of n) :: nat) = n" using n by simp
  have eq: "char_of n = c \<longleftrightarrow> n = of_char c" for c
    using n code by (metis char_of_char)
  show ?thesis using code by (auto simp: harmless_def eq)
qed

lemma hex_harmless: "n < 16 \<Longrightarrow> harmless (hex_char n)"
  using harmless_codes [of "48 + n"] harmless_codes [of "87 + n"] by (auto simp: hex_char_def)

lemma word_harmless [simp]:
  "inert ''null''" "inert ''true''" "inert ''false''" "inert '': ''" "inert '':''" "inert '',''" "inert newline"
  "harmless (CHR ''['')" "harmless (CHR '']'')" "harmless (CHR ''{'')" "harmless (CHR ''}'')" "harmless (CHR '':'')" "harmless (CHR '','')" "harmless (CHR ''\"'')"
  "harmless (CHR '' '')" "harmless (CHR ''-'')" "harmless (CHR ''+'')" "harmless (CHR ''.'')" "harmless (CHR ''e'')"
  "harmless (CHR ''u'')" "harmless (CHR ''0'')" "harmless backslash" "harmless (CHR ''b'')" "harmless (CHR ''f'')"
  "harmless (CHR ''n'')" "harmless (CHR ''r'')" "harmless (CHR ''t'')"
  by (simp_all add: harmless_def newline_def backslash_def)

lemma quote_ascii_inert: "inert (quote_ascii c)"
proof -
  have hex: "harmless (hex_char (of_char c div 16))" "harmless (hex_char (of_char c mod 16))"
    using nat_of_char_less_256 [of c] by (intro hex_harmless; simp add: less_mult_imp_div_less)+
  have "harmless c" if "\<not> (of_char c :: nat) < 32" "c \<notin> set ''<>&''" using that by (simp add: harmless_def)
  then show ?thesis using hex by (auto simp: quote_ascii_def)
qed

text \<open>A rune of more than one byte has bytes from 128 on only.\<close>

lemma long_rune_bytes: "1 < rune_size s \<Longrightarrow> c \<in> set (take (rune_size s) s) \<Longrightarrow> 128 \<le> (of_char c :: nat)"
  by (cases s) (auto simp: Let_def continuation_def dest!: second_byte_continuation split: if_splits list.splits)

lemma high_harmless: "128 \<le> (of_char c :: nat) \<Longrightarrow> harmless c"
  by (auto simp: harmless_def)

lemma quote_rune_inert: "one_rune r \<Longrightarrow> inert (quote_rune r)"
proof (cases "length r = 1")
  case True
  then obtain c where "r = [c]" by (cases r) auto
  then show ?thesis by (simp add: quote_rune_def quote_ascii_inert)
next
  case False
  assume one: "one_rune r"
  then have size: "1 < rune_size r" "take (rune_size r) r = r"
    using False by (auto simp: one_rune_def) (metis One_nat_def Suc_lessI length_greater_0_conv)
  have "128 \<le> (of_char c :: nat)" if "c \<in> set r" for c using long_rune_bytes [OF size(1)] that size(2) by simp
  then have "inert r" using high_harmless by (auto simp: inert_def list_all_iff)
  moreover have "inert ''u2028''" "inert ''u2029''" by (simp_all add: harmless_def)
  ultimately show ?thesis by (auto simp: quote_rune_def quote_ascii_inert split: list.split)
qed

lemma quote_body_inert: "inert (quote_body s)"
proof (induction s rule: quote_body.induct)
  case (1 s)
  have "one_rune (take (rune_size s) s)" if "s \<noteq> []" "rune_size s \<noteq> 0"
    using rune_size_take [OF that(2), of "[]"] rune_size_le [of s] that by (simp add: one_rune_def)
  moreover have "inert ''ufffd''" by (simp add: harmless_def)
  ultimately show ?case using 1 by (subst quote_body.simps) (simp add: quote_rune_inert)
qed

lemma quote_string_inert: "inert (quote_string s)"
  by (simp add: quote_string_def quote_body_inert)

lemma digits_inert: "is_digits d \<Longrightarrow> inert d"
proof -
  assume d: "is_digits d"
  have "harmless c" if "c \<in> set d" for c
  proof -
    have "48 \<le> (of_char c :: nat) \<and> (of_char c :: nat) \<le> 57"
      using d that by (auto simp: is_digits_def digit_val_def Let_def split: if_splits)
    then show ?thesis by (auto simp: harmless_def)
  qed
  then show ?thesis by (simp add: inert_def list_all_iff)
qed

lemma number_inert: "number_text n \<Longrightarrow> inert n"
  unfolding number_text_def by (auto simp: digits_inert)

lemma inert_join: "inert sep \<Longrightarrow> \<forall>x \<in> set xs. inert x \<Longrightarrow> inert (join sep xs)"
  by (induction xs rule: induct_list012) auto

lemma fresh_line_inert: "inert (fresh_line ind l)"
  by (simp add: fresh_line_def) (simp add: inert_def list_all_iff)

lemma block_inert: "harmless a \<Longrightarrow> harmless z \<Longrightarrow> \<forall>x \<in> set items. inert x \<Longrightarrow> inert (json_block ind l a z items)"
proof -
  assume a: "harmless a" "harmless z" and i: "\<forall>x \<in> set items. inert x"
  have "inert ('','' @ fresh_line ind (Suc l))" by (simp add: fresh_line_inert del: append_Cons)
  from inert_join [OF this i] show ?thesis using a by (simp add: json_block_def fresh_line_inert)
qed

lemma json_text_inert: "json_grammatical j \<Longrightarrow> inert (json_text ind l j)"
proof (induction j arbitrary: l)
  case (JArr xs)
  then show ?case by (auto simp: list_all_iff intro!: block_inert)
next
  case (JObj kvs)
  have "inert (key_text ind (fst kv) @ json_text ind (Suc l) (snd kv))" if "kv \<in> set kvs" for kv
  proof -
    have "json_grammatical (snd kv)" using JObj.prems that by (simp add: list_all_iff)
    then have "inert (json_text ind (Suc l) (snd kv))" using JObj.IH that by (cases kv) (auto simp: snds.simps)
    then show ?thesis by (simp add: key_text_def quote_string_inert)
  qed
  then show ?case by (auto intro!: block_inert)
qed (auto simp: number_inert quote_string_inert harmless_def)

end
