(* ===== verification/Wire.thy ===== *)
theory Wire
  imports Commands TimeText JsonInert
begin

section \<open>Reports on the wire\<close>

text \<open>
  The JSON of the program's structures, from the tags on their fields: what
  \<open>src/internal/render/json.go\<close> and the status handler of \<open>src/internal/api/api.go\<close> write, byte for
  byte, and what the decoders in \<open>src/internal/cmd/inspect.go\<close> and \<open>src/internal/tui/client.go\<close> make
  of a body. Times are written in the zone of the daemon's clock, which has an offset of whole
  minutes where the times are to come back. A slice that holds nothing is
  written as \<open>null\<close> or as \<open>[]\<close>, depending on whether it was made: \<open>nils\<close> says which of a report's two
  slices are nil. The values of the program's string types that it does not name are refused,
  where the code would carry them along.
\<close>

subsection \<open>Writing values\<close>

text \<open>What can fail in the encoder: a float that is no number, a time outside the years of RFC 3339.\<close>

type_synonym encoded = "err + json"

definition u64_value :: "u64 \<Rightarrow> encoded" where
  "u64_value w = Inr (JNum (show_nat (unat w)))"

definition int_value :: "int \<Rightarrow> encoded" where
  "int_value i = Inr (JNum (itoa i))"

definition string_value :: "string \<Rightarrow> encoded" where
  "string_value s = Inr (JStr s)"

definition bool_value :: "bool \<Rightarrow> encoded" where
  "bool_value b = Inr (JBool b)"

definition float_value :: "f64 \<Rightarrow> encoded" where
  "float_value x = (case x of FNum q \<Rightarrow> Inr (JNum (float_text q)) | _ \<Rightarrow> Inl (EMsg ''unsupported value''))"

definition time_value :: "zone \<Rightarrow> time \<Rightarrow> encoded" where
  "time_value z t = map_sum id JStr (marshal_time z t)"

fun all_values :: "(err + 'a) list \<Rightarrow> err + 'a list" where
  "all_values [] = Inr []"
| "all_values (v # vs) = res_bind v (\<lambda>x. map_sum id (\<lambda>xs. x # xs) (all_values vs))"

definition list_value :: "bool \<Rightarrow> ('a \<Rightarrow> encoded) \<Rightarrow> 'a list \<Rightarrow> encoded" where
  "list_value is_nil f xs = (if xs = [] \<and> is_nil then Inr JNull else map_sum id JArr (all_values (map f xs)))"

definition object_value :: "(string \<times> encoded) list \<Rightarrow> encoded" where
  "object_value kvs = map_sum id JObj (all_values (map (\<lambda>(k, v). map_sum id (Pair k) v) kvs))"

definition omit_empty :: "string \<Rightarrow> string list \<Rightarrow> (string \<times> encoded) list" where
  "omit_empty k xs = (if xs = [] then [] else [(k, list_value False string_value xs)])"

subsection \<open>The structures\<close>

definition kind_string :: "scope_kind \<Rightarrow> string" where
  "kind_string k = (case k of ScopeZero \<Rightarrow> [] | ScopeContainer \<Rightarrow> ''container'' | ScopePod \<Rightarrow> ''pod'')"

definition driver_string :: "driver \<Rightarrow> string" where
  "driver_string d = (case d of DriverZero \<Rightarrow> [] | DriverSystemd \<Rightarrow> ''systemd'' | DriverCgroupfs \<Rightarrow> ''cgroupfs''
     | DriverUnknown \<Rightarrow> ''unknown'')"

definition runtime_string :: "runtime \<Rightarrow> string" where
  "runtime_string r = (case r of RuntimeZero \<Rightarrow> [] | RuntimeContainerd \<Rightarrow> ''containerd'' | RuntimeCRIO \<Rightarrow> ''cri-o''
     | RuntimeDocker \<Rightarrow> ''docker'' | RuntimeUnknown \<Rightarrow> ''unknown'')"

definition match_string :: "victim_match \<Rightarrow> string" where
  "match_string m = (case m of VictimMatchNone \<Rightarrow> ''none'' | VictimMatchHostPID \<Rightarrow> ''hostPid''
     | VictimMatchNSPid \<Rightarrow> ''nsPid'' | VictimMatchUnset \<Rightarrow> [])"

definition scope_fields :: "scope \<Rightarrow> (string \<times> encoded) list" where
  "scope_fields sc =
     [(''podUID'', string_value (sc_pod_uid sc)), (''containerID'', string_value (sc_container_id sc)),
      (''kind'', string_value (kind_string (sc_kind sc))), (''qos'', string_value (qos_string (sc_qos sc))),
      (''driver'', string_value (driver_string (sc_driver sc))), (''runtime'', string_value (runtime_string (sc_runtime sc))),
      (''cgroupPath'', string_value (sc_cgroup_path sc))]"

text \<open>The embedded scope has no name of its own in its tag, so its fields stand among the identity's.\<close>

definition identity_value :: "identity \<Rightarrow> encoded" where
  "identity_value i = object_value (scope_fields (id_scope i) @
     [(''namespace'', string_value (id_namespace i)), (''podName'', string_value (id_pod_name i)),
      (''containerName'', string_value (id_container_name i)), (''image'', string_value (id_image i)),
      (''resolved'', bool_value (id_resolved i))])"

definition victim_value :: "victim \<Rightarrow> encoded" where
  "victim_value v = object_value (
     [(''pid'', int_value (v_pid v)), (''nsPid'', int_value (v_nspid v)), (''comm'', string_value (v_comm v))] @
     omit_empty ''cmdline'' (v_cmdline v) @
     [(''rssBytes'', u64_value (v_rss_bytes v)), (''inferred'', bool_value (v_inferred v)), (''known'', bool_value (v_known v))])"

definition point_value :: "zone \<Rightarrow> trajectory_point \<Rightarrow> encoded" where
  "point_value z p = object_value
     [(''time'', time_value z (tp_time p)), (''usedBytes'', u64_value (tp_used_bytes p)),
      (''limitBytes'', u64_value (tp_limit_bytes p)), (''ratio'', float_value (tp_ratio p)),
      (''pressureFull'', float_value (tp_pressure_full p))]"

definition process_value :: "process_snapshot \<Rightarrow> encoded" where
  "process_value p = object_value (
     [(''pid'', int_value (ps_pid p)), (''nsPid'', int_value (ps_nspid p)), (''comm'', string_value (ps_comm p))] @
     omit_empty ''cmdline'' (ps_cmdline p) @ [(''rssBytes'', u64_value (ps_rss_bytes p))])"

text \<open>A duration is its number of nanoseconds; one the language leaves open has no text (see \<open>Trend\<close>).\<close>

definition duration_value :: "duration option \<Rightarrow> encoded" where
  "duration_value d = (case d of None \<Rightarrow> Inl (EMsg ''unspecified'') | Some n \<Rightarrow> int_value n)"

definition trend_value :: "trend \<Rightarrow> encoded" where
  "trend_value t = object_value
     [(''bytesPerSecond'', float_value (tr_bytes_per_second t)), (''rSquared'', float_value (tr_r_squared t)),
      (''samples'', int_value (int (tr_samples t))), (''window'', int_value (tr_window t)),
      (''timeToLimit'', duration_value (tr_time_to_limit t)), (''projected'', bool_value (tr_projected t))]"

definition group_kill_value :: "bool option \<Rightarrow> encoded" where
  "group_kill_value g = (case g of None \<Rightarrow> Inr JNull | Some b \<Rightarrow> bool_value b)"

definition report_value :: "zone \<Rightarrow> bool \<times> bool \<Rightarrow> report \<Rightarrow> encoded" where
  "report_value z nils r = object_value
     [(''id'', string_value (rp_id r)), (''time'', time_value z (rp_time r)), (''identity'', identity_value (rp_identity r)),
      (''victim'', victim_value (rp_victim r)), (''source'', string_value (source_string (rp_source r))),
      (''killCount'', u64_value (rp_kill_count r)), (''limitBytes'', u64_value (rp_limit_bytes r)),
      (''peakBytes'', u64_value (rp_peak_bytes r)), (''trajectory'', list_value (fst nils) (point_value z) (rp_trajectory r)),
      (''processes'', list_value (snd nils) process_value (rp_processes r)),
      (''victimMatch'', string_value (match_string (rp_victim_match r))),
      (''groupKill'', group_kill_value (rp_group_kill r)), (''trend'', trend_value (rp_trend r))]"

definition status_value :: "api_status \<Rightarrow> encoded" where
  "status_value s = object_value (
     [(''detector'', string_value (st_detector s)), (''cgroupVersion'', string_value (st_cgroup_version s)),
      (''ready'', bool_value (st_ready s)), (''reports'', u64_value (st_reports s)), (''skipped'', u64_value (st_skipped s)),
      (''unattributed'', u64_value (st_unattributed s)), (''trackedCgroups'', int_value (int (st_tracked_cgroups s))),
      (''uptimeSeconds'', float_value (st_uptime_seconds s)), (''version'', string_value (st_version s))] @
     (if st_node s = [] then [] else [(''node'', string_value (st_node s))]) @
     [(''podCacheSynced'', bool_value (st_pod_cache_synced s)), (''podsTracked'', int_value (int (st_pods_tracked s)))])"

text \<open>\<open>JSON\<close> and \<open>JSONList\<close> of the renderer, where a nil slice of reports is made one that is not.\<close>

definition render_report_text :: "zone \<Rightarrow> (bool \<times> bool) \<times> report \<Rightarrow> err + string" where
  "render_report_text z x = map_sum id (\<lambda>j. marshal_indent j @ newline) (report_value z (fst x) (snd x))"

definition render_list_text :: "zone \<Rightarrow> ((bool \<times> bool) \<times> report) list \<Rightarrow> err + string" where
  "render_list_text z xs =
     map_sum id (\<lambda>j. marshal_indent j @ newline) (list_value False (\<lambda>x. report_value z (fst x) (snd x)) xs)"

definition status_text :: "api_status \<Rightarrow> err + string" where
  "status_text s = map_sum id (\<lambda>j. marshal j @ newline) (status_value s)"

subsection \<open>Reading values\<close>

text \<open>
  Decoding into a value that is there already: \<open>null\<close> leaves it, any other value of the wrong
  kind is an error. Numbers are parsed from their text, within the range of their type.
\<close>

definition wrong_type :: err where
  "wrong_type = EMsg ''cannot unmarshal''"

definition into_string :: "string \<Rightarrow> json \<Rightarrow> err + string" where
  "into_string cur j = (case j of JStr s \<Rightarrow> Inr s | JNull \<Rightarrow> Inr cur | _ \<Rightarrow> Inl wrong_type)"

definition into_bool :: "bool \<Rightarrow> json \<Rightarrow> err + bool" where
  "into_bool cur j = (case j of JBool b \<Rightarrow> Inr b | JNull \<Rightarrow> Inr cur | _ \<Rightarrow> Inl wrong_type)"

definition into_u64 :: "u64 \<Rightarrow> json \<Rightarrow> err + u64" where
  "into_u64 cur j = (case j of JNum n \<Rightarrow> parse_uint n | JNull \<Rightarrow> Inr cur | _ \<Rightarrow> Inl wrong_type)"

definition into_int :: "int \<Rightarrow> json \<Rightarrow> err + int" where
  "into_int cur j = (case j of JNum n \<Rightarrow> atoi n | JNull \<Rightarrow> Inr cur | _ \<Rightarrow> Inl wrong_type)"

text \<open>Counts are ints in the source; the model keeps them as naturals, and a negative one is refused.\<close>

definition into_count :: "nat \<Rightarrow> json \<Rightarrow> err + nat" where
  "into_count cur j = res_bind (into_int (int cur) j) (\<lambda>i. if i < 0 then Inl wrong_type else Inr (nat i))"

definition into_float :: "f64 \<Rightarrow> json \<Rightarrow> err + f64" where
  "into_float cur j = (case j of JNum n \<Rightarrow> parse_float n | JNull \<Rightarrow> Inr cur | _ \<Rightarrow> Inl wrong_type)"

definition into_time :: "time \<Rightarrow> json \<Rightarrow> err + time" where
  "into_time cur j =
     (case j of
        JStr s \<Rightarrow> (case parse_rfc3339 s of None \<Rightarrow> Inl (EMsg ''parsing time'') | Some t \<Rightarrow> Inr t)
      | JNull \<Rightarrow> Inr cur
      | _ \<Rightarrow> Inl wrong_type)"

definition into_duration :: "duration option \<Rightarrow> json \<Rightarrow> err + duration option" where
  "into_duration cur j = (if j = JNull then Inr cur else map_sum id Some (into_int 0 j))"

text \<open>A string type of the program, from the texts of its values.\<close>

definition into_named :: "('a \<Rightarrow> string) \<Rightarrow> 'a list \<Rightarrow> 'a \<Rightarrow> json \<Rightarrow> err + 'a" where
  "into_named name vals cur j =
     (case j of
        JStr s \<Rightarrow> (case find (\<lambda>v. name v = s) vals of None \<Rightarrow> Inl wrong_type | Some v \<Rightarrow> Inr v)
      | JNull \<Rightarrow> Inr cur
      | _ \<Rightarrow> Inl wrong_type)"

text \<open>A slice is replaced, each element decoded into a zero value; \<open>null\<close> makes it nil.\<close>

definition into_list :: "('a \<Rightarrow> json \<Rightarrow> err + 'a) \<Rightarrow> 'a \<Rightarrow> 'a list \<Rightarrow> json \<Rightarrow> err + 'a list" where
  "into_list into zero cur j =
     (case j of JArr xs \<Rightarrow> all_values (map (into zero) xs) | JNull \<Rightarrow> Inr [] | _ \<Rightarrow> Inl wrong_type)"

definition into_bool_pointer :: "bool option \<Rightarrow> json \<Rightarrow> err + bool option" where
  "into_bool_pointer cur j = (case j of JNull \<Rightarrow> Inr None | JBool b \<Rightarrow> Inr (Some b) | _ \<Rightarrow> Inl wrong_type)"

text \<open>
  A structure takes the pairs of an object one after the other. Keys are compared without regard
  to the case of ASCII letters, unknown ones are passed over. (The library also takes the long
  s and the Kelvin sign for s and k.)
\<close>

type_synonym 'a field_table = "(string \<times> (json \<Rightarrow> 'a \<Rightarrow> err + 'a)) list"

definition fold_key :: "string \<Rightarrow> string" where
  "fold_key k = map lower_byte k"

definition into_field :: "('a \<Rightarrow> 'b) \<Rightarrow> (('b \<Rightarrow> 'b) \<Rightarrow> 'a \<Rightarrow> 'a) \<Rightarrow> ('b \<Rightarrow> json \<Rightarrow> err + 'b) \<Rightarrow> json \<Rightarrow> 'a \<Rightarrow> err + 'a" where
  "into_field get upd into j r = res_bind (into (get r) j) (\<lambda>v. Inr (upd (\<lambda>_. v) r))"

fun assign_pairs :: "'a field_table \<Rightarrow> (string \<times> json) list \<Rightarrow> 'a \<Rightarrow> err + 'a" where
  "assign_pairs tbl [] r = Inr r"
| "assign_pairs tbl ((k, j) # kvs) r =
     res_bind (case map_of tbl (fold_key k) of None \<Rightarrow> Inr r | Some f \<Rightarrow> f j r) (assign_pairs tbl kvs)"

definition into_struct :: "'a field_table \<Rightarrow> 'a \<Rightarrow> json \<Rightarrow> err + 'a" where
  "into_struct tbl cur j =
     (case j of JObj kvs \<Rightarrow> assign_pairs tbl kvs cur | JNull \<Rightarrow> Inr cur | _ \<Rightarrow> Inl wrong_type)"

definition scope_table :: "scope field_table" where
  "scope_table =
     [(''poduid'', into_field sc_pod_uid sc_pod_uid_update into_string),
      (''containerid'', into_field sc_container_id sc_container_id_update into_string),
      (''kind'', into_field sc_kind sc_kind_update (into_named kind_string [ScopeZero, ScopeContainer, ScopePod])),
      (''qos'', into_field sc_qos sc_qos_update
         (into_named qos_string [QoSZero, QoSGuaranteed, QoSBurstable, QoSBestEffort, QoSUnknown])),
      (''driver'', into_field sc_driver sc_driver_update
         (into_named driver_string [DriverZero, DriverSystemd, DriverCgroupfs, DriverUnknown])),
      (''runtime'', into_field sc_runtime sc_runtime_update
         (into_named runtime_string [RuntimeZero, RuntimeContainerd, RuntimeCRIO, RuntimeDocker, RuntimeUnknown])),
      (''cgrouppath'', into_field sc_cgroup_path sc_cgroup_path_update into_string)]"

definition identity_table :: "identity field_table" where
  "identity_table = map (\<lambda>(k, f). (k, into_field id_scope id_scope_update (\<lambda>sc j. f j sc))) scope_table @
     [(''namespace'', into_field id_namespace id_namespace_update into_string),
      (''podname'', into_field id_pod_name id_pod_name_update into_string),
      (''containername'', into_field id_container_name id_container_name_update into_string),
      (''image'', into_field id_image id_image_update into_string),
      (''resolved'', into_field id_resolved id_resolved_update into_bool)]"

definition victim_table :: "victim field_table" where
  "victim_table =
     [(''pid'', into_field v_pid v_pid_update into_int), (''nspid'', into_field v_nspid v_nspid_update into_int),
      (''comm'', into_field v_comm v_comm_update into_string),
      (''cmdline'', into_field v_cmdline v_cmdline_update (into_list into_string [])),
      (''rssbytes'', into_field v_rss_bytes v_rss_bytes_update into_u64),
      (''inferred'', into_field v_inferred v_inferred_update into_bool),
      (''known'', into_field v_known v_known_update into_bool)]"

definition point_zero :: trajectory_point where
  "point_zero = \<lparr>tp_time = 0, tp_used_bytes = 0, tp_limit_bytes = 0, tp_ratio = FNum 0, tp_pressure_full = FNum 0\<rparr>"

definition point_table :: "trajectory_point field_table" where
  "point_table =
     [(''time'', into_field tp_time tp_time_update into_time),
      (''usedbytes'', into_field tp_used_bytes tp_used_bytes_update into_u64),
      (''limitbytes'', into_field tp_limit_bytes tp_limit_bytes_update into_u64),
      (''ratio'', into_field tp_ratio tp_ratio_update into_float),
      (''pressurefull'', into_field tp_pressure_full tp_pressure_full_update into_float)]"

definition process_zero :: process_snapshot where
  "process_zero = \<lparr>ps_pid = 0, ps_nspid = 0, ps_comm = [], ps_cmdline = [], ps_rss_bytes = 0\<rparr>"

definition process_table :: "process_snapshot field_table" where
  "process_table =
     [(''pid'', into_field ps_pid ps_pid_update into_int), (''nspid'', into_field ps_nspid ps_nspid_update into_int),
      (''comm'', into_field ps_comm ps_comm_update into_string),
      (''cmdline'', into_field ps_cmdline ps_cmdline_update (into_list into_string [])),
      (''rssbytes'', into_field ps_rss_bytes ps_rss_bytes_update into_u64)]"

definition trend_table :: "trend field_table" where
  "trend_table =
     [(''bytespersecond'', into_field tr_bytes_per_second tr_bytes_per_second_update into_float),
      (''rsquared'', into_field tr_r_squared tr_r_squared_update into_float),
      (''samples'', into_field tr_samples tr_samples_update into_count),
      (''window'', into_field tr_window tr_window_update into_int),
      (''timetolimit'', into_field tr_time_to_limit tr_time_to_limit_update into_duration),
      (''projected'', into_field tr_projected tr_projected_update into_bool)]"

definition report_table :: "report field_table" where
  "report_table =
     [(''id'', into_field rp_id rp_id_update into_string), (''time'', into_field rp_time rp_time_update into_time),
      (''identity'', into_field rp_identity rp_identity_update (into_struct identity_table)),
      (''victim'', into_field rp_victim rp_victim_update (into_struct victim_table)),
      (''source'', into_field rp_source rp_source_update (into_named source_string [SourceEBPF, SourcePoller, SourceFake])),
      (''killcount'', into_field rp_kill_count rp_kill_count_update into_u64),
      (''limitbytes'', into_field rp_limit_bytes rp_limit_bytes_update into_u64),
      (''peakbytes'', into_field rp_peak_bytes rp_peak_bytes_update into_u64),
      (''trajectory'', into_field rp_trajectory rp_trajectory_update (into_list (into_struct point_table) point_zero)),
      (''processes'', into_field rp_processes rp_processes_update (into_list (into_struct process_table) process_zero)),
      (''victimmatch'', into_field rp_victim_match rp_victim_match_update
         (into_named match_string [VictimMatchNone, VictimMatchHostPID, VictimMatchNSPid, VictimMatchUnset])),
      (''groupkill'', into_field rp_group_kill rp_group_kill_update into_bool_pointer),
      (''trend'', into_field rp_trend rp_trend_update (into_struct trend_table))]"

definition status_table :: "api_status field_table" where
  "status_table =
     [(''detector'', into_field st_detector st_detector_update into_string),
      (''cgroupversion'', into_field st_cgroup_version st_cgroup_version_update into_string),
      (''ready'', into_field st_ready st_ready_update into_bool), (''reports'', into_field st_reports st_reports_update into_u64),
      (''skipped'', into_field st_skipped st_skipped_update into_u64),
      (''unattributed'', into_field st_unattributed st_unattributed_update into_u64),
      (''trackedcgroups'', into_field st_tracked_cgroups st_tracked_cgroups_update into_count),
      (''uptimeseconds'', into_field st_uptime_seconds st_uptime_seconds_update into_float),
      (''version'', into_field st_version st_version_update into_string),
      (''node'', into_field st_node st_node_update into_string),
      (''podcachesynced'', into_field st_pod_cache_synced st_pod_cache_synced_update into_bool),
      (''podstracked'', into_field st_pods_tracked st_pods_tracked_update into_count)]"

text \<open>What a client makes of the bytes of a body.\<close>

definition read_reports :: "string \<Rightarrow> err + report list" where
  "read_reports s =
     (case read_json s of
        None \<Rightarrow> Inl (EMsg ''decoding daemon response'')
      | Some j \<Rightarrow> into_list (into_struct report_table) report_zero [] j)"

definition read_status :: "string \<Rightarrow> err + api_status" where
  "read_status s =
     (case read_json s of
        None \<Rightarrow> Inl (EMsg ''decoding daemon response'')
      | Some j \<Rightarrow> into_struct status_table api_status_zero j)"

subsection \<open>What the encoder refuses\<close>

lemma all_values_ok: "is_ok (all_values vs) \<longleftrightarrow> list_all is_ok vs"
proof (induction vs)
  case (Cons v vs)
  then show ?case by (cases v; cases "all_values vs") auto
qed simp

lemma is_ok_map [simp]: "is_ok (map_sum id f v) \<longleftrightarrow> is_ok v"
  by (cases v) simp_all

lemma object_value_ok: "is_ok (object_value kvs) \<longleftrightarrow> list_all (\<lambda>kv. is_ok (snd kv)) kvs"
  by (simp add: object_value_def all_values_ok list_all_iff split_beta)

lemma list_value_ok: "is_ok (list_value b f xs) \<longleftrightarrow> list_all (\<lambda>x. is_ok (f x)) xs"
  by (simp add: list_value_def all_values_ok list_all_iff)

lemma leaf_values_ok [simp]:
  "is_ok (string_value s)" "is_ok (int_value i)" "is_ok (u64_value w)" "is_ok (bool_value b)"
  by (simp_all add: string_value_def int_value_def u64_value_def bool_value_def)

lemma float_value_ok [simp]: "is_ok (float_value x) \<longleftrightarrow> json_float_ok x"
  by (cases x) (simp_all add: float_value_def)

lemma time_value_ok [simp]: "is_ok (time_value utc t) \<longleftrightarrow> json_time_ok t"
  by (simp add: time_value_def marshal_time_def json_time_ok_def utc_def in_zone_def zone_minutes_def Let_def)

lemma omit_empty_ok [simp]: "list_all (\<lambda>kv. is_ok (snd kv)) (omit_empty k xs)"
  by (simp add: omit_empty_def list_value_ok list_all_iff)

lemma report_value_ok:
  assumes "tr_time_to_limit (rp_trend r) \<noteq> None"
  shows "is_ok (report_value utc nils r) \<longleftrightarrow> json_report_ok r"
proof -
  have g: "is_ok (group_kill_value (rp_group_kill r))" by (cases "rp_group_kill r") (simp_all add: group_kill_value_def)
  have d: "is_ok (duration_value (tr_time_to_limit (rp_trend r)))" using assms by (auto simp: duration_value_def)
  have pts: "list_all (\<lambda>p. is_ok (point_value utc p)) ps = list_all json_point_ok ps" for ps
    by (simp add: point_value_def object_value_ok json_point_ok_def [abs_def])
  have procs: "list_all (\<lambda>p. is_ok (process_value p)) ps" for ps
    by (simp add: process_value_def object_value_ok list_all_iff [of _ ps])
  show ?thesis
    using g d pts procs
    by (auto simp: report_value_def object_value_ok list_value_ok identity_value_def scope_fields_def victim_value_def
        trend_value_def json_report_ok_def)
qed

lemma status_value_ok: "is_ok (status_value s) \<longleftrightarrow> json_float_ok (st_uptime_seconds s)"
  by (simp add: status_value_def object_value_ok)

subsection \<open>Reading back what was written\<close>

text \<open>A value was written, its text nests no deeper than \<open>n\<close>, and decoding that over \<open>c\<close> gives \<open>x\<close>.\<close>

definition decodes :: "nat \<Rightarrow> ('b \<Rightarrow> json \<Rightarrow> err + 'b) \<Rightarrow> 'b \<Rightarrow> encoded \<Rightarrow> 'b \<Rightarrow> bool" where
  "decodes n into c e x \<longleftrightarrow>
     (\<exists>j. e = Inr j \<and> json_grammatical j \<and> json_depth j \<le> n \<and> into c (json_clean j) = Inr x)"

lemma number_digits: "number_text (show_nat n)" "number_text (CHR ''-'' # show_nat (Suc m))"
proof -
  have first: "hd (show_nat k) = CHR ''0'' \<Longrightarrow> tl (show_nat k) = []" for k
    using shown_digits(3) [of k] strip_zeros_split [of "show_nat k"] shown_digits(1) [of k]
    by (cases "k = 0") (simp add: show_nat.simps [of 0], metis gr_zeroI hd_append2)
  show "number_text (show_nat n)"
    unfolding number_text_def
    by (rule exI [of _ "[]"], rule exI [of _ "show_nat n"], rule exI [of _ "[]"], rule exI [of _ "[]"])
      (use first show_nat_digits in auto)
  show "number_text (CHR ''-'' # show_nat (Suc m))"
    unfolding number_text_def
    by (rule exI [of _ "''-''"], rule exI [of _ "show_nat (Suc m)"], rule exI [of _ "[]"], rule exI [of _ "[]"])
      (use first show_nat_digits in auto)
qed

lemma number_itoa: "number_text (itoa i)"
proof (cases "i < 0")
  case True
  then obtain m where "nat (- i) = Suc m" by (cases "nat (- i)") auto
  then show ?thesis using True number_digits(2) by (simp add: itoa_def)
qed (simp add: itoa_def number_digits)

lemma atoi_itoa: "- (2 ^ 63) \<le> i \<Longrightarrow> i < 2 ^ 63 \<Longrightarrow> atoi (itoa i) = Inr i"
proof (cases "0 \<le> i")
  case False
  assume "- (2 ^ 63) \<le> i"
  then have n: "nat (- i) \<le> 2 ^ 63" by (simp add: nat_le_iff)
  then have "parse_uint (show_nat (nat (- i))) = Inr (of_nat (nat (- i)))" by (intro parse_uint_show_nat) simp
  moreover have "unat (of_nat (nat (- i)) :: u64) = nat (- i)" using n by (intro unat_of_nat_u64) simp
  ultimately show ?thesis using False n by (simp add: atoi_def itoa_def del: of_nat_nat)
qed (rule atoi_itoa_nonneg)

lemma runes_of_ascii: "ascii s \<Longrightarrow> concat (runes s) = s"
  by (induction s) (simp_all add: runes_ascii)

lemma decodes_string: "decodes n into_string c (string_value s) (json_string s)"
  by (simp add: decodes_def string_value_def into_string_def json_string_def)

lemma decodes_bool: "decodes n into_bool c (bool_value b) b"
  by (simp add: decodes_def bool_value_def into_bool_def)

lemma decodes_u64: "decodes n into_u64 c (u64_value w) w"
  by (simp add: decodes_def u64_value_def into_u64_def number_digits)

definition int64 :: "int \<Rightarrow> bool" where
  "int64 i \<longleftrightarrow> - (2 ^ 63) \<le> i \<and> i < 2 ^ 63"

lemma decodes_int: "int64 i \<Longrightarrow> decodes n into_int c (int_value i) i"
  by (simp add: decodes_def int_value_def into_int_def number_itoa atoi_itoa int64_def)

lemma decodes_count: "k < 2 ^ 63 \<Longrightarrow> decodes n into_count c (int_value (int k)) k"
  by (simp add: decodes_def int_value_def into_count_def into_int_def number_itoa atoi_itoa)

lemma decodes_duration: "d = Some i \<Longrightarrow> int64 i \<Longrightarrow> decodes n into_duration c (duration_value d) d"
  by (simp add: decodes_def duration_value_def int_value_def into_duration_def into_int_def number_itoa atoi_itoa int64_def)

text \<open>A rational that is the value of a float.\<close>

definition machine_float :: "f64 \<Rightarrow> bool" where
  "machine_float x \<longleftrightarrow> (case x of FNum q \<Rightarrow> f64_round q = FNum q | _ \<Rightarrow> False)"

lemma decodes_float: "machine_float x \<Longrightarrow> decodes n into_float c (float_value x) x"
  by (cases x) (simp_all add: machine_float_def decodes_def float_value_def into_float_def float_text_ok)

text \<open>A zone the layout can write: whole minutes, less than a day from UTC.\<close>

definition plain_zone :: "zone \<Rightarrow> bool" where
  "plain_zone z \<longleftrightarrow> 60 dvd fst z \<and> \<bar>fst z\<bar> < 86400"

lemma decodes_time: "plain_zone z \<Longrightarrow> is_ok (time_value z t) \<Longrightarrow> decodes n into_time c (time_value z t) t"
proof -
  assume z: "plain_zone z" and t: "is_ok (time_value z t)"
  then have m: "marshal_time z t = Inr (format_rfc3339 z t)" "0 \<le> cv_year (in_zone z t)" "cv_year (in_zone z t) \<le> 9999"
    by (auto simp: time_value_def marshal_time_def Let_def split: if_splits)
  then have "parse_rfc3339 (format_rfc3339 z t) = Some t"
    using z by (intro parse_format_rfc3339) (simp_all add: plain_zone_def)
  then show ?thesis
    by (simp add: decodes_def time_value_def m(1) into_time_def runes_of_ascii format_rfc3339_ascii)
qed

lemma decodes_named:
  "find (\<lambda>v. name v = name x) vals = Some x \<Longrightarrow> ascii (name x) \<Longrightarrow> decodes n (into_named name vals) c (string_value (name x)) x"
  by (simp add: decodes_def string_value_def into_named_def runes_of_ascii)

lemma decodes_bool_pointer: "decodes n into_bool_pointer c (group_kill_value g) g"
  by (cases g) (simp_all add: decodes_def group_kill_value_def bool_value_def into_bool_pointer_def)

lemma decodes_list:
  assumes "\<And>x. x \<in> set xs \<Longrightarrow> decodes n into zero (f x) (g x)"
  shows "decodes (Suc n) (into_list into zero) c (list_value is_nil f xs) (map g xs)"
proof -
  have "\<exists>js. all_values (map f xs) = Inr js \<and> list_all json_grammatical js \<and> (\<forall>j \<in> set js. json_depth j \<le> n) \<and>
      all_values (map (\<lambda>j. into zero (json_clean j)) js) = Inr (map g xs)"
    using assms
  proof (induction xs)
    case (Cons x xs)
    then obtain js where "all_values (map f xs) = Inr js" "list_all json_grammatical js" "\<forall>j \<in> set js. json_depth j \<le> n"
      "all_values (map (\<lambda>j. into zero (json_clean j)) js) = Inr (map g xs)" by auto
    moreover obtain j where "f x = Inr j" "json_grammatical j" "json_depth j \<le> n" "into zero (json_clean j) = Inr (g x)"
      using Cons.prems [of x] by (auto simp: decodes_def)
    ultimately show ?case by (intro exI [of _ "j # js"]) simp
  qed simp
  then obtain js where js: "all_values (map f xs) = Inr js" "list_all json_grammatical js" "\<forall>j \<in> set js. json_depth j \<le> n"
    "all_values (map (\<lambda>j. into zero (json_clean j)) js) = Inr (map g xs)" by blast
  have "fold max (map json_depth js) 0 \<le> n"
    using js(3) unfolding Max.set_eq_fold [symmetric] by simp
  then show ?thesis
    using js by (auto simp: decodes_def list_value_def into_list_def comp_def list_all_iff)
qed

text \<open>The pairs of an object, one after the other.\<close>

definition assigns :: "nat \<Rightarrow> 'a field_table \<Rightarrow> (string \<times> encoded) list \<Rightarrow> 'a \<Rightarrow> 'a \<Rightarrow> bool" where
  "assigns n tbl kvs r r' \<longleftrightarrow>
     (\<exists>ps. all_values (map (\<lambda>(k, v). map_sum id (Pair k) v) kvs) = Inr ps \<and>
        list_all (\<lambda>kv. json_grammatical (snd kv) \<and> json_depth (snd kv) \<le> n) ps \<and>
        assign_pairs tbl (map (\<lambda>kv. (concat (runes (fst kv)), json_clean (snd kv))) ps) r = Inr r')"

lemma assigns_nil: "r = r' \<Longrightarrow> assigns n tbl [] r r'"
  by (simp add: assigns_def)

lemma assigns_cons:
  assumes "map_of tbl (fold_key k) = Some f" "ascii k" "e = Inr j" "json_grammatical j" "json_depth j \<le> n"
    and "f (json_clean j) r = Inr r1" "assigns n tbl kvs r1 r'"
  shows "assigns n tbl ((k, e) # kvs) r r'"
proof -
  obtain ps where "all_values (map (\<lambda>(k, v). map_sum id (Pair k) v) kvs) = Inr ps"
    "list_all (\<lambda>kv. json_grammatical (snd kv) \<and> json_depth (snd kv) \<le> n) ps"
    "assign_pairs tbl (map (\<lambda>kv. (concat (runes (fst kv)), json_clean (snd kv))) ps) r1 = Inr r'"
    using assms(7) by (auto simp: assigns_def)
  then show ?thesis
    unfolding assigns_def using assms(1-6) by (intro exI [of _ "(k, j) # ps"]) (simp add: runes_of_ascii)
qed

lemma assigns_field:
  assumes "map_of tbl (fold_key k) = Some (into_field get upd into)" "ascii k"
    and "decodes n into (get r) e x" "assigns n tbl kvs (upd (\<lambda>_. x) r) r'"
  shows "assigns n tbl ((k, e) # kvs) r r'"
proof -
  obtain j where j: "e = Inr j" "json_grammatical j" "json_depth j \<le> n" "into (get r) (json_clean j) = Inr x"
    using assms(3) by (auto simp: decodes_def)
  then have "into_field get upd into (json_clean j) r = Inr (upd (\<lambda>_. x) r)" by (simp add: into_field_def)
  from assigns_cons [OF assms(1,2) j(1-3) this assms(4)] show ?thesis .
qed

lemma decodes_struct:
  assumes "assigns n tbl kvs c x"
  shows "decodes (Suc n) (into_struct tbl) c (object_value kvs) x"
proof -
  obtain ps where ps: "all_values (map (\<lambda>(k, v). map_sum id (Pair k) v) kvs) = Inr ps"
    "list_all (\<lambda>kv. json_grammatical (snd kv) \<and> json_depth (snd kv) \<le> n) ps"
    "assign_pairs tbl (map (\<lambda>kv. (concat (runes (fst kv)), json_clean (snd kv))) ps) c = Inr x"
    using assms by (auto simp: assigns_def)
  have "fold max (map (\<lambda>kv. json_depth (snd kv)) ps) 0 \<le> n"
    using ps(2) unfolding Max.set_eq_fold [symmetric] by (simp add: list_all_iff)
  then show ?thesis
    using ps by (auto simp: decodes_def object_value_def into_struct_def list_all_iff)
qed

lemma assigns_commands:
  assumes "map_of tbl (fold_key ''cmdline'') = Some (into_field get upd (into_list into_string []))" "get r = []"
    and "assigns (Suc n) tbl kvs (if xs = [] then r else upd (\<lambda>_. map json_string xs) r) r'"
  shows "assigns (Suc n) tbl (omit_empty ''cmdline'' xs @ kvs) r r'"
proof (cases "xs = []")
  case False
  have "decodes (Suc n) (into_list into_string []) [] (list_value False string_value xs) (map json_string xs)"
    by (rule decodes_list) (rule decodes_string)
  moreover have "ascii ''cmdline''" by (simp add: ascii_def)
  ultimately show ?thesis
    using assms False by (auto simp: omit_empty_def intro!: assigns_field)
qed (use assms in \<open>simp add: omit_empty_def\<close>)

subsection \<open>Each structure\<close>

lemmas decodes_leaves = decodes_string decodes_bool decodes_u64 decodes_int decodes_count decodes_float decodes_time
  decodes_bool_pointer

lemma victim_keys:
  "map_of victim_table (fold_key ''pid'') = Some (into_field v_pid v_pid_update into_int)"
  "map_of victim_table (fold_key ''nsPid'') = Some (into_field v_nspid v_nspid_update into_int)"
  "map_of victim_table (fold_key ''comm'') = Some (into_field v_comm v_comm_update into_string)"
  "map_of victim_table (fold_key ''cmdline'') = Some (into_field v_cmdline v_cmdline_update (into_list into_string []))"
  "map_of victim_table (fold_key ''rssBytes'') = Some (into_field v_rss_bytes v_rss_bytes_update into_u64)"
  "map_of victim_table (fold_key ''inferred'') = Some (into_field v_inferred v_inferred_update into_bool)"
  "map_of victim_table (fold_key ''known'') = Some (into_field v_known v_known_update into_bool)"
  by (simp_all add: victim_table_def fold_key_def lower_byte_def char_of_def bit_iff_odd)

definition machine_victim :: "victim \<Rightarrow> bool" where
  "machine_victim v \<longleftrightarrow> int64 (v_pid v) \<and> int64 (v_nspid v)"

lemma victim_decodes:
  assumes "machine_victim v" "v_cmdline c = []"
  shows "decodes (Suc (Suc n)) (into_struct victim_table) c (victim_value v) (json_victim v)"
proof -
  note m = assms [unfolded machine_victim_def]
  show ?thesis
    unfolding victim_value_def append_Cons append_Nil
    by (rule decodes_struct,
        (rule victim_keys [THEN assigns_field] assigns_commands [OF victim_keys(4)] decodes_leaves assigns_nil
          | (simp add: m ascii_def; fail))+,
        rule victim.equality; simp add: json_victim_def m)
qed

lemma decodes_embedded:
  "decodes n into (g sc) e v \<Longrightarrow> decodes n (\<lambda>sc j. into_field g u into j sc) sc e (u (\<lambda>_. v) sc)"
  by (auto simp: decodes_def into_field_def)

lemma decodes_kind: "decodes n (into_named kind_string [ScopeZero, ScopeContainer, ScopePod]) c (string_value (kind_string k)) k"
  by (rule decodes_named; cases k; simp add: kind_string_def ascii_def)

lemma decodes_qos:
  "decodes n (into_named qos_string [QoSZero, QoSGuaranteed, QoSBurstable, QoSBestEffort, QoSUnknown]) c
     (string_value (qos_string q)) q"
  by (rule decodes_named; cases q; simp add: qos_string_def ascii_def)

lemma decodes_driver:
  "decodes n (into_named driver_string [DriverZero, DriverSystemd, DriverCgroupfs, DriverUnknown]) c
     (string_value (driver_string d)) d"
  by (rule decodes_named; cases d; simp add: driver_string_def ascii_def)

lemma decodes_runtime:
  "decodes n (into_named runtime_string [RuntimeZero, RuntimeContainerd, RuntimeCRIO, RuntimeDocker, RuntimeUnknown]) c
     (string_value (runtime_string r)) r"
  by (rule decodes_named; cases r; simp add: runtime_string_def ascii_def)

lemma decodes_source:
  "decodes n (into_named source_string [SourceEBPF, SourcePoller, SourceFake]) c (string_value (source_string src)) src"
  by (rule decodes_named; cases src; simp add: source_string_def ascii_def)

lemma decodes_match:
  "decodes n (into_named match_string [VictimMatchNone, VictimMatchHostPID, VictimMatchNSPid, VictimMatchUnset]) c
     (string_value (match_string m)) m"
  by (rule decodes_named; cases m; simp add: match_string_def ascii_def)

lemmas decodes_names = decodes_kind decodes_qos decodes_driver decodes_runtime decodes_source decodes_match

lemmas key_simps = fold_key_def lower_byte_def char_of_def bit_iff_odd

lemma identity_keys:
  "map_of identity_table (fold_key ''podUID'') = Some (into_field id_scope id_scope_update
     (\<lambda>sc j. into_field sc_pod_uid sc_pod_uid_update into_string j sc))"
  "map_of identity_table (fold_key ''containerID'') = Some (into_field id_scope id_scope_update
     (\<lambda>sc j. into_field sc_container_id sc_container_id_update into_string j sc))"
  "map_of identity_table (fold_key ''kind'') = Some (into_field id_scope id_scope_update
     (\<lambda>sc j. into_field sc_kind sc_kind_update (into_named kind_string [ScopeZero, ScopeContainer, ScopePod]) j sc))"
  "map_of identity_table (fold_key ''qos'') = Some (into_field id_scope id_scope_update
     (\<lambda>sc j. into_field sc_qos sc_qos_update
        (into_named qos_string [QoSZero, QoSGuaranteed, QoSBurstable, QoSBestEffort, QoSUnknown]) j sc))"
  "map_of identity_table (fold_key ''driver'') = Some (into_field id_scope id_scope_update
     (\<lambda>sc j. into_field sc_driver sc_driver_update
        (into_named driver_string [DriverZero, DriverSystemd, DriverCgroupfs, DriverUnknown]) j sc))"
  "map_of identity_table (fold_key ''runtime'') = Some (into_field id_scope id_scope_update
     (\<lambda>sc j. into_field sc_runtime sc_runtime_update
        (into_named runtime_string [RuntimeZero, RuntimeContainerd, RuntimeCRIO, RuntimeDocker, RuntimeUnknown]) j sc))"
  "map_of identity_table (fold_key ''cgroupPath'') = Some (into_field id_scope id_scope_update
     (\<lambda>sc j. into_field sc_cgroup_path sc_cgroup_path_update into_string j sc))"
  "map_of identity_table (fold_key ''namespace'') = Some (into_field id_namespace id_namespace_update into_string)"
  "map_of identity_table (fold_key ''podName'') = Some (into_field id_pod_name id_pod_name_update into_string)"
  "map_of identity_table (fold_key ''containerName'') = Some (into_field id_container_name id_container_name_update into_string)"
  "map_of identity_table (fold_key ''image'') = Some (into_field id_image id_image_update into_string)"
  "map_of identity_table (fold_key ''resolved'') = Some (into_field id_resolved id_resolved_update into_bool)"
  by (simp_all add: identity_table_def scope_table_def key_simps)

lemma identity_decodes: "decodes (Suc n) (into_struct identity_table) c (identity_value i) (json_identity i)"
  unfolding identity_value_def scope_fields_def append_Cons append_Nil
  by (rule decodes_struct,
      (rule identity_keys [THEN assigns_field] decodes_leaves decodes_names [THEN decodes_embedded]
          decodes_string [THEN decodes_embedded] assigns_nil
        | (simp add: ascii_def; fail))+,
      rule identity.equality; simp add: json_identity_def)
    (rule scope.equality; simp add: json_scope_def)

lemma point_keys:
  "map_of point_table (fold_key ''time'') = Some (into_field tp_time tp_time_update into_time)"
  "map_of point_table (fold_key ''usedBytes'') = Some (into_field tp_used_bytes tp_used_bytes_update into_u64)"
  "map_of point_table (fold_key ''limitBytes'') = Some (into_field tp_limit_bytes tp_limit_bytes_update into_u64)"
  "map_of point_table (fold_key ''ratio'') = Some (into_field tp_ratio tp_ratio_update into_float)"
  "map_of point_table (fold_key ''pressureFull'') = Some (into_field tp_pressure_full tp_pressure_full_update into_float)"
  by (simp_all add: point_table_def key_simps)

definition machine_point :: "trajectory_point \<Rightarrow> bool" where
  "machine_point p \<longleftrightarrow> machine_float (tp_ratio p) \<and> machine_float (tp_pressure_full p)"

lemma point_decodes:
  assumes "machine_point p" "plain_zone z" "is_ok (point_value z p)"
  shows "decodes (Suc n) (into_struct point_table) c (point_value z p) p"
proof -
  have "is_ok (time_value z (tp_time p))" using assms(3) by (simp add: point_value_def object_value_ok)
  note m = assms(1,2) [unfolded machine_point_def] this
  show ?thesis
    unfolding point_value_def
    by (rule decodes_struct,
        (rule point_keys [THEN assigns_field] decodes_leaves assigns_nil | (simp add: m ascii_def; fail))+)
qed

lemma process_keys:
  "map_of process_table (fold_key ''pid'') = Some (into_field ps_pid ps_pid_update into_int)"
  "map_of process_table (fold_key ''nsPid'') = Some (into_field ps_nspid ps_nspid_update into_int)"
  "map_of process_table (fold_key ''comm'') = Some (into_field ps_comm ps_comm_update into_string)"
  "map_of process_table (fold_key ''cmdline'') = Some (into_field ps_cmdline ps_cmdline_update (into_list into_string []))"
  "map_of process_table (fold_key ''rssBytes'') = Some (into_field ps_rss_bytes ps_rss_bytes_update into_u64)"
  by (simp_all add: process_table_def key_simps)

definition machine_process :: "process_snapshot \<Rightarrow> bool" where
  "machine_process p \<longleftrightarrow> int64 (ps_pid p) \<and> int64 (ps_nspid p)"

lemma process_decodes:
  assumes "machine_process p"
  shows "decodes (Suc (Suc n)) (into_struct process_table) process_zero (process_value p) (json_process p)"
proof -
  note m = assms [unfolded machine_process_def]
  show ?thesis
    unfolding process_value_def append_Cons append_Nil
    by (rule decodes_struct,
        (rule process_keys [THEN assigns_field] assigns_commands [OF process_keys(4)] decodes_leaves assigns_nil
          | (simp add: m ascii_def process_zero_def; fail))+,
        rule process_snapshot.equality; simp add: json_process_def process_zero_def)
qed

lemma trend_keys:
  "map_of trend_table (fold_key ''bytesPerSecond'') = Some (into_field tr_bytes_per_second tr_bytes_per_second_update into_float)"
  "map_of trend_table (fold_key ''rSquared'') = Some (into_field tr_r_squared tr_r_squared_update into_float)"
  "map_of trend_table (fold_key ''samples'') = Some (into_field tr_samples tr_samples_update into_count)"
  "map_of trend_table (fold_key ''window'') = Some (into_field tr_window tr_window_update into_int)"
  "map_of trend_table (fold_key ''timeToLimit'') = Some (into_field tr_time_to_limit tr_time_to_limit_update into_duration)"
  "map_of trend_table (fold_key ''projected'') = Some (into_field tr_projected tr_projected_update into_bool)"
  by (simp_all add: trend_table_def key_simps)

definition machine_trend :: "trend \<Rightarrow> bool" where
  "machine_trend t \<longleftrightarrow> machine_float (tr_bytes_per_second t) \<and> machine_float (tr_r_squared t) \<and> tr_samples t < 2 ^ 63 \<and>
     int64 (tr_window t) \<and> (\<exists>d. tr_time_to_limit t = Some d \<and> int64 d)"

lemma trend_decodes:
  assumes "machine_trend t"
  shows "decodes (Suc n) (into_struct trend_table) c (trend_value t) t"
proof -
  obtain d where d: "tr_time_to_limit t = Some d" "int64 d" using assms by (auto simp: machine_trend_def)
  note m = assms [unfolded machine_trend_def]
  show ?thesis
    unfolding trend_value_def
    by (rule decodes_struct,
        (rule trend_keys [THEN assigns_field] decodes_leaves decodes_duration [OF d] assigns_nil
          | (simp add: ascii_def; fail) | (simp only: m; fail) | (rule trend.equality; simp; fail))+)
qed

lemma report_keys:
  "map_of report_table (fold_key ''id'') = Some (into_field rp_id rp_id_update into_string)"
  "map_of report_table (fold_key ''time'') = Some (into_field rp_time rp_time_update into_time)"
  "map_of report_table (fold_key ''identity'') = Some (into_field rp_identity rp_identity_update (into_struct identity_table))"
  "map_of report_table (fold_key ''victim'') = Some (into_field rp_victim rp_victim_update (into_struct victim_table))"
  "map_of report_table (fold_key ''source'') = Some (into_field rp_source rp_source_update
     (into_named source_string [SourceEBPF, SourcePoller, SourceFake]))"
  "map_of report_table (fold_key ''killCount'') = Some (into_field rp_kill_count rp_kill_count_update into_u64)"
  "map_of report_table (fold_key ''limitBytes'') = Some (into_field rp_limit_bytes rp_limit_bytes_update into_u64)"
  "map_of report_table (fold_key ''peakBytes'') = Some (into_field rp_peak_bytes rp_peak_bytes_update into_u64)"
  "map_of report_table (fold_key ''trajectory'') = Some (into_field rp_trajectory rp_trajectory_update
     (into_list (into_struct point_table) point_zero))"
  "map_of report_table (fold_key ''processes'') = Some (into_field rp_processes rp_processes_update
     (into_list (into_struct process_table) process_zero))"
  "map_of report_table (fold_key ''victimMatch'') = Some (into_field rp_victim_match rp_victim_match_update
     (into_named match_string [VictimMatchNone, VictimMatchHostPID, VictimMatchNSPid, VictimMatchUnset]))"
  "map_of report_table (fold_key ''groupKill'') = Some (into_field rp_group_kill rp_group_kill_update into_bool_pointer)"
  "map_of report_table (fold_key ''trend'') = Some (into_field rp_trend rp_trend_update (into_struct trend_table))"
  by (simp_all add: report_table_def key_simps)

text \<open>What a Go value of the type always is: its ints are 64 bits wide, its floats are floats.\<close>

definition machine_report :: "report \<Rightarrow> bool" where
  "machine_report r \<longleftrightarrow> machine_victim (rp_victim r) \<and> list_all machine_point (rp_trajectory r) \<and>
     list_all machine_process (rp_processes r) \<and> machine_trend (rp_trend r)"

lemma report_decodes:
  assumes "machine_report r" "plain_zone z" "is_ok (report_value z nils r)"
  shows "decodes (Suc (Suc (Suc (Suc n)))) (into_struct report_table) report_zero (report_value z nils r) (json_report r)"
proof -
  have t: "is_ok (time_value z (rp_time r))" and pts: "list_all (\<lambda>p. is_ok (point_value z p)) (rp_trajectory r)"
    using assms(3) by (simp_all add: report_value_def object_value_ok list_value_ok)
  have points: "decodes (Suc (Suc (Suc n))) (into_list (into_struct point_table) point_zero) c
      (list_value b (point_value z) (rp_trajectory r)) (map (\<lambda>x. x) (rp_trajectory r))" for c b
    using assms(1,2) pts by (intro decodes_list point_decodes) (auto simp: machine_report_def list_all_iff)
  have processes: "decodes (Suc (Suc (Suc n))) (into_list (into_struct process_table) process_zero) c
      (list_value b process_value (rp_processes r)) (map json_process (rp_processes r))" for c b
    using assms(1) by (intro decodes_list process_decodes) (auto simp: machine_report_def list_all_iff)
  have victim: "decodes (Suc (Suc (Suc n))) (into_struct victim_table) c (victim_value (rp_victim r)) (json_victim (rp_victim r))"
    if "v_cmdline c = []" for c
    using assms(1) that by (intro victim_decodes) (auto simp: machine_report_def)
  have trend: "decodes (Suc (Suc (Suc n))) (into_struct trend_table) c (trend_value (rp_trend r)) (rp_trend r)" for c
    using assms(1) by (intro trend_decodes) (auto simp: machine_report_def)
  show ?thesis
    unfolding report_value_def
    by (rule decodes_struct,
        (rule report_keys [THEN assigns_field] decodes_leaves decodes_names identity_decodes victim points processes trend
            assigns_nil assms(2) t
          | (simp add: ascii_def report_zero_def victim_zero_def; fail) | (rule report.equality; simp add: json_report_def; fail))+)
qed

lemma status_keys:
  "map_of status_table (fold_key ''detector'') = Some (into_field st_detector st_detector_update into_string)"
  "map_of status_table (fold_key ''cgroupVersion'') = Some (into_field st_cgroup_version st_cgroup_version_update into_string)"
  "map_of status_table (fold_key ''ready'') = Some (into_field st_ready st_ready_update into_bool)"
  "map_of status_table (fold_key ''reports'') = Some (into_field st_reports st_reports_update into_u64)"
  "map_of status_table (fold_key ''skipped'') = Some (into_field st_skipped st_skipped_update into_u64)"
  "map_of status_table (fold_key ''unattributed'') = Some (into_field st_unattributed st_unattributed_update into_u64)"
  "map_of status_table (fold_key ''trackedCgroups'') = Some (into_field st_tracked_cgroups st_tracked_cgroups_update into_count)"
  "map_of status_table (fold_key ''uptimeSeconds'') = Some (into_field st_uptime_seconds st_uptime_seconds_update into_float)"
  "map_of status_table (fold_key ''version'') = Some (into_field st_version st_version_update into_string)"
  "map_of status_table (fold_key ''node'') = Some (into_field st_node st_node_update into_string)"
  "map_of status_table (fold_key ''podCacheSynced'') = Some (into_field st_pod_cache_synced st_pod_cache_synced_update into_bool)"
  "map_of status_table (fold_key ''podsTracked'') = Some (into_field st_pods_tracked st_pods_tracked_update into_count)"
  by (simp_all add: status_table_def key_simps)

definition machine_status :: "api_status \<Rightarrow> bool" where
  "machine_status s \<longleftrightarrow> machine_float (st_uptime_seconds s) \<and> st_tracked_cgroups s < 2 ^ 63 \<and> st_pods_tracked s < 2 ^ 63"

lemma status_decodes:
  assumes "machine_status s"
  shows "decodes (Suc n) (into_struct status_table) api_status_zero (status_value s) (json_status s)"
proof -
  note m = assms [unfolded machine_status_def]
  show ?thesis
  proof (cases "st_node s = []")
    case True
    show ?thesis
      unfolding status_value_def append_Cons append_Nil if_P [OF True]
      by (rule decodes_struct,
          (rule status_keys [THEN assigns_field] decodes_leaves assigns_nil
            | (simp add: ascii_def; fail) | (simp only: m; fail)
            | (rule api_status.equality; simp add: json_status_def api_status_zero_def True json_string_def; fail))+)
  next
    case False
    show ?thesis
      unfolding status_value_def append_Cons append_Nil if_not_P [OF False]
      by (rule decodes_struct,
          (rule status_keys [THEN assigns_field] decodes_leaves assigns_nil
            | (simp add: ascii_def; fail) | (simp only: m; fail)
            | (rule api_status.equality; simp add: json_status_def; fail))+)
  qed
qed

subsection \<open>The bytes of a body\<close>

lemma delimited_newline: "delimited newline"
  by (simp add: delimited_def newline_def is_digit_def digit_val_def)

lemma read_decoded:
  assumes "decodes n into c e x" "n \<le> max_nesting"
  shows "\<exists>j. e = Inr j \<and> (\<exists>j'. read_json (json_text ind 0 j @ newline) = Some j' \<and> into c j' = Inr x)"
proof -
  obtain j where j: "e = Inr j" "json_grammatical j" "json_depth j \<le> n" "into c (json_clean j) = Inr x"
    using assms(1) by (auto simp: decodes_def)
  then have "read_json (json_text ind 0 j @ newline) = Some (json_clean j)"
    using assms(2) by (intro read_json_text) (simp_all add: delimited_newline)
  then show ?thesis using j by blast
qed

lemma decoded_inert: "decodes n into c (Inr j) x \<Longrightarrow> inert (json_text ind 0 j @ newline)"
  by (auto simp: decodes_def json_text_inert)

lemma list_decodes:
  assumes "list_all machine_report (map snd xs)" "plain_zone z" "render_list_text z xs = Inr t"
  shows "decodes 5 (into_list (into_struct report_table) report_zero) []
    (list_value False (\<lambda>x. report_value z (fst x) (snd x)) xs) (map (\<lambda>x. json_report (snd x)) xs)"
proof -
  have "is_ok (list_value False (\<lambda>x. report_value z (fst x) (snd x)) xs)"
    using assms(3) by (cases "list_value False (\<lambda>x. report_value z (fst x) (snd x)) xs") (simp_all add: render_list_text_def)
  then have ok: "is_ok (report_value z (fst x) (snd x))" if "x \<in> set xs" for x
    using that by (simp add: list_value_ok list_all_iff)
  have "decodes (Suc 4) (into_list (into_struct report_table) report_zero) []
      (list_value False (\<lambda>x. report_value z (fst x) (snd x)) xs) (map (\<lambda>x. json_report (snd x)) xs)"
  proof (rule decodes_list)
    fix x
    assume x: "x \<in> set xs"
    then have "machine_report (snd x)" using assms(1) by (auto simp: list_all_iff)
    from report_decodes [OF this assms(2) ok [OF x], of 0]
    show "decodes 4 (into_struct report_table) report_zero (report_value z (fst x) (snd x)) (json_report (snd x))"
      by (simp add: numeral_eq_Suc)
  qed
  then show ?thesis by simp
qed

lemma list_text_reads:
  assumes "list_all machine_report (map snd xs)" "plain_zone z" "render_list_text z xs = Inr t"
  shows "read_reports t = Inr (map json_report (map snd xs))" "inert t"
proof -
  note d = list_decodes [OF assms]
  obtain j where j: "list_value False (\<lambda>x. report_value z (fst x) (snd x)) xs = Inr j" "t = marshal_indent j @ newline"
    using assms(3) by (cases "list_value False (\<lambda>x. report_value z (fst x) (snd x)) xs") (auto simp: render_list_text_def)
  show "read_reports t = Inr (map json_report (map snd xs))"
    using read_decoded [OF d, of True] j by (auto simp: max_nesting_def marshal_indent_def read_reports_def comp_def)
  show "inert t" using decoded_inert [OF d [unfolded j(1)], of True] j(2) by (simp add: marshal_indent_def)
qed

lemma status_text_reads:
  assumes "machine_status s" "status_text s = Inr t"
  shows "read_status t = Inr (json_status s)" "inert t"
proof -
  note d = status_decodes [OF assms(1), of 0]
  obtain j where j: "status_value s = Inr j" "t = marshal j @ newline"
    using assms(2) by (cases "status_value s") (auto simp: status_text_def)
  show "read_status t = Inr (json_status s)"
    using read_decoded [OF d, of False] j by (auto simp: max_nesting_def marshal_def read_status_def)
  show "inert t" using decoded_inert [OF d [unfolded j(1)], of False] j(2) by (simp add: marshal_def)
qed

lemma list_text_ok:
  assumes "list_all machine_report (map snd xs)"
  shows "is_ok (render_list_text utc xs) \<longleftrightarrow> is_ok (render_json_list (map snd xs))"
proof -
  have "tr_time_to_limit (rp_trend (snd x)) \<noteq> None" if "x \<in> set xs" for x
    using assms that by (auto simp: list_all_iff machine_report_def machine_trend_def)
  then show ?thesis
    by (simp add: render_list_text_def list_value_ok list_all_iff report_value_ok render_json_list_def)
qed

lemma status_text_ok: "is_ok (status_text s) \<longleftrightarrow> hp_code (handle_status srv) = 200" if "as_status srv = s"
  using that by (simp add: status_text_def status_value_ok handle_status_def write_json_def write_error_def)

text \<open>What was decoded once comes back as it is.\<close>

lemma json_string_again [simp]: "json_string (json_string s) = json_string s"
  using one_rune_runes by (simp add: json_string_def runes_concat)

lemma json_report_again [simp]: "json_report (json_report r) = json_report r"
  by (simp add: json_report_def json_identity_def json_scope_def json_victim_def json_process_def)

lemma machine_json_report [simp]: "machine_report (json_report r) = machine_report r"
  by (simp add: machine_report_def json_report_def machine_victim_def json_victim_def list.pred_map comp_def
      machine_process_def [abs_def] json_process_def)

lemma list_crosses_twice:
  assumes "list_all machine_report (map snd xs)" "map snd ys = map json_report (map snd xs)" "plain_zone z" "render_list_text z ys = Inr t"
  shows "read_reports t = Inr (map snd ys)"
proof -
  have "list_all machine_report (map snd ys)" using assms(1) unfolding assms(2) by (simp add: list.pred_map comp_def)
  from list_text_reads(1) [OF this assms(3,4)] show ?thesis unfolding assms(2) by simp
qed

text \<open>C32: What the daemon serves arrives. The bytes of a listing are written in the zone of the daemon, with
  any slices of its reports nil or made: decoding them gives the reports again, every byte of
  their strings that is no UTF-8 replaced, and what \<open>inspect\<close> prints from those decodes to the
  very same ones. The bytes exist exactly when every figure is a number and every time within the
  years of the format, and likewise for the status. Whatever names and commands they carry, they
  hold no byte that could open markup and no control byte but line breaks.\<close>

theorem reports_cross_the_wire:
  assumes "list_all machine_report (map snd xs)" "machine_status s" "plain_zone z"
  shows "(is_ok (render_list_text utc xs) \<longleftrightarrow> is_ok (render_json_list (map snd xs))) \<and>
    (\<forall>t. render_list_text z xs = Inr t \<longrightarrow> read_reports t = Inr (map json_report (map snd xs)) \<and> inert t) \<and>
    (\<forall>zone ys t. plain_zone zone \<and> map snd ys = map json_report (map snd xs) \<and> render_list_text zone ys = Inr t \<longrightarrow>
      read_reports t = Inr (map snd ys)) \<and>
    (is_ok (status_text s) \<longleftrightarrow> json_float_ok (st_uptime_seconds s)) \<and>
    (\<forall>t. status_text s = Inr t \<longrightarrow> read_status t = Inr (json_status s) \<and> inert t)"
proof (intro conjI allI impI)
  show "is_ok (render_list_text utc xs) \<longleftrightarrow> is_ok (render_json_list (map snd xs))" by (rule list_text_ok [OF assms(1)])
  show "is_ok (status_text s) \<longleftrightarrow> json_float_ok (st_uptime_seconds s)" by (simp add: status_text_def status_value_ok)
qed (use list_text_reads [OF assms(1,3)] list_crosses_twice [OF assms(1)] status_text_reads [OF assms(2)] in \<open>blast\<close>)+

lemma machine_zero: "machine_report (report_zero\<lparr>rp_id := i\<rparr>)" "machine_status api_status_zero" "plain_zone utc"
  by (simp_all add: machine_report_def report_zero_def machine_victim_def victim_zero_def int64_def machine_trend_def
      trend_zero_def machine_float_def f64_round_def machine_status_def api_status_zero_def plain_zone_def utc_def)

theorem reports_cross_the_wire_witness:
  "\<exists>t u. render_list_text utc [((True, False), report_zero\<lparr>rp_id := [CHR 0xFF]\<rparr>)] = Inr t \<and>
     read_reports t = Inr [report_zero\<lparr>rp_id := replacement_rune\<rparr>] \<and> inert t \<and>
     status_text api_status_zero = Inr u \<and> read_status u = Inr api_status_zero"
proof -
  let ?xs = "[((True, False), report_zero\<lparr>rp_id := [CHR 0xFF]\<rparr>)]"
  have m: "list_all machine_report (map snd ?xs)" by (simp add: machine_zero)
  note w = reports_cross_the_wire [OF m machine_zero(2,3)]
  note ok = w [THEN conjunct1] and again = w [THEN conjunct2, THEN conjunct1]
  note status = w [THEN conjunct2, THEN conjunct2, THEN conjunct2]
  have "json_time_ok 0" using civil_examples(1) by (simp add: json_time_ok_def)
  then have "is_ok (render_json_list (map snd ?xs))"
    by (simp add: render_json_list_def json_report_ok_def report_zero_def trend_zero_def)
  then obtain t where t: "render_list_text utc ?xs = Inr t" using ok by (cases "render_list_text utc ?xs") simp_all
  obtain u where u: "status_text api_status_zero = Inr u"
    using status by (cases "status_text api_status_zero") (simp_all add: api_status_zero_def)
  have "json_string [] = []" "json_string [CHR 0xFF] = replacement_rune"
    by (simp_all add: json_string_def runes.simps [of "[CHR 0xFF]"])
  then have "json_report (report_zero\<lparr>rp_id := [CHR 0xFF]\<rparr>) = report_zero\<lparr>rp_id := replacement_rune\<rparr>"
    "json_status api_status_zero = api_status_zero"
    by (simp_all add: json_report_def json_identity_def json_scope_def json_victim_def report_zero_def identity_zero_def
        scope_zero_def victim_zero_def json_status_def api_status_zero_def)
  then show ?thesis using t u again status by auto
qed

end
