(* ===== verification/Machine.thy ===== *)
theory Machine
  imports Wire Reports
begin

section \<open>The figures of the daemon's reports fit the machine\<close>

text \<open>
  No code of its own. The theory \<open>Wire\<close> shows that a report whose ints are 64 bits wide and whose
  floats are floats comes back from its JSON as it was; here the reports that \<open>buildReport\<close> of
  \<open>src/internal/daemon/daemon.go\<close> makes are shown to be of that kind. The model's floats are rationals,
  so it is to be shown that each one computed is the value of a float, and that every PID, size
  and duration stays within its range.
\<close>

subsection \<open>Results of float operations\<close>

definition is_float :: "f64 \<Rightarrow> bool" where
  "is_float x \<longleftrightarrow> (\<forall>q. x = FNum q \<longrightarrow> f64_round q = FNum q)"

lemma round_mag_again: "0 \<le> x \<Longrightarrow> round_mag (round_mag x) = round_mag x"
proof (cases "x = 0")
  case False
  assume "0 \<le> x"
  then have x: "0 < x" using False by simp
  define u where "u = ulp_exp x"
  define k where "k = round_even (x / pow2 u)"
  have r: "round_mag x = of_int k * pow2 u" using x by (simp add: round_mag_def u_def k_def)
  have "x < pow2 (rat_exp x + 1)" by (rule rat_exp_bounds(2) [OF x])
  also have "\<dots> \<le> pow2 (53 + u)" by (rule pow2_mono) (simp add: u_def ulp_exp_def)
  finally have "x / pow2 u \<le> of_int (2 ^ 53)" by (simp add: pow2_add pow2_def [of 53] divide_le_eq)
  then have k: "k \<le> 2 ^ 53" unfolding k_def by (rule round_even_le_int)
  have "0 \<le> k" unfolding k_def using x by (intro round_even_ge_int) (simp add: less_imp_le)
  then have n: "of_nat (nat k) = (of_int k :: rat)" "nat k \<le> 2 ^ 53" using k by (simp_all add: nat_le_iff)
  have "- 1074 \<le> u" by (simp add: u_def ulp_exp_def)
  from round_mag_dyadic [OF n(2) this] show ?thesis by (simp only: r n(1))
qed simp

lemma is_float_round [simp]: "is_float (f64_round x)"
proof -
  have "0 \<le> round_mag \<bar>x\<bar>" "round_mag (round_mag \<bar>x\<bar>) = round_mag \<bar>x\<bar>"
    using round_mag_nonneg [of "\<bar>x\<bar>"] round_mag_again [of "\<bar>x\<bar>"] by simp_all
  then show ?thesis by (auto simp: is_float_def f64_round_def Let_def)
qed

lemma is_float_zero [simp]: "is_float (FNum 0)"
  by (simp add: is_float_def)

lemma is_float_one [simp]: "is_float (FNum 1)"
  using f64_round_int [of 1] by (simp add: is_float_def)

lemma is_float_other [simp]: "is_float (FInf s)" "is_float FNaN"
  by (simp_all add: is_float_def)

lemma is_float_add [simp]: "is_float (f_add x y)"
  by (cases "(x, y)" rule: f_add.cases) simp_all

lemma is_float_sub [simp]: "is_float (f_sub x y)"
  by (simp add: f_sub_def)

lemma is_float_div [simp]: "is_float (f_div x y)"
  by (cases "(x, y)" rule: f_div.cases) simp_all

lemma is_float_clamp: "is_float x \<Longrightarrow> is_float (f_max (FNum 0) (f_min (FNum 1) x))"
  by (auto simp: f_max_def f_min_def)

lemma machine_float_number: "is_float x \<Longrightarrow> json_float_ok x \<Longrightarrow> machine_float x"
  by (cases x) (simp_all add: is_float_def machine_float_def)

subsection \<open>The parts of a report\<close>

lemma fit_slope_floats:
  assumes "fit_slope ss origin = (slope, r, ok)"
  shows "is_float slope \<and> is_float r"
proof -
  have "case fit_slope ss origin of (slope, r, ok) \<Rightarrow> is_float slope \<and> is_float r"
    unfolding fit_slope_def Let_def by (simp add: is_float_clamp split: prod.split)
  then show ?thesis using assms by simp
qed

lemma int64_zero: "int64 0"
  by (simp add: int64_def)

lemma int64_duration: "min_duration \<le> d \<Longrightarrow> d \<le> max_duration \<Longrightarrow> int64 d"
  by (simp add: int64_def min_duration_def max_duration_def)

lemma machine_analysis:
  assumes "length ss \<le> 2 ^ 51"
  shows "machine_trend (analyse ss)"
proof -
  have f: "is_float (tr_bytes_per_second (analyse ss)) \<and> is_float (tr_r_squared (analyse ss)) \<and> int64 (tr_window (analyse ss)) \<and>
      tr_samples (analyse ss) = length ss"
    using time_sub_bounds
    by (auto simp: analyse_def Let_def int64_zero intro: int64_duration dest: fit_slope_floats split: prod.splits)
  obtain d where "tr_time_to_limit (analyse ss) = Some d" "0 \<le> d" "d \<le> max_duration"
    using analysed_projection [OF assms] by blast
  then have "\<exists>d. tr_time_to_limit (analyse ss) = Some d \<and> int64 d" by (auto simp: int64_def max_duration_def)
  then show ?thesis
    using f readable_trend [OF assms] assms machine_float_number by (auto simp: machine_trend_def)
qed

lemma machine_ratio: "machine_float (usage_ratio m)"
proof (rule machine_float_number)
  show "is_float (usage_ratio m)" by (simp add: usage_ratio_def Let_def)
  show "json_float_ok (usage_ratio m)" using usage_ratio_range [of m] by auto
qed

lemma pid_lines_int64: "p \<in> set (pid_lines ls) \<Longrightarrow> int64 p"
  by (induction ls) (auto simp: Let_def int64_def dest: atoi_range split: sum.splits if_splits)

lemma procs_in_int64: "procs_in f path = Inr pids \<Longrightarrow> p \<in> set pids \<Longrightarrow> int64 p"
  by (auto simp: procs_in_def res_bind_Inr_iff parse_pid_list_def split_beta Let_def split: if_splits intro: pid_lines_int64)

text \<open>The PID inside a namespace comes from a status file.\<close>

definition status_int64 :: "status \<Rightarrow> bool" where
  "status_int64 st \<longleftrightarrow> int64 (st_pid st) \<and> int64 (st_nspid st)"

lemma atoi_int64: "atoi s = Inr i \<Longrightarrow> int64 i"
  using atoi_range by (simp add: int64_def)

lemma status_line_int64: "status_line st l = Inr st' \<Longrightarrow> status_int64 st \<Longrightarrow> status_int64 st'"
  by (auto simp: status_line_def Let_def res_bind_Inr_iff status_int64_def parse_innermost_nspid_def int64_zero
      split: option.splits if_splits) (erule atoi_int64)+

lemma status_lines_int64: "status_lines st ls = Inr st' \<Longrightarrow> status_int64 st \<Longrightarrow> status_int64 st'"
  by (induction ls arbitrary: st) (auto simp: res_bind_Inr_iff dest: status_line_int64)

lemma parse_status_int64: "parse_status data = Inr st \<Longrightarrow> int64 (st_nspid st)"
proof -
  assume p: "parse_status data = Inr st"
  then obtain st' where l: "status_lines status_zero (fst (scan_lines data)) = Inr st'"
    and st: "st = (if st_nspid st' = 0 then st'\<lparr>st_nspid := st_pid st'\<rparr> else st')"
    unfolding parse_status_def split_beta Let_def res_bind_Inr_iff by (metis sum.distinct(1) sum.inject(2))
  have "status_int64 status_zero" by (simp add: status_int64_def status_zero_def int64_def)
  then show ?thesis using status_lines_int64 [OF l] st by (auto simp: status_int64_def)
qed

lemma read_process_int64: "read_process f pid = Inr p \<Longrightarrow> p_pid p = pid \<and> int64 (p_nspid p)"
  by (auto simp: read_process_def res_bind_Inr_iff Let_def dest: parse_status_int64)

lemma read_processes_int64: "p \<in> set (read_processes f pids) \<Longrightarrow> p_pid p \<in> set pids \<and> int64 (p_nspid p)"
  by (induction pids) (auto dest: read_process_int64 split: sum.splits)

lemma listed_from: "s \<in> set (fst (list_processes v b ps m)) \<Longrightarrow> s \<in> snapshot_of ` set ps"
  by (induction v b ps m rule: list_processes.induct) (auto simp: Let_def split: if_splits prod.splits)

lemma machine_listing:
  assumes "procs_in f path = Inr pids"
  shows "list_all machine_process (fst (processes_from (processes_with_pids g pids) v))"
proof -
  have "machine_process s" if s: "s \<in> set (fst (processes_from (processes_with_pids g pids) v))" for s
  proof -
    obtain p where p: "s = snapshot_of p" "p \<in> set (read_processes g pids)"
      using listed_from s by (force simp: processes_from_def processes_with_pids_def sort_by_memory_def)
    then show ?thesis
      using read_processes_int64 [OF p(2)] procs_in_int64 [OF assms] by (simp add: machine_process_def snapshot_of_def)
  qed
  then show ?thesis by (simp add: list_all_iff)
qed

subsection \<open>The report\<close>

text \<open>What the kernel gave is of the machine as well: the victim's ints, and the pressure as it was parsed.\<close>

definition event_measured :: "report_view \<times> kill_event \<Rightarrow> bool" where
  "event_measured x \<longleftrightarrow> machine_victim (ke_victim (snd x)) \<and>
     (case history (rv_sampler (fst x)) (ke_cgroup_path (snd x)) of
        None \<Rightarrow> True | Some ss \<Rightarrow> list_all (\<lambda>s. is_float (psi_avg10 (psi_full (sm_psi s)))) ss)"

lemma machine_points:
  assumes "list_all readable_sample ss" "list_all (\<lambda>s. is_float (psi_avg10 (psi_full (sm_psi s)))) ss"
  shows "list_all machine_point (trajectory_from ss)"
  using assms machine_ratio machine_float_number
  by (auto simp: trajectory_from_map list_all_iff machine_point_def trajectory_point_from_def readable_sample_def Let_def)

lemma machine_history:
  assumes "event_readable (v, e)" "event_measured (v, e)" "machine_report r"
  shows "machine_report (apply_history v e r)"
proof (cases "history (rv_sampler v) (ke_cgroup_path e)")
  case (Some ss)
  then have h: "length ss \<le> 2 ^ 51" "list_all machine_point (trajectory_from ss)"
    using assms(1,2) machine_points by (auto simp: event_readable_def event_measured_def)
  show ?thesis using assms(3) machine_analysis [OF h(1)] h(2) Some
    by (simp add: apply_history_def machine_report_def Let_def)
qed (use assms(3) in \<open>simp add: apply_history_def\<close>)

lemma machine_processes: "machine_report r \<Longrightarrow> machine_report (apply_processes v e d r)"
  by (cases "procs_in (rv_members v) (ke_cgroup_path e)")
    (simp_all add: apply_processes_def machine_report_def split_beta Let_def machine_listing)

lemma machine_frames: "machine_report (apply_group_kill v e d r) = machine_report r"
  "machine_report (apply_live_stats v e d r) = machine_report r"
  by (simp_all add: apply_group_kill_def apply_live_stats_def machine_report_def Let_def split: sum.split option.split)

lemma built_report_machine:
  assumes "build_report v e d = (Some r, d')" "event_readable (v, e)" "event_measured (v, e)"
  shows "machine_report r"
proof -
  obtain i identity d1 where r: "r = apply_processes v e d1 (apply_group_kill v e d1 (apply_live_stats v e d1
      (apply_history v e (report_zero\<lparr>rp_id := i, rp_time := ke_time e, rp_identity := identity, rp_victim := ke_victim e,
        rp_source := ke_source e, rp_kill_count := ke_kill_count e\<rparr>))))"
    using assms(1) by (auto simp: build_report_def Let_def split: if_splits prod.splits)
  have "machine_report (report_zero\<lparr>rp_id := i, rp_time := ke_time e, rp_identity := identity, rp_victim := ke_victim e,
        rp_source := ke_source e, rp_kill_count := ke_kill_count e\<rparr>)"
    using assms(3) machine_zero(1) [of i] by (simp add: event_measured_def machine_report_def)
  from machine_history [OF assms(2,3) this] show ?thesis by (simp add: r machine_processes machine_frames)
qed

lemma stored_reports_machine:
  assumes "list_all event_readable evs" "list_all event_measured evs" "list_all machine_report (mm_ordered (dm_store d))"
  shows "list_all machine_report (mm_ordered (dm_store (handle_all evs d)))"
  using assms by (intro stored_reports_all) (auto simp: list_all_iff dest: built_report_machine)

text \<open>The bytes of a listing of the daemon's reports, in any zone and whichever slices are nil.\<close>

definition crosses_the_wire :: "report list \<Rightarrow> bool" where
  "crosses_the_wire reports \<longleftrightarrow> (\<forall>nils. length nils = length reports \<longrightarrow> is_ok (render_list_text utc (zip nils reports)) \<and>
     (\<forall>z t. plain_zone z \<and> render_list_text z (zip nils reports) = Inr t \<longrightarrow> read_reports t = Inr (map json_report reports)))"

lemma machine_reports_cross:
  assumes "list_all machine_report reports" "list_all json_report_ok reports"
  shows "crosses_the_wire reports"
  unfolding crosses_the_wire_def
proof (intro allI impI conjI)
  fix nils :: "(bool \<times> bool) list"
  assume "length nils = length reports"
  then have r: "map snd (zip nils reports) = reports" by simp
  then have m: "list_all machine_report (map snd (zip nils reports))" using assms(1) by simp
  show "is_ok (render_list_text utc (zip nils reports))"
    using list_text_ok [OF m] assms(2) unfolding r by (simp add: render_json_list_def)
  show "read_reports t = Inr (map json_report reports)" if "plain_zone z \<and> render_list_text z (zip nils reports) = Inr t" for z t
    using list_text_reads(1) [OF m] that unfolding r by blast
qed

end
