(* ===== verification/Pipeline.thy ===== *)
theory Pipeline
  imports Machine Commands Detectors
begin

section \<open>From a counter to a report on a screen\<close>

text \<open>
  What the properties of the whole program share: the daemon that \<open>runDaemon\<close> of
  \<open>src/internal/cmd/daemon.go\<close> builds, told of the events of its detector, and read by \<open>inspect\<close>
  through its API without a filter.
\<close>

lemma list_everything:
  "store_list \<lparr>rf_namespace = [], rf_pod = [], rf_container = [], rf_limit = 0\<rparr> m = rev (mm_ordered m)"
proof -
  have "filter_matches \<lparr>rf_namespace = [], rf_pod = [], rf_container = [], rf_limit = 0\<rparr> = (\<lambda>_. True)"
    by (rule ext) (simp add: filter_matches_def)
  then show ?thesis by (simp add: store_list_def)
qed

definition everything :: "string \<Rightarrow> inspect_config" where
  "everything addr = \<lparr>ic_daemon_addr = addr, ic_namespace = [], ic_container = [], ic_limit = 0, ic_format = ''text''\<rparr>"

definition retained :: "daemon_config \<Rightarrow> nat" where
  "retained cfg = nat (if dc_retain cfg \<le> 0 then 256 else dc_retain cfg)"

lemma new_store_empty:
  "new_daemon opts = Inr d \<Longrightarrow> dp_store opts = Some (new_memory c) \<Longrightarrow> mm_ordered (dm_store d) = []"
  by (auto simp: new_daemon_def new_memory_def split: option.splits if_splits)

lemma kills_shown:
  assumes "run_daemon cfg h = Inr a" "length evs < 2 ^ 64" "list_all event_readable evs"
    and "memory_api (dm_store (handle_all evs (ap_daemon a))) rdy status = Inr s"
  shows "\<exists>reports. fetch_reports (local_network s [''v1'', ''events'']) (everything addr) [] = Inr (map json_report reports) \<and>
    map report_facts reports = rev (keep_last (retained cfg) (map event_facts (filter (placed (ap_daemon a)) evs))) \<and>
    (list_all event_measured evs \<longrightarrow> crosses_the_wire reports)"
proof -
  let ?d = "ap_daemon a" and ?m = "dm_store (handle_all evs (ap_daemon a))"
  obtain opts where opts: "new_daemon opts = Inr ?d" "dp_store opts = Some (new_memory (dc_retain cfg))"
    using run_daemon_daemon [OF assms(1)] by blast
  have t: "tallied ?d evs (handle_all evs ?d)" and c: "mm_capacity (dm_store ?d) = (if dc_retain cfg \<le> 0 then 256 else dc_retain cfg)"
    using tallied_new [OF opts] tallied_all [OF _ assms(2)] by blast+
  have ok: "store_ok ?m" and held: "map report_facts (mm_ordered ?m) =
      keep_last (retained cfg) (map event_facts (filter (placed ?d) evs))"
    using t c by (simp_all add: tallied_def retained_def Let_def)
  have l: "store_list \<lparr>rf_namespace = ic_namespace (everything addr), rf_pod = [], rf_container = ic_container (everything addr),
      rf_limit = ic_limit (everything addr)\<rparr> ?m = rev (mm_ordered ?m)"
    by (simp add: everything_def list_everything)
  have "list_all json_report_ok (mm_ordered (dm_store ?d))" using new_store_empty [OF opts] by simp
  then have "list_all json_report_ok (rev (mm_ordered ?m))" using stored_reports_encode [OF assms(3)] by simp
  then have "fetch_reports (local_network s [''v1'', ''events'']) (everything addr) [] = Inr (map json_report (rev (mm_ordered ?m)))"
    using fetch_from_store [OF assms(4) ok, of "everything addr" "[]"] unfolding l by (simp add: everything_def)
  moreover have "map report_facts (rev (mm_ordered ?m)) =
      rev (keep_last (retained cfg) (map event_facts (filter (placed ?d) evs)))"
    by (simp only: rev_map [symmetric] held)
  moreover have "crosses_the_wire (rev (mm_ordered ?m))" if "list_all event_measured evs"
    using stored_reports_machine [OF assms(3) that, of ?d] stored_reports_encode [OF assms(3), of ?d] new_store_empty [OF opts]
    by (intro machine_reports_cross) simp_all
  ultimately show ?thesis by blast
qed

lemma retained_positive: "0 < retained cfg"
  by (simp add: retained_def)

lemma newest_kill_shown:
  assumes "run_daemon cfg h = Inr a" "length (evs @ [x]) < 2 ^ 64" "list_all event_readable (evs @ [x])"
    and "memory_api (dm_store (handle_all (evs @ [x]) (ap_daemon a))) rdy status = Inr s" "placed (ap_daemon a) x"
  shows "\<exists>r rest. fetch_reports (local_network s [''v1'', ''events'']) (everything addr) [] = Inr (json_report r # map json_report rest) \<and>
    report_facts r = event_facts x"
proof -
  obtain reports where r: "fetch_reports (local_network s [''v1'', ''events'']) (everything addr) [] = Inr (map json_report reports)"
    "map report_facts reports = rev (keep_last (retained cfg) (map event_facts (filter (placed (ap_daemon a)) (evs @ [x]))))"
    using kills_shown [OF assms(1-4)] by blast
  have k: "keep_last n (ys @ [y]) = keep_last (n - 1) ys @ [y]" if "0 < n" for n and ys and y :: "time \<times> identity \<times> victim \<times> source \<times> u64"
    using that by (cases n) (auto simp: keep_last_def)
  obtain r' rest where "reports = r' # rest" "report_facts r' = event_facts x"
    using r(2) assms(5) by (cases reports) (auto simp: k [OF retained_positive])
  then show ?thesis using r(1) by auto
qed

text \<open>What a report says of a pod that the cache has seen, and that was removed since.\<close>

lemma removed_pod_identity:
  assumes "new_pod_cache opts = Inr c" "rv_pods v = Some (cache_lookup now (fold cache_step
      (earlier @ PodSeen (PodObj pod) # before @ PodGone obj t later # after) c))"
    and "\<forall>e \<in> set before. event_uid e \<noteq> Some (kp_uid pod)" "event_uid (PodGone obj t later) = Some (kp_uid pod)"
    and "\<forall>e \<in> set after. event_uid e \<noteq> Some (kp_uid pod) \<and> event_time e \<le> t + pc_grace c"
    and "later \<le> t + pc_grace c" "now \<le> t + pc_grace c"
    and "parse_cgroup_path (ke_cgroup_path e) = Some sc" "sc_kind sc = ScopeContainer" "sc_pod_uid sc = kp_uid pod"
    and "names_container pod (sc_container_id sc) info"
  shows "event_identity v e = \<lparr>id_scope = sc, id_namespace = kp_namespace pod, id_pod_name = kp_name pod,
    id_container_name = ci_name info, id_image = ci_image info, id_resolved = True\<rparr>"
proof -
  let ?c = "fold cache_step earlier c"
  have "cache_ok ?c \<and> pc_grace ?c = pc_grace c"
    using new_pod_cache_ok [OF assms(1)]
    by (induction earlier rule: rev_induct) (simp_all add: cache_step_ok cache_step_grace del: cache_step.simps)
  then have "cache_lookup now (fold cache_step (PodSeen (PodObj pod) # before @ PodGone obj t later # after) ?c) (kp_uid pod) =
      Some (pod_info_from pod)"
    using assms(3-7) by (intro pod_life_lookup) simp_all
  then show ?thesis
    using named_container [OF assms(11)] pod_info_from_ids [of pod, THEN conjunct2]
    by (simp add: event_identity_def assms(2,8,9,10) resolve_def identity_zero_def Let_def)
qed

text \<open>The reports of one cgroup, when the store has room for all.\<close>

definition report_path :: "report \<Rightarrow> string" where
  "report_path r = sc_cgroup_path (id_scope (rp_identity r))"

lemma event_identity_path: "sc_cgroup_path (id_scope (event_identity v e)) = ke_cgroup_path e"
proof (cases "resolve (rv_pods v) (ke_cgroup_path e)")
  case (Some i)
  then show ?thesis using parse_cgroup_path_wf resolve_scope by (fastforce simp: event_identity_def)
qed (simp add: event_identity_def)

lemma keep_last_all: "length xs \<le> n \<Longrightarrow> keep_last n xs = xs"
  by (simp add: keep_last_def)

lemma facts_of_path:
  assumes "map report_facts reports = map event_facts evs"
  shows "map rp_kill_count (filter (\<lambda>r. report_path r = p) reports) =
    map ke_kill_count (filter (\<lambda>e. ke_cgroup_path e = p) (map snd evs))"
  using assms
proof (induction reports arbitrary: evs)
  case (Cons r reports)
  then obtain x evs' where evs: "evs = x # evs'" by (cases evs) auto
  obtain v e where x: "x = (v, e)" by force
  have "report_facts r = event_facts (v, e)" using Cons.prems evs x by simp
  then have "rp_kill_count r = ke_kill_count e" "report_path r = ke_cgroup_path e"
    by (auto simp: report_facts_def report_core_def event_facts_def report_path_def event_identity_path)
  then show ?case using Cons.IH [of evs'] Cons.prems evs x by simp
qed simp

text \<open>A daemon that polls was built with the poller its flags ask for.\<close>

definition flag_poller :: "daemon_config \<Rightarrow> poller" where
  "flag_poller cfg = \<lparr>pl_has_proc = True, pl_prefix = dc_cgroup_prefix cfg,
     pl_interval = (if dc_poll_every cfg \<le> 0 then default_poll_interval else dc_poll_every cfg),
     pl_counters = [], pl_snapshots = []\<rparr>"

lemma polling_daemon:
  assumes "run_daemon cfg h = Inr a" "ap_detector a = PollingDetector q"
  shows "q = flag_poller cfg \<and> poller_ok q \<and> dm_include_nk (ap_daemon a) = dc_include_all cfg"
proof -
  obtain fs where b: "build_detector cfg fs h = Inr (PollingDetector q)"
    and nk: "dm_include_nk (ap_daemon a) = dc_include_all cfg"
    using assms unfolding run_daemon_def res_bind_Inr_iff by (auto simp: new_daemon_def split: option.splits if_splits)
  have "new_polling_detector cfg fs = Inr (PollingDetector q)"
    using b new_ebpf_detector_source [of cfg h "PollingDetector q"]
    by (auto simp: build_detector_def detector_source_def split: if_splits sum.splits)
  then have n: "new_poller \<lparr>po_cgroup = Some fs, po_has_proc = True, po_prefix = dc_cgroup_prefix cfg,
      po_interval = dc_poll_every cfg\<rparr> = Inr q"
    by (auto simp: new_polling_detector_def)
  have "poller_ok q" by (rule new_poller_ok [OF n])
  then show ?thesis using nk n by (auto simp: new_poller_def flag_poller_def)
qed

lemma primed_counter:
  assumes "poller_start v (poller_idle q) = Inr s" "poller_ok q" "watched (pl_prefix q) p (v, t0) n"
  shows "pl_prefix (pn_poller s) = pl_prefix q \<and> map_wf (pl_counters (pn_poller s)) \<and> map_get (pl_counters (pn_poller s)) p = Some n"
proof -
  obtain found where found: "discover (pv_walk v) (pl_prefix q) = Inr found" "p \<in> set found" "kills_of v p = Some n"
    using assms(3) by (auto simp: watched_def)
  have p: "pn_poller s = refresh_snapshots v found (prime_counters v found q)"
    using assms(1) found(1) by (auto simp: poller_start_def prime_def poller_idle_def)
  show ?thesis
    using refresh_counters [of v found "prime_counters v found q"] prime_counters_keeps [of v found q]
      prime_counters_get [of v found q p] found(2,3) assms(2) unfolding p by (simp add: poller_ok_def)
qed

lemma drained_rises:
  assumes "poller_start v (poller_idle q) = Inr s" "poller_ok q" "poller_life\<^sup>*\<^sup>* s t"
    and "\<not> pn_cancelled t" "ch_buffer (pn_events t) = []" "poll_pending (pn_at t) = []"
    and "list_all2 (watched (pl_prefix q) p) ((v, t0) # pn_ticks t) (n # cs)" "sorted (n # cs)"
  shows "map ke_kill_count (events_of p (ch_received (pn_events t))) = tl (remdups_adj (n # cs))"
proof -
  have w: "watched (pl_prefix q) p (v, t0) n" "list_all2 (watched (pl_prefix q) p) (pn_ticks t) cs"
    using assms(7) by auto
  note primed = primed_counter [OF assms(1,2) w(1)]
  have "ch_received (pn_events t) = fst (poll_loop (pn_ticks t) (pn_poller s))"
    by (rule polling.drained_complete [OF poller_start_ok [OF assms(1)] assms(3-6)])
  then show ?thesis using poll_loop_counts [of "pn_poller s" p n "pn_ticks t" cs] primed w(2) assms(8) by simp
qed

lemma rises_shown:
  assumes "run_daemon cfg h = Inr a" "ap_detector a = PollingDetector q"
    and "poller_start v (poller_idle q) = Inr s" "poller_life\<^sup>*\<^sup>* s t"
    and "\<not> pn_cancelled t" "ch_buffer (pn_events t) = []" "poll_pending (pn_at t) = []"
    and "list_all2 (watched (dc_cgroup_prefix cfg) p) ((v, t0) # pn_ticks t) (n # cs)" "sorted (n # cs)"
    and "dc_include_all cfg \<or> parse_cgroup_path p \<noteq> None"
    and "map snd evs = ch_received (pn_events t)" "list_all event_readable evs"
    and "length evs \<le> retained cfg" "length evs < 2 ^ 64"
    and "memory_api (dm_store (handle_all evs (ap_daemon a))) rdy status = Inr srv"
  shows "\<exists>reports. fetch_reports (local_network srv [''v1'', ''events'']) (everything addr) [] = Inr (map json_report reports) \<and>
    map rp_kill_count (filter (\<lambda>r. report_path r = p) reports) = rev (tl (remdups_adj (n # cs)))"
proof -
  let ?kept = "filter (placed (ap_daemon a)) evs"
  obtain reports where r: "fetch_reports (local_network srv [''v1'', ''events'']) (everything addr) [] = Inr (map json_report reports)"
    "map report_facts reports = rev (keep_last (retained cfg) (map event_facts ?kept))"
    using kills_shown [OF assms(1,14,12,15)] by blast
  have "length ?kept \<le> retained cfg" using length_filter_le [of _ evs] assms(13) by (meson order_trans)
  then have "map report_facts reports = map event_facts (rev ?kept)"
    by (simp add: r(2) keep_last_all rev_map)
  then have counts: "map rp_kill_count (filter (\<lambda>r. report_path r = p) reports) =
      map ke_kill_count (filter (\<lambda>e. ke_cgroup_path e = p) (map snd (rev ?kept)))"
    by (rule facts_of_path)
  have q: "pl_prefix q = dc_cgroup_prefix cfg" "poller_ok q" "dm_include_nk (ap_daemon a) = dc_include_all cfg"
  proof -
    have "q = flag_poller cfg" using polling_daemon [OF assms(1,2)] by blast
    then show "pl_prefix q = dc_cgroup_prefix cfg" by (simp add: flag_poller_def)
  qed (use polling_daemon [OF assms(1,2)] in blast)+
  have same: "filter (\<lambda>e. ke_cgroup_path e = p) (map snd ?kept) = filter (\<lambda>e. ke_cgroup_path e = p) (map snd evs)"
    using q assms(10) by (auto simp: filter_map comp_def placed_def intro!: arg_cong [where f = "map snd"] filter_cong)
  have "map ke_kill_count (filter (\<lambda>e. ke_cgroup_path e = p) (map snd (rev ?kept))) =
      rev (map ke_kill_count (filter (\<lambda>e. ke_cgroup_path e = p) (map snd ?kept)))"
    by (simp add: rev_map rev_filter)
  also have "\<dots> = rev (map ke_kill_count (events_of p (ch_received (pn_events t))))"
    unfolding same assms(11) events_of_def ..
  also have "\<dots> = rev (tl (remdups_adj (n # cs)))"
    using drained_rises [OF assms(3) _ assms(4-7) _ assms(9), of p t0] assms(8) q by simp
  finally show ?thesis using r(1) counts by auto
qed

subsection \<open>A daemon that polls a small node\<close>

lemma detect_few: "length (fst (detect_paths v now paths s)) \<le> length paths"
  by (induction v now paths s rule: detect_paths.induct) (auto simp: Let_def split: sum.split option.split intro: le_SucI)

lemma detect_time: "e \<in> set (fst (detect_paths v now paths s)) \<Longrightarrow> ke_time e = now"
  by (induction v now paths s rule: detect_paths.induct) (auto simp: Let_def split: sum.splits option.splits if_splits)

lemma demo_found_few: "discover demo_v2 [] = Inr found \<Longrightarrow> length found \<le> 6"
proof -
  assume d: "discover demo_v2 [] = Inr found"
  have r: "rooted_segs [] = []" by (simp add: rooted_segs_def)
  have h: "hierarchy_dir demo_v2 [] = ''.''"
    by (simp add: hierarchy_dir_segs mount_segs_def segs_name_def r demo_v2_def)
  have l: "listable (cg_root demo_v2)" by (simp add: demo_v2_def)
  have "found = foldl (visit (discover_step demo_v2)) [] (tree_entries ''.'' (cg_root demo_v2))"
    using d by (simp add: discover_def h walk_def fs_stat_def fs_node_def Let_def
        walk_dir_visits_all(1) [OF discover_never_stops l])
  then have "length found \<le> length (tree_entries ''.'' (cg_root demo_v2))"
    by (simp add: foldl_discover)
  also have "\<dots> = 6" by (simp add: demo_v2_def)
  finally show ?thesis .
qed

definition demo_flags :: daemon_config where
  "demo_flags = default_daemon_config\<lparr>dc_cgroup_prefix := [], dc_include_all := True\<rparr>"

lemma demo_polls: "\<exists>a. run_daemon demo_flags demo_host = Inr a \<and> ap_detector a = PollingDetector (flag_poller demo_flags)"
proof -
  have "is_ok (new_logger (dc_log_level demo_flags) (dc_log_format demo_flags))"
    "dc_detector_name demo_flags = ''auto''" "dc_kubernetes demo_flags = ''auto''"
    using demo_host_started by (simp_all add: demo_flags_def)
  then obtain a where a: "run_daemon demo_flags demo_host = Inr a"
    "dm_source (ap_daemon a) = SourceEBPF \<longleftrightarrow> is_ok (new_ebpf_detector demo_flags demo_host)"
    using daemon_left_to_itself [of demo_flags demo_host] demo_host_started(2) by blast
  have "\<not> is_ok (new_ebpf_detector demo_flags demo_host)"
    by (simp add: new_ebpf_detector_def new_ebpf_unsupported_def demo_host_def demo_flags_def default_daemon_config_def)
  then have "dm_source (ap_daemon a) \<noteq> SourceEBPF" using a(2) by simp
  moreover have "dm_source (ap_daemon a) = detector_source (ap_detector a)"
    using a(1) unfolding run_daemon_def res_bind_Inr_iff by (auto simp: new_daemon_def)
  ultimately obtain q where q: "ap_detector a = PollingDetector q"
    by (cases "ap_detector a") (auto simp: detector_source_def)
  then show ?thesis using a(1) polling_daemon [OF a(1) q] by blast
qed

lemma demo_readable: "json_time_ok (ke_time e) \<Longrightarrow> event_readable (demo_report_view, e)"
proof -
  have z: "json_time_ok 0" using civil_examples(1) by (simp add: json_time_ok_def)
  assume t: "json_time_ok (ke_time e)"
  have "history demo_sampler (ke_cgroup_path e) = None \<or> history demo_sampler (ke_cgroup_path e) = Some [sample_zero]"
    using demo_sampler_ok(2) by (cases "ke_cgroup_path e = ''/gone''") (auto simp: history_def demo_sampler_def map_get_def)
  moreover have "readable_sample sample_zero"
    using z by (simp add: readable_sample_def sample_zero_def psi_zero_def psi_line_zero_def)
  ultimately show ?thesis using t by (auto simp: event_readable_def demo_report_view_def)
qed

lemma demo_measured: "event_measured (demo_report_view, demo_event p n)"
proof -
  have "history demo_sampler p = None \<or> history demo_sampler p = Some [sample_zero]"
    using demo_sampler_ok(2) by (cases "p = ''/gone''") (auto simp: history_def demo_sampler_def map_get_def)
  then show ?thesis
    by (auto simp: event_measured_def demo_report_view_def demo_event_def machine_victim_def victim_zero_def int64_zero
        sample_zero_def psi_zero_def psi_line_zero_def)
qed

end
