(* ===== verification/Service.thy ===== *)
theory Service
  imports Commands
begin

section \<open>The daemon as it runs\<close>

text \<open>
  Models the end of \<open>runDaemon\<close> in \<open>src/internal/cmd/daemon.go\<close>: the error group that runs the daemon's
  loop (\<open>Run\<close>, the relation \<open>loop_step\<close>), the API server (\<open>ListenAndServe\<close> of \<open>src/internal/api/api.go\<close>)
  and the pod cache (\<open>Run\<close> of \<open>src/internal/k8s/podcache.go\<close>) side by side, and what the command
  returns. The group is \<open>golang.org/x/sync/errgroup\<close>: which returns of a part make it cancel its context
  is the parameter \<open>cancels\<close>, what its \<open>Wait\<close> makes of them all the parameter \<open>wait\<close>. As it documents,
  the first error cancels (\<open>on_error\<close>) and is what \<open>Wait\<close> returns (\<open>first_error\<close>).
\<close>

datatype serve_at = Serving | ShuttingDown | ServeReturned

datatype cache_at = CacheRunning | CacheStopping | CacheReturned

text \<open>
  \<open>sv_cache\<close> is \<open>None\<close> for a daemon without a pod cache. The context of the group is \<open>rs_done\<close> of the
  run; \<open>sv_parent\<close> tells whether the command's own context was cancelled.
\<close>

record service =
  sv_run :: run_state
  sv_server :: serve_at
  sv_cache :: "cache_at option"
  sv_parent :: bool
  sv_returns :: "err option list"

definition group_return :: "(err option \<Rightarrow> bool) \<Rightarrow> err option \<Rightarrow> service \<Rightarrow> service" where
  "group_return cancels res s =
     s\<lparr>sv_returns := sv_returns s @ [res], sv_run := (sv_run s)\<lparr>rs_done := rs_done (sv_run s) \<or> cancels res\<rparr>\<rparr>"

definition on_error :: "err option \<Rightarrow> bool" where
  "on_error res \<longleftrightarrow> res \<noteq> None"

fun first_error :: "err option list \<Rightarrow> err option" where
  "first_error [] = None"
| "first_error (Some e # rs) = Some e"
| "first_error (None # rs) = first_error rs"

text \<open>
  \<open>ListenAndServe\<close> of the server, given whether its context is done, with what it returns, if it
  does. The listener can fail at any time and ends without an error only after \<open>Shutdown\<close>, as
  \<open>net/http\<close> documents; the shutdown itself may fail or time out.
\<close>

inductive serve_step :: "bool \<Rightarrow> serve_at \<Rightarrow> serve_at \<Rightarrow> err option option \<Rightarrow> bool" for cancelled where
  listener_fails: "serve_step cancelled Serving ServeReturned (Some (Some e))"
| serve_cancelled: "cancelled \<Longrightarrow> serve_step cancelled Serving ShuttingDown None"
| serve_shut_down: "serve_step cancelled ShuttingDown ServeReturned (Some res)"

text \<open>\<open>Run\<close> of the pod cache, which waits for its context and then for the informer.\<close>

inductive cache_run_step :: "bool \<Rightarrow> cache_at \<Rightarrow> cache_at \<Rightarrow> err option option \<Rightarrow> bool" for cancelled where
  cache_cancelled: "cancelled \<Longrightarrow> cache_run_step cancelled CacheRunning CacheStopping None"
| cache_shut_down: "cache_run_step cancelled CacheStopping CacheReturned (Some None)"

inductive_cases serve_step_cases [elim!]: "serve_step cancelled p q res"
inductive_cases cache_run_step_cases [elim!]: "cache_run_step cancelled p q res"

text \<open>The steps of the three parts under the group.\<close>

inductive service_step :: "put \<Rightarrow> (err option \<Rightarrow> bool) \<Rightarrow> service \<Rightarrow> service \<Rightarrow> bool" for put cancels where
  run_goes_on: "loop_step put (sv_run s) r \<Longrightarrow> rs_phase r \<noteq> RunReturned \<Longrightarrow> service_step put cancels s (s\<lparr>sv_run := r\<rparr>)"
| run_returns: "loop_step put (sv_run s) r \<Longrightarrow> rs_phase r = RunReturned \<Longrightarrow>
     service_step put cancels s (group_return cancels (rs_result r) (s\<lparr>sv_run := r\<rparr>))"
| server_goes_on: "serve_step (rs_done (sv_run s)) (sv_server s) p None \<Longrightarrow> service_step put cancels s (s\<lparr>sv_server := p\<rparr>)"
| server_returns: "serve_step (rs_done (sv_run s)) (sv_server s) p (Some res) \<Longrightarrow>
     service_step put cancels s (group_return cancels res (s\<lparr>sv_server := p\<rparr>))"
| cache_goes_on: "sv_cache s = Some q \<Longrightarrow> cache_run_step (rs_done (sv_run s)) q p None \<Longrightarrow>
     service_step put cancels s (s\<lparr>sv_cache := Some p\<rparr>)"
| cache_returns: "sv_cache s = Some q \<Longrightarrow> cache_run_step (rs_done (sv_run s)) q p (Some res) \<Longrightarrow>
     service_step put cancels s (group_return cancels res (s\<lparr>sv_cache := Some p\<rparr>))"

text \<open>Around them the command is cancelled, the detector sends, and the sampler stops.\<close>

inductive service_env :: "service \<Rightarrow> service \<Rightarrow> bool" where
  command_cancelled: "service_env s (s\<lparr>sv_parent := True, sv_run := (sv_run s)\<lparr>rs_done := True\<rparr>\<rparr>)"
| run_surroundings: "env_step (sv_run s) r \<Longrightarrow> rs_done r = rs_done (sv_run s) \<Longrightarrow> service_env s (s\<lparr>sv_run := r\<rparr>)"

definition service_life :: "put \<Rightarrow> (err option \<Rightarrow> bool) \<Rightarrow> service \<Rightarrow> service \<Rightarrow> bool" where
  "service_life put cancels s t \<longleftrightarrow> service_step put cancels s t \<or> service_env s t"

definition service_start :: "app \<Rightarrow> service" where
  "service_start a =
     \<lparr>sv_run = \<lparr>rs_phase = RunStart, rs_daemon = ap_daemon a, rs_done = False, rs_events = [], rs_closed = False,
        rs_sampler = None, rs_result = None\<rparr>,
      sv_server = Serving, sv_cache = map_option (\<lambda>_. CacheRunning) (ap_pods a), sv_parent = False, sv_returns = []\<rparr>"

text \<open>\<open>group.Wait\<close> returns once every part has; a cancellation is no error of the command.\<close>

definition all_returned :: "service \<Rightarrow> bool" where
  "all_returned s \<longleftrightarrow> rs_phase (sv_run s) = RunReturned \<and> sv_server s = ServeReturned \<and>
     (sv_cache s = None \<or> sv_cache s = Some CacheReturned)"

definition command_result :: "(err \<Rightarrow> bool) \<Rightarrow> (err option list \<Rightarrow> err option) \<Rightarrow> service \<Rightarrow> err option" where
  "command_result is_cancellation wait s =
     (case wait (sv_returns s) of
        Some e \<Rightarrow> if is_cancellation e then None else Some e
      | None \<Rightarrow> None)"

subsection \<open>Why it stops\<close>

lemma first_error_append: "first_error (xs @ [res]) = (if first_error xs = None then res else first_error xs)"
  by (induction xs rule: first_error.induct) (cases res, auto)

lemma group_return_fields [simp]:
  "sv_server (group_return c res s) = sv_server s" "sv_cache (group_return c res s) = sv_cache s"
  "sv_parent (group_return c res s) = sv_parent s" "sv_returns (group_return c res s) = sv_returns s @ [res]"
  "sv_run (group_return c res s) = (sv_run s)\<lparr>rs_done := rs_done (sv_run s) \<or> c res\<rparr>"
  by (simp_all add: group_return_def)

text \<open>What the group hears of \<open>Run\<close>: the error it fails with, or the end of the sampler.\<close>

lemma loop_step_returns:
  "loop_step put r r' \<Longrightarrow> rs_phase r' = RunReturned \<Longrightarrow> rs_result r' \<noteq> None \<or> rs_sampler r = Some (rs_result r')"
  by (induction rule: loop_step.induct) (auto simp: run_return_def)

lemma loop_step_not_returned: "loop_step put r r' \<Longrightarrow> rs_phase r \<noteq> RunReturned"
  by (induction rule: loop_step.induct) auto

text \<open>How many of the parts have returned.\<close>

definition returned :: "service \<Rightarrow> nat" where
  "returned s = (if rs_phase (sv_run s) = RunReturned then 1 else 0) + (if sv_server s = ServeReturned then 1 else 0) +
     (if sv_cache s = Some CacheReturned then 1 else 0)"

definition group_ok :: "service \<Rightarrow> bool" where
  "group_ok s \<longleftrightarrow>
     (rs_done (sv_run s) \<longleftrightarrow> sv_parent s \<or> first_error (sv_returns s) \<noteq> None) \<and>
     (rs_sampler (sv_run s) = Some None \<longrightarrow> rs_done (sv_run s)) \<and>
     (sv_returns s \<noteq> [] \<or> sv_server s = ShuttingDown \<or> sv_cache s = Some CacheStopping \<longrightarrow> rs_done (sv_run s)) \<and>
     length (sv_returns s) = returned s"

lemma group_ok_start: "group_ok (service_start a)"
  by (simp add: group_ok_def service_start_def returned_def)

lemma service_step_ok:
  assumes "service_step put cancels s t" "\<And>res. cancels res \<longleftrightarrow> res \<noteq> None" "group_ok s"
  shows "group_ok t"
  using assms(1)
proof cases
  case (run_goes_on r)
  then show ?thesis
    using assms(3) loop_step_sampler loop_step_not_returned by (fastforce simp: group_ok_def returned_def)
next
  case (run_returns r)
  then show ?thesis
    using assms(2,3) loop_step_sampler [OF run_returns(2)] loop_step_not_returned [OF run_returns(2)] loop_step_returns [OF run_returns(2,3)]
    by (auto simp: group_ok_def returned_def first_error_append)
qed (use assms(2,3) in \<open>auto simp: group_ok_def returned_def first_error_append\<close>)

lemma service_env_ok: "service_env s t \<Longrightarrow> group_ok s \<Longrightarrow> group_ok t"
proof (induction rule: service_env.induct)
  case (run_surroundings s r)
  have "rs_sampler r = Some None \<Longrightarrow> rs_sampler (sv_run s) = Some None \<or> rs_done (sv_run s)"
    using run_surroundings.hyps by (auto elim!: env_step_cases)
  then show ?case
    using run_surroundings env_step_frame [OF run_surroundings.hyps(1)] by (auto simp: group_ok_def returned_def)
qed (auto simp: group_ok_def returned_def)

lemma service_life_ok:
  assumes "\<And>res. cancels res \<longleftrightarrow> res \<noteq> None" "(service_life put cancels)\<^sup>*\<^sup>* s t" "group_ok s"
  shows "group_ok t"
  using assms(2,3)
  by (induction rule: rtranclp_induct) (use assms(1) service_step_ok service_env_ok in \<open>auto simp: service_life_def\<close>)

subsection \<open>What the run of the daemon sees of the others\<close>

text \<open>
  Seen from \<open>Run\<close>, the other parts do nothing but cancel its context: every life of the service
  is a run of the daemon.
\<close>

lemma run_cancelled: "run_steps put r t \<Longrightarrow> run_steps put r (t\<lparr>rs_done := rs_done t \<or> c\<rparr>)"
  by (cases c) (auto intro: run_steps.step simp: run_step_def env_cancel)

lemma service_step_run:
  assumes "service_step put cancels s t" "run_steps put r (sv_run s)"
  shows "run_steps put r (sv_run t)"
  using assms(1)
proof cases
  case (run_goes_on r')
  then show ?thesis using assms(2) by (auto intro: run_steps.step simp: run_step_def)
next
  case (run_returns r')
  have "run_steps put r r'" using assms(2) run_returns(2) by (auto intro: run_steps.step simp: run_step_def)
  from run_cancelled [OF this, of "cancels (rs_result r')"] show ?thesis using run_returns(1) by simp
qed (use assms(2) run_cancelled in auto)

lemma service_env_run: "service_env s t \<Longrightarrow> run_steps put r (sv_run s) \<Longrightarrow> run_steps put r (sv_run t)"
  by (induction rule: service_env.induct) (auto intro: run_steps.step simp: run_step_def env_cancel)

lemma service_life_run:
  "(service_life put cancels)\<^sup>*\<^sup>* s t \<Longrightarrow> run_steps put (sv_run s) (sv_run t)"
  by (induction rule: rtranclp_induct)
    (use service_step_run service_env_run in \<open>auto intro: run_steps.refl simp: service_life_def\<close>)

lemma service_start_initial: "run_initial (ap_daemon a) (sv_run (service_start a))"
  by (simp add: run_initial_def service_start_def)

lemma new_daemon_not_watching: "new_daemon opts = Inr d \<Longrightarrow> \<not> dm_watching d"
  by (cases "dp_detector opts"; cases "dp_store opts") (auto simp: new_daemon_def split: if_splits)

lemma wired_daemon_not_watching: "run_daemon cfg h = Inr a \<Longrightarrow> \<not> dm_watching (ap_daemon a)"
  using run_daemon_daemon [of cfg h a] new_daemon_not_watching by blast

lemma status_ready: "st_ready (daemon_status a info started now) = ready (ap_daemon a) (ap_sampler a)"
  by (simp add: daemon_status_def Let_def split: option.split)

text \<open>The application as a request finds it, with the sampler it has by then.\<close>

definition app_at :: "app \<Rightarrow> service \<Rightarrow> sampler \<Rightarrow> app" where
  "app_at a s smp = a\<lparr>ap_daemon := rs_daemon (sv_run s), ap_sampler := smp\<rparr>"

lemma readyz_answer:
  "api_now a info started now = Inr srv \<Longrightarrow> v = GET \<or> v = HEAD \<Longrightarrow>
     hp_code (serve srv \<lparr>rq_verb = v, rq_path = [''readyz''], rq_query = q\<rparr>) = (if ready (ap_daemon a) (ap_sampler a) then 200 else 503) \<and>
     hp_code (serve srv \<lparr>rq_verb = v, rq_path = [''healthz''], rq_query = q\<rparr>) = 200"
  by (auto simp: api_now_def serve_routes handle_readyz_def handle_healthz_def write_text_def dest!: memory_api_fields)

text \<open>A loop that nothing ends handles the events that wait, in their order, and does nothing else.\<close>

lemma loop_drains:
  assumes "rs_phase r = RunLoop" "\<not> rs_done r" "\<not> rs_closed r" "rs_sampler r = None"
  shows "(loop_step put ^^ n) r t \<longleftrightarrow>
    n \<le> length (rs_events r) \<and> t = r\<lparr>rs_events := drop n (rs_events r),
      rs_daemon := fold (\<lambda>(v, e). handle put v e) (take n (rs_events r)) (rs_daemon r)\<rparr>"
proof (induction n arbitrary: t)
  case 0
  show ?case by auto
next
  case (Suc n)
  let ?at = "\<lambda>n. r\<lparr>rs_events := drop n (rs_events r),
      rs_daemon := fold (\<lambda>(v, e). handle put v e) (take n (rs_events r)) (rs_daemon r)\<rparr>"
  have one: "loop_step put (?at n) t \<longleftrightarrow> n < length (rs_events r) \<and> t = ?at (Suc n)" if "n \<le> length (rs_events r)"
  proof
    assume "loop_step put (?at n) t"
    then show "n < length (rs_events r) \<and> t = ?at (Suc n)"
    proof cases
      case (event v e rest)
      then have d: "drop n (rs_events r) = (v, e) # rest" by simp
      then have "n < length (rs_events r)" by (cases "n < length (rs_events r)") simp_all
      moreover from this d have "rs_events r ! n = (v, e)" "drop (Suc n) (rs_events r) = rest"
        by (simp_all flip: Cons_nth_drop_Suc)
      ultimately have n: "n < length (rs_events r)" "rs_events r ! n = (v, e)" "drop (Suc n) (rs_events r) = rest" by simp_all
      then show ?thesis using event(1) by (simp add: take_Suc_conv_app_nth)
    qed (use assms in simp_all)
  next
    assume n: "n < length (rs_events r) \<and> t = ?at (Suc n)"
    obtain v e where x: "rs_events r ! n = (v, e)" by fastforce
    then have "drop n (rs_events r) = (v, e) # drop (Suc n) (rs_events r)" using n by (metis Cons_nth_drop_Suc)
    then have "loop_step put (?at n) ((?at n)\<lparr>rs_events := drop (Suc n) (rs_events r),
        rs_daemon := handle put v e (rs_daemon (?at n))\<rparr>)"
      using assms(1) by (intro loop_step.event) simp_all
    then show "loop_step put (?at n) t" using n x by (simp add: take_Suc_conv_app_nth)
  qed
  have "(loop_step put ^^ Suc n) r t \<longleftrightarrow> (\<exists>u. (loop_step put ^^ n) r u \<and> loop_step put u t)" by auto
  also have "\<dots> \<longleftrightarrow> n \<le> length (rs_events r) \<and> loop_step put (?at n) t" unfolding Suc.IH by simp
  also have "\<dots> \<longleftrightarrow> Suc n \<le> length (rs_events r) \<and> t = ?at (Suc n)" using one by auto
  finally show ?case .
qed

text \<open>C24: A daemon that calls itself ready sees the kills of its node. Whatever its parts have done since
  the command was wired, \<open>/readyz\<close> answers 503 before the detector has started, after \<open>Run\<close> has
  returned, and while the sampler holds no cgroup. As long as the detector has not closed its
  channel and the group is not cancelled, it answers 200 exactly when \<open>Run\<close> is in its loop and the
  sampler holds a cgroup; and then every event that waits or arrives is handled: as long as the
  sampler does not stop, the loop does nothing but handle them one after another, in the order
  in which they were sent. The ready flag of the status is the probe's, and \<open>/healthz\<close> always
  answers 200. A detector that has closed its channel is the case left out: then the probe goes on
  answering 200 although nothing is handled any more (\<open>closed_detector_stays_ready\<close>).\<close>

theorem ready_daemon_sees_kills:
  assumes "run_daemon cfg h = Inr a" "(service_life put cancels)\<^sup>*\<^sup>* (service_start a) s"
    and "api_now (app_at a s smp) info started now = Inr srv" "v = GET \<or> v = HEAD"
  shows "let run = sv_run s;
      readyz = hp_code (serve srv \<lparr>rq_verb = v, rq_path = [''readyz''], rq_query = q\<rparr>) in
    (rs_phase run = RunStart \<or> rs_phase run = RunReturned \<or> tracked smp = [] \<longrightarrow> readyz = 503) \<and>
    (\<not> rs_closed run \<and> \<not> rs_done run \<longrightarrow>
       readyz = (if rs_phase run = RunLoop \<and> tracked smp \<noteq> [] then 200 else 503) \<and>
       (readyz = 200 \<and> rs_sampler run = None \<longrightarrow>
          (\<forall>arriving n t. (loop_step put ^^ n) (run\<lparr>rs_events := rs_events run @ arriving\<rparr>) t \<longleftrightarrow>
             n \<le> length (rs_events run @ arriving) \<and>
             t = run\<lparr>rs_events := drop n (rs_events run @ arriving),
               rs_daemon := fold (\<lambda>(v, e). handle put v e) (take n (rs_events run @ arriving)) (rs_daemon run)\<rparr>))) \<and>
    (st_ready (as_status srv) \<longleftrightarrow> readyz = 200) \<and>
    hp_code (serve srv \<lparr>rq_verb = v, rq_path = [''healthz''], rq_query = q\<rparr>) = 200"
proof -
  let ?run = "sv_run s"
  let ?readyz = "hp_code (serve srv \<lparr>rq_verb = v, rq_path = [''readyz''], rq_query = q\<rparr>)"
  have ok: "run_ok ?run"
    by (rule run_steps_ok [OF service_life_run [OF assms(2)]
        run_initial_ok [OF service_start_initial wired_daemon_not_watching [OF assms(1)]]])
  have rdy: "ready (ap_daemon (app_at a s smp)) (ap_sampler (app_at a s smp)) \<longleftrightarrow>
      (rs_phase ?run = RunLoop \<or> rs_phase ?run = RunAwaitSampler) \<and> tracked smp \<noteq> []"
    using ok by (simp add: ready_def app_at_def run_ok_def)
  have code: "?readyz = (if (rs_phase ?run = RunLoop \<or> rs_phase ?run = RunAwaitSampler) \<and> tracked smp \<noteq> [] then 200 else 503)"
    and healthz: "hp_code (serve srv \<lparr>rq_verb = v, rq_path = [''healthz''], rq_query = q\<rparr>) = 200"
    using readyz_answer [OF assms(3,4), of q] rdy by simp_all
  have flag: "st_ready (as_status srv) \<longleftrightarrow> ?readyz = 200"
    using memory_api_fields [OF assms(3) [unfolded api_now_def]] rdy code by (simp add: status_ready)
  have loop: "?readyz = (if rs_phase ?run = RunLoop \<and> tracked smp \<noteq> [] then 200 else 503)"
    if "\<not> rs_closed ?run" "\<not> rs_done ?run"
  proof -
    have "rs_phase ?run \<noteq> RunAwaitSampler" using ok that by (auto simp: run_ok_def)
    then show ?thesis using code by simp
  qed
  have drains: "(loop_step put ^^ n) (?run\<lparr>rs_events := rs_events ?run @ arriving\<rparr>) t \<longleftrightarrow>
      n \<le> length (rs_events ?run @ arriving) \<and> t = ?run\<lparr>rs_events := drop n (rs_events ?run @ arriving),
        rs_daemon := fold (\<lambda>(v, e). handle put v e) (take n (rs_events ?run @ arriving)) (rs_daemon ?run)\<rparr>"
    if "\<not> rs_closed ?run" "\<not> rs_done ?run" "?readyz = 200" "rs_sampler ?run = None" for arriving n t
  proof -
    have "rs_phase ?run = RunLoop" using loop [OF that(1,2)] that(3) by (auto split: if_splits)
    then show ?thesis
      using that(1,2,4) loop_drains [of "?run\<lparr>rs_events := rs_events ?run @ arriving\<rparr>"] by simp
  qed
  show ?thesis
    unfolding Let_def using code loop drains flag healthz by auto
qed

subsection \<open>How it ends\<close>

lemma service_life_cache: "(service_life put cancels)\<^sup>*\<^sup>* s t \<Longrightarrow> sv_cache t = None \<longleftrightarrow> sv_cache s = None"
proof (induction rule: rtranclp_induct)
  case (step t u)
  then show ?case by (auto simp: service_life_def elim!: service_step.cases service_env.cases)
qed simp

text \<open>C22: No part of the daemon outlives another. The group's context is cancelled exactly when the
  command was or some part has returned an error, and no part returns before it is, so that the
  first part to return takes all others down with it. Once every part has returned, each was
  waited for, and unless the command was cancelled it reports the first error, a cancellation
  excepted.\<close>

theorem one_part_takes_all_down:
  assumes "cancels = on_error" "wait = first_error" "(service_life put cancels)\<^sup>*\<^sup>* (service_start a) s"
  shows "(rs_done (sv_run s) \<longleftrightarrow> sv_parent s \<or> first_error (sv_returns s) \<noteq> None) \<and>
    (0 < returned s \<longrightarrow> rs_done (sv_run s)) \<and> length (sv_returns s) = returned s \<and>
    (all_returned s \<longrightarrow> length (sv_returns s) = (if ap_pods a = None then 2 else 3) \<and>
       (sv_parent s \<or> (\<exists>e. first_error (sv_returns s) = Some e \<and> Some e \<in> set (sv_returns s) \<and>
          command_result is_cancellation wait s = (if is_cancellation e then None else Some e))))"
proof -
  have ok: "group_ok s"
    using service_life_ok [OF _ assms(3) group_ok_start] by (simp add: assms(1) on_error_def)
  have cache: "sv_cache s = None \<longleftrightarrow> ap_pods a = None"
    using service_life_cache [OF assms(3)] by (simp add: service_start_def)
  have all: "all_returned s \<Longrightarrow> returned s = (if ap_pods a = None then 2 else 3)"
    using cache by (auto simp: all_returned_def returned_def)
  have mem: "first_error rs = Some e \<Longrightarrow> Some e \<in> set rs" for rs e
    by (induction rs rule: first_error.induct) auto
  have "\<exists>e. first_error (sv_returns s) = Some e" if "all_returned s" "\<not> sv_parent s"
    using ok that all by (auto simp: group_ok_def split: if_splits)
  then show ?thesis
    using ok all mem by (fastforce simp: group_ok_def command_result_def assms(2))
qed

text \<open>How much the parts still do by themselves.\<close>

fun server_left :: "serve_at \<Rightarrow> nat" where
  "server_left Serving = 2"
| "server_left ShuttingDown = 1"
| "server_left ServeReturned = 0"

fun cache_left :: "cache_at option \<Rightarrow> nat" where
  "cache_left (Some CacheRunning) = 2"
| "cache_left (Some CacheStopping) = 1"
| "cache_left _ = 0"

definition service_left :: "service \<Rightarrow> nat" where
  "service_left s = steps_left (sv_run s) + server_left (sv_server s) + cache_left (sv_cache s)"

lemma steps_left_done [simp]: "steps_left (r\<lparr>rs_done := b\<rparr>) = steps_left r"
  by (simp add: steps_left_def split: run_phase.split)

lemma service_step_decreases: "service_step put cancels s t \<Longrightarrow> service_left t < service_left s"
  by (induction rule: service_step.induct) (auto simp: service_left_def dest: loop_step_decreases)

lemma service_steps_decrease: "(service_step put cancels ^^ n) s t \<Longrightarrow> n + service_left t \<le> service_left s"
proof (induction n arbitrary: t)
  case (Suc n)
  then obtain u where "(service_step put cancels ^^ n) s u" "service_step put cancels u t" by auto
  then show ?case using Suc.IH [of u] service_step_decreases [of put cancels u t] by simp
qed simp

definition winding_down :: "err option \<Rightarrow> service \<Rightarrow> bool" where
  "winding_down res s \<longleftrightarrow> rs_done (sv_run s) \<and> rs_sampler (sv_run s) = Some res \<and> rs_phase (sv_run s) \<noteq> RunStart"

lemma service_step_winding: "service_step put cancels s t \<Longrightarrow> winding_down res s \<Longrightarrow> winding_down res t"
proof (induction rule: service_step.induct)
  case (run_goes_on s r)
  then show ?case using loop_step_sampler [OF run_goes_on(1)] by (auto simp: winding_down_def run_return_def elim!: loop_step_cases)
next
  case (run_returns s r)
  then show ?case using loop_step_sampler [OF run_returns(1)] by (auto simp: winding_down_def)
qed (auto simp: winding_down_def)

lemma service_steps_winding: "(service_step put cancels ^^ n) s t \<Longrightarrow> winding_down res s \<Longrightarrow> winding_down res t"
proof (induction n arbitrary: t)
  case (Suc n)
  then obtain u where "(service_step put cancels ^^ n) s u" "service_step put cancels u t" by auto
  then show ?case using Suc service_step_winding by blast
qed simp

lemma run_can_step:
  "rs_phase (sv_run s) \<noteq> RunReturned \<Longrightarrow> winding_down res s \<Longrightarrow> \<exists>u. service_step put cancels s u"
proof -
  assume "rs_phase (sv_run s) \<noteq> RunReturned" "winding_down res s"
  then obtain r where r: "loop_step put (sv_run s) r"
    using stopping_progress [of res "sv_run s" put] by (auto simp: stopping_def winding_down_def)
  show ?thesis
    by (cases "rs_phase r = RunReturned") (blast intro: r run_goes_on run_returns)+
qed

lemma winding_progress:
  assumes "winding_down res s"
  shows "(\<exists>u. service_step put cancels s u) \<longleftrightarrow> \<not> all_returned s"
proof
  assume "\<exists>u. service_step put cancels s u"
  then obtain u where "service_step put cancels s u" ..
  then show "\<not> all_returned s" by cases (auto simp: all_returned_def dest: loop_step_not_returned)
next
  assume "\<not> all_returned s"
  then consider "rs_phase (sv_run s) \<noteq> RunReturned" | "sv_server s = Serving" | "sv_server s = ShuttingDown"
    | "sv_cache s = Some CacheRunning" | "sv_cache s = Some CacheStopping"
    by (cases "sv_server s"; cases "sv_cache s" rule: cache_left.cases) (auto simp: all_returned_def)
  then show "\<exists>u. service_step put cancels s u"
  proof cases
    case 1
    then show ?thesis using run_can_step assms by blast
  next
    case 2
    show ?thesis by (rule exI, rule server_goes_on) (use 2 assms in \<open>auto simp: winding_down_def intro: serve_cancelled\<close>)
  next
    case 3
    show ?thesis by (rule exI, rule server_returns) (use 3 in \<open>auto intro: serve_shut_down [of _ None]\<close>)
  next
    case 4
    show ?thesis by (rule exI, rule cache_goes_on) (use 4 assms in \<open>auto simp: winding_down_def intro: cache_cancelled\<close>)
  next
    case 5
    show ?thesis by (rule exI, rule cache_returns) (use 5 in \<open>auto intro: cache_shut_down\<close>)
  qed
qed

text \<open>C23: A daemon told to stop comes to an end as a whole. Once the group's context is cancelled and the
  sampler has stopped, the daemon, its API server and its pod cache take at most six steps more
  between them than there are events waiting, however their steps interleave; whatever they have
  done so far, some part can go on until every one has returned, and the command can then report.\<close>

theorem stopped_daemon_ends:
  assumes "rs_done (sv_run s)" "rs_sampler (sv_run s) = Some res" "rs_phase (sv_run s) \<noteq> RunStart"
    and "(service_step put cancels ^^ n) s t"
  shows "n \<le> length (rs_events (sv_run s)) + 6 \<and> ((\<exists>u. service_step put cancels t u) \<longleftrightarrow> \<not> all_returned t) \<and>
    (n = service_left s \<longrightarrow> all_returned t)"
proof -
  have w: "winding_down res t" using service_steps_winding [OF assms(4)] assms(1-3) by (simp add: winding_down_def)
  have "server_left (sv_server s) \<le> 2" by (cases "sv_server s") auto
  moreover have "cache_left (sv_cache s) \<le> 2" by (cases "sv_cache s" rule: cache_left.cases) auto
  moreover have "steps_left (sv_run s) \<le> length (rs_events (sv_run s)) + 2"
    using assms(3) by (simp add: steps_left_def split: run_phase.split)
  ultimately have "service_left s \<le> length (rs_events (sv_run s)) + 6" by (simp add: service_left_def)
  moreover have "n + service_left t \<le> service_left s" by (rule service_steps_decrease [OF assms(4)])
  moreover have "service_left t = 0 \<Longrightarrow> all_returned t"
    using winding_progress [OF w, of put cancels] service_step_decreases by fastforce
  ultimately show ?thesis using winding_progress [OF w] by auto
qed

subsection \<open>A daemon that cannot start, and one that is stopped\<close>

lemma demo_app: "\<exists>a. run_daemon default_daemon_config demo_host = Inr a"
  using daemon_left_to_itself [OF demo_host_started] by blast

definition demo_version :: version_info where
  "demo_version = \<lparr>vi_version = ''dev'', vi_commit = [], vi_date = [], vi_go_version = [], vi_platform = []\<rparr>"

theorem ready_daemon_sees_kills_witness:
  "\<exists>a s srv. (service_life memory_put on_error)\<^sup>*\<^sup>* (service_start a) s \<and> rs_phase (sv_run s) = RunLoop \<and>
     api_now (app_at a s demo_sampler) demo_version 0 0 = Inr srv \<and>
     hp_code (serve srv \<lparr>rq_verb = GET, rq_path = [''readyz''], rq_query = []\<rparr>) = 200 \<and>
     (\<exists>v e t. (loop_step memory_put ^^ 1) ((sv_run s)\<lparr>rs_events := [(v, e)]\<rparr>) t \<and>
       rs_daemon t = handle memory_put v e (rs_daemon (sv_run s)))"
proof -
  obtain a where a: "run_daemon default_daemon_config demo_host = Inr a" using demo_app by blast
  let ?r = "sv_run (service_start a)"
  let ?s = "(service_start a)\<lparr>sv_run := ?r\<lparr>rs_phase := RunLoop, rs_daemon := (rs_daemon ?r)\<lparr>dm_watching := True\<rparr>\<rparr>\<rparr>"
  have "service_life memory_put on_error (service_start a) ?s"
    unfolding service_life_def by (intro disjI1 run_goes_on loop_step.start) (simp_all add: service_start_def)
  then have life: "(service_life memory_put on_error)\<^sup>*\<^sup>* (service_start a) ?s" by (rule r_into_rtranclp)
  obtain srv where srv: "api_now (app_at a ?s demo_sampler) demo_version 0 0 = Inr srv"
    by (simp add: api_now_def memory_api_def new_api_def Let_def)
  have "tracked demo_sampler \<noteq> []" by (simp add: tracked_def demo_sampler_def map_keys_def)
  moreover have "\<not> rs_closed (sv_run ?s)" "\<not> rs_done (sv_run ?s)" "rs_sampler (sv_run ?s) = None" "rs_phase (sv_run ?s) = RunLoop"
    "rs_events (sv_run ?s) = []"
    by (simp_all add: service_start_def)
  moreover note ready_daemon_sees_kills [OF a life srv, of GET "[]", unfolded Let_def]
  ultimately have code: "hp_code (serve srv \<lparr>rq_verb = GET, rq_path = [''readyz''], rq_query = []\<rparr>) = 200"
    and drains: "\<And>arriving n t. (loop_step memory_put ^^ n) ((sv_run ?s)\<lparr>rs_events := rs_events (sv_run ?s) @ arriving\<rparr>) t \<longleftrightarrow>
      n \<le> length (rs_events (sv_run ?s) @ arriving) \<and> t = (sv_run ?s)\<lparr>rs_events := drop n (rs_events (sv_run ?s) @ arriving),
        rs_daemon := fold (\<lambda>(v, e). handle memory_put v e) (take n (rs_events (sv_run ?s) @ arriving)) (rs_daemon (sv_run ?s))\<rparr>"
    by (simp_all del: relpowp.simps)
  obtain v :: report_view and e :: kill_event where "(v, e) = (v, e)" by blast
  let ?t = "(sv_run ?s)\<lparr>rs_events := [], rs_daemon := handle memory_put v e (rs_daemon (sv_run ?s))\<rparr>"
  have "(loop_step memory_put ^^ 1) ((sv_run ?s)\<lparr>rs_events := [(v, e)]\<rparr>) ?t"
    using drains [of 1 "[(v, e)]" ?t] by (simp add: service_start_def del: relpowp.simps)
  then have "\<exists>v e t. (loop_step memory_put ^^ 1) ((sv_run ?s)\<lparr>rs_events := [(v, e)]\<rparr>) t \<and>
      rs_daemon t = handle memory_put v e (rs_daemon (sv_run ?s))"
    by (intro exI [of _ v] exI [of _ e] exI [of _ ?t]) simp
  then show ?thesis
    using life srv code by (intro exI [of _ a] exI [of _ ?s] exI [of _ srv] conjI) (simp_all del: relpowp.simps)
qed

theorem one_part_takes_all_down_witness:
  "\<exists>a s. (service_life memory_put on_error)\<^sup>*\<^sup>* (service_start a) s \<and> all_returned s \<and>
     sv_returns s = [Some EEBPFUnsupported, None] \<and> command_result (\<lambda>_. False) first_error s = Some EEBPFUnsupported"
proof -
  obtain b where "run_daemon default_daemon_config demo_host = Inr b" using demo_app by blast
  define a where "a = b\<lparr>ap_pods := None\<rparr>"
  let ?s0 = "service_start a"
  let ?r = "(sv_run ?s0)\<lparr>rs_phase := RunReturned, rs_result := Some EEBPFUnsupported\<rparr>"
  let ?s1 = "group_return on_error (Some EEBPFUnsupported) (?s0\<lparr>sv_run := ?r\<rparr>)"
  let ?s2 = "?s1\<lparr>sv_server := ShuttingDown\<rparr>"
  let ?s3 = "group_return on_error None (?s2\<lparr>sv_server := ServeReturned\<rparr>)"
  have "loop_step memory_put (sv_run ?s0) ?r" by (rule start_fails) (simp add: service_start_def)
  then have "service_step memory_put on_error ?s0 ?s1"
    using run_returns [of memory_put ?s0 ?r on_error] by simp
  moreover have "service_step memory_put on_error ?s1 ?s2"
    by (rule server_goes_on) (simp_all add: service_start_def on_error_def serve_cancelled)
  moreover have "service_step memory_put on_error ?s2 ?s3" by (rule server_returns) (simp add: serve_shut_down)
  ultimately have life: "(service_life memory_put on_error)\<^sup>*\<^sup>* ?s0 ?s3"
    by (meson converse_rtranclp_into_rtranclp r_into_rtranclp service_life_def)
  have all: "all_returned ?s3" by (simp add: all_returned_def service_start_def a_def)
  have "\<not> sv_parent ?s3" "sv_returns ?s3 = [Some EEBPFUnsupported, None]" by (simp_all add: service_start_def)
  moreover from this have "command_result (\<lambda>_. False) first_error ?s3 = Some EEBPFUnsupported"
    using one_part_takes_all_down [OF HOL.refl HOL.refl life, of "\<lambda>_. False"] all by auto
  ultimately show ?thesis using life all by (intro exI [of _ a] exI [of _ ?s3]) simp
qed

theorem stopped_daemon_ends_witness:
  "\<exists>s t. service_step memory_put on_error s t \<and> \<not> all_returned t \<and> (\<exists>u. service_step memory_put on_error t u)"
proof -
  obtain a where "run_daemon default_daemon_config demo_host = Inr a" using demo_app by blast
  let ?s = "(service_start a)\<lparr>sv_run := (sv_run (service_start a))\<lparr>rs_phase := RunLoop, rs_done := True, rs_sampler := Some None\<rparr>\<rparr>"
  let ?r = "run_return None (sv_run ?s)"
  let ?t = "group_return on_error None (?s\<lparr>sv_run := ?r\<rparr>)"
  have h: "rs_done (sv_run ?s)" "rs_sampler (sv_run ?s) = Some None" "rs_phase (sv_run ?s) \<noteq> RunStart" by simp_all
  have "loop_step memory_put (sv_run ?s) ?r" by (rule sampler_stopped) simp_all
  then have one: "service_step memory_put on_error ?s ?t"
    using run_returns [of memory_put ?s ?r on_error] by (simp add: run_return_def)
  then have "(service_step memory_put on_error ^^ 1) ?s ?t" by (simp add: OO_def)
  note ends = stopped_daemon_ends [OF h this]
  have "\<not> all_returned ?t" by (simp add: all_returned_def service_start_def)
  then show ?thesis using ends one by (intro exI [of _ ?s] exI [of _ ?t]) simp
qed

end
