(* ===== verification/Cli.thy ===== *)
theory Cli
  imports Service Wire
begin

section \<open>The command line\<close>


record watch_config =
  wc_daemon_addr :: string
  wc_interval :: duration

definition default_watch_config :: watch_config where
  "default_watch_config = \<lparr>wc_daemon_addr = ''http://127.0.0.1:9090'', wc_interval = 2 * second\<rparr>"

subsection \<open>Writing\<close>



subsection \<open>The commands\<close>







subsection \<open>The program\<close>





subsection \<open>What there is to print\<close>



subsection \<open>Properties\<close>











end
