(* ===== verification/Spec2Isabelle.thy ===== *)
theory Spec2Isabelle
  imports CgroupPath ProcFS CgroupParse CgroupFS Resolver BoundedHistory SamplerRing Trend Sampler Poller
    Ebpf Probe OomReport ReportStore PodCache Daemon Api RenderText RenderRows RenderLines VersionInfo Tui Commands
    Detectors TrendFinite Reports Wire Machine Pipeline Service Cli
begin

text \<open>
  Verification of oom-oracle, a node agent that explains Kubernetes OOM kills. The agent samples
  the memory of every cgroup, detects kernel OOM kills by polling counters or by tracing, builds
  a post-mortem of each kill and serves it to \<open>inspect\<close> and to a terminal dashboard.

  \<^bold>\<open>Parts and how they meet\<close>

  A kill event comes from the polling detector (\<open>Poller\<close>) or from the probe inside the kernel
  (\<open>Probe\<close>), whose records the eBPF detector reads (\<open>Ebpf\<close>). The
  daemon (\<open>Daemon\<close>) places it through the resolver (\<open>Resolver\<close>, on the cgroup path parser
  \<open>CgroupPath\<close> and the pod cache \<open>PodCache\<close>), adds the sampler's history and its trend (\<open>Sampler\<close>,
  \<open>SamplerRing\<close>, \<open>Trend\<close>), reads the cgroup and its processes once more (\<open>CgroupFS\<close>, \<open>ProcFS\<close>), and
  puts the report (\<open>OomReport\<close>) into the store (\<open>ReportStore\<close>). The API (\<open>Api\<close>) serves the store;
  \<open>inspect\<close>, \<open>watch\<close> and the wiring of the daemon are in \<open>Commands\<close>, the dashboard in \<open>Tui\<close>, the
  text of a report in \<open>RenderText\<close>. \<open>Service\<close> runs the daemon's parts side by side, \<open>Cli\<close> is the
  process around a command. This theory composes them.

  \<^bold>\<open>Theories and the code they model\<close> (paths below \<open>src/internal/\<close>)

    \<^item> \<open>Prelude\<close>: Go's integers as words, times and durations as integers of nanoseconds, errors,
      result and map operations; the collections \<open>go_defs\<close>, \<open>go_map\<close> and \<open>go_eval\<close>.
    \<^item> \<open>GoStrings\<close>, \<open>GoStrconv\<close>, \<open>GoPath\<close>, \<open>GoUtf8\<close>, \<open>GoTime\<close>, \<open>GoFormat\<close>, \<open>GoFloat\<close>, \<open>FileSystem\<close>: what
      the program uses of the standard library. Strings are byte strings; floats are exact
      binary64 numbers (a dyadic rational, an infinity or NaN) with rounding to nearest even.
    \<^item> \<open>GoJson\<close>, \<open>JsonInert\<close>, \<open>FloatText\<close>, \<open>TimeText\<close>: JSON as the standard library writes and reads it. The text
      of any value, plain or indented, parses back to the value with its strings made UTF-8, and
      holds no byte that could open markup; the shortest digits of a float parse to the float;
      RFC 3339 times parse to the instant.
    \<^item> \<open>CgroupParse\<close>: \<open>cgroup/parse.go\<close>. \<open>CgroupFS\<close>: \<open>cgroup/cgroup.go\<close>, \<open>pressure.go\<close>. A file system is
      a finite tree. Where the code reads twice and a change in between matters to what it promises
      (the group-kill flag, the passes of the poller and the sampler, a report) there is one tree
      per read; the several files of one memory reading are taken from one.
    \<^item> \<open>ProcFS\<close>: \<open>procfs/parse.go\<close>, \<open>procfs.go\<close>. \<open>CgroupPath\<close>: \<open>correlate/cgrouppath.go\<close>. \<open>Resolver\<close>:
      \<open>correlate/resolver.go\<close>, with the locale \<open>pod_directory\<close> for the lookup interface.
    \<^item> \<open>BoundedHistory\<close>: the locales \<open>keyed_history\<close> and \<open>bounded_history\<close>, the contract of what keeps
      the last so many things; \<open>SamplerRing\<close> (\<open>sampler/ring.go\<close>) and \<open>ReportStore\<close>
      (\<open>store/store.go\<close>) interpret them.
    \<^item> \<open>Trend\<close>: \<open>sampler/trend.go\<close>. \<open>Sampler\<close>: \<open>sampler/sampler.go\<close>.
    \<^item> \<open>Poller\<close>: \<open>detector/detector.go\<close>, \<open>poller.go\<close>. \<open>Ebpf\<close>: \<open>detector/ebpf.go\<close>, \<open>ebpf_supported.go\<close>,
      \<open>ebpf_unsupported.go\<close>, \<open>fake.go\<close>. \<open>PodCache\<close>: \<open>k8s/podcache.go\<close> and \<open>config.go\<close>.
    \<^item> \<open>Probe\<close>: the BPF program \<open>detector/bpf/oomtracer.bpf.c\<close> with \<open>oom_types.h\<close>, on the kernel's
      memory as one store per structure, and the event structure bpf2go generates from it.
    \<^item> \<open>Detectors\<close>: how both detectors run, with their channels, goroutines and \<open>Close\<close>, as step
      relations, and the kernel objects of \<open>detector/bpf/tracer_linux.go\<close>; the locale \<open>event_source\<close>
      is the \<open>Detector\<close> interface as its reader relies on it, and both detectors interpret it.
    \<^item> \<open>OomReport\<close>: \<open>oom/report.go\<close>. \<open>Daemon\<close>: \<open>daemon/daemon.go\<close>; \<open>Run\<close> is the step relation
      \<open>loop_step\<close>, its surroundings \<open>env_step\<close>.
    \<^item> \<open>Api\<close>: \<open>api/api.go\<close>, \<open>render/json.go\<close>. \<open>RenderText\<close>: \<open>render/text.go\<close>; \<open>RenderRows\<close> and
      \<open>RenderLines\<close> hold its properties. \<open>VersionInfo\<close>: \<open>version/version.go\<close>, \<open>cmd/version.go\<close>.
    \<^item> \<open>TrendFinite\<close>, \<open>Reports\<close>, \<open>Machine\<close>, \<open>Pipeline\<close>: no code of their own; the figures of a trend are
      numbers, so the daemon's reports can be written as JSON, every figure of a report fits its
      type, so they come back from it, and the parts are composed for this theory.
    \<^item> \<open>Wire\<close>: the bytes of a listing and of a status, from the tags on the fields of \<open>oom/report.go\<close>,
      \<open>correlate\<close>, \<open>detector\<close>, \<open>sampler/trend.go\<close> and \<open>api/api.go\<close>, and the decoders of \<open>cmd/inspect.go\<close> and
      \<open>tui/client.go\<close> that read them.
    \<^item> \<open>Tui\<close>: \<open>tui/tui.go\<close>, \<open>styles.go\<close>. \<open>Commands\<close>: \<open>cmd/daemon.go\<close>, \<open>logging.go\<close>, \<open>inspect.go\<close>, \<open>watch.go\<close> and
      \<open>tui/client.go\<close>.
    \<^item> \<open>Service\<close>: the error group of \<open>runDaemon\<close> in \<open>cmd/daemon.go\<close>, with \<open>ListenAndServe\<close> of
      \<open>api/api.go\<close> and \<open>Run\<close> of \<open>k8s/podcache.go\<close>, as the step relation \<open>service_step\<close> with its
      surroundings \<open>service_env\<close>; the group's promise to cancel is the parameter \<open>cancels\<close>.
    \<^item> \<open>Cli\<close>: \<open>runInspect\<close> of \<open>cmd/inspect.go\<close> and \<open>writeVersion\<close> of \<open>version.go\<close> with the bytes they write, as text
      and as JSON, on a stream that may fail in the middle of a write; \<open>cmd/root.go\<close> and
      \<open>src/cmd/oom-oracle/main.go\<close>.

  \<^bold>\<open>What is shown\<close>

    \<^item> End to end: every event is counted once and reaches the store, and the store reaches whoever
      inspects it, newest first and down to the bytes of the JSON in between
      (\<open>every_event_accounted_for\<close>, \<open>kills_reach_the_operator\<close>); each rise
      of a polled counter is shown exactly once (\<open>rises_reach_the_operator\<close>), and a kill in a pod
      that is gone is shown under the pod's names (\<open>deleted_pod_still_named\<close>).
    \<^item> On the wire: the bytes the daemon writes decode, in \<open>inspect\<close> and the dashboard, to the reports
      and the status it had, up to bytes of strings that are no UTF-8, and they exist exactly when
      the model says the encoder succeeds (\<open>reports_cross_the_wire\<close>); so a body is modelled as the
      value encoded in the other theories.
    \<^item> Detection: a counter's rise is reported exactly once over any passes, the inferred victim is
      the heaviest vanished process; the traced record decodes byte for byte, and what the kernel
      knew of the victim it chose is what the daemon reports, under the cgroup discovery found
      (\<open>probe_reports_every_victim\<close>, \<open>traced_kill_lands_on_its_cgroup\<close>).
    \<^item> Life of a detector: what it finds is what its reader receives, in order; the tracer survives
      every interleaving of cancellations and closes, ends, and leaks no kernel object. The poller
      panics when it is closed from outside while publishing (a flaw, \<open>shutdown_can_panic\<close>).
    \<^item> Correlation and reading: both kubelet drivers' paths, the kernel's status, pressure and memory
      files are read back as written; discovery finds exactly the cgroups there are.
    \<^item> Memory of the past: rings and store refine bounded lists, a vanished cgroup's history and a
      deleted pod live for their retention and no shorter; a projection never overflows and a
      trend is never infinite or undefined.
    \<^item> The run: while the detector's channel is open, a daemon whose probe says it is ready handles
      every kill it is sent (\<open>ready_daemon_sees_kills\<close>); one part that fails takes all others down,
      and all end after a cancellation, whatever \<open>select\<close> picks and however they interleave. Once the
      detector has closed its channel the daemon stays ready all the same and handles nothing (a
      flaw, \<open>closed_detector_stays_ready\<close>),
      and a victim that was inferred always raises a false alarm (\<open>polled_victims_raise_alarm\<close>).
    \<^item> The report: the victim leaves the listing of its container and no other process does
      (\<open>victim_leaves_the_listing\<close>), unless its two PIDs point at different processes, when the one
      listed first is dropped (a divergence from the comments, \<open>earlier_nspid_match_wins\<close>).
    \<^item> Presentation: every answer of the API is known with its body, the redirects of the multiplexer
      included (\<open>api_answers_from_the_store\<close>); the renderer never panics on finite figures, neither by an
      index nor by a bound or a count; a hostile command cannot break a line, charts keep the
      first, last and busiest reading, rows fit their column, the selection follows the report;
      \<open>inspect\<close> prints all of its text or JSON, or a beginning of it, and its exit status says which.

  \<^bold>\<open>Bounds and fuel\<close>

  Counters of the daemon are 64-bit words; its theorems assume fewer than \<open>2 ^ 64\<close> events. The
  scale of a size label counts its rounds down from 4: a 64-bit size is divided by 1024 at most
  five times in all. A trend is a number for up to \<open>2 ^ 51\<close> readings. Recursion is otherwise
  structural or on a measure, and nothing else is
  cut short. Where Go would panic (an index or a bound out of range, a negative repeat, a division
  by zero) the result is \<open>None\<close> in the renderer and for what the sampler records, and theorems show it is not
  reached; the index of the store is in range by the invariant \<open>store_ok\<close>. The multiplexer redirects
  with 307, as from Go 1.26 on (301 before).

  \<^bold>\<open>What is not modelled\<close>

    \<^item> The kernel's helpers and the ring buffer (the clock's reading and whether there was room are
      fields of \<open>firing\<close>), the verifier, and the generated loaders: whether a step of loading
      succeeds is a field of \<open>tracer_loading\<close>.
    \<^item> The informer of client-go, its store and its transport: its calls of the handlers are
      operations of \<open>PodCache\<close>; the credentials it loads are the fields of \<open>kube_source\<close>.
    \<^item> Scheduling inside an operation: the mutexes of the code make each one atomic.
    \<^item> The HTTP transport and its timeouts: \<open>network\<close> maps an address to the server's answer. Of JSON:
      reusing the elements of a slice when a key is repeated, the two letters beyond ASCII that fold
      to s and k, values of the program's string types that it does not name, and zones that are
      no whole minutes.
    \<^item> Cobra's flag parsing, whose result is an \<open>invocation\<close>; the text of log lines; what the terminal
      libraries make of styles, frames and the scrolling viewport, the parameters in \<open>widgets\<close>.
\<close>

section \<open>From the kernel to the operator\<close>

text \<open>C2: No kill is lost between the kernel and the operator. Take a daemon as it is built from its
  flags and any events it is then told of, read at times and with pressure figures that can be
  written down. Whoever inspects it through its API without a filter is shown one report for each
  of the newest kills the daemon could place, newest first and as many as it retains, each with
  the time, the pod, the victim, the detection method and the kill counter of its event. This holds
  down to the bytes: the JSON of these reports can be written, and in whatever zone it is, and
  whichever slices are nil, a client decodes it to just what it is said to be shown.\<close>

theorem kills_reach_the_operator:
  assumes "run_daemon cfg h = Inr a" "length evs < 2 ^ 64" "list_all event_readable evs" "list_all event_measured evs"
    and "memory_api (dm_store (handle_all evs (ap_daemon a))) rdy status = Inr s"
  shows "\<exists>reports. fetch_reports (local_network s [''v1'', ''events'']) (everything addr) [] = Inr (map json_report reports) \<and>
    map report_facts reports = rev (keep_last (retained cfg) (map event_facts (filter (placed (ap_daemon a)) evs))) \<and>
    (\<forall>nils. length nils = length reports \<longrightarrow> is_ok (render_list_text utc (zip nils reports)) \<and>
      (\<forall>z t. plain_zone z \<and> render_list_text z (zip nils reports) = Inr t \<longrightarrow>
        read_reports t = fetch_reports (local_network s [''v1'', ''events'']) (everything addr) []))"
proof -
  obtain reports where r: "fetch_reports (local_network s [''v1'', ''events'']) (everything addr) [] = Inr (map json_report reports)"
    "map report_facts reports = rev (keep_last (retained cfg) (map event_facts (filter (placed (ap_daemon a)) evs)))"
    "crosses_the_wire reports"
    using kills_shown [OF assms(1-3,5)] assms(4) by blast
  then show ?thesis unfolding crosses_the_wire_def by (intro exI [of _ reports] conjI) simp_all
qed

text \<open>C3: Every rise of a kill counter is shown exactly once. A daemon that polls is started on a node
  where a cgroup's counter stands at some value; its loop, its reader and its clock interleave as
  they like, and the cgroup is found and read by every pass. Once the channel is drained and the
  daemon has handled what came out of it, whoever inspects it sees among its reports, newest
  first, exactly one for each value the counter has risen to since, as long as the store has room.\<close>

theorem rises_reach_the_operator:
  assumes "run_daemon cfg h = Inr a" "ap_detector a = PollingDetector q"
    and "poller_start v (poller_idle q) = Inr s" "poller_life\<^sup>*\<^sup>* s t"
    and "\<not> pn_cancelled t" "ch_buffer (pn_events t) = []" "poll_pending (pn_at t) = []"
    and "list_all2 (watched (dc_cgroup_prefix cfg) p) ((v, t0) # pn_ticks t) (n # cs)" "sorted (n # cs)"
    and "dc_include_all cfg \<or> parse_cgroup_path p \<noteq> None"
    and "map snd evs = ch_received (pn_events t)" "list_all event_readable evs"
    and "length evs \<le> retained cfg" "length evs < 2 ^ 64"
    and "memory_api (dm_store (handle_all evs (ap_daemon a))) rdy status = Inr srv"
  shows "\<exists>reports. fetch_reports (local_network srv [''v1'', ''events'']) (everything addr) [] = Inr (map json_report reports) \<and>
    map rp_kill_count (filter (\<lambda>r. report_path r = p) reports) = rev (tl (remdups_adj (n # cs)))"
  using assms by (rule rises_shown)

text \<open>C16: A kill is named even when its pod is gone. Let the pod cache see a pod, and then its deletion,
  among any deliveries about other pods; the object that came with the deletion may hold
  anything. A kill in one of the pod's containers that is reported within the grace period is
  shown to whoever inspects the daemon, as its newest report, under the namespace, the name and
  the container name and image that the pod had while it lived.\<close>

theorem deleted_pod_still_named:
  assumes "new_pod_cache opts = Inr c" "rv_pods v = Some (cache_lookup now (fold cache_step
      (earlier @ PodSeen (PodObj pod) # before @ PodGone obj t later # after) c))"
    and "\<forall>e \<in> set before. event_uid e \<noteq> Some (kp_uid pod)" "event_uid (PodGone obj t later) = Some (kp_uid pod)"
    and "\<forall>e \<in> set after. event_uid e \<noteq> Some (kp_uid pod) \<and> event_time e \<le> t + pc_grace c"
    and "later \<le> t + pc_grace c" "now \<le> t + pc_grace c"
    and "parse_cgroup_path (ke_cgroup_path e) = Some sc" "sc_kind sc = ScopeContainer" "sc_pod_uid sc = kp_uid pod"
    and "names_container pod (sc_container_id sc) info"
    and "run_daemon cfg h = Inr a" "length (evs @ [(v, e)]) < 2 ^ 64" "list_all event_readable (evs @ [(v, e)])"
    and "memory_api (dm_store (handle_all (evs @ [(v, e)]) (ap_daemon a))) rdy status = Inr s"
  shows "\<exists>r rest. fetch_reports (local_network s [''v1'', ''events'']) (everything addr) [] = Inr (json_report r # map json_report rest) \<and>
    rp_time r = ke_time e \<and> rp_victim r = ke_victim e \<and>
    rp_identity r = \<lparr>id_scope = sc, id_namespace = kp_namespace pod, id_pod_name = kp_name pod,
      id_container_name = ci_name info, id_image = ci_image info, id_resolved = True\<rparr>"
proof -
  have "placed (ap_daemon a) (v, e)" using assms(8) by (simp add: placed_def)
  from newest_kill_shown [OF assms(12-15) this, of addr] obtain r rest
    where r: "fetch_reports (local_network s [''v1'', ''events'']) (everything addr) [] = Inr (json_report r # map json_report rest)"
      "report_facts r = event_facts (v, e)"
    by blast
  have "rp_time r = ke_time e \<and> rp_victim r = ke_victim e \<and> rp_identity r = event_identity v e"
    using r(2) by (simp add: report_facts_def report_core_def event_facts_def)
  then show ?thesis
    using r(1) unfolding removed_pod_identity [OF assms(1-11)] by (intro exI conjI) auto
qed

theorem kills_reach_the_operator_witness:
  "\<exists>a s reports. run_daemon demo_flags demo_host = Inr a \<and>
     memory_api (dm_store (handle_all [(demo_report_view, demo_event ''/kubepods/pod7/c1'' 4)] (ap_daemon a))) True api_status_zero = Inr s \<and>
     fetch_reports (local_network s [''v1'', ''events'']) (everything ''n:9090'') [] = Inr (map json_report reports) \<and>
     map rp_kill_count reports = [4]"
proof -
  let ?x = "(demo_report_view, demo_event ''/kubepods/pod7/c1'' 4)"
  obtain a where a: "run_daemon demo_flags demo_host = Inr a" using demo_polls by blast
  obtain s where s: "memory_api (dm_store (handle_all [?x] (ap_daemon a))) True api_status_zero = Inr s"
    by (simp add: memory_api_def new_api_def Let_def)
  have placed: "placed (ap_daemon a) ?x" by (simp add: placed_def demo_event_def demo_paths)
  have "json_time_ok 0" using civil_examples(1) by (simp add: json_time_ok_def)
  then have ok: "list_all event_readable [?x]" using demo_readable by (simp add: demo_event_def)
  have measured: "list_all event_measured [?x]" using demo_measured by simp
  obtain reports where rs: "fetch_reports (local_network s [''v1'', ''events'']) (everything ''n:9090'') [] = Inr (map json_report reports)"
    "map report_facts reports = rev (keep_last (retained demo_flags) (map event_facts (filter (placed (ap_daemon a)) [?x])))"
    using kills_reach_the_operator [OF a _ ok measured s, of "''n:9090''"] by auto
  have "retained demo_flags = 256" by (simp add: retained_def demo_flags_def default_daemon_config_def default_capacity_def)
  then have "map report_facts reports = [event_facts ?x]" using rs(2) placed by (simp add: keep_last_def)
  then have "map rp_kill_count reports = [4]"
    by (auto simp: report_facts_def report_core_def event_facts_def demo_event_def)
  then show ?thesis using a s rs(1) by - (intro exI conjI, assumption+)
qed

theorem rises_reach_the_operator_witness:
  "\<exists>a srv evs reports. run_daemon demo_flags demo_host = Inr a \<and>
     memory_api (dm_store (handle_all evs (ap_daemon a))) True api_status_zero = Inr srv \<and>
     fetch_reports (local_network srv [''v1'', ''events'']) (everything ''n:9090'') [] = Inr (map json_report reports) \<and>
     map rp_kill_count (filter (\<lambda>r. report_path r = ''/pod'') reports) = [5]"
proof -
  obtain a where a: "run_daemon demo_flags demo_host = Inr a" "ap_detector a = PollingDetector (flag_poller demo_flags)"
    using demo_polls by blast
  have plain: "pl_prefix (flag_poller demo_flags) = []" "map_wf (pl_counters (flag_poller demo_flags))"
    by (simp_all add: flag_poller_def demo_flags_def)
  obtain s t events where d: "demo_passes (flag_poller demo_flags) events s t" using demo_publishing [OF plain] by blast
  then have t: "poller_start (demo_view ''3'') (poller_idle (flag_poller demo_flags)) = Inr s" "poller_life\<^sup>*\<^sup>* s t"
    "\<not> pn_cancelled t" "pn_at t = PollPublish events" "pn_ticks t = [(demo_view ''5'', 10)]" "pn_events t = new_chan"
    by (simp_all add: demo_passes_def)
  have "\<exists>found p. discover demo_v2 [] = Inr found \<and> events = fst (detect_paths (demo_view ''5'') 10 found p)"
    using d unfolding demo_passes_def by (elim conjE)
  then obtain found p1 where found: "discover demo_v2 [] = Inr found" "events = fst (detect_paths (demo_view ''5'') 10 found p1)"
    by (elim exE conjE)
  have c: "\<not> ch_closed (pn_events t)" "ch_buffer (pn_events t) = []" "ch_received (pn_events t) = []"
    unfolding t(6) by (simp_all add: new_chan_def)
  obtain u where u: "poller_life\<^sup>*\<^sup>* t u" "pn_at u = PollPublish []" "ch_buffer (pn_events u) = []"
    "ch_received (pn_events u) = ch_received (pn_events t) @ events" "pn_cancelled u = pn_cancelled t" "pn_ticks u = pn_ticks t"
    using poller_drains [OF t(4) c(1,2)] by (elim exE conjE) (rule that; assumption)
  have life: "poller_life\<^sup>*\<^sup>* s u" using t(2) u(1) by (rule rtranclp_trans)
  let ?evs = "map (\<lambda>e. (demo_report_view, e)) events"
  obtain srv where srv: "memory_api (dm_store (handle_all ?evs (ap_daemon a))) True api_status_zero = Inr srv"
    by (simp add: memory_api_def new_api_def Let_def)
  have k: "kills_of (demo_view ''3'') ''/pod'' = Some 3" "kills_of (demo_view ''5'') ''/pod'' = Some 5"
    by (rule demo_kills; simp add: show_nat.simps digit_char_eval)+
  have "''/pod'' \<in> set found" using demo_found unfolding found(1) by (elim exE conjE) (simp only: sum.inject)
  then have w: "list_all2 (watched (dc_cgroup_prefix demo_flags) ''/pod'') ((demo_view ''3'', 0) # pn_ticks u) [3, 5]"
    using found(1) k u(6) t(5) by (simp add: watched_def demo_view_def demo_flags_def)
  have few: "length events \<le> 6"
    using detect_few [of "demo_view ''5''" 10 found p1] demo_found_few [OF found(1)] found(2) by simp
  have "retained demo_flags = 256" by (simp add: retained_def demo_flags_def default_daemon_config_def default_capacity_def)
  then have room: "length ?evs \<le> retained demo_flags" "length ?evs < 2 ^ 64" using few by simp_all
  have "json_time_ok 10" by code_simp
  moreover have "ke_time e = 10" if "e \<in> set events" for e using that unfolding found(2) by (rule detect_time)
  ultimately have "event_readable (demo_report_view, e)" if "e \<in> set events" for e
    using that demo_readable [of e] by simp
  then have ok: "list_all event_readable ?evs" by (simp add: list_all_iff)
  have order: "sorted [3 :: u64, 5]" by simp
  have all: "dc_include_all demo_flags \<or> parse_cgroup_path ''/pod'' \<noteq> None" by (simp add: demo_flags_def)
  have drained: "\<not> pn_cancelled u" "poll_pending (pn_at u) = []" "map snd ?evs = ch_received (pn_events u)"
    using u(2,4,5) c(3) t(3) by (simp_all add: comp_def)
  have "\<exists>reports. fetch_reports (local_network srv [''v1'', ''events'']) (everything ''n:9090'') [] = Inr (map json_report reports) \<and>
      map rp_kill_count (filter (\<lambda>r. report_path r = ''/pod'') reports) = rev (tl (remdups_adj [3, 5]))"
    by (rule rises_reach_the_operator [OF a t(1) life drained(1) u(3) drained(2) w order all drained(3) ok room srv])
  then obtain reports where "fetch_reports (local_network srv [''v1'', ''events'']) (everything ''n:9090'') [] = Inr (map json_report reports)"
    "map rp_kill_count (filter (\<lambda>r. report_path r = ''/pod'') reports) = [5]" by auto
  then show ?thesis using a(1) srv by - (intro exI conjI, assumption+)
qed

theorem deleted_pod_still_named_witness:
  "\<exists>c a s r rest. new_pod_cache \<lparr>ko_has_client = True, ko_node = ''n1'', ko_resync = 0, ko_grace = 0,
     ko_transform_err = None, ko_handler_err = None\<rparr> = Inr c \<and>
     run_daemon demo_flags demo_host = Inr a \<and> memory_api (dm_store (handle_all [(demo_report_view\<lparr>rv_pods := Some (cache_lookup 400 (fold cache_step
         [PodSeen (PodObj (demo_pod ''7'')), PodGone (PodObj ((demo_pod ''7'')\<lparr>kp_name := []\<rparr>)) 100 101] c))\<rparr>,
       demo_event ''/kubepods/pod7/c1'' 4)] (ap_daemon a))) True api_status_zero = Inr s \<and>
     fetch_reports (local_network s [''v1'', ''events'']) (everything ''n:9090'') [] = Inr (json_report r # map json_report rest) \<and>
     id_pod_name (rp_identity r) = ''cart-0'' \<and> id_container_name (rp_identity r) = ''app''"
proof -
  obtain a where a: "run_daemon demo_flags demo_host = Inr a" using demo_polls by blast
  obtain c where c: "new_pod_cache \<lparr>ko_has_client = True, ko_node = ''n1'', ko_resync = 0, ko_grace = 0,
     ko_transform_err = None, ko_handler_err = None\<rparr> = Inr c"
    by (simp add: new_pod_cache_def)
  then have grace: "pc_grace c = 300 * second" by (auto simp: new_pod_cache_def default_grace_def)
  let ?pod = "demo_pod ''7''" and ?gone = "PodObj ((demo_pod ''7'')\<lparr>kp_name := []\<rparr>)"
  let ?v = "demo_report_view\<lparr>rv_pods := Some (cache_lookup 400 (fold cache_step
      [PodSeen (PodObj ?pod), PodGone ?gone 100 101] c))\<rparr>"
  let ?e = "demo_event ''/kubepods/pod7/c1'' 4"
  obtain s where s: "memory_api (dm_store (handle_all [(?v, ?e)] (ap_daemon a))) True api_status_zero = Inr s"
    by (simp add: memory_api_def new_api_def Let_def)
  have uid: "kp_uid ?pod = ''7''" "event_uid (PodGone ?gone 100 101) = Some (kp_uid ?pod)"
    by (simp_all add: demo_pod_def removed_pod_def)
  have sc: "parse_cgroup_path (ke_cgroup_path ?e) = Some demo_scope" "sc_kind demo_scope = ScopeContainer"
    "sc_pod_uid demo_scope = kp_uid ?pod"
    using parse_demo_path by (simp_all add: demo_event_def demo_scope_def uid(1))
  have "strip_runtime_prefix ''containerd://c1'' = ''c1''" "strip_runtime_prefix ''containerd://c2'' = ''c2''"
    by (simp_all add: strip_runtime_prefix_def go_eval)
  then have named: "names_container ?pod (sc_container_id demo_scope) \<lparr>ci_name = ''app'', ci_image = ''cart:2''\<rparr>"
    by (simp add: names_container_def pod_statuses_def status_ids_def demo_pod_def demo_scope_def)
  have "json_time_ok 0" using civil_examples(1) by (simp add: json_time_ok_def)
  then have ok: "list_all event_readable [(?v, ?e)]"
    using demo_readable [of ?e] by (simp add: demo_event_def event_readable_def)
  have times: "(101 :: time) \<le> 100 + pc_grace c" "(400 :: time) \<le> 100 + pc_grace c" by (simp_all add: grace second_def)
  have pods: "rv_pods ?v = Some (cache_lookup 400 (fold cache_step ([] @ PodSeen (PodObj ?pod) # [] @ PodGone ?gone 100 101 # []) c))"
    by simp
  have "\<exists>r rest. fetch_reports (local_network s [''v1'', ''events'']) (everything ''n:9090'') [] = Inr (json_report r # map json_report rest) \<and>
      rp_time r = ke_time ?e \<and> rp_victim r = ke_victim ?e \<and>
      rp_identity r = \<lparr>id_scope = demo_scope, id_namespace = kp_namespace ?pod, id_pod_name = kp_name ?pod,
        id_container_name = ''app'', id_image = ''cart:2'', id_resolved = True\<rparr>"
    using deleted_pod_still_named [OF c pods _ uid(2) _ times sc named a, of "[]" True api_status_zero s "''n:9090''"] ok s by simp
  then obtain r rest where r: "fetch_reports (local_network s [''v1'', ''events'']) (everything ''n:9090'') [] = Inr (json_report r # map json_report rest)"
    "rp_identity r = \<lparr>id_scope = demo_scope, id_namespace = kp_namespace ?pod, id_pod_name = kp_name ?pod,
      id_container_name = ''app'', id_image = ''cart:2'', id_resolved = True\<rparr>"
    by (elim exE conjE) (rule that; assumption)
  have "id_pod_name (rp_identity r) = ''cart-0''" "id_container_name (rp_identity r) = ''app''"
    by (simp_all add: r(2)) (simp add: demo_pod_def)
  then show ?thesis using a c s r(1) by - (intro exI conjI, assumption+)
qed

end
